(* ===== verification/Prelude.thy ===== *)
theory Prelude
  imports Main "HOL-Library.Word" "HOL-Library.Monad_Syntax"
begin

text \<open>
  Shared vocabulary of the development: the machine integers of the kernel, Rust's checked
  arithmetic, and the generic lemmas on them.

  The kernel is built with the \<^verbatim>\<open>dev\<close> profile (\<^verbatim>\<open>kernel/Makefile\<close>), in which an overflowing
  \<^verbatim>\<open>+\<close>, \<^verbatim>\<open>-\<close> or \<^verbatim>\<open>*\<close>, an index out of range, a failed \<^verbatim>\<open>assert!\<close> and an \<^verbatim>\<open>unwrap\<close> of \<^verbatim>\<open>None\<close> all
  panic, and the panic handler halts the machine.  A Rust function that may panic is therefore a
  HOL function into \<open>'a rust\<close>, in which \<open>None\<close> is the panic and \<open>Some\<close> a normal return, and is
  written with the \<open>do\<close> syntax of the option monad.  A Rust \<^verbatim>\<open>Option\<close> that the function returns
  is a second option inside.  A \<^verbatim>\<open>usize\<close> that is used as an address or a count is a natural
  number below \<open>2 ^ 64\<close> with the overflow checks written out; registers and bit fields are words.
\<close>

unbundle bit_operations_syntax

named_theorems rust_simps \<open>unfolding rules for the checked operations\<close>

type_synonym 'a rust = "'a option"
type_synonym addr = nat
type_synonym u8 = "8 word"
type_synonym u16 = "16 word"
type_synonym u32 = "32 word"
type_synonym u64 = "64 word"
type_synonym u128 = "128 word"

section \<open>Checked operations on \<open>usize\<close>\<close>

definition usize_bound :: nat where
  "usize_bound = 2 ^ 64"

definition usize_add :: "nat \<Rightarrow> nat \<Rightarrow> nat rust" where
  "usize_add a b = (if a + b < usize_bound then Some (a + b) else None)"

definition usize_sub :: "nat \<Rightarrow> nat \<Rightarrow> nat rust" where
  "usize_sub a b = (if b \<le> a then Some (a - b) else None)"

definition usize_mul :: "nat \<Rightarrow> nat \<Rightarrow> nat rust" where
  "usize_mul a b = (if a * b < usize_bound then Some (a * b) else None)"

text \<open>\<^verbatim>\<open><<\<close> drops the bits that leave the word; it panics only when the amount is 64 or more.\<close>

definition usize_shl :: "nat \<Rightarrow> nat \<Rightarrow> nat rust" where
  "usize_shl a n = (if n < 64 then Some ((a * 2 ^ n) mod usize_bound) else None)"

definition usize_shr :: "nat \<Rightarrow> nat \<Rightarrow> nat rust" where
  "usize_shr a n = (if n < 64 then Some (a div 2 ^ n) else None)"

text \<open>
  \<^verbatim>\<open>VirtAddr::new\<close> of the \<^verbatim>\<open>x86_64\<close> crate panics on an address whose bits 47 to 63 are not all equal;
  \<^verbatim>\<open>PhysAddr::new\<close> on one of more than 52 bits.
\<close>

definition virt_addr_new :: "addr \<Rightarrow> addr rust" where
  "virt_addr_new a = (if a < 2 ^ 47 \<or> (2 ^ 64 - 2 ^ 47 \<le> a \<and> a < 2 ^ 64) then Some a else None)"

definition phys_addr_new :: "addr \<Rightarrow> addr rust" where
  "phys_addr_new a = (if a < 2 ^ 52 then Some a else None)"

text \<open>\<^verbatim>\<open>trailing_zeros\<close> of a 64-bit number.\<close>

fun trailing_zeros :: "nat \<Rightarrow> nat" where
  "trailing_zeros n = (if n = 0 then 64 else if odd n then 0 else Suc (trailing_zeros (n div 2)))"

declare trailing_zeros.simps [simp del]

text \<open>\<^verbatim>\<open>assert!\<close>, \<^verbatim>\<open>NonNull::new(p).unwrap()\<close> and indexing.\<close>

definition rust_assert :: "bool \<Rightarrow> unit rust" where
  "rust_assert b = (if b then Some () else None)"

definition non_null :: "addr \<Rightarrow> addr rust" where
  "non_null p = (if p = 0 then None else Some p)"

definition vec_get :: "'a list \<Rightarrow> nat \<Rightarrow> 'a rust" where
  "vec_get xs i = (if i < length xs then Some (xs ! i) else None)"

lemma usize_add_Some_iff [rust_simps]:
  "usize_add a b = Some c \<longleftrightarrow> a + b < usize_bound \<and> c = a + b"
  by (auto simp: usize_add_def)

lemma usize_sub_Some_iff [rust_simps]:
  "usize_sub a b = Some c \<longleftrightarrow> b \<le> a \<and> c = a - b"
  by (auto simp: usize_sub_def)

lemma usize_mul_Some_iff [rust_simps]:
  "usize_mul a b = Some c \<longleftrightarrow> a * b < usize_bound \<and> c = a * b"
  by (auto simp: usize_mul_def)

lemma rust_assert_Some_iff [rust_simps]: "rust_assert b = Some u \<longleftrightarrow> b"
  by (auto simp: rust_assert_def)

lemma non_null_Some_iff [rust_simps]: "non_null p = Some q \<longleftrightarrow> p \<noteq> 0 \<and> q = p"
  by (auto simp: non_null_def)

lemma vec_get_Some_iff [rust_simps]: "vec_get xs i = Some x \<longleftrightarrow> i < length xs \<and> x = xs ! i"
  by (auto simp: vec_get_def)

lemma case_sum_Some: "(case r of Inl e \<Rightarrow> f e | Inr x \<Rightarrow> g x) = Some y \<longleftrightarrow> (\<exists>e. r = Inl e \<and> f e = Some y) \<or> (\<exists>x. r = Inr x \<and> g x = Some y)"
  by (cases r) auto

lemma usize_add_ok [simp]: "a + b < usize_bound \<Longrightarrow> usize_add a b = Some (a + b)"
  by (simp add: usize_add_def)

lemma usize_sub_ok [simp]: "b \<le> a \<Longrightarrow> usize_sub a b = Some (a - b)"
  by (simp add: usize_sub_def)

lemma usize_mul_ok [simp]: "a * b < usize_bound \<Longrightarrow> usize_mul a b = Some (a * b)"
  by (simp add: usize_mul_def)

lemma rust_assert_True [simp]: "b \<Longrightarrow> rust_assert b = Some ()"
  by (simp add: rust_assert_def)

lemma non_null_ok [simp]: "p \<noteq> 0 \<Longrightarrow> non_null p = Some p"
  by (simp add: non_null_def)

lemma vec_get_ok [simp]: "i < length xs \<Longrightarrow> vec_get xs i = Some (xs ! i)"
  by (simp add: vec_get_def)

section \<open>Powers of two\<close>

text \<open>\<^verbatim>\<open>usize::next_power_of_two\<close>, before its overflow check, and \<^verbatim>\<open>usize::is_power_of_two\<close>.\<close>

fun next_pow2 :: "nat \<Rightarrow> nat" where
  "next_pow2 n = (if n \<le> 1 then 1 else 2 * next_pow2 ((n + 1) div 2))"

declare next_pow2.simps [simp del]

definition usize_next_power_of_two :: "nat \<Rightarrow> nat rust" where
  "usize_next_power_of_two n = (if next_pow2 n < usize_bound then Some (next_pow2 n) else None)"

definition is_power_of_two :: "nat \<Rightarrow> bool" where
  "is_power_of_two n \<longleftrightarrow> next_pow2 n = n"

lemma next_pow2_is_pow: "\<exists>k. next_pow2 n = 2 ^ k"
proof (induction n rule: next_pow2.induct)
  case (1 n)
  show ?case
  proof (cases "n \<le> 1")
    case True
    then have "next_pow2 n = 2 ^ 0" by (simp add: next_pow2.simps [of n])
    then show ?thesis by blast
  next
    case False
    with "1.IH" obtain k where "next_pow2 ((n + 1) div 2) = 2 ^ k" by auto
    with False have "next_pow2 n = 2 ^ Suc k" by (simp add: next_pow2.simps [of n])
    then show ?thesis by blast
  qed
qed

lemma next_pow2_ge: "n \<le> next_pow2 n"
proof (induction n rule: next_pow2.induct)
  case (1 n)
  show ?case
  proof (cases "n \<le> 1")
    case True
    then show ?thesis by (simp add: next_pow2.simps [of n])
  next
    case False
    with "1.IH" have "(n + 1) div 2 \<le> next_pow2 ((n + 1) div 2)" by simp
    then have "n \<le> 2 * next_pow2 ((n + 1) div 2)" by linarith
    with False show ?thesis by (simp add: next_pow2.simps [of n])
  qed
qed

lemma next_pow2_pos [simp]: "0 < next_pow2 n"
  using next_pow2_is_pow [of n] by auto

lemma next_pow2_power [simp]: "next_pow2 (2 ^ k) = 2 ^ k"
proof (induction k)
  case 0
  show ?case by (simp add: next_pow2.simps)
next
  case (Suc k)
  have "1 \<le> (2::nat) ^ k" by simp
  then have "\<not> (2::nat) ^ Suc k \<le> 1" unfolding power_Suc by linarith
  moreover have "((2::nat) ^ Suc k + 1) div 2 = 2 ^ k" by simp
  ultimately show ?case using Suc.IH by (subst next_pow2.simps) simp
qed

lemma next_pow2_mono: "m \<le> n \<Longrightarrow> next_pow2 m \<le> next_pow2 n"
proof (induction n arbitrary: m rule: next_pow2.induct)
  case (1 n)
  show ?case
  proof (cases "m \<le> 1")
    case True
    then show ?thesis
      using next_pow2_pos [of n] by (simp add: next_pow2.simps [of m] Suc_le_eq)
  next
    case False
    with "1.prems" have "\<not> n \<le> 1" and "(m + 1) div 2 \<le> (n + 1) div 2" by auto
    then have "next_pow2 ((m + 1) div 2) \<le> next_pow2 ((n + 1) div 2)" using "1.IH" by blast
    with False \<open>\<not> n \<le> 1\<close> show ?thesis by (simp add: next_pow2.simps [of m] next_pow2.simps [of n])
  qed
qed

lemma next_pow2_least: "n \<le> 2 ^ k \<Longrightarrow> next_pow2 n \<le> 2 ^ k"
  using next_pow2_mono [of n "2 ^ k"] by simp

lemma is_power_of_two_iff: "is_power_of_two n \<longleftrightarrow> (\<exists>k. n = 2 ^ k)"
  using next_pow2_is_pow [of n] by (auto simp: is_power_of_two_def)

lemma trailing_zeros_power [simp]: "trailing_zeros (2 ^ k) = k"
  by (induction k) (simp_all add: trailing_zeros.simps)

section \<open>Toggling one bit of an address\<close>

text \<open>
  The buddy of a block is found by toggling the bit of the block's size in its address or offset.
\<close>

lemma xor_pow2_clear:
  assumes "even ((p::nat) div 2 ^ k)"
  shows "p XOR 2 ^ k = p + 2 ^ k"
proof -
  have "p XOR 2 ^ k = flip_bit k p"
    by (simp add: flip_bit_eq_xor push_bit_eq_mult)
  also have "\<dots> = set_bit k p"
    using assms by (simp add: flip_bit_eq_if bit_iff_odd)
  also have "\<dots> = p + 2 ^ k"
    using assms by (simp add: set_bit_eq bit_iff_odd)
  finally show ?thesis .
qed

lemma xor_pow2_nat: "(p::nat) XOR 2 ^ k = (if odd (p div 2 ^ k) then p - 2 ^ k else p + 2 ^ k)"
proof (cases "odd (p div 2 ^ k)")
  case True
  then have ge: "2 ^ k \<le> p" by (metis div_less even_zero not_le)
  then have "p div 2 ^ k = Suc ((p - 2 ^ k) div 2 ^ k)" by (simp add: le_div_geq)
  with True have "even ((p - 2 ^ k) div 2 ^ k)" by simp
  then have "(p - 2 ^ k) XOR 2 ^ k = p" using ge by (simp add: xor_pow2_clear)
  then have "p XOR 2 ^ k = ((p - 2 ^ k) XOR 2 ^ k) XOR 2 ^ k" by simp
  also have "\<dots> = p - 2 ^ k" by (simp add: xor.assoc)
  finally show ?thesis using True by simp
qed (simp add: xor_pow2_clear)

end
