(* ===== verification/FreeList.thy ===== *)
theory FreeList
  imports Prelude
begin

text \<open>
  \<^verbatim>\<open>kernel/src/memory/freelist.rs\<close>, the singly linked \<^verbatim>\<open>FreeList\<close> whose nodes live inside the free
  blocks themselves.  The memory is a function from addresses to the \<^verbatim>\<open>next\<close> field stored there
  (\<^verbatim>\<open>Option<NonNull<Node>>\<close>, whose \<^verbatim>\<open>None\<close> is the all-zero word).  The loops of \<^verbatim>\<open>exists\<close> and
  \<^verbatim>\<open>remove\<close> follow the pointers and need not end on a cyclic list, so they are partial functions;
  the lemmas show that they do return on every well-formed list, and what they return.
\<close>

section \<open>The code\<close>

text \<open>A node is its \<^verbatim>\<open>next\<close> field; the memory maps the address of a node to it.\<close>

type_synonym node = "addr option"
type_synonym mem = "addr \<Rightarrow> node"

record free_list =
  fl_head :: "addr option"
  fl_len :: nat

definition fl_new :: free_list where
  "fl_new = \<lparr>fl_head = None, fl_len = 0\<rparr>"

definition fl_push :: "free_list \<Rightarrow> addr \<Rightarrow> mem \<Rightarrow> (free_list \<times> mem) rust" where
  "fl_push fl ptr m = do {
     let m = m(ptr := fl_head fl);
     len \<leftarrow> usize_add (fl_len fl) 1;
     Some (fl\<lparr>fl_head := Some ptr, fl_len := len\<rparr>, m)
   }"

definition fl_pop :: "free_list \<Rightarrow> mem \<Rightarrow> (addr option \<times> free_list) rust" where
  "fl_pop fl m = (case fl_head fl of
     Some node \<Rightarrow> do {
       len \<leftarrow> usize_sub (fl_len fl) 1;
       Some (Some node, fl\<lparr>fl_head := m node, fl_len := len\<rparr>)
     }
   | None \<Rightarrow> Some (None, fl))"

partial_function (option) fl_exists_loop :: "mem \<Rightarrow> addr option \<Rightarrow> addr \<Rightarrow> bool option" where
  "fl_exists_loop m current ptr = (case current of
     Some node \<Rightarrow> if node = ptr then Some True else fl_exists_loop m (m node) ptr
   | None \<Rightarrow> Some False)"

definition fl_exists :: "free_list \<Rightarrow> addr \<Rightarrow> mem \<Rightarrow> bool rust" where
  "fl_exists fl ptr m = fl_exists_loop m (fl_head fl) ptr"

partial_function (option) fl_remove_loop ::
  "free_list \<Rightarrow> mem \<Rightarrow> addr option \<Rightarrow> addr option \<Rightarrow> addr \<Rightarrow> (free_list \<times> mem) option" where
  "fl_remove_loop fl m current prev ptr = (case current of
     Some node \<Rightarrow>
       if node = ptr then
         (case prev of
            Some q \<Rightarrow> do {
              len \<leftarrow> usize_sub (fl_len fl) 1;
              Some (fl\<lparr>fl_len := len\<rparr>, m(q := m node))
            }
          | None \<Rightarrow> do {
              len \<leftarrow> usize_sub (fl_len fl) 1;
              Some (fl\<lparr>fl_head := m node, fl_len := len\<rparr>, m)
            })
       else fl_remove_loop fl m (m node) current ptr
   | None \<Rightarrow> Some (fl, m))"

definition fl_remove :: "free_list \<Rightarrow> addr \<Rightarrow> mem \<Rightarrow> (free_list \<times> mem) rust" where
  "fl_remove fl ptr m = fl_remove_loop fl m (fl_head fl) None ptr"

definition fl_is_empty :: "free_list \<Rightarrow> bool" where
  "fl_is_empty fl \<longleftrightarrow> fl_len fl = 0"

section \<open>Linked lists in memory\<close>

text \<open>
  \<open>linked m h xs\<close>: following \<^verbatim>\<open>next\<close> from \<open>h\<close> visits exactly \<open>xs\<close> and ends in \<^verbatim>\<open>None\<close>.
  \<open>fl_items\<close> reads a list off the memory (it walks \<^verbatim>\<open>len\<close> nodes), and \<open>fl_ok\<close> is the
  representation invariant: the nodes are linked and \<^verbatim>\<open>len\<close> counts them.
\<close>

primrec linked :: "mem \<Rightarrow> addr option \<Rightarrow> addr list \<Rightarrow> bool" where
  "linked m h [] \<longleftrightarrow> h = None"
| "linked m h (a # as) \<longleftrightarrow> h = Some a \<and> linked m (m a) as"

fun walk :: "nat \<Rightarrow> mem \<Rightarrow> addr option \<Rightarrow> addr list" where
  "walk 0 m h = []"
| "walk (Suc n) m None = []"
| "walk (Suc n) m (Some a) = a # walk n m (m a)"

definition fl_items :: "free_list \<Rightarrow> mem \<Rightarrow> addr list" where
  "fl_items fl m = walk (fl_len fl) m (fl_head fl)"

definition fl_ok :: "free_list \<Rightarrow> mem \<Rightarrow> bool" where
  "fl_ok fl m \<longleftrightarrow> linked m (fl_head fl) (fl_items fl m) \<and> length (fl_items fl m) = fl_len fl"

lemma linked_None [simp]: "linked m None xs \<longleftrightarrow> xs = []"
  by (cases xs) auto

lemma linked_Some [simp]: "linked m (Some a) xs \<longleftrightarrow> (\<exists>ys. xs = a # ys \<and> linked m (m a) ys)"
  by (cases xs) auto

lemma linked_unique: "linked m h xs \<Longrightarrow> linked m h ys \<Longrightarrow> xs = ys"
  by (induction xs arbitrary: h ys) auto

lemma linked_cong: "linked m h xs \<Longrightarrow> (\<And>a. a \<in> set xs \<Longrightarrow> m' a = m a) \<Longrightarrow> linked m' h xs"
  by (induction xs arbitrary: h) auto

lemma linked_suffix: "linked m h (us @ a # vs) \<Longrightarrow> linked m (Some a) (a # vs)"
  by (induction us arbitrary: h) auto

lemma linked_distinct: "linked m h xs \<Longrightarrow> distinct xs"
proof (induction xs arbitrary: h)
  case (Cons a xs)
  have "a \<notin> set xs"
  proof
    assume "a \<in> set xs"
    then obtain us vs where xs: "xs = us @ a # vs" by (auto simp: in_set_conv_decomp)
    with Cons.prems have "linked m (Some a) (a # vs)"
      using linked_suffix [of m h "a # us" a vs] by simp
    with Cons.prems have "a # vs = a # xs" using linked_unique [of m h "a # vs" "a # xs"] by simp
    with xs show False by simp
  qed
  with Cons show ?case by auto
qed simp

lemma walk_linked: "linked m h xs \<Longrightarrow> walk (length xs) m h = xs"
  by (induction xs arbitrary: h) auto

lemma fl_ok_iff: "fl_ok fl m \<longleftrightarrow> (\<exists>xs. linked m (fl_head fl) xs \<and> length xs = fl_len fl)"
  using walk_linked by (fastforce simp: fl_ok_def fl_items_def)

lemma fl_itemsI:
  "linked m (fl_head fl) xs \<Longrightarrow> length xs = fl_len fl \<Longrightarrow> fl_items fl m = xs"
  using walk_linked [of m "fl_head fl" xs] by (simp add: fl_items_def)

lemma fl_ok_distinct: "fl_ok fl m \<Longrightarrow> distinct (fl_items fl m)"
  by (auto simp: fl_ok_def dest: linked_distinct)

lemma fl_ok_cong:
  assumes "fl_ok fl m" and "\<And>a. a \<in> set (fl_items fl m) \<Longrightarrow> m' a = m a"
  shows "fl_ok fl m'" and "fl_items fl m' = fl_items fl m"
proof -
  have *: "linked m' (fl_head fl) (fl_items fl m)"
    using assms linked_cong by (fastforce simp: fl_ok_def)
  then show "fl_items fl m' = fl_items fl m"
    using assms(1) by (intro fl_itemsI) (auto simp: fl_ok_def)
  with * show "fl_ok fl m'" using assms(1) by (simp add: fl_ok_def)
qed

section \<open>What the operations do\<close>

text \<open>One step of each loop, as rewrite rules that need the pointer to be known.\<close>

lemma fl_exists_loop_step [simp]:
  "fl_exists_loop m None ptr = Some False"
  "fl_exists_loop m (Some a) ptr = (if a = ptr then Some True else fl_exists_loop m (m a) ptr)"
  by (subst fl_exists_loop.simps, simp)+

lemma fl_remove_loop_step [simp]:
  "fl_remove_loop fl m None prev ptr = Some (fl, m)"
  "a \<noteq> ptr \<Longrightarrow> fl_remove_loop fl m (Some a) prev ptr = fl_remove_loop fl m (m a) (Some a) ptr"
  "1 \<le> fl_len fl \<Longrightarrow> fl_remove_loop fl m (Some ptr) (Some q) ptr =
     Some (fl\<lparr>fl_len := fl_len fl - 1\<rparr>, m(q := m ptr))"
  "1 \<le> fl_len fl \<Longrightarrow> fl_remove_loop fl m (Some ptr) None ptr =
     Some (fl\<lparr>fl_head := m ptr, fl_len := fl_len fl - 1\<rparr>, m)"
  by (subst fl_remove_loop.simps, simp)+

lemma fl_new_ok: "fl_ok fl_new m" and fl_new_items: "fl_items fl_new m = []"
  by (simp_all add: fl_ok_def fl_items_def fl_new_def)

lemma fl_push_ok:
  assumes "fl_ok fl m" and "ptr \<notin> set (fl_items fl m)" and "Suc (fl_len fl) < usize_bound"
  shows "\<exists>fl'. fl_push fl ptr m = Some (fl', m(ptr := fl_head fl)) \<and>
    fl_ok fl' (m(ptr := fl_head fl)) \<and> fl_items fl' (m(ptr := fl_head fl)) = ptr # fl_items fl m"
proof -
  let ?m = "m(ptr := fl_head fl)"
  let ?fl = "fl\<lparr>fl_head := Some ptr, fl_len := Suc (fl_len fl)\<rparr>"
  have "linked ?m (fl_head fl) (fl_items fl m)"
    by (rule linked_cong [of m]) (use assms in \<open>auto simp: fl_ok_def\<close>)
  then have l: "linked ?m (fl_head ?fl) (ptr # fl_items fl m)" by simp
  have n: "length (ptr # fl_items fl m) = fl_len ?fl" using assms(1) by (simp add: fl_ok_def)
  have "fl_ok ?fl ?m" using l n unfolding fl_ok_iff by blast
  moreover have "fl_items ?fl ?m = ptr # fl_items fl m" using l n by (rule fl_itemsI)
  moreover have "fl_push fl ptr m = Some (?fl, ?m)" using assms(3) by (simp add: fl_push_def)
  ultimately show ?thesis by blast
qed

lemma fl_pop_Nil:
  assumes "fl_ok fl m" and "fl_items fl m = []"
  shows "fl_pop fl m = Some (None, fl)"
  using assms by (auto simp: fl_ok_def fl_pop_def)

lemma fl_pop_Cons:
  assumes "fl_ok fl m" and "fl_items fl m = a # as"
  shows "\<exists>fl'. fl_pop fl m = Some (Some a, fl') \<and> fl_ok fl' m \<and> fl_items fl' m = as"
proof -
  let ?fl = "fl\<lparr>fl_head := m a, fl_len := fl_len fl - 1\<rparr>"
  have l: "linked m (fl_head ?fl) as" and n: "length as = fl_len ?fl"
    using assms by (auto simp: fl_ok_def)
  have "fl_ok ?fl m" using l n unfolding fl_ok_iff by blast
  moreover have "fl_items ?fl m = as" using l n by (rule fl_itemsI)
  moreover have "fl_head fl = Some a" and "1 \<le> fl_len fl" using assms by (auto simp: fl_ok_def)
  then have "fl_pop fl m = Some (Some a, ?fl)" by (simp add: fl_pop_def)
  ultimately show ?thesis by blast
qed

lemma fl_exists_loop_linked: "linked m h xs \<Longrightarrow> fl_exists_loop m h ptr = Some (ptr \<in> set xs)"
  by (induction xs arbitrary: h) auto

lemma fl_exists_ok: "fl_ok fl m \<Longrightarrow> fl_exists fl ptr m = Some (ptr \<in> set (fl_items fl m))"
  unfolding fl_exists_def fl_ok_def by (blast intro: fl_exists_loop_linked)

lemma fl_remove_loop_absent:
  "linked m h xs \<Longrightarrow> ptr \<notin> set xs \<Longrightarrow> fl_remove_loop fl m h prev ptr = Some (fl, m)"
  by (induction xs arbitrary: h prev) auto

lemma fl_remove_loop_present:
  assumes "linked m (m q) xs" and "ptr \<in> set xs" and "q \<notin> set xs" and "1 \<le> fl_len fl"
  shows "\<exists>m'. fl_remove_loop fl m (m q) (Some q) ptr = Some (fl\<lparr>fl_len := fl_len fl - 1\<rparr>, m') \<and>
    linked m' (m' q) (remove1 ptr xs) \<and> (\<forall>a. a \<notin> insert q (set xs) \<longrightarrow> m' a = m a)"
  using assms
proof (induction xs arbitrary: q)
  case (Cons a xs)
  from Cons.prems(1) have mq: "m q = Some a" and la: "linked m (m a) xs" by auto
  have da: "a \<notin> set xs" using linked_distinct [OF Cons.prems(1)] by simp
  show ?case
  proof (cases "a = ptr")
    case True
    define m' where "m' = m(q := m a)"
    have "linked m' (m' q) xs" using la Cons.prems(3) by (auto simp: m'_def intro: linked_cong [of m])
    moreover have "fl_remove_loop fl m (m q) (Some q) ptr = Some (fl\<lparr>fl_len := fl_len fl - 1\<rparr>, m')"
      using True mq Cons.prems(4) by (simp add: m'_def)
    moreover have "\<forall>b. b \<noteq> q \<longrightarrow> m' b = m b" by (simp add: m'_def)
    ultimately show ?thesis using True by simp
  next
    case False
    with Cons.prems(2) have "ptr \<in> set xs" by simp
    from Cons.IH [OF la this da Cons.prems(4)] obtain m' where
        r: "fl_remove_loop fl m (m a) (Some a) ptr = Some (fl\<lparr>fl_len := fl_len fl - 1\<rparr>, m')"
      and l': "linked m' (m' a) (remove1 ptr xs)"
      and fr: "\<forall>b. b \<notin> insert a (set xs) \<longrightarrow> m' b = m b"
      by blast
    have "m' q = Some a" using fr Cons.prems(3) mq by simp
    then have "linked m' (m' q) (remove1 ptr (a # xs))" using l' False by simp
    moreover have "fl_remove_loop fl m (m q) (Some q) ptr = Some (fl\<lparr>fl_len := fl_len fl - 1\<rparr>, m')"
      using r mq False by simp
    moreover have "\<forall>b. b \<notin> insert q (set (a # xs)) \<longrightarrow> m' b = m b" using fr by simp
    ultimately show ?thesis by blast
  qed
qed simp

lemma fl_remove_absent:
  "fl_ok fl m \<Longrightarrow> ptr \<notin> set (fl_items fl m) \<Longrightarrow> fl_remove fl ptr m = Some (fl, m)"
  unfolding fl_remove_def fl_ok_def by (blast intro: fl_remove_loop_absent)

lemma fl_remove_present:
  assumes ok: "fl_ok fl m" and mem: "ptr \<in> set (fl_items fl m)"
  shows "\<exists>fl' m'. fl_remove fl ptr m = Some (fl', m') \<and> fl_ok fl' m' \<and>
    fl_items fl' m' = remove1 ptr (fl_items fl m) \<and> (\<forall>a. a \<notin> set (fl_items fl m) \<longrightarrow> m' a = m a)"
proof -
  obtain a xs where items: "fl_items fl m = a # xs" using mem by (cases "fl_items fl m") auto
  have h: "fl_head fl = Some a" and l: "linked m (m a) xs" and n: "fl_len fl = Suc (length xs)"
    using ok items by (auto simp: fl_ok_def)
  have d: "a \<notin> set xs" using fl_ok_distinct [OF ok] items by simp
  show ?thesis
  proof (cases "a = ptr")
    case True
    let ?fl = "fl\<lparr>fl_head := m a, fl_len := fl_len fl - 1\<rparr>"
    have lk: "linked m (fl_head ?fl) xs" and ln: "length xs = fl_len ?fl" using l n by simp_all
    have "fl_ok ?fl m" using lk ln unfolding fl_ok_iff by blast
    moreover have "fl_items ?fl m = xs" using lk ln by (rule fl_itemsI)
    moreover have "fl_remove fl ptr m = Some (?fl, m)"
      using True h n by (simp add: fl_remove_def)
    moreover have "remove1 ptr (fl_items fl m) = xs" using items True by simp
    ultimately show ?thesis by metis
  next
    case False
    with mem items have p: "ptr \<in> set xs" by simp
    have "1 \<le> fl_len fl" using n by simp
    from fl_remove_loop_present [OF l p d this]
    obtain m' where r: "fl_remove_loop fl m (m a) (Some a) ptr = Some (fl\<lparr>fl_len := fl_len fl - 1\<rparr>, m')"
      and l': "linked m' (m' a) (remove1 ptr xs)"
      and fr: "\<forall>b. b \<notin> insert a (set xs) \<longrightarrow> m' b = m b"
      by blast
    let ?fl = "fl\<lparr>fl_len := fl_len fl - 1\<rparr>"
    have lk: "linked m' (fl_head ?fl) (a # remove1 ptr xs)" using h l' by simp
    have ln: "length (a # remove1 ptr xs) = fl_len ?fl"
      using n p length_pos_if_in_set [OF p] by (simp add: length_remove1)
    have "fl_ok ?fl m'" using lk ln unfolding fl_ok_iff by blast
    moreover have "fl_items ?fl m' = a # remove1 ptr xs" using lk ln by (rule fl_itemsI)
    moreover have "fl_remove fl ptr m = Some (?fl, m')"
      using False h r by (simp add: fl_remove_def)
    moreover have "\<forall>b. b \<notin> set (fl_items fl m) \<longrightarrow> m' b = m b" using fr items by simp
    moreover have "remove1 ptr (fl_items fl m) = a # remove1 ptr xs" using items False by simp
    ultimately show ?thesis by metis
  qed
qed

end
