(* ===== verification/Buddy_Spec.thy ===== *)
theory Buddy_Spec
  imports Prelude
begin

text \<open>
  What a buddy allocator promises, independently of how its free lists are stored.  The memory it
  manages is a region of \<open>g_size\<close> units at \<open>g_base\<close>; a block is a pair of a level and an address, of
  size \<open>g_size div 2 ^ level\<close>.  The safety contract \<open>buddy_inv\<close> says that the free and the allocated
  blocks tile the region; \<open>coalesced\<close> adds that blocks are naturally aligned and that no two buddies
  are both free.  The lemmas say how splitting, taking, freeing and merging blocks act on these
  contracts; \<open>Buddy_Interface\<close> applies them to the kernel's allocators.
\<close>

section \<open>Blocks of a region\<close>

record geom =
  g_levels :: nat
  g_size :: nat
  g_base :: addr

type_synonym block = "nat \<times> addr"

definition geom_ok :: "geom \<Rightarrow> bool" where
  "geom_ok g \<longleftrightarrow> 0 < g_levels g \<and> 0 < g_size g \<and> 2 ^ (g_levels g - 1) dvd g_size g"

definition bsize :: "geom \<Rightarrow> nat \<Rightarrow> nat" where
  "bsize g l = g_size g div 2 ^ l"

definition grain :: "geom \<Rightarrow> nat" where
  "grain g = bsize g (g_levels g - 1)"

definition extent :: "geom \<Rightarrow> block \<Rightarrow> addr set" where
  "extent g b = {snd b ..< snd b + bsize g (fst b)}"

definition region :: "geom \<Rightarrow> addr set" where
  "region g = {g_base g ..< g_base g + g_size g}"

definition in_region :: "geom \<Rightarrow> block \<Rightarrow> bool" where
  "in_region g b \<longleftrightarrow> fst b < g_levels g \<and> g_base g \<le> snd b \<and>
     snd b + bsize g (fst b) \<le> g_base g + g_size g \<and> grain g dvd snd b - g_base g"

definition aligned_block :: "geom \<Rightarrow> block \<Rightarrow> bool" where
  "aligned_block g b \<longleftrightarrow> in_region g b \<and> bsize g (fst b) dvd snd b - g_base g"

definition tiling :: "geom \<Rightarrow> block set \<Rightarrow> bool" where
  "tiling g B \<longleftrightarrow> (\<forall>b \<in> B. in_region g b) \<and>
     (\<forall>b \<in> B. \<forall>c \<in> B. b \<noteq> c \<longrightarrow> extent g b \<inter> extent g c = {}) \<and>
     (\<Union>b \<in> B. extent g b) = region g"

definition buddy_inv :: "geom \<Rightarrow> block set \<Rightarrow> block set \<Rightarrow> bool" where
  "buddy_inv g F A \<longleftrightarrow> F \<inter> A = {} \<and> tiling g (F \<union> A)"

definition buddy_of :: "geom \<Rightarrow> block \<Rightarrow> block" where
  "buddy_of g b = (fst b,
     if even ((snd b - g_base g) div bsize g (fst b)) then snd b + bsize g (fst b)
     else snd b - bsize g (fst b))"

definition coalesced :: "geom \<Rightarrow> block set \<Rightarrow> block set \<Rightarrow> bool" where
  "coalesced g F A \<longleftrightarrow> (\<forall>b \<in> F \<union> A. aligned_block g b) \<and>
     (\<forall>b \<in> F. fst b \<noteq> 0 \<longrightarrow> buddy_of g b \<notin> F)"

subsection \<open>Sizes\<close>

lemma bsize_0 [simp]: "bsize g 0 = g_size g"
  by (simp add: bsize_def)

lemma bsize_split: "geom_ok g \<Longrightarrow> j \<le> l \<Longrightarrow> l < g_levels g \<Longrightarrow> bsize g j = 2 ^ (l - j) * bsize g l"
proof -
  assume g: "geom_ok g" and jl: "j \<le> l" and l: "l < g_levels g"
  have "(2::nat) ^ l dvd 2 ^ (g_levels g - 1)" using l by (intro le_imp_power_dvd) simp
  then have "2 ^ l dvd g_size g" using g by (auto simp: geom_ok_def)
  then obtain k where k: "g_size g = 2 ^ l * k" by blast
  have "(2::nat) ^ l = 2 ^ j * 2 ^ (l - j)" using jl by (simp add: power_add [symmetric])
  then show ?thesis using k by (simp add: bsize_def mult.assoc)
qed

lemma bsize_half: "geom_ok g \<Longrightarrow> Suc l < g_levels g \<Longrightarrow> bsize g l = 2 * bsize g (Suc l)"
  using bsize_split [of g l "Suc l"] by simp

lemma bsize_pos: "geom_ok g \<Longrightarrow> l < g_levels g \<Longrightarrow> 0 < bsize g l"
  using bsize_split [of g 0 l] by (auto simp: geom_ok_def intro: Nat.gr0I)

lemma bsize_dvd: "geom_ok g \<Longrightarrow> j \<le> l \<Longrightarrow> l < g_levels g \<Longrightarrow> bsize g l dvd bsize g j"
  using bsize_split by (metis dvd_triv_right)

lemma grain_dvd: "geom_ok g \<Longrightarrow> l < g_levels g \<Longrightarrow> grain g dvd bsize g l"
  unfolding grain_def by (rule bsize_dvd) auto

lemma dvd_diff_add:
  fixes a b :: nat
  assumes "d dvd a - c" and "d dvd b" and "c \<le> a"
  shows "d dvd a + b - c"
proof -
  have "a + b - c = (a - c) + b" using assms(3) by simp
  then show ?thesis using assms(1,2) by simp
qed

subsection \<open>Extents\<close>

lemma extent_start: "geom_ok g \<Longrightarrow> in_region g b \<Longrightarrow> snd b \<in> extent g b"
  using bsize_pos [of g "fst b"] by (simp add: extent_def in_region_def)

lemma extent_region: "in_region g b \<Longrightarrow> extent g b \<subseteq> region g"
  by (auto simp: extent_def in_region_def region_def)

lemma whole_aligned: "geom_ok g \<Longrightarrow> aligned_block g (0, g_base g)"
  by (simp add: aligned_block_def in_region_def geom_ok_def)

lemma extent_whole [simp]: "extent g (0, g_base g) = region g"
  by (simp add: extent_def region_def)

text \<open>The two halves of a block.\<close>

lemma extent_halves:
  assumes "geom_ok g" and "Suc l < g_levels g"
  shows "extent g (l, p) = extent g (Suc l, p) \<union> extent g (Suc l, p + bsize g (Suc l))"
    and "extent g (Suc l, p) \<inter> extent g (Suc l, p + bsize g (Suc l)) = {}"
  using bsize_half [OF assms] by (auto simp: extent_def)

lemma in_region_halves:
  assumes "geom_ok g" and "Suc l < g_levels g" and "in_region g (l, p)"
  shows "in_region g (Suc l, p)" and "in_region g (Suc l, p + bsize g (Suc l))"
  using bsize_half [OF assms(1,2)] grain_dvd [OF assms(1,2)] assms(2,3)
  by (auto simp: in_region_def intro: dvd_diff_add)

lemma in_region_join:
  assumes "geom_ok g" and "Suc l < g_levels g"
    and "in_region g (Suc l, p)" and "in_region g (Suc l, p + bsize g (Suc l))"
  shows "in_region g (l, p)"
  using bsize_half [OF assms(1,2)] assms(2-4) by (auto simp: in_region_def)

text \<open>Aligned blocks of one region are nested or disjoint.\<close>

lemma aligned_nested:
  assumes g: "geom_ok g" and b: "aligned_block g (j, p)" and c: "aligned_block g (l, q)"
    and jl: "j \<le> l" and meet: "extent g (j, p) \<inter> extent g (l, q) \<noteq> {}"
  shows "extent g (l, q) \<subseteq> extent g (j, p)"
proof -
  let ?u = "bsize g l"
  have l: "l < g_levels g" using c by (simp add: aligned_block_def in_region_def)
  have sz: "bsize g j = 2 ^ (l - j) * ?u" by (rule bsize_split [OF g jl l])
  obtain a where a: "p - g_base g = a * (2 ^ (l - j) * ?u)" using b sz
    by (auto simp: aligned_block_def dvd_def mult.commute)
  obtain k where k: "q - g_base g = k * ?u" using c
    by (auto simp: aligned_block_def dvd_def mult.commute)
  have base: "g_base g \<le> p" "g_base g \<le> q"
    using b c by (simp_all add: aligned_block_def in_region_def)
  have p: "p = g_base g + (a * 2 ^ (l - j)) * ?u" using a base by (simp add: mult.assoc)
  have q: "q = g_base g + k * ?u" using k base by simp
  from meet have 1: "q < p + 2 ^ (l - j) * ?u" and 2: "p < q + ?u"
    by (auto simp: extent_def sz)
  have "k * ?u < (a * 2 ^ (l - j) + 2 ^ (l - j)) * ?u" using 1 unfolding p q by (simp add: algebra_simps)
  then have "Suc k \<le> a * 2 ^ (l - j) + 2 ^ (l - j)" by (simp only: mult_less_cancel2 Suc_le_eq)
  then have hi: "Suc k * ?u \<le> (a * 2 ^ (l - j) + 2 ^ (l - j)) * ?u" by (rule mult_le_mono1)
  have "(a * 2 ^ (l - j)) * ?u < Suc k * ?u" using 2 unfolding p q by simp
  then have "a * 2 ^ (l - j) \<le> k" by (simp only: mult_less_cancel2 less_Suc_eq_le)
  then have lo: "(a * 2 ^ (l - j)) * ?u \<le> k * ?u" by (rule mult_le_mono1)
  show ?thesis using hi lo unfolding extent_def fst_conv snd_conv sz p q
    by (auto simp: algebra_simps)
qed

subsection \<open>Buddies\<close>

lemma buddy_of_cases:
  assumes "geom_ok g" and "Suc l < g_levels g" and "aligned_block g (Suc l, p)"
  obtains (lower) "aligned_block g (l, p)" "buddy_of g (Suc l, p) = (Suc l, p + bsize g (Suc l))"
  | (upper) "aligned_block g (l, p - bsize g (Suc l))" "bsize g (Suc l) \<le> p"
      "buddy_of g (Suc l, p) = (Suc l, p - bsize g (Suc l))"
proof -
  let ?u = "bsize g (Suc l)"
  have u: "0 < ?u" using bsize_pos [OF assms(1,2)] .
  have sz: "bsize g l = 2 * ?u" by (rule bsize_half [OF assms(1,2)])
  have top: "g_size g = 2 ^ l * (2 * ?u)" using bsize_split [of g 0 l] assms(1,2) sz by simp
  obtain k where k: "p - g_base g = k * ?u" using assms(3)
    by (auto simp: aligned_block_def dvd_def mult.commute)
  have base: "g_base g \<le> p" and hi: "p + ?u \<le> g_base g + g_size g"
    using assms(3) by (simp_all add: aligned_block_def in_region_def)
  have p: "p = g_base g + k * ?u" using k base by simp
  have "Suc k * ?u \<le> (2 * 2 ^ l) * ?u" using hi unfolding p top by (simp add: mult.assoc mult.left_commute)
  then have kle: "Suc k \<le> 2 * 2 ^ l" using u by (simp only: mult_le_cancel2)
  have gr: "grain g dvd ?u" using grain_dvd [OF assms(1,2)] .
  show thesis
  proof (cases "even k")
    case True
    then obtain i where i: "k = 2 * i" by blast
    with kle have "Suc i \<le> 2 ^ l" by simp
    then have "Suc i * (2 * ?u) \<le> 2 ^ l * (2 * ?u)" by (rule mult_le_mono1)
    then have "in_region g (l, p)" using assms(2) gr k
      unfolding in_region_def fst_conv snd_conv sz top by (simp add: p i)
    moreover have "2 * ?u dvd p - g_base g" unfolding k i by simp
    ultimately have "aligned_block g (l, p)" by (simp add: aligned_block_def sz)
    then show thesis using True lower u k by (simp add: buddy_of_def)
  next
    case False
    then obtain i where i: "k = 2 * i + 1" by (blast elim: oddE)
    have pm: "p - ?u = g_base g + i * (2 * ?u)" unfolding p i by simp
    from kle i have "Suc i \<le> 2 ^ l" by simp
    then have "Suc i * (2 * ?u) \<le> 2 ^ l * (2 * ?u)" by (rule mult_le_mono1)
    moreover have "grain g dvd i * (2 * ?u)" using gr by simp
    ultimately have "in_region g (l, p - ?u)" using assms(2)
      unfolding in_region_def fst_conv snd_conv sz top pm by simp
    then have "aligned_block g (l, p - ?u)" unfolding aligned_block_def fst_conv snd_conv sz pm by simp
    moreover have "?u \<le> p" unfolding p i by simp
    ultimately show thesis using False upper u k by (simp add: buddy_of_def)
  qed
qed

lemma aligned_halves:
  assumes "geom_ok g" and "Suc l < g_levels g" and "aligned_block g (l, p)"
  shows "aligned_block g (Suc l, p)" and "aligned_block g (Suc l, p + bsize g (Suc l))"
    and "buddy_of g (Suc l, p) = (Suc l, p + bsize g (Suc l))"
    and "buddy_of g (Suc l, p + bsize g (Suc l)) = (Suc l, p)"
proof -
  let ?u = "bsize g (Suc l)"
  have u: "0 < ?u" using bsize_pos [OF assms(1,2)] .
  have base: "g_base g \<le> p" using assms(3) by (simp add: aligned_block_def in_region_def)
  obtain i where "p - g_base g = i * (2 * ?u)" using assms(3) bsize_half [OF assms(1,2)]
    by (auto simp: aligned_block_def dvd_def mult.commute)
  then have p: "p = g_base g + 2 * i * ?u" using base by simp
  have r: "in_region g (l, p)" using assms(3) by (simp add: aligned_block_def)
  show "aligned_block g (Suc l, p)" "aligned_block g (Suc l, p + ?u)"
    using in_region_halves [OF assms(1,2) r] unfolding aligned_block_def by (simp_all add: p)
  have "(p - g_base g) div ?u = 2 * i" using u by (simp add: p)
  then show "buddy_of g (Suc l, p) = (Suc l, p + ?u)" by (simp add: buddy_of_def)
  have "p + ?u - g_base g = Suc (2 * i) * ?u" by (simp add: p)
  then have "(p + ?u - g_base g) div ?u = Suc (2 * i)" using u by (simp only: nonzero_mult_div_cancel_right)
  then show "buddy_of g (Suc l, p + ?u) = (Suc l, p)" by (simp add: buddy_of_def)
qed

lemma buddy_of_buddy_of:
  assumes "geom_ok g" and "Suc l < g_levels g" and "aligned_block g (Suc l, p)"
  shows "buddy_of g (buddy_of g (Suc l, p)) = (Suc l, p)"
proof (cases rule: buddy_of_cases [OF assms, case_names lower upper])
  case lower
  then show ?thesis using aligned_halves [OF assms(1,2)] by simp
next
  case upper
  then show ?thesis using aligned_halves(3) [OF assms(1,2) upper(1)] by simp
qed

subsection \<open>Tilings\<close>

lemma tilingD:
  assumes "tiling g B"
  shows "b \<in> B \<Longrightarrow> in_region g b"
    and "b \<in> B \<Longrightarrow> c \<in> B \<Longrightarrow> x \<in> extent g b \<Longrightarrow> x \<in> extent g c \<Longrightarrow> b = c"
    and "x \<in> region g \<Longrightarrow> \<exists>b \<in> B. x \<in> extent g b"
proof -
  show "b \<in> B \<Longrightarrow> in_region g b" using assms by (simp add: tiling_def)
  show "b \<in> B \<Longrightarrow> c \<in> B \<Longrightarrow> x \<in> extent g b \<Longrightarrow> x \<in> extent g c \<Longrightarrow> b = c"
    using assms by (metis tiling_def disjoint_iff)
  show "x \<in> region g \<Longrightarrow> \<exists>b \<in> B. x \<in> extent g b"
    using assms by (metis tiling_def UN_E)
qed

lemma tiling_disjoint:
  "tiling g B \<Longrightarrow> b \<in> B \<Longrightarrow> c \<in> B \<Longrightarrow> b \<noteq> c \<Longrightarrow> extent g b \<inter> extent g c = {}"
  by (simp add: tiling_def)

text \<open>Blocks of a tiling may be replaced by others that cover the same addresses.\<close>

lemma tiling_replace:
  assumes t: "tiling g (B \<union> C)" and bc: "B \<inter> C = {}"
    and r: "\<And>d. d \<in> D \<Longrightarrow> in_region g d"
    and dj: "\<And>d e. d \<in> D \<Longrightarrow> e \<in> D \<Longrightarrow> d \<noteq> e \<Longrightarrow> extent g d \<inter> extent g e = {}"
    and cover: "(\<Union>d \<in> D. extent g d) = (\<Union>c \<in> C. extent g c)"
  shows "tiling g (B \<union> D)"
proof -
  have bd: "extent g b \<inter> extent g d = {}" if b: "b \<in> B" and d: "d \<in> D" for b d
  proof -
    have "extent g b \<inter> extent g c = {}" if "c \<in> C" for c
      using tiling_disjoint [OF t, of b c] b that bc by blast
    then show ?thesis using cover d by blast
  qed
  have "extent g b \<inter> extent g c = {}" if "b \<in> B \<union> D" "c \<in> B \<union> D" "b \<noteq> c" for b c
    using that bd [of b c] bd [of c b] dj [of b c] tiling_disjoint [OF t, of b c] by blast
  moreover have "(\<Union>b \<in> B \<union> D. extent g b) = region g"
    using t cover by (simp add: tiling_def UN_Un)
  moreover have "\<forall>b \<in> B \<union> D. in_region g b" using t r by (simp add: tiling_def ball_Un)
  ultimately show ?thesis by (simp add: tiling_def)
qed

lemma buddy_inv_disjoint:
  assumes "buddy_inv g F A" and "b \<in> F \<union> A" and "c \<in> F \<union> A" and "b \<noteq> c"
  shows "extent g b \<inter> extent g c = {}"
  using assms tiling_disjoint [of g "F \<union> A" b c] by (simp add: buddy_inv_def)

lemma buddy_inv_region: "buddy_inv g F A \<Longrightarrow> b \<in> F \<union> A \<Longrightarrow> in_region g b"
  using tilingD(1) [of g "F \<union> A" b] by (simp add: buddy_inv_def)

text \<open>An address inside an allocated block is not the start of a free one.\<close>

lemma buddy_inv_not_free:
  assumes g: "geom_ok g" and i: "buddy_inv g F A" and a: "a \<in> A" and p: "p \<in> extent g a"
  shows "(k, p) \<notin> F"
proof
  assume f: "(k, p) \<in> F"
  then have "p \<in> extent g (k, p)" using extent_start [OF g buddy_inv_region [OF i]] by fastforce
  then have "(k, p) = a" using i a p f tilingD(2) [of g "F \<union> A" "(k, p)" a p]
    by (simp add: buddy_inv_def)
  with f a i show False by (auto simp: buddy_inv_def)
qed

text \<open>Taking a free block, splitting an allocated one, and joining an allocated one with its neighbour.\<close>

lemma buddy_inv_take: "buddy_inv g F A \<Longrightarrow> b \<in> F \<Longrightarrow> buddy_inv g (F - {b}) (insert b A)"
proof -
  assume i: "buddy_inv g F A" and b: "b \<in> F"
  then have "(F - {b}) \<union> insert b A = F \<union> A" by blast
  with i show ?thesis by (auto simp: buddy_inv_def)
qed

lemma buddy_inv_give: "buddy_inv g F (insert b A) \<Longrightarrow> b \<notin> A \<Longrightarrow> buddy_inv g (insert b F) A"
  by (simp add: buddy_inv_def)

lemma buddy_inv_split:
  assumes g: "geom_ok g" and l: "Suc l < g_levels g"
    and i: "buddy_inv g F (insert (l, p) A)" and n: "(l, p) \<notin> A"
  shows "buddy_inv g (insert (Suc l, p + bsize g (Suc l)) F) (insert (Suc l, p) A)"
    and "(Suc l, p) \<notin> A" and "(Suc l, p) \<notin> F"
proof -
  let ?lo = "(Suc l, p)" and ?hi = "(Suc l, p + bsize g (Suc l))"
  have r: "in_region g (l, p)" using buddy_inv_region [OF i, of "(l, p)"] by simp
  have lo: "in_region g ?lo" and hi: "in_region g ?hi" using in_region_halves [OF g l r] by auto
  have ne: "?lo \<noteq> ?hi" using bsize_pos [OF g l] by simp
  have "tiling g ((F \<union> A) \<union> {?lo, ?hi})"
  proof (rule tiling_replace [of g "F \<union> A" "{(l, p)}"])
    show "tiling g (F \<union> A \<union> {(l, p)})" using i by (simp add: buddy_inv_def)
    show "(F \<union> A) \<inter> {(l, p)} = {}" using i n by (auto simp: buddy_inv_def)
    show "\<And>d. d \<in> {?lo, ?hi} \<Longrightarrow> in_region g d" using lo hi by blast
    show "\<And>d e. d \<in> {?lo, ?hi} \<Longrightarrow> e \<in> {?lo, ?hi} \<Longrightarrow> d \<noteq> e \<Longrightarrow> extent g d \<inter> extent g e = {}"
      using extent_halves(2) [OF g l, of p] by (metis Int_commute insertE singletonD)
    show "(\<Union>d \<in> {?lo, ?hi}. extent g d) = (\<Union>c \<in> {(l, p)}. extent g c)"
      by (simp add: extent_halves(1) [OF g l])
  qed
  then have t: "tiling g (insert ?hi F \<union> insert ?lo A)" by (simp add: Un_commute insert_commute)
  have inside: "b \<notin> F \<union> A" if "b \<in> {?lo, ?hi}" for b
  proof
    assume b: "b \<in> F \<union> A"
    have "snd b \<in> extent g b" using that lo hi extent_start [OF g] by auto
    moreover have "snd b \<in> extent g (l, p)"
      using that calculation extent_halves(1) [OF g l, of p] by auto
    ultimately have "b = (l, p)"
      using tilingD(2) [of g "F \<union> insert (l, p) A" b "(l, p)"] i b by (simp add: buddy_inv_def)
    with that show False by auto
  qed
  show "?lo \<notin> A" "?lo \<notin> F" using inside by auto
  have "insert ?hi F \<inter> insert ?lo A = {}" using inside ne i by (auto simp: buddy_inv_def)
  with t show "buddy_inv g (insert ?hi F) (insert ?lo A)" by (simp add: buddy_inv_def)
qed

lemma buddy_inv_join:
  assumes g: "geom_ok g" and l: "Suc l < g_levels g"
    and i: "buddy_inv g F (insert (Suc l, p) A)" and n: "(Suc l, p) \<notin> A"
    and b: "(Suc l, b) \<in> F" and adj: "b = p + bsize g (Suc l) \<or> p = b + bsize g (Suc l)"
  shows "buddy_inv g (F - {(Suc l, b)}) (insert (l, min p b) A)" and "(l, min p b) \<notin> A"
proof -
  let ?F = "F - {(Suc l, b)}" and ?q = "min p b"
  have u: "0 < bsize g (Suc l)" using bsize_pos [OF g l] .
  have q: "{(Suc l, p), (Suc l, b)} = {(Suc l, ?q), (Suc l, ?q + bsize g (Suc l))}"
    using adj u by auto
  have r: "in_region g (Suc l, p)" "in_region g (Suc l, b)" using buddy_inv_region [OF i] b by auto
  then have join: "in_region g (l, ?q)"
    using in_region_join [OF g l, of ?q] adj u by (auto simp: min_def split: if_splits)
  have ext: "extent g (l, ?q) = extent g (Suc l, p) \<union> extent g (Suc l, b)"
    using extent_halves(1) [OF g l, of ?q] arg_cong [OF q, of "\<lambda>B. \<Union> (extent g ` B)"] by simp
  have disj: "(?F \<union> A) \<inter> {(Suc l, p), (Suc l, b)} = {}" using i n b by (auto simp: buddy_inv_def)
  have old: "tiling g ((?F \<union> A) \<union> {(Suc l, p), (Suc l, b)})"
  proof -
    have "(?F \<union> A) \<union> {(Suc l, p), (Suc l, b)} = F \<union> insert (Suc l, p) A" using b by auto
    with i show ?thesis by (simp add: buddy_inv_def)
  qed
  have "tiling g ((?F \<union> A) \<union> {(l, ?q)})"
    by (rule tiling_replace [OF old disj]) (simp_all add: join ext)
  then have t: "tiling g (?F \<union> insert (l, ?q) A)" by simp
  have "(l, ?q) \<notin> F \<union> A"
  proof
    assume m: "(l, ?q) \<in> F \<union> A"
    have "p \<in> extent g (Suc l, p)" using extent_start [OF g r(1)] by simp
    moreover have "p \<in> extent g (l, ?q)" using calculation ext by blast
    ultimately show False
      using tilingD(2) [of g "F \<union> insert (Suc l, p) A" "(l, ?q)" "(Suc l, p)" p] i m
      by (auto simp: buddy_inv_def)
  qed
  then show "buddy_inv g ?F (insert (l, ?q) A)" "(l, ?q) \<notin> A"
    using t i by (auto simp: buddy_inv_def)
qed

subsection \<open>Coalescing\<close>

lemma coalesced_aligned: "coalesced g F A \<Longrightarrow> b \<in> F \<union> A \<Longrightarrow> aligned_block g b"
  by (simp add: coalesced_def)

lemma coalesced_take: "coalesced g F A \<Longrightarrow> b \<in> F \<Longrightarrow> coalesced g (F - {b}) (insert b A)"
  by (auto simp: coalesced_def)

lemma coalesced_give:
  assumes g: "geom_ok g" and c: "coalesced g F (insert (l, p) A)"
    and free: "l = 0 \<or> buddy_of g (l, p) \<notin> F"
  shows "coalesced g (insert (l, p) F) A"
proof -
  have al: "aligned_block g (l, p)" using coalesced_aligned [OF c, of "(l, p)"] by simp
  have "buddy_of g b \<notin> insert (l, p) F" if b: "b \<in> insert (l, p) F" and l0: "fst b \<noteq> 0" for b
  proof (cases "b = (l, p)")
    case True
    have "0 < bsize g l" using al bsize_pos [OF g] by (simp add: aligned_block_def in_region_def)
    moreover have "bsize g l \<le> p - g_base g" if "odd ((p - g_base g) div bsize g l)"
      using that by (metis div_less even_zero linorder_not_le)
    ultimately have "buddy_of g b \<noteq> b" by (auto simp: True buddy_of_def)
    then show ?thesis using True free l0 by simp
  next
    case False
    obtain k q where bk: "b = (Suc k, q)" using l0 by (metis not0_implies_Suc surjective_pairing)
    have "aligned_block g b" using b False coalesced_aligned [OF c, of b] by simp
    then have "buddy_of g (buddy_of g b) = b"
      using buddy_of_buddy_of [OF g, of k q] by (simp add: bk aligned_block_def in_region_def)
    moreover have "fst (buddy_of g b) = fst b" by (simp add: buddy_of_def)
    ultimately have "buddy_of g b \<noteq> (l, p)" using free b False l0 by auto
    then show ?thesis using c b False l0 by (auto simp: coalesced_def)
  qed
  then show ?thesis using c by (auto simp: coalesced_def)
qed

lemma coalesced_split:
  assumes g: "geom_ok g" and l: "Suc l < g_levels g"
    and i: "buddy_inv g F (insert (l, p) A)" and n: "(l, p) \<notin> A" and c: "coalesced g F (insert (l, p) A)"
  shows "coalesced g (insert (Suc l, p + bsize g (Suc l)) F) (insert (Suc l, p) A)"
proof (rule coalesced_give [OF g])
  have al: "aligned_block g (l, p)" using coalesced_aligned [OF c, of "(l, p)"] by simp
  show "coalesced g F (insert (Suc l, p + bsize g (Suc l)) (insert (Suc l, p) A))"
    using c aligned_halves(1,2) [OF g l al] by (simp add: coalesced_def)
  show "Suc l = 0 \<or> buddy_of g (Suc l, p + bsize g (Suc l)) \<notin> F"
    using aligned_halves(4) [OF g l al] buddy_inv_split(3) [OF g l i n] by simp
qed

lemma coalesced_join:
  assumes g: "geom_ok g" and l: "Suc l < g_levels g" and c: "coalesced g F (insert (Suc l, p) A)"
    and b: "buddy_of g (Suc l, p) = (Suc l, b)" and bF: "(Suc l, b) \<in> F"
  shows "coalesced g (F - {(Suc l, b)}) (insert (l, min p b) A)"
proof -
  have al: "aligned_block g (Suc l, p)" using coalesced_aligned [OF c, of "(Suc l, p)"] by simp
  have "aligned_block g (l, min p b)"
    by (cases rule: buddy_of_cases [OF g l al])
      (use b bsize_pos [OF g l] in \<open>auto simp: min_def\<close>)
  then show ?thesis using c by (auto simp: coalesced_def)
qed

text \<open>
  The payoff of coalescing: an aligned block that meets no allocated block lies inside one free
  block.
\<close>

lemma coalesced_cover:
  assumes g: "geom_ok g" and i: "buddy_inv g F A" and c: "coalesced g F A"
    and al: "aligned_block g (l, p)" and un: "\<And>a. a \<in> A \<Longrightarrow> extent g (l, p) \<inter> extent g a = {}"
  shows "\<exists>b \<in> F. fst b \<le> l \<and> extent g (l, p) \<subseteq> extent g b"
  using al un
proof (induction "g_levels g - Suc l" arbitrary: l p)
  case 0
  then have r: "in_region g (l, p)" and top: "l = g_levels g - 1" by (auto simp: aligned_block_def in_region_def)
  then have p: "p \<in> extent g (l, p)" using extent_start [OF g r] by simp
  then have "p \<in> region g" using extent_region [OF r] by blast
  with i obtain b where b: "b \<in> F \<union> A" "p \<in> extent g b"
    using tilingD(3) [of g "F \<union> A" p] unfolding buddy_inv_def by blast
  have "b \<in> F" using b p "0.prems"(2) by blast
  moreover have "fst b \<le> l" using buddy_inv_region [OF i b(1)] top by (auto simp: in_region_def)
  moreover have "extent g (l, p) \<subseteq> extent g b"
    using aligned_nested [OF g _ "0.prems"(1), of "fst b" "snd b"] coalesced_aligned [OF c b(1)] p b(2)
      calculation(2) by auto
  ultimately show ?case by blast
next
  case (Suc n)
  let ?u = "bsize g (Suc l)"
  have l: "Suc l < g_levels g" using Suc.hyps(2) by simp
  have n: "n = g_levels g - Suc (Suc l)" using Suc.hyps(2) by simp
  have ext: "extent g (l, p) = extent g (Suc l, p) \<union> extent g (Suc l, p + ?u)"
    by (rule extent_halves(1) [OF g l])
  note al = aligned_halves [OF g l Suc.prems(1)]
  obtain b where b: "b \<in> F" "fst b \<le> Suc l" "extent g (Suc l, p) \<subseteq> extent g b"
    using Suc.hyps(1) [OF n al(1)] Suc.prems(2) ext by blast
  obtain d where d: "d \<in> F" "fst d \<le> Suc l" "extent g (Suc l, p + ?u) \<subseteq> extent g d"
    using Suc.hyps(1) [OF n al(2)] Suc.prems(2) ext by blast
  have start: "p \<in> extent g (Suc l, p)" "p + ?u \<in> extent g (Suc l, p + ?u)"
    using bsize_pos [OF g l] by (simp_all add: extent_def)
  have big: ?case if e: "e \<in> F" "fst e \<le> l" "extent g e \<inter> extent g (l, p) \<noteq> {}" for e
  proof -
    have "aligned_block g (fst e, snd e)" using coalesced_aligned [OF c, of e] e(1) by simp
    from aligned_nested [OF g this Suc.prems(1) e(2)] e(1-3) show ?thesis by auto
  qed
  show ?case
  proof (cases "fst b \<le> l \<or> fst d \<le> l")
    case True
    then show ?thesis using big [of b] big [of d] b d start ext by blast
  next
    case False
    then have "fst b = Suc l" "fst d = Suc l" using b(2) d(2) by simp_all
    then have "b = (Suc l, p)" "d = (Suc l, p + ?u)"
      using b(3) d(3) bsize_pos [OF g l] by (cases b; cases d; auto simp: extent_def)+
    with b(1) d(1) al(3) c have False by (fastforce simp: coalesced_def)
    then show ?thesis ..
  qed
qed

text \<open>A fresh allocator, whose only block is the whole region.\<close>

lemma whole_free:
  assumes "geom_ok g"
  shows "buddy_inv g {(0, g_base g)} {}" and "coalesced g {(0, g_base g)} {}"
  using whole_aligned [OF assms]
  by (simp_all add: buddy_inv_def tiling_def coalesced_def aligned_block_def)

text \<open>In particular, once everything is freed the region is one free block again.\<close>

lemma coalesced_all_free:
  assumes g: "geom_ok g" and i: "buddy_inv g F {}" and c: "coalesced g F {}"
  shows "F = {(0, g_base g)}"
proof -
  obtain b where b: "b \<in> F" "fst b = 0" "region g \<subseteq> extent g b"
    using coalesced_cover [OF g i c whole_aligned [OF g]] by auto
  have r: "in_region g b" using buddy_inv_region [OF i] b(1) by simp
  then have b0: "b = (0, g_base g)" using b(2) by (cases b) (auto simp: in_region_def)
  have "d = b" if "d \<in> F" for d
    using buddy_inv_disjoint [OF i, of d b] that b extent_start [OF g buddy_inv_region [OF i, of d]]
      extent_region [OF buddy_inv_region [OF i, of d]] by auto
  with b(1) b0 show ?thesis by blast
qed

text \<open>The allocated blocks determine the free ones.\<close>

lemma coalesced_unique_subset:
  assumes g: "geom_ok g" and i: "buddy_inv g F A" and c: "coalesced g F A"
    and i': "buddy_inv g F' A" and c': "coalesced g F' A"
  shows "F \<subseteq> F'"
proof
  fix b assume b: "b \<in> F"
  have un: "extent g b \<inter> extent g a = {}" if "a \<in> A" for a
    using buddy_inv_disjoint [OF i, of b a] b that i by (auto simp: buddy_inv_def)
  obtain d where d: "d \<in> F'" "fst d \<le> fst b" "extent g b \<subseteq> extent g d"
    using coalesced_cover [OF g i' c', of "fst b" "snd b"] coalesced_aligned [OF c, of b] b un by auto
  have "extent g d \<inter> extent g a = {}" if "a \<in> A" for a
    using buddy_inv_disjoint [OF i', of d a] d(1) that i' by (auto simp: buddy_inv_def)
  then obtain e where e: "e \<in> F" "fst e \<le> fst d" "extent g d \<subseteq> extent g e"
    using coalesced_cover [OF g i c, of "fst d" "snd d"] coalesced_aligned [OF c', of d] d(1) by auto
  have rb: "in_region g b" and rd: "in_region g d"
    using buddy_inv_region [OF i] buddy_inv_region [OF i'] b d(1) by auto
  have "snd b \<in> extent g e" using extent_start [OF g rb] d(3) e(3) by blast
  then have "e = b" using buddy_inv_disjoint [OF i, of e b] b e(1) extent_start [OF g rb] by blast
  then have lev: "fst d = fst b" and "extent g d = extent g b" using d e by auto
  then have "snd d = snd b"
    using extent_start [OF g rd] extent_start [OF g rb] by (auto simp: extent_def)
  with lev d(1) show "b \<in> F'" by (metis prod.collapse)
qed

lemma coalesced_unique:
  assumes "geom_ok g" and "buddy_inv g F A" and "coalesced g F A"
    and "buddy_inv g F' A" and "coalesced g F' A"
  shows "F = F'"
  using coalesced_unique_subset assms by blast

text \<open>The addresses an allocator must leave alone: the allocated blocks and all outside of the region.\<close>

definition protected :: "geom \<Rightarrow> block set \<Rightarrow> addr set" where
  "protected g A = - region g \<union> (\<Union>a \<in> A. extent g a)"

definition keeps :: "geom \<Rightarrow> block set \<Rightarrow> (addr \<Rightarrow> 'w) \<Rightarrow> (addr \<Rightarrow> 'w) \<Rightarrow> bool" where
  "keeps g A f f' \<longleftrightarrow> (\<forall>x \<in> protected g A. f' x = f x)"

lemma keeps_trans: "keeps g A f f' \<Longrightarrow> keeps g A f' f'' \<Longrightarrow> keeps g A f f''"
  by (simp add: keeps_def)

lemma keeps_subset: "keeps g B f f' \<Longrightarrow> A \<subseteq> B \<Longrightarrow> keeps g A f f'"
  by (auto simp: keeps_def protected_def)

lemma protected_not_free:
  assumes "geom_ok g" and "buddy_inv g F A" and x: "x \<in> protected g A"
  shows "(k, x) \<notin> F"
proof (cases "x \<in> region g")
  case True
  then show ?thesis using x buddy_inv_not_free [OF assms(1,2)] by (auto simp: protected_def)
next
  case False
  then show ?thesis
    using buddy_inv_region [OF assms(2), of "(k, x)"] extent_start [OF assms(1), of "(k, x)"]
      extent_region [of g "(k, x)"] by auto
qed

text \<open>A memory that changes only at the starts of free blocks keeps the protected addresses.\<close>

lemma keepsI:
  assumes "geom_ok g" and "buddy_inv g F A" and "\<forall>x. (\<forall>k. (k, x) \<notin> F) \<longrightarrow> f' x = f x"
  shows "keeps g A f f'"
  using assms(3) protected_not_free [OF assms(1,2)] unfolding keeps_def by blast

end
