(* ===== verification/Buddy_Interface.thy ===== *)
theory Buddy_Interface
  imports Buddy_Spec
begin

text \<open>
  The interface between the kernel's buddy allocators and their free lists.  \<open>free_store\<close> is what an
  allocator relies on when it pops, pushes and deletes blocks of the array of free lists;
  \<open>buddy_allocator\<close> adds the recursion of \<^verbatim>\<open>get_free_block\<close>, \<^verbatim>\<open>split_level\<close> and \<^verbatim>\<open>merge_buddies\<close> over it
  and proves, once for all of them, that allocation and deallocation never panic and keep the
  tiling of the region.  \<open>shape\<close> is the structural invariant an allocator maintains on top of that.
\<close>

locale free_store =
  fixes geo :: "'s \<Rightarrow> geom"
    and inv :: "'s \<Rightarrow> bool"
    and free :: "'s \<Rightarrow> block set"
    and pop :: "'s \<Rightarrow> nat \<Rightarrow> (addr option \<times> 's) option"
    and push :: "'s \<Rightarrow> nat \<Rightarrow> addr \<Rightarrow> 's option"
    and del :: "'s \<Rightarrow> nat \<Rightarrow> addr \<Rightarrow> 's option"
    and peek :: "'s \<Rightarrow> addr \<Rightarrow> 'w"
  assumes inv_geom: "inv s \<Longrightarrow> geom_ok (geo s)"
    and pop_empty: "inv s \<Longrightarrow> l < g_levels (geo s) \<Longrightarrow> (\<And>p. (l, p) \<notin> free s) \<Longrightarrow>
      \<exists>s'. pop s l = Some (None, s') \<and> inv s' \<and> geo s' = geo s \<and> free s' = free s \<and> peek s' = peek s"
    and pop_block: "inv s \<Longrightarrow> l < g_levels (geo s) \<Longrightarrow> (l, q) \<in> free s \<Longrightarrow>
      \<exists>p s'. pop s l = Some (Some p, s') \<and> (l, p) \<in> free s \<and> inv s' \<and> geo s' = geo s \<and>
        free s' = free s - {(l, p)} \<and> (\<forall>x. (\<forall>k. (k, x) \<notin> free s) \<longrightarrow> peek s' x = peek s x)"
    and push_block: "inv s \<Longrightarrow> in_region (geo s) (l, p) \<Longrightarrow> (\<And>k. (k, p) \<notin> free s) \<Longrightarrow>
      \<exists>s'. push s l p = Some s' \<and> inv s' \<and> geo s' = geo s \<and> free s' = insert (l, p) (free s) \<and>
        (\<forall>x. x \<noteq> p \<and> (\<forall>k. (k, x) \<notin> free s) \<longrightarrow> peek s' x = peek s x)"
    and del_block: "inv s \<Longrightarrow> (l, p) \<in> free s \<Longrightarrow>
      \<exists>s'. del s l p = Some s' \<and> inv s' \<and> geo s' = geo s \<and> free s' = free s - {(l, p)} \<and>
        (\<forall>x. (\<forall>k. (k, x) \<notin> free s) \<longrightarrow> peek s' x = peek s x)"
begin

lemma pop_cases:
  assumes "inv s" and "l < g_levels (geo s)"
  obtains (block) p s' where "pop s l = Some (Some p, s')" "(l, p) \<in> free s" "inv s'"
      "geo s' = geo s" "free s' = free s - {(l, p)}" "\<forall>x. (\<forall>k. (k, x) \<notin> free s) \<longrightarrow> peek s' x = peek s x"
  | (empty) s' where "pop s l = Some (None, s')" "inv s'" "geo s' = geo s" "free s' = free s"
      "peek s' = peek s" "\<And>p. (l, p) \<notin> free s"
  using pop_empty [OF assms] pop_block [OF assms] by metis

end

locale buddy_allocator = free_store geo inv free pop push del peek
  for geo :: "'s \<Rightarrow> geom" and inv :: "'s \<Rightarrow> bool" and free :: "'s \<Rightarrow> block set"
    and pop :: "'s \<Rightarrow> nat \<Rightarrow> (addr option \<times> 's) option"
    and push :: "'s \<Rightarrow> nat \<Rightarrow> addr \<Rightarrow> 's option"
    and del :: "'s \<Rightarrow> nat \<Rightarrow> addr \<Rightarrow> 's option"
    and peek :: "'s \<Rightarrow> addr \<Rightarrow> 'w" +
  fixes shape :: "geom \<Rightarrow> block set \<Rightarrow> block set \<Rightarrow> bool"
    and half :: "'s \<Rightarrow> nat \<Rightarrow> addr \<Rightarrow> addr option"
    and bud :: "'s \<Rightarrow> nat \<Rightarrow> addr \<Rightarrow> addr option"
    and has :: "'s \<Rightarrow> nat \<Rightarrow> addr \<Rightarrow> bool option"
    and get :: "'s \<Rightarrow> nat \<Rightarrow> (addr option \<times> 's) option"
    and split :: "'s \<Rightarrow> nat \<Rightarrow> (addr option \<times> 's) option"
    and merge :: "'s \<Rightarrow> nat \<Rightarrow> addr \<Rightarrow> 's option"
  assumes get_eq: "get s l = Option.bind (pop s l)
      (\<lambda>(r, s'). case r of Some p \<Rightarrow> Some (Some p, s') | None \<Rightarrow> split s' l)"
    and split_eq: "split s l = (if l = 0 then Some (None, s) else Option.bind (get s (l - 1))
      (\<lambda>(r, s'). case r of None \<Rightarrow> Some (None, s')
        | Some p \<Rightarrow> Option.bind (half s' l p) (\<lambda>b. Option.bind (push s' l b) (\<lambda>s''. Some (Some p, s'')))))"
    and merge_eq: "merge s l p = (if l = 0 then push s l p else Option.bind (bud s l p)
      (\<lambda>b. Option.bind (has s l b) (\<lambda>e. if e
        then Option.bind (del s l b) (\<lambda>s'. merge s' (l - 1) (min p b)) else push s l p)))"
    and half_block: "inv s \<Longrightarrow> Suc l < g_levels (geo s) \<Longrightarrow>
      buddy_inv (geo s) (free s) (insert (l, p) A) \<Longrightarrow> shape (geo s) (free s) (insert (l, p) A) \<Longrightarrow>
      half s (Suc l) p = Some (p + bsize (geo s) (Suc l))"
    and bud_block: "inv s \<Longrightarrow> buddy_inv (geo s) (free s) (insert (Suc l, p) A) \<Longrightarrow>
      shape (geo s) (free s) (insert (Suc l, p) A) \<Longrightarrow>
      \<exists>b. bud s (Suc l) p = Some b \<and> (b = p + bsize (geo s) (Suc l) \<or> p = b + bsize (geo s) (Suc l))"
    and has_block: "inv s \<Longrightarrow> in_region (geo s) (Suc l, p) \<Longrightarrow> bud s (Suc l) p = Some b \<Longrightarrow>
      has s (Suc l) b = Some ((Suc l, b) \<in> free s)"
    and shape_take: "shape g F A \<Longrightarrow> c \<in> F \<Longrightarrow> shape g (F - {c}) (insert c A)"
    and shape_split: "geom_ok g \<Longrightarrow> Suc l < g_levels g \<Longrightarrow> buddy_inv g F (insert (l, p) A) \<Longrightarrow>
      (l, p) \<notin> A \<Longrightarrow> shape g F (insert (l, p) A) \<Longrightarrow>
      shape g (insert (Suc l, p + bsize g (Suc l)) F) (insert (Suc l, p) A)"
    and shape_join: "inv s \<Longrightarrow> buddy_inv (geo s) (free s) (insert (Suc l, p) A) \<Longrightarrow>
      shape (geo s) (free s) (insert (Suc l, p) A) \<Longrightarrow> bud s (Suc l) p = Some b \<Longrightarrow> (Suc l, b) \<in> free s \<Longrightarrow>
      shape (geo s) (free s - {(Suc l, b)}) (insert (l, min p b) A)"
    and shape_give_0: "geom_ok g \<Longrightarrow> shape g F (insert (0, p) A) \<Longrightarrow> shape g (insert (0, p) F) A"
    and shape_give: "inv s \<Longrightarrow> shape (geo s) (free s) (insert (Suc l, p) A) \<Longrightarrow>
      buddy_inv (geo s) (free s) (insert (Suc l, p) A) \<Longrightarrow>
      bud s (Suc l) p = Some b \<Longrightarrow> (Suc l, b) \<notin> free s \<Longrightarrow>
      shape (geo s) (insert (Suc l, p) (free s)) A"
begin

lemma take_safe:
  assumes i: "inv s" and p: "pop s l = Some (Some p, s')" "(l, p) \<in> free s" "geo s' = geo s"
      "free s' = free s - {(l, p)}" "\<forall>x. (\<forall>k. (k, x) \<notin> free s) \<longrightarrow> peek s' x = peek s x"
    and b: "buddy_inv (geo s) (free s) A" "shape (geo s) (free s) A"
  shows "get s l = Some (Some p, s')" "buddy_inv (geo s') (free s') (insert (l, p) A)"
    "shape (geo s') (free s') (insert (l, p) A)" "(l, p) \<notin> A" "keeps (geo s) A (peek s) (peek s')"
proof -
  show "get s l = Some (Some p, s')" using p(1) by (simp add: get_eq)
  show "buddy_inv (geo s') (free s') (insert (l, p) A)" using buddy_inv_take [OF b(1) p(2)] p by simp
  show "shape (geo s') (free s') (insert (l, p) A)" using shape_take [OF b(2) p(2)] p by simp
  show "(l, p) \<notin> A" using b(1) p(2) by (auto simp: buddy_inv_def)
  show "keeps (geo s) A (peek s) (peek s')" by (rule keepsI [OF inv_geom [OF i] b(1) p(5)])
qed

lemma split_safe:
  assumes i: "inv s" and l: "Suc l < g_levels (geo s)" and n: "(l, p) \<notin> A"
    and b: "buddy_inv (geo s) (free s) (insert (l, p) A)" and s: "shape (geo s) (free s) (insert (l, p) A)"
  shows "\<exists>s'. Option.bind (half s (Suc l) p) (\<lambda>b. Option.bind (push s (Suc l) b) (\<lambda>s''. Some (Some p, s''))) =
      Some (Some p, s') \<and> inv s' \<and> geo s' = geo s \<and> (Suc l, p) \<notin> A \<and>
      buddy_inv (geo s) (free s') (insert (Suc l, p) A) \<and> shape (geo s) (free s') (insert (Suc l, p) A) \<and>
      keeps (geo s) A (peek s) (peek s')"
proof -
  let ?b = "p + bsize (geo s) (Suc l)"
  note g = inv_geom [OF i]
  have e: "?b \<in> extent (geo s) (l, p)"
    using bsize_half [OF g l] bsize_pos [OF g l] by (simp add: extent_def)
  then have nf: "(k, ?b) \<notin> free s" for k by (rule buddy_inv_not_free [OF g b insertI1])
  have "in_region (geo s) (Suc l, ?b)"
    using in_region_halves(2) [OF g l] buddy_inv_region [OF b, of "(l, p)"] by simp
  from push_block [OF i this nf] obtain s' where s': "push s (Suc l) ?b = Some s'" "inv s'"
    "geo s' = geo s" "free s' = insert (Suc l, ?b) (free s)"
    "\<forall>x. x \<noteq> ?b \<and> (\<forall>k. (k, x) \<notin> free s) \<longrightarrow> peek s' x = peek s x" by blast
  have "keeps (geo s) A (peek s) (peek s')"
    unfolding keeps_def
  proof
    fix x assume x: "x \<in> protected (geo s) A"
    have "extent (geo s) (l, p) \<subseteq> region (geo s)"
      using extent_region buddy_inv_region [OF b, of "(l, p)"] by blast
    moreover have "extent (geo s) a \<inter> extent (geo s) (l, p) = {}" if "a \<in> A" for a
      using buddy_inv_disjoint [OF b, of a "(l, p)"] that n by auto
    ultimately have "x \<noteq> ?b" using x e unfolding protected_def by blast
    moreover have "(k, x) \<notin> free s" for k
      using x by (intro protected_not_free [OF g b]) (auto simp: protected_def)
    ultimately show "peek s' x = peek s x" using s'(5) by blast
  qed
  with s' half_block [OF i l b s] show ?thesis
    using buddy_inv_split [OF g l b n] shape_split [OF g l b n s] by simp
qed

text \<open>\<open>get\<close> finds a block of the requested level exactly when some free block is large enough.\<close>

lemma get_safe:
  assumes "inv s" and "l < g_levels (geo s)" and "buddy_inv (geo s) (free s) A" and "shape (geo s) (free s) A"
  shows "(\<exists>p s'. get s l = Some (Some p, s') \<and> inv s' \<and> geo s' = geo s \<and> (l, p) \<notin> A \<and>
      buddy_inv (geo s) (free s') (insert (l, p) A) \<and> shape (geo s) (free s') (insert (l, p) A) \<and>
      keeps (geo s) A (peek s) (peek s')) \<or>
    (\<exists>s'. get s l = Some (None, s') \<and> inv s' \<and> geo s' = geo s \<and> free s' = free s \<and>
      (\<forall>b \<in> free s. l < fst b) \<and> peek s' = peek s)"
  using assms
proof (induction l arbitrary: s)
  case 0
  show ?case
  proof (cases rule: pop_cases [OF "0.prems"(1,2), case_names block empty])
    case (block p s')
    then show ?thesis using take_safe [OF "0.prems"(1) block(1,2,4-6) "0.prems"(3,4)] by auto
  next
    case (empty s')
    then have "get s 0 = Some (None, s')" by (simp add: get_eq split_eq)
    moreover have "\<forall>b \<in> free s. 0 < fst b" using empty(6) by (metis gr0I surjective_pairing)
    ultimately show ?thesis using empty by auto
  qed
next
  case (Suc l)
  show ?case
  proof (cases rule: pop_cases [OF Suc.prems(1,2), case_names block empty])
    case (block p s')
    then show ?thesis using take_safe [OF Suc.prems(1) block(1,2,4-6) Suc.prems(3,4)] by auto
  next
    case (empty s1)
    have g1: "get s (Suc l) = split s1 (Suc l)" using empty(1) by (simp add: get_eq)
    have l1: "l < g_levels (geo s1)" using Suc.prems(2) empty(3) by simp
    note ih = Suc.IH [OF empty(2) l1, unfolded empty(3-5), OF Suc.prems(3,4)]
    then consider
        (some) p s' where "get s1 l = Some (Some p, s')" "inv s'" "geo s' = geo s" "(l, p) \<notin> A"
          "buddy_inv (geo s) (free s') (insert (l, p) A)" "shape (geo s) (free s') (insert (l, p) A)"
          "keeps (geo s) A (peek s) (peek s')"
      | (none) s' where "get s1 l = Some (None, s')" "inv s'" "geo s' = geo s" "free s' = free s"
          "\<forall>b \<in> free s. l < fst b" "peek s' = peek s"
      by blast
    then show ?thesis
    proof cases
      case some
      have "get s (Suc l) = Option.bind (half s' (Suc l) p)
          (\<lambda>b. Option.bind (push s' (Suc l) b) (\<lambda>s''. Some (Some p, s'')))"
        using some(1) by (simp add: g1 split_eq)
      moreover have "Suc l < g_levels (geo s')" using some(3) Suc.prems(2) by simp
      ultimately show ?thesis using split_safe [of s' l p A] some(2-7) keeps_trans
        by (metis (no_types, lifting))
    next
      case none
      have "\<forall>b \<in> free s. Suc l < fst b" using none(5) empty(6)
        by (metis Suc_lessI surjective_pairing)
      then show ?thesis using none g1 by (simp add: split_eq)
    qed
  qed
qed

lemma push_safe:
  assumes i: "inv s" and b: "buddy_inv (geo s) (free s) (insert (l, p) A)" and n: "(l, p) \<notin> A"
    and s: "shape (geo s) (insert (l, p) (free s)) A"
  shows "\<exists>s'. push s l p = Some s' \<and> inv s' \<and> geo s' = geo s \<and> buddy_inv (geo s) (free s') A \<and>
    shape (geo s) (free s') A \<and> keeps (geo s) A (peek s) (peek s')"
proof -
  note g = inv_geom [OF i]
  have r: "in_region (geo s) (l, p)" using buddy_inv_region [OF b, of "(l, p)"] by simp
  then have "p \<in> extent (geo s) (l, p)" using extent_start [OF g r] by simp
  then have "(k, p) \<notin> free s" for k by (rule buddy_inv_not_free [OF g b insertI1])
  from push_block [OF i r this] obtain s' where s': "push s l p = Some s'" "inv s'" "geo s' = geo s"
    "free s' = insert (l, p) (free s)"
    "\<forall>x. x \<noteq> p \<and> (\<forall>k. (k, x) \<notin> free s) \<longrightarrow> peek s' x = peek s x" by blast
  have i': "buddy_inv (geo s) (insert (l, p) (free s)) A" by (rule buddy_inv_give [OF b n])
  have "keeps (geo s) A (peek s) (peek s')" using s'(5) by (intro keepsI [OF g i']) blast
  then show ?thesis using s' i' s by simp
qed

text \<open>\<open>merge\<close> gives an allocated block back.\<close>

lemma merge_safe:
  assumes "inv s" and "buddy_inv (geo s) (free s) (insert (l, p) A)" and "(l, p) \<notin> A"
    and "shape (geo s) (free s) (insert (l, p) A)"
  shows "\<exists>s'. merge s l p = Some s' \<and> inv s' \<and> geo s' = geo s \<and> buddy_inv (geo s) (free s') A \<and>
    shape (geo s) (free s') A \<and> keeps (geo s) A (peek s) (peek s')"
  using assms
proof (induction l arbitrary: s p)
  case 0
  then show ?case using push_safe [of s 0 p A] shape_give_0 [OF inv_geom] by (simp add: merge_eq)
next
  case (Suc l)
  note g = inv_geom [OF Suc.prems(1)]
  have r: "in_region (geo s) (Suc l, p)" using buddy_inv_region [OF Suc.prems(2), of "(Suc l, p)"] by simp
  then have l: "Suc l < g_levels (geo s)" by (simp add: in_region_def)
  obtain b where b: "bud s (Suc l) p = Some b"
    and adj: "b = p + bsize (geo s) (Suc l) \<or> p = b + bsize (geo s) (Suc l)"
    using bud_block [OF Suc.prems(1,2,4)] by blast
  have h: "has s (Suc l) b = Some ((Suc l, b) \<in> free s)" by (rule has_block [OF Suc.prems(1) r b])
  show ?case
  proof (cases "(Suc l, b) \<in> free s")
    case True
    from del_block [OF Suc.prems(1) True] obtain s1 where s1: "del s (Suc l) b = Some s1" "inv s1"
      "geo s1 = geo s" "free s1 = free s - {(Suc l, b)}"
      "\<forall>x. (\<forall>k. (k, x) \<notin> free s) \<longrightarrow> peek s1 x = peek s x" by blast
    have "keeps (geo s) A (peek s) (peek s1)"
      using keepsI [OF g Suc.prems(2) s1(5)] by (rule keeps_subset) blast
    moreover have "merge s (Suc l) p = merge s1 l (min p b)"
      by (subst merge_eq) (simp add: b h True s1(1))
    moreover note Suc.IH [OF s1(2), unfolded s1(3,4), OF buddy_inv_join [OF g l Suc.prems(2,3) True adj]
        shape_join [OF Suc.prems(1,2,4) b True]]
    ultimately show ?thesis by (metis keeps_trans)
  next
    case False
    then have "merge s (Suc l) p = push s (Suc l) p" by (subst merge_eq) (simp add: b h)
    then show ?thesis
      using push_safe [OF Suc.prems(1-3) shape_give [OF Suc.prems(1,4,2) b False]] by simp
  qed
qed

end

end
