(* ===== verification/BuddyAlloc.thy ===== *)
theory BuddyAlloc
  imports FreeList Buddy_Interface
begin

text \<open>
  \<^verbatim>\<open>kernel/src/memory/alloc.rs\<close>, the kernel heap \<^verbatim>\<open>BuddyAlloc<L, S>\<close> and its \<^verbatim>\<open>GlobalAlloc\<close> interface.
  The state is the allocator together with the heap memory its free-list nodes live in.  The const
  generics \<^verbatim>\<open>L\<close> and \<^verbatim>\<open>S\<close> are fields of the record.  The allocator is shown to be an instance of
  \<open>buddy_allocator\<close> whose free lists are always coalesced.
\<close>

section \<open>The code\<close>

record buddy_alloc =
  ba_L :: nat
  ba_S :: nat
  ba_heap_start :: addr
  ba_heap_end :: addr
  ba_free_lists :: "free_list list"

type_synonym ba_state = "buddy_alloc \<times> mem"

definition HEAP_START :: addr where
  "HEAP_START = 0xFFFF880000000000"

definition HEAP_SIZE :: nat where
  "HEAP_SIZE = 16 * 1024 * 1024"

definition ba_max_size :: "buddy_alloc \<Rightarrow> nat rust" where
  "ba_max_size a = do { n \<leftarrow> usize_sub (ba_L a) 1; usize_shl (ba_S a) n }"

definition ba_block_size :: "buddy_alloc \<Rightarrow> nat \<Rightarrow> nat rust" where
  "ba_block_size a level = do { sz \<leftarrow> ba_max_size a; usize_shr sz level }"

text \<open>
  \<^verbatim>\<open>new\<close> enters the whole heap into list 0.  It does not write the node: the heap is not mapped yet.
\<close>

definition ba_new :: "nat \<Rightarrow> nat \<Rightarrow> addr \<Rightarrow> addr \<Rightarrow> buddy_alloc rust" where
  "ba_new L S heap_start heap_end = do {
     let free_lists = replicate L fl_new;
     l0 \<leftarrow> vec_get free_lists 0;
     start \<leftarrow> non_null heap_start;
     let free_lists = free_lists[0 := l0\<lparr>fl_head := Some start, fl_len := 1\<rparr>];
     Some \<lparr>ba_L = L, ba_S = S, ba_heap_start = heap_start, ba_heap_end = heap_end,
       ba_free_lists = free_lists\<rparr>
   }"

definition ALLOCATOR :: "buddy_alloc rust" where
  "ALLOCATOR = ba_new 21 16 HEAP_START (HEAP_START + HEAP_SIZE)"

function ba_level_loop :: "buddy_alloc \<Rightarrow> nat \<Rightarrow> nat \<Rightarrow> nat rust" where
  "ba_level_loop a sz level = do {
     bs \<leftarrow> ba_block_size a level;
     if bs \<ge> sz \<and> level < ba_L a then ba_level_loop a sz (level + 1) else Some level
   }"
  by pat_completeness auto
termination by (relation "measure (\<lambda>(a, _, level). ba_L a - level)") auto

definition ba_get_level_from_size :: "buddy_alloc \<Rightarrow> nat \<Rightarrow> nat option rust" where
  "ba_get_level_from_size a sz = do {
     max_size \<leftarrow> ba_max_size a;
     if sz > max_size then Some None
     else do {
       level \<leftarrow> ba_level_loop a sz 1;
       level \<leftarrow> usize_sub level 1;
       Some (Some level)
     }
   }"

text \<open>\<^verbatim>\<open>self.free_lists[level].pop()\<close>, \<^verbatim>\<open>.push(ptr)\<close>, \<^verbatim>\<open>.exists(ptr)\<close> and \<^verbatim>\<open>.remove(ptr)\<close>.\<close>

definition ba_list_pop :: "ba_state \<Rightarrow> nat \<Rightarrow> (addr option \<times> ba_state) rust" where
  "ba_list_pop s level = (case s of (a, m) \<Rightarrow> do {
     fl \<leftarrow> vec_get (ba_free_lists a) level;
     (r, fl) \<leftarrow> fl_pop fl m;
     Some (r, a\<lparr>ba_free_lists := (ba_free_lists a)[level := fl]\<rparr>, m)
   })"

definition ba_list_push :: "ba_state \<Rightarrow> nat \<Rightarrow> addr \<Rightarrow> ba_state rust" where
  "ba_list_push s level ptr = (case s of (a, m) \<Rightarrow> do {
     fl \<leftarrow> vec_get (ba_free_lists a) level;
     (fl, m) \<leftarrow> fl_push fl ptr m;
     Some (a\<lparr>ba_free_lists := (ba_free_lists a)[level := fl]\<rparr>, m)
   })"

definition ba_list_exists :: "ba_state \<Rightarrow> nat \<Rightarrow> addr \<Rightarrow> bool rust" where
  "ba_list_exists s level ptr = (case s of (a, m) \<Rightarrow> do {
     fl \<leftarrow> vec_get (ba_free_lists a) level;
     fl_exists fl ptr m
   })"

definition ba_list_remove :: "ba_state \<Rightarrow> nat \<Rightarrow> addr \<Rightarrow> ba_state rust" where
  "ba_list_remove s level ptr = (case s of (a, m) \<Rightarrow> do {
     fl \<leftarrow> vec_get (ba_free_lists a) level;
     (fl, m) \<leftarrow> fl_remove fl ptr m;
     Some (a\<lparr>ba_free_lists := (ba_free_lists a)[level := fl]\<rparr>, m)
   })"

definition ba_buddy :: "ba_state \<Rightarrow> nat \<Rightarrow> addr \<Rightarrow> addr rust" where
  "ba_buddy s level ptr = do {
     block_size \<leftarrow> ba_block_size (fst s) level;
     non_null (ptr XOR block_size)
   }"

function ba_get_free_block :: "ba_state \<Rightarrow> nat \<Rightarrow> (addr option \<times> ba_state) rust"
  and ba_split_level :: "ba_state \<Rightarrow> nat \<Rightarrow> (addr option \<times> ba_state) rust" where
  "ba_get_free_block s level = do {
     (r, s) \<leftarrow> ba_list_pop s level;
     case r of Some free_block \<Rightarrow> Some (Some free_block, s) | None \<Rightarrow> ba_split_level s level
   }"
| "ba_split_level s level = (if level = 0 then Some (None, s) else do {
     (r, s) \<leftarrow> ba_get_free_block s (level - 1);
     case r of
       Some block \<Rightarrow> do {
         buddy \<leftarrow> ba_buddy s level block;
         s \<leftarrow> ba_list_push s level buddy;
         Some (Some block, s)
       }
     | None \<Rightarrow> Some (None, s)
   })"
  by pat_completeness auto
termination
  by (relation "measure (\<lambda>x. case x of Inl (_, l) \<Rightarrow> 2 * l + 1 | Inr (_, l) \<Rightarrow> 2 * l)") auto

fun ba_merge_buddies :: "ba_state \<Rightarrow> nat \<Rightarrow> addr \<Rightarrow> ba_state rust" where
  "ba_merge_buddies s level ptr = (if level = 0 then ba_list_push s level ptr else do {
     buddy \<leftarrow> ba_buddy s level ptr;
     found \<leftarrow> ba_list_exists s level buddy;
     if found then do {
       s \<leftarrow> ba_list_remove s level buddy;
       ba_merge_buddies s (level - 1) (min ptr buddy)
     } else ba_list_push s level ptr
   })"

declare ba_level_loop.simps [simp del] ba_get_free_block.simps [simp del]
  ba_split_level.simps [simp del] ba_merge_buddies.simps [simp del]

text \<open>\<^verbatim>\<open>GlobalAlloc::alloc\<close> returns the null pointer 0 on failure.\<close>

definition ba_alloc :: "ba_state \<Rightarrow> nat \<Rightarrow> nat \<Rightarrow> (addr \<times> ba_state) rust" where
  "ba_alloc s layout_size layout_align = do {
     sz \<leftarrow> usize_next_power_of_two layout_size;
     let sz = max sz layout_align;
     level \<leftarrow> ba_get_level_from_size (fst s) sz;
     case level of
       None \<Rightarrow> Some (0, s)
     | Some level \<Rightarrow> do {
         (block, s) \<leftarrow> ba_get_free_block s level;
         case block of None \<Rightarrow> Some (0, s) | Some b \<Rightarrow> Some (b, s)
       }
   }"

definition ba_dealloc :: "ba_state \<Rightarrow> addr \<Rightarrow> nat \<Rightarrow> nat \<Rightarrow> ba_state rust" where
  "ba_dealloc s ptr layout_size layout_align = do {
     sz \<leftarrow> usize_next_power_of_two layout_size;
     let sz = max sz layout_align;
     level \<leftarrow> ba_get_level_from_size (fst s) sz;
     case level of
       None \<Rightarrow> Some s
     | Some level \<Rightarrow> do {
         ptr \<leftarrow> non_null ptr;
         ba_merge_buddies s level ptr
       }
   }"

section \<open>Representation\<close>

text \<open>
  The region an allocator manages, its free blocks, and its representation invariant: the geometry is
  one that \<^verbatim>\<open>block_size\<close> and the exclusive or compute with exactly, and the lists are well-formed, in
  disjoint nodes.
\<close>

definition ba_geo :: "ba_state \<Rightarrow> geom" where
  "ba_geo s = \<lparr>g_levels = ba_L (fst s), g_size = ba_S (fst s) * 2 ^ (ba_L (fst s) - 1),
     g_base = ba_heap_start (fst s)\<rparr>"

definition ba_nodes :: "ba_state \<Rightarrow> nat \<Rightarrow> addr list" where
  "ba_nodes s l = fl_items (ba_free_lists (fst s) ! l) (snd s)"

definition ba_free :: "ba_state \<Rightarrow> block set" where
  "ba_free s = (SIGMA l : {..< ba_L (fst s)}. set (ba_nodes s l))"

definition ba_params_ok :: "buddy_alloc \<Rightarrow> bool" where
  "ba_params_ok a \<longleftrightarrow> 0 < ba_L a \<and> ba_L a < 64 \<and> is_power_of_two (ba_S a) \<and>
     ba_S a * 2 ^ (ba_L a - 1) < usize_bound \<and> 0 < ba_heap_start a \<and>
     ba_S a * 2 ^ (ba_L a - 1) dvd ba_heap_start a \<and>
     ba_heap_start a + ba_S a * 2 ^ (ba_L a - 1) \<le> usize_bound \<and>
     length (ba_free_lists a) = ba_L a"

definition ba_inv :: "ba_state \<Rightarrow> bool" where
  "ba_inv s \<longleftrightarrow> ba_params_ok (fst s) \<and>
     (\<forall>l < ba_L (fst s). fl_ok (ba_free_lists (fst s) ! l) (snd s)) \<and>
     (\<forall>l < ba_L (fst s). \<forall>p \<in> set (ba_nodes s l). 0 < p \<and> p < usize_bound) \<and>
     (\<forall>l < ba_L (fst s). \<forall>k < ba_L (fst s). l \<noteq> k \<longrightarrow> set (ba_nodes s l) \<inter> set (ba_nodes s k) = {})"

lemma ba_geo_sel [simp]:
  "g_levels (ba_geo s) = ba_L (fst s)" "g_base (ba_geo s) = ba_heap_start (fst s)"
  "g_size (ba_geo s) = ba_S (fst s) * 2 ^ (ba_L (fst s) - 1)"
  by (simp_all add: ba_geo_def)

lemma mem_ba_free [simp]: "(l, p) \<in> ba_free s \<longleftrightarrow> l < ba_L (fst s) \<and> p \<in> set (ba_nodes s l)"
  by (simp add: ba_free_def)

lemma ba_params_geom: "ba_params_ok (fst s) \<Longrightarrow> geom_ok (ba_geo s)"
  by (auto simp: ba_params_ok_def geom_ok_def is_power_of_two_iff)

lemma ba_max_size_ok: "ba_params_ok (fst s) \<Longrightarrow> ba_max_size (fst s) = Some (g_size (ba_geo s))"
  by (auto simp: ba_params_ok_def ba_max_size_def usize_shl_def)

lemma ba_block_size_ok:
  "ba_params_ok (fst s) \<Longrightarrow> l \<le> ba_L (fst s) \<Longrightarrow> ba_block_size (fst s) l = Some (bsize (ba_geo s) l)"
  using ba_max_size_ok [of s] by (auto simp: ba_params_ok_def ba_block_size_def usize_shr_def bsize_def)

text \<open>Every block size is a power of two, and so is the alignment of the heap.\<close>

lemma ba_bsize_power:
  assumes "ba_params_ok (fst s)" and "l < ba_L (fst s)"
  shows "\<exists>k. bsize (ba_geo s) l = 2 ^ k"
proof -
  obtain k where k: "ba_S (fst s) = 2 ^ k"
    using assms(1) by (auto simp: ba_params_ok_def is_power_of_two_iff)
  have "g_size (ba_geo s) = 2 ^ (k + (ba_L (fst s) - 1 - l)) * 2 ^ l"
    using assms(2) k by (simp add: power_add [symmetric])
  then have "bsize (ba_geo s) l = 2 ^ (k + (ba_L (fst s) - 1 - l))" by (simp add: bsize_def)
  then show ?thesis by blast
qed

section \<open>The array of free lists\<close>

lemma ba_invD:
  assumes "ba_inv (a, m)" and "l < ba_L a"
  shows "fl_ok (ba_free_lists a ! l) m" and "l < length (ba_free_lists a)"
    and "\<And>p. p \<in> set (ba_nodes (a, m) l) \<Longrightarrow> 0 < p \<and> p < usize_bound"
    and "\<And>k p. k < ba_L a \<Longrightarrow> k \<noteq> l \<Longrightarrow> p \<in> set (ba_nodes (a, m) l) \<Longrightarrow> p \<notin> set (ba_nodes (a, m) k)"
  using assms by (auto simp: ba_inv_def ba_params_ok_def disjoint_iff)

text \<open>
  Replacing one list, in a memory that agrees with the old one on the nodes of the others.
\<close>

lemma ba_update:
  assumes inv: "ba_inv (a, m)" and l: "l < ba_L a" and ok: "fl_ok fl m'"
    and fr: "\<forall>k < ba_L a. k \<noteq> l \<longrightarrow> (\<forall>q \<in> set (ba_nodes (a, m) k). m' q = m q)"
    and new: "\<forall>q \<in> set (fl_items fl m'). 0 < q \<and> q < usize_bound \<and>
      (\<forall>k < ba_L a. k \<noteq> l \<longrightarrow> q \<notin> set (ba_nodes (a, m) k))"
  defines "s' \<equiv> (a\<lparr>ba_free_lists := (ba_free_lists a)[l := fl]\<rparr>, m')"
  shows "ba_inv s'" and "ba_geo s' = ba_geo (a, m)"
    and "ba_free s' = {b \<in> ba_free (a, m). fst b \<noteq> l} \<union> {l} \<times> set (fl_items fl m')"
proof -
  have len: "length (ba_free_lists a) = ba_L a" using inv by (simp add: ba_inv_def ba_params_ok_def)
  have old: "fl_ok (ba_free_lists a ! k) m' \<and> ba_nodes s' k = ba_nodes (a, m) k"
    if "k < ba_L a" "k \<noteq> l" for k
    using fl_ok_cong [of "ba_free_lists a ! k" m m'] that inv fr
    by (simp add: ba_inv_def ba_nodes_def s'_def)
  have nd: "ba_nodes s' k = (if k = l then fl_items fl m' else ba_nodes (a, m) k)" if "k < ba_L a" for k
    using old [OF that] l len by (simp add: ba_nodes_def s'_def)
  have L: "ba_L (fst s') = ba_L a" by (simp add: s'_def)
  have "ba_params_ok (fst s')" using inv by (simp add: ba_inv_def ba_params_ok_def s'_def)
  moreover have "fl_ok (ba_free_lists (fst s') ! k) (snd s')" if "k < ba_L a" for k
    using old [OF that] ok l len by (cases "k = l") (simp_all add: s'_def)
  moreover have "0 < p \<and> p < usize_bound" if "k < ba_L a" "p \<in> set (ba_nodes s' k)" for k p
    using that nd [OF that(1)] new ba_invD(3) [OF inv that(1), of p] by (cases "k = l") simp_all
  moreover have "set (ba_nodes s' j) \<inter> set (ba_nodes s' k) = {}"
    if jk: "j < ba_L a" "k < ba_L a" "j \<noteq> k" for j k
    using jk ba_invD(4) [OF inv jk(1) jk(2)] new
    by (cases "j = l"; cases "k = l") (auto simp: nd [OF jk(1)] nd [OF jk(2)] nd [OF l])
  ultimately show "ba_inv s'" by (simp add: ba_inv_def L)
  show "ba_geo s' = ba_geo (a, m)" by (simp add: ba_geo_def s'_def)
  show "ba_free s' = {b \<in> ba_free (a, m). fst b \<noteq> l} \<union> {l} \<times> set (fl_items fl m')"
    using nd l by (auto simp: ba_free_def L split: if_splits)
qed

lemma ba_pop_empty:
  assumes "ba_inv s" and "l < g_levels (ba_geo s)" and "\<And>p. (l, p) \<notin> ba_free s"
  shows "\<exists>s'. ba_list_pop s l = Some (None, s') \<and> ba_inv s' \<and> ba_geo s' = ba_geo s \<and> ba_free s' = ba_free s \<and>
    snd s' = snd s"
proof -
  obtain a m where s: "s = (a, m)" by fastforce
  have l: "l < ba_L a" and inv: "ba_inv (a, m)" using assms s by auto
  note d = ba_invD [OF inv l]
  have "p \<notin> set (fl_items (ba_free_lists a ! l) m)" for p using assms(3) [of p] l s by (simp add: ba_nodes_def)
  then have "fl_items (ba_free_lists a ! l) m = []" by (metis last_in_set)
  then have "ba_list_pop s l = Some (None, s)"
    using d(1,2) fl_pop_Nil [OF d(1)] by (simp add: s ba_list_pop_def)
  then show ?thesis using assms(1) by auto
qed

lemma ba_pop_block:
  assumes "ba_inv s" and "l < g_levels (ba_geo s)" and "(l, q) \<in> ba_free s"
  shows "\<exists>p s'. ba_list_pop s l = Some (Some p, s') \<and> (l, p) \<in> ba_free s \<and> ba_inv s' \<and>
    ba_geo s' = ba_geo s \<and> ba_free s' = ba_free s - {(l, p)} \<and>
    (\<forall>x. (\<forall>k. (k, x) \<notin> ba_free s) \<longrightarrow> snd s' x = snd s x)"
proof -
  obtain a m where s: "s = (a, m)" by fastforce
  have l: "l < ba_L a" and inv: "ba_inv (a, m)" using assms s by auto
  note d = ba_invD [OF inv l]
  obtain p ps where items: "fl_items (ba_free_lists a ! l) m = p # ps"
    using assms(3) s by (cases "fl_items (ba_free_lists a ! l) m") (auto simp: ba_nodes_def)
  from fl_pop_Cons [OF d(1) items] obtain fl where
    fl: "fl_pop (ba_free_lists a ! l) m = Some (Some p, fl)" "fl_ok fl m" "fl_items fl m = ps" by blast
  have nd: "ba_nodes (a, m) l = p # ps" and dist: "p \<notin> set ps"
    using items fl_ok_distinct [OF d(1)] by (simp_all add: ba_nodes_def)
  let ?s = "(a\<lparr>ba_free_lists := (ba_free_lists a)[l := fl]\<rparr>, m)"
  have new: "\<forall>q \<in> set (fl_items fl m). 0 < q \<and> q < usize_bound \<and>
      (\<forall>k < ba_L a. k \<noteq> l \<longrightarrow> q \<notin> set (ba_nodes (a, m) k))"
    using d(3,4) fl(3) nd by simp
  have keep: "\<forall>k < ba_L a. k \<noteq> l \<longrightarrow> (\<forall>q \<in> set (ba_nodes (a, m) k). m q = m q)" by simp
  note u = ba_update [OF inv l fl(2) keep new]
  have "ba_free ?s = ba_free s - {(l, p)}" using nd dist l fl(3) unfolding u(3) s by auto
  moreover have "ba_list_pop s l = Some (Some p, ?s)" using fl(1) d(2) by (simp add: s ba_list_pop_def)
  moreover have "(l, p) \<in> ba_free s" using l nd s by simp
  moreover have "snd ?s = snd s" by (simp add: s)
  ultimately show ?thesis using u(1,2) s by metis
qed

text \<open>A list of distinct addresses cannot overflow its length counter.\<close>

lemma fl_len_bound:
  assumes "fl_ok fl m" and "\<And>q. q \<in> set (fl_items fl m) \<Longrightarrow> 0 < q \<and> q < usize_bound"
    and "p \<notin> set (fl_items fl m)" and "0 < p" and "p < usize_bound"
  shows "Suc (fl_len fl) < usize_bound"
proof -
  have "insert p (set (fl_items fl m)) \<subseteq> {0 <..< usize_bound}" using assms by auto
  then have "card (insert p (set (fl_items fl m))) \<le> card {0 <..< usize_bound}" by (intro card_mono) auto
  moreover have "card (insert p (set (fl_items fl m))) = Suc (fl_len fl)"
    using assms(1,3) fl_ok_distinct [OF assms(1)] by (simp add: distinct_card fl_ok_def)
  moreover have "0 < usize_bound" by (simp add: usize_bound_def)
  ultimately show ?thesis by simp
qed

lemma ba_region_bound:
  assumes "ba_inv s" and "in_region (ba_geo s) (l, p)"
  shows "0 < p" and "p < usize_bound" and "l < ba_L (fst s)"
proof -
  have ok: "ba_params_ok (fst s)" using assms(1) by (simp add: ba_inv_def)
  show l: "l < ba_L (fst s)" using assms(2) by (simp add: in_region_def)
  show "0 < p" using assms(2) ok by (auto simp: in_region_def ba_params_ok_def)
  have "0 < bsize (ba_geo s) l" using bsize_pos [OF ba_params_geom [OF ok]] l by simp
  then show "p < usize_bound" using assms(2) ok by (auto simp: in_region_def ba_params_ok_def)
qed

lemma ba_push_block:
  assumes "ba_inv s" and "in_region (ba_geo s) (l, p)" and nf: "\<And>k. (k, p) \<notin> ba_free s"
  shows "\<exists>s'. ba_list_push s l p = Some s' \<and> ba_inv s' \<and> ba_geo s' = ba_geo s \<and>
    ba_free s' = insert (l, p) (ba_free s) \<and>
    (\<forall>x. x \<noteq> p \<and> (\<forall>k. (k, x) \<notin> ba_free s) \<longrightarrow> snd s' x = snd s x)"
proof -
  obtain a m where s: "s = (a, m)" by fastforce
  note b = ba_region_bound [OF assms(1,2)]
  have l: "l < ba_L a" and inv: "ba_inv (a, m)" using b(3) assms(1) s by auto
  note d = ba_invD [OF inv l]
  have np: "p \<notin> set (ba_nodes (a, m) k)" if "k < ba_L a" for k using nf [of k] that s by simp
  let ?m = "m(p := fl_head (ba_free_lists a ! l))"
  have "Suc (fl_len (ba_free_lists a ! l)) < usize_bound"
    by (rule fl_len_bound [OF d(1)]) (use d(3) np [OF l] b in \<open>auto simp: ba_nodes_def\<close>)
  from fl_push_ok [OF d(1) _ this] np [OF l] obtain fl where
    fl: "fl_push (ba_free_lists a ! l) p m = Some (fl, ?m)" "fl_ok fl ?m"
      "fl_items fl ?m = p # ba_nodes (a, m) l" by (auto simp: ba_nodes_def)
  let ?s = "(a\<lparr>ba_free_lists := (ba_free_lists a)[l := fl]\<rparr>, ?m)"
  have new: "\<forall>q \<in> set (fl_items fl ?m). 0 < q \<and> q < usize_bound \<and>
      (\<forall>k < ba_L a. k \<noteq> l \<longrightarrow> q \<notin> set (ba_nodes (a, m) k))"
    using d(3,4) np b(1,2) by (simp add: fl(3))
  have keep: "\<forall>k < ba_L a. k \<noteq> l \<longrightarrow> (\<forall>q \<in> set (ba_nodes (a, m) k). ?m q = m q)"
    using np by (metis fun_upd_other)
  note u = ba_update [OF inv l fl(2) keep new]
  have "ba_free ?s = insert (l, p) (ba_free s)" using fl(3) l unfolding u(3) s by auto
  moreover have "ba_list_push s l p = Some ?s" using fl(1) d(2) by (simp add: s ba_list_push_def)
  moreover have "\<forall>x. x \<noteq> p \<longrightarrow> snd ?s x = snd s x" by (simp add: s)
  ultimately show ?thesis using u(1,2) s by blast
qed

lemma ba_del_block:
  assumes "ba_inv s" and "(l, p) \<in> ba_free s"
  shows "\<exists>s'. ba_list_remove s l p = Some s' \<and> ba_inv s' \<and> ba_geo s' = ba_geo s \<and>
    ba_free s' = ba_free s - {(l, p)} \<and>
    (\<forall>x. (\<forall>k. (k, x) \<notin> ba_free s) \<longrightarrow> snd s' x = snd s x)"
proof -
  obtain a m where s: "s = (a, m)" by fastforce
  have l: "l < ba_L a" and inv: "ba_inv (a, m)" and p: "p \<in> set (ba_nodes (a, m) l)" using assms s by auto
  note d = ba_invD [OF inv l]
  from fl_remove_present [OF d(1) p [unfolded ba_nodes_def fst_conv snd_conv]] obtain fl m' where
    fl: "fl_remove (ba_free_lists a ! l) p m = Some (fl, m')" "fl_ok fl m'"
      "fl_items fl m' = remove1 p (ba_nodes (a, m) l)"
    and fr: "\<forall>q. q \<notin> set (ba_nodes (a, m) l) \<longrightarrow> m' q = m q"
    unfolding ba_nodes_def fst_conv snd_conv by blast
  have dist: "distinct (ba_nodes (a, m) l)" using fl_ok_distinct [OF d(1)] by (simp add: ba_nodes_def)
  have items: "set (fl_items fl m') = set (ba_nodes (a, m) l) - {p}" using fl(3) dist by simp
  have keep: "\<forall>k < ba_L a. k \<noteq> l \<longrightarrow> (\<forall>q \<in> set (ba_nodes (a, m) k). m' q = m q)"
    using fr ba_invD(4) [OF inv _ l] by metis
  let ?s = "(a\<lparr>ba_free_lists := (ba_free_lists a)[l := fl]\<rparr>, m')"
  have new: "\<forall>q \<in> set (fl_items fl m'). 0 < q \<and> q < usize_bound \<and>
      (\<forall>k < ba_L a. k \<noteq> l \<longrightarrow> q \<notin> set (ba_nodes (a, m) k))"
    using d(3,4) by (simp add: items)
  note u = ba_update [OF inv l fl(2) keep new]
  have "ba_free ?s = ba_free s - {(l, p)}" using l unfolding u(3) s items by auto
  moreover have "ba_list_remove s l p = Some ?s" using fl(1) d(2) by (simp add: s ba_list_remove_def)
  moreover have "snd ?s x = snd s x" if "\<forall>k. (k, x) \<notin> ba_free s" for x
    using fr that l by (simp add: s)
  ultimately show ?thesis using u(1,2) s by blast
qed

lemma ba_exists_block:
  assumes "ba_inv s" and "l < ba_L (fst s)"
  shows "ba_list_exists s l p = Some ((l, p) \<in> ba_free s)"
proof -
  obtain a m where s: "s = (a, m)" by fastforce
  have l: "l < ba_L a" and inv: "ba_inv (a, m)" using assms s by auto
  note d = ba_invD [OF inv l]
  show ?thesis using l d(2) fl_exists_ok [OF d(1)] by (simp add: s ba_list_exists_def ba_nodes_def)
qed

section \<open>The buddy allocator contract\<close>

text \<open>The exclusive or of the address finds the buddy because the heap is aligned to its size.\<close>

lemma ba_buddy_ok:
  assumes inv: "ba_inv s" and al: "aligned_block (ba_geo s) (Suc l, p)"
  shows "ba_buddy s (Suc l) p = Some (snd (buddy_of (ba_geo s) (Suc l, p)))"
proof -
  let ?g = "ba_geo s"
  have ok: "ba_params_ok (fst s)" using inv by (simp add: ba_inv_def)
  have g: "geom_ok ?g" by (rule ba_params_geom [OF ok])
  have l: "Suc l < g_levels ?g" using al by (simp add: aligned_block_def in_region_def)
  obtain k where k: "bsize ?g (Suc l) = 2 ^ k" using ba_bsize_power [OF ok] l by auto
  have "2 * 2 ^ k dvd g_size ?g" using bsize_dvd [OF g, of 0 l] bsize_half [OF g l] l k by simp
  also have "\<dots> dvd ba_heap_start (fst s)" using ok by (simp add: ba_params_ok_def)
  finally obtain i where i: "ba_heap_start (fst s) = 2 * 2 ^ k * i" by blast
  have base: "ba_heap_start (fst s) \<le> p" using al by (simp add: aligned_block_def in_region_def)
  then have "p = 2 * i * 2 ^ k + (p - ba_heap_start (fst s))" using i by simp
  then have "p div 2 ^ k = 2 * i + (p - ba_heap_start (fst s)) div 2 ^ k"
    by (metis div_mult_self3 power_not_zero zero_neq_numeral)
  then have par: "odd (p div 2 ^ k) = odd ((p - ba_heap_start (fst s)) div 2 ^ k)" by simp
  have x: "p XOR 2 ^ k = snd (buddy_of ?g (Suc l, p))"
    using par by (simp add: xor_pow2_nat buddy_of_def k)
  have "0 < snd (buddy_of ?g (Suc l, p))"
  proof (cases rule: buddy_of_cases [OF g l al, case_names lower upper])
    case lower
    then show ?thesis using bsize_pos [OF g l] by simp
  next
    case upper
    then show ?thesis using ok by (auto simp: aligned_block_def in_region_def ba_params_ok_def)
  qed
  then show ?thesis using ba_block_size_ok [OF ok, of "Suc l"] l x k by (simp add: ba_buddy_def)
qed

lemma ba_coalesced_buddy:
  assumes "ba_inv s" and "coalesced (ba_geo s) F (insert (Suc l, p) A)"
  shows "ba_buddy s (Suc l) p = Some b \<longleftrightarrow> buddy_of (ba_geo s) (Suc l, p) = (Suc l, b)"
proof -
  have "aligned_block (ba_geo s) (Suc l, p)" using coalesced_aligned [OF assms(2), of "(Suc l, p)"] by simp
  moreover have "fst (buddy_of (ba_geo s) (Suc l, p)) = Suc l" by (simp add: buddy_of_def)
  ultimately show ?thesis using ba_buddy_ok [OF assms(1)] by (auto simp: prod_eq_iff)
qed

lemma ba_inv_geom: "ba_inv s \<Longrightarrow> geom_ok (ba_geo s)"
  using ba_params_geom by (simp add: ba_inv_def)

lemma ba_half_block:
  assumes "ba_inv s" and "Suc l < g_levels (ba_geo s)" and "coalesced (ba_geo s) F (insert (l, p) A)"
  shows "ba_buddy s (Suc l) p = Some (p + bsize (ba_geo s) (Suc l))"
proof -
  have "aligned_block (ba_geo s) (l, p)" using coalesced_aligned [OF assms(3), of "(l, p)"] by simp
  note h = aligned_halves [OF ba_inv_geom [OF assms(1)] assms(2) this]
  show ?thesis using ba_buddy_ok [OF assms(1) h(1)] h(3) by simp
qed

lemma ba_bud_block:
  assumes "ba_inv s" and "buddy_inv (ba_geo s) F (insert (Suc l, p) A)"
    and "coalesced (ba_geo s) F (insert (Suc l, p) A)"
  shows "\<exists>b. ba_buddy s (Suc l) p = Some b \<and>
    (b = p + bsize (ba_geo s) (Suc l) \<or> p = b + bsize (ba_geo s) (Suc l))"
proof -
  have al: "aligned_block (ba_geo s) (Suc l, p)" using coalesced_aligned [OF assms(3), of "(Suc l, p)"] by simp
  then have "Suc l < g_levels (ba_geo s)" by (simp add: aligned_block_def in_region_def)
  from buddy_of_cases [OF ba_inv_geom [OF assms(1)] this al] ba_buddy_ok [OF assms(1) al] show ?thesis
    by (metis le_add_diff_inverse2 snd_conv)
qed

interpretation ba: buddy_allocator ba_geo ba_inv ba_free ba_list_pop ba_list_push ba_list_remove
  snd coalesced ba_buddy ba_buddy ba_list_exists ba_get_free_block ba_split_level ba_merge_buddies
proof (unfold_locales, goal_cases)
  case (6 s l)
  show ?case by (subst ba_get_free_block.simps) (rule refl)
next
  case (7 s l)
  show ?case by (subst ba_split_level.simps) (auto intro!: Option.bind_cong split: option.split)
next
  case (8 s l p)
  show ?case by (subst ba_merge_buddies.simps) (rule refl)
next
  case (11 s l p b)
  then show ?case by (intro ba_exists_block) (simp_all add: in_region_def)
next
  case (14 s l p A b)
  then show ?case
    using coalesced_join [OF ba_inv_geom, of s l "ba_free s" p A b] ba_coalesced_buddy
      buddy_inv_region [of "ba_geo s" "ba_free s" _ "(Suc l, p)"] by (auto simp: in_region_def)
next
  case (16 s l p A b)
  then show ?case
    using coalesced_give [OF ba_inv_geom, of s "ba_free s" "Suc l" p A] ba_coalesced_buddy by auto
qed (blast intro: ba_inv_geom ba_pop_empty ba_pop_block ba_push_block ba_del_block ba_half_block
      ba_bud_block coalesced_take coalesced_split coalesced_give)+

section \<open>Correctness of the heap\<close>

text \<open>
  \<open>heap_ok s A\<close>: the heap is in a consistent state in which exactly the blocks \<open>A\<close> are allocated.
\<close>

definition heap_ok :: "ba_state \<Rightarrow> block set \<Rightarrow> bool" where
  "heap_ok s A \<longleftrightarrow> ba_inv s \<and> buddy_inv (ba_geo s) (ba_free s) A \<and> coalesced (ba_geo s) (ba_free s) A"

lemma heap_okD:
  assumes "heap_ok s A"
  shows "ba_inv s" "buddy_inv (ba_geo s) (ba_free s) A" "coalesced (ba_geo s) (ba_free s) A"
    "geom_ok (ba_geo s)" "ba_params_ok (fst s)"
  using assms ba_inv_geom by (auto simp: heap_ok_def ba_inv_def)

text \<open>The level loop ends at the first block size below the request.\<close>

lemma ba_level_loop_ok:
  assumes ok: "ba_params_ok (fst s)" and "n < ba_L (fst s)" and "sz \<le> bsize (ba_geo s) n"
  shows "\<exists>l. ba_level_loop (fst s) sz (Suc n) = Some (Suc l) \<and> l < ba_L (fst s) \<and>
    sz \<le> bsize (ba_geo s) l \<and> (Suc l < ba_L (fst s) \<longrightarrow> bsize (ba_geo s) (Suc l) < sz)"
  using assms(2,3)
proof (induction "ba_L (fst s) - n" arbitrary: n)
  case (Suc d)
  have bs: "ba_block_size (fst s) (Suc n) = Some (bsize (ba_geo s) (Suc n))"
    using Suc.prems(1) by (intro ba_block_size_ok [OF ok]) simp
  show ?case
  proof (cases "sz \<le> bsize (ba_geo s) (Suc n) \<and> Suc n < ba_L (fst s)")
    case True
    then have "ba_level_loop (fst s) sz (Suc n) = ba_level_loop (fst s) sz (Suc (Suc n))"
      by (subst ba_level_loop.simps) (simp add: bs)
    then show ?thesis using Suc.hyps(1) [of "Suc n"] Suc.hyps(2) True by simp
  next
    case False
    then have "ba_level_loop (fst s) sz (Suc n) = Some (Suc n)"
      by (subst ba_level_loop.simps) (auto simp: bs)
    then show ?thesis using False Suc.prems by auto
  qed
qed simp

lemma ba_level_ok:
  assumes "ba_params_ok (fst s)" and "sz \<le> g_size (ba_geo s)"
  shows "\<exists>l. ba_get_level_from_size (fst s) sz = Some (Some l) \<and> l < ba_L (fst s) \<and>
    sz \<le> bsize (ba_geo s) l \<and> (Suc l < ba_L (fst s) \<longrightarrow> bsize (ba_geo s) (Suc l) < sz)"
proof -
  have "0 < ba_L (fst s)" using assms(1) by (simp add: ba_params_ok_def)
  from ba_level_loop_ok [OF assms(1) this, of sz] assms(2) show ?thesis
    using ba_max_size_ok [OF assms(1)] by (auto simp: ba_get_level_from_size_def)
qed

text \<open>The level of a request depends only on the geometry of the heap.\<close>

lemma ba_level_loop_cong:
  assumes "ba_L a = ba_L b" and "ba_S a = ba_S b"
  shows "ba_level_loop a sz l = ba_level_loop b sz l"
proof (induction "ba_L b - l" arbitrary: l)
  case 0
  have "ba_block_size a l = ba_block_size b l" using assms by (simp add: ba_block_size_def ba_max_size_def)
  then show ?case using assms 0 by (simp add: ba_level_loop.simps [of _ _ l])
next
  case (Suc n)
  have "ba_block_size a l = ba_block_size b l" using assms by (simp add: ba_block_size_def ba_max_size_def)
  moreover have "ba_level_loop a sz (l + 1) = ba_level_loop b sz (l + 1)"
    using Suc.hyps(1) [of "l + 1"] Suc.hyps(2) by simp
  ultimately show ?case using assms by (simp add: ba_level_loop.simps [of _ _ l] cong: if_cong)
qed

lemma ba_level_cong:
  assumes "ba_L a = ba_L b" and "ba_S a = ba_S b"
  shows "ba_get_level_from_size a sz = ba_get_level_from_size b sz"
  using assms unfolding ba_get_level_from_size_def ba_max_size_def ba_level_loop_cong [OF assms] by simp

lemma ba_level_too_large:
  "ba_params_ok (fst s) \<Longrightarrow> g_size (ba_geo s) < sz \<Longrightarrow> ba_get_level_from_size (fst s) sz = Some None"
  using ba_max_size_ok [of s] by (simp add: ba_get_level_from_size_def)

lemma layout_size_ok: "n \<le> 2 ^ 63 \<Longrightarrow> usize_next_power_of_two n = Some (next_pow2 n)"
  using next_pow2_least [of n 63] by (simp add: usize_next_power_of_two_def usize_bound_def)

text \<open>A block of a level that fits the rounded request is aligned for it.\<close>

lemma ba_block_dvd:
  assumes ok: "ba_params_ok (fst s)" and al: "aligned_block (ba_geo s) (l, p)"
    and fit: "2 ^ j \<le> bsize (ba_geo s) l"
  shows "2 ^ j dvd p"
proof -
  have l: "l < ba_L (fst s)" and base: "ba_heap_start (fst s) \<le> p"
    using al by (auto simp: aligned_block_def in_region_def)
  obtain k where k: "bsize (ba_geo s) l = 2 ^ k" using ba_bsize_power [OF ok l] by blast
  then have "j \<le> k" using fit by (simp add: power_increasing_iff)
  then have j: "(2::nat) ^ j dvd 2 ^ k" by (rule le_imp_power_dvd)
  have "2 ^ k dvd g_size (ba_geo s)" using bsize_dvd [OF ba_params_geom [OF ok], of 0 l] l k by simp
  then have "2 ^ k dvd ba_heap_start (fst s)" using ok by (auto simp: ba_params_ok_def)
  moreover have "2 ^ k dvd p - ba_heap_start (fst s)" using al k by (simp add: aligned_block_def)
  ultimately have "2 ^ k dvd p" using base by (metis dvd_add le_add_diff_inverse)
  with j show ?thesis by (rule dvd_trans)
qed

text \<open>No free block is large enough only when every aligned block that would do is in use.\<close>

lemma ba_exhausted:
  assumes h: "heap_ok s A" and none: "\<forall>b \<in> ba_free s. l < fst b"
    and tight: "Suc l < ba_L (fst s) \<longrightarrow> bsize (ba_geo s) (Suc l) < sz" and l: "l < ba_L (fst s)"
    and al: "aligned_block (ba_geo s) (j, q)" and fit: "sz \<le> bsize (ba_geo s) j"
  shows "\<exists>a \<in> A. extent (ba_geo s) (j, q) \<inter> extent (ba_geo s) a \<noteq> {}"
proof (rule ccontr)
  note d = heap_okD [OF h]
  assume "\<not> ?thesis"
  then obtain b where b: "b \<in> ba_free s" "fst b \<le> j"
    using coalesced_cover [OF d(4,2,3) al] by blast
  then have "Suc l \<le> j" using none by fastforce
  moreover have "j < ba_L (fst s)" using al by (simp add: aligned_block_def in_region_def)
  ultimately have "bsize (ba_geo s) j \<le> bsize (ba_geo s) (Suc l)"
    using bsize_dvd [OF d(4), of "Suc l" j] bsize_pos [OF d(4), of "Suc l"] by (simp add: dvd_imp_le)
  with fit tight \<open>Suc l \<le> j\<close> \<open>j < ba_L (fst s)\<close> show False by simp
qed

lemma ba_get_ok:
  assumes h: "heap_ok s A" and l: "l < ba_L (fst s)"
  shows "(\<exists>p s'. ba_get_free_block s l = Some (Some p, s') \<and> (l, p) \<notin> A \<and> heap_ok s' (insert (l, p) A) \<and>
      ba_geo s' = ba_geo s \<and> keeps (ba_geo s) A (snd s) (snd s')) \<or>
    (\<exists>s'. ba_get_free_block s l = Some (None, s') \<and> heap_ok s' A \<and> ba_geo s' = ba_geo s \<and>
      ba_free s' = ba_free s \<and> (\<forall>b \<in> ba_free s. l < fst b))"
  using ba.get_safe [of s l A] heap_okD [OF h] l by (auto simp: heap_ok_def)

text \<open>Rounding a request up to a power of two does not make it miss a block it fits in.\<close>

lemma ba_request_fits:
  assumes ok: "ba_params_ok (fst s)" and b: "aligned_block (ba_geo s) b"
    and fit: "max sz align \<le> bsize (ba_geo s) (fst b)"
  shows "max (next_pow2 sz) align \<le> bsize (ba_geo s) (fst b)"
proof -
  have "fst b < ba_L (fst s)" using b by (simp add: aligned_block_def in_region_def)
  then obtain k where "bsize (ba_geo s) (fst b) = 2 ^ k" using ba_bsize_power [OF ok] by blast
  then show ?thesis using fit next_pow2_least [of sz k] by simp
qed

lemma ba_alloc_too_large:
  assumes ok: "ba_params_ok (fst s)" and sz: "sz \<le> 2 ^ 63"
    and big: "g_size (ba_geo s) < max (next_pow2 sz) align"
  shows "ba_alloc s sz align = Some (0, s)"
    and "aligned_block (ba_geo s) b \<Longrightarrow> \<not> max sz align \<le> bsize (ba_geo s) (fst b)"
proof -
  show "ba_alloc s sz align = Some (0, s)"
    using layout_size_ok [OF sz] ba_level_too_large [OF ok big] by (simp add: ba_alloc_def)
  have "bsize (ba_geo s) (fst b) \<le> g_size (ba_geo s)" by (simp add: bsize_def)
  then show "aligned_block (ba_geo s) b \<Longrightarrow> \<not> max sz align \<le> bsize (ba_geo s) (fst b)"
    using ba_request_fits [OF ok, of b sz align] big by linarith
qed

lemma ba_alloc_level:
  assumes "sz \<le> 2 ^ 63" and "ba_get_level_from_size (fst s) (max (next_pow2 sz) align) = Some (Some l)"
  shows "ba_alloc s sz align = Option.bind (ba_get_free_block s l)
    (\<lambda>(block, s). case block of None \<Rightarrow> Some (0, s) | Some b \<Rightarrow> Some (b, s))"
  using layout_size_ok [OF assms(1)] assms(2) by (simp add: ba_alloc_def)

lemma ba_new_block:
  assumes h: "heap_ok s (insert (l, p) A)" and n: "(l, p) \<notin> A" and al: "is_power_of_two align"
    and fit: "max (next_pow2 sz) align \<le> bsize (ba_geo s) l"
  shows "p \<noteq> 0" "align dvd p" "sz \<le> bsize (ba_geo s) l"
    "\<forall>a \<in> A. extent (ba_geo s) (l, p) \<inter> extent (ba_geo s) a = {}"
proof -
  note d = heap_okD [OF h]
  have b: "aligned_block (ba_geo s) (l, p)" using coalesced_aligned [OF d(3), of "(l, p)"] by simp
  show "p \<noteq> 0" using b ba_region_bound(1) [OF d(1)] by (auto simp: aligned_block_def)
  show "align dvd p" using ba_block_dvd [OF d(5) b] fit al by (auto simp: is_power_of_two_iff)
  show "sz \<le> bsize (ba_geo s) l" using next_pow2_ge [of sz] fit by simp
  show "\<forall>a \<in> A. extent (ba_geo s) (l, p) \<inter> extent (ba_geo s) a = {}"
    using buddy_inv_disjoint [OF d(2), of "(l, p)"] n by auto
qed

text \<open>
  C1: \<open>alloc\<close> never panics.  When it returns a non-null pointer, that is the start of a block that was not
  allocated, large enough, aligned as requested and disjoint from every other allocated block, no
  allocated block is written to, and the heap is consistent again.  When it returns null, the heap is
  unchanged and every aligned block that could hold the request meets an allocated one.
\<close>

theorem ba_alloc_correct:
  assumes h: "heap_ok s A" and al: "is_power_of_two align" and sz: "sz \<le> 2 ^ 63"
  shows "\<exists>p s'. ba_alloc s sz align = Some (p, s') \<and> ba_geo s' = ba_geo s \<and>
    (if p = 0 then heap_ok s' A \<and> ba_free s' = ba_free s \<and>
       (\<forall>b. aligned_block (ba_geo s) b \<and> max sz align \<le> bsize (ba_geo s) (fst b) \<longrightarrow>
         (\<exists>a \<in> A. extent (ba_geo s) b \<inter> extent (ba_geo s) a \<noteq> {}))
     else \<exists>l. ba_get_level_from_size (fst s) (max (next_pow2 sz) align) = Some (Some l) \<and>
       heap_ok s' (insert (l, p) A) \<and> sz \<le> bsize (ba_geo s) l \<and> align dvd p \<and>
       (\<forall>a \<in> A. extent (ba_geo s) (l, p) \<inter> extent (ba_geo s) a = {}) \<and>
       keeps (ba_geo s) A (snd s) (snd s'))"
proof (cases "max (next_pow2 sz) align \<le> g_size (ba_geo s)")
  case False
  then have "g_size (ba_geo s) < max (next_pow2 sz) align" by (rule not_le_imp_less)
  from ba_alloc_too_large [OF heap_okD(5) [OF h] sz this] show ?thesis using h by auto
next
  case True
  note d = heap_okD [OF h]
  obtain l where l: "ba_get_level_from_size (fst s) (max (next_pow2 sz) align) = Some (Some l)"
      "l < ba_L (fst s)" "max (next_pow2 sz) align \<le> bsize (ba_geo s) l"
      "Suc l < ba_L (fst s) \<longrightarrow> bsize (ba_geo s) (Suc l) < max (next_pow2 sz) align"
    using ba_level_ok [OF d(5) True] by blast
  note unf = ba_alloc_level [OF sz l(1)]
  from ba_get_ok [OF h l(2)] show ?thesis
  proof (elim disjE exE conjE)
    fix p s' assume g: "ba_get_free_block s l = Some (Some p, s')" "(l, p) \<notin> A"
      "heap_ok s' (insert (l, p) A)" "ba_geo s' = ba_geo s" "keeps (ba_geo s) A (snd s) (snd s')"
    show ?thesis
      using unf g l(1) ba_new_block [OF g(3,2) al, unfolded g(4), OF l(3)] by auto
  next
    fix s' assume g: "ba_get_free_block s l = Some (None, s')" "heap_ok s' A" "ba_geo s' = ba_geo s"
      "ba_free s' = ba_free s" "\<forall>b \<in> ba_free s. l < fst b"
    have "\<exists>a \<in> A. extent (ba_geo s) b \<inter> extent (ba_geo s) a \<noteq> {}"
      if "aligned_block (ba_geo s) b" "max sz align \<le> bsize (ba_geo s) (fst b)" for b
      using ba_exhausted [OF h g(5) l(4,2), of "fst b" "snd b"] ba_request_fits [OF d(5) that] that(1) by simp
    then show ?thesis using unf g by simp
  qed
qed

text \<open>
  C2: \<open>dealloc\<close> of an allocated block, with the layout it was allocated for, never panics, removes
  exactly that block from the allocated ones, leaves the contents of the others alone, and restores
  the coalesced state.
\<close>

theorem ba_dealloc_correct:
  assumes h: "heap_ok s (insert (l, p) A)" and n: "(l, p) \<notin> A" and sz: "sz \<le> 2 ^ 63"
    and lev: "ba_get_level_from_size (fst s) (max (next_pow2 sz) align) = Some (Some l)"
  shows "\<exists>s'. ba_dealloc s p sz align = Some s' \<and> heap_ok s' A \<and> ba_geo s' = ba_geo s \<and>
    keeps (ba_geo s) A (snd s) (snd s')"
proof -
  note d = heap_okD [OF h]
  have "0 < p" using ba_region_bound(1) [OF d(1) buddy_inv_region [OF d(2), of "(l, p)"]] by simp
  then have "ba_dealloc s p sz align = ba_merge_buddies s l p"
    using layout_size_ok [OF sz] lev by (simp add: ba_dealloc_def)
  then show ?thesis using ba.merge_safe [OF d(1,2) n d(3)] by (auto simp: heap_ok_def)
qed

text \<open>once every block is freed, the heap is a single free block again: nothing stays fragmented.\<close>

theorem ba_all_freed:
  assumes "heap_ok s {}"
  shows "ba_free s = {(0, ba_heap_start (fst s))}"
  using coalesced_all_free [OF heap_okD(4,2,3) [OF assms]] by simp

section \<open>The kernel's heap\<close>

text \<open>The static \<^verbatim>\<open>ALLOCATOR\<close>, over the memory \<open>m\<close> that the heap pages are mapped to.\<close>

definition boot_heap :: "mem \<Rightarrow> ba_state" where
  "boot_heap m = (the ALLOCATOR, m)"

lemma ALLOCATOR_eq:
  "ALLOCATOR = Some \<lparr>ba_L = 21, ba_S = 16, ba_heap_start = HEAP_START, ba_heap_end = HEAP_START + HEAP_SIZE,
     ba_free_lists = \<lparr>fl_head = Some HEAP_START, fl_len = 1\<rparr> # replicate 20 fl_new\<rparr>"
proof -
  have "replicate 21 fl_new = fl_new # replicate 20 fl_new" using replicate_Suc [of 20 fl_new] by simp
  moreover have "HEAP_START \<noteq> 0" by (simp add: HEAP_START_def)
  ultimately show ?thesis by (simp add: ALLOCATOR_def ba_new_def fl_new_def)
qed

lemma boot_heap_sel [simp]:
  "snd (boot_heap m) = m" "ba_L (fst (boot_heap m)) = 21" "ba_S (fst (boot_heap m)) = 16"
  "ba_heap_start (fst (boot_heap m)) = HEAP_START"
  "ba_free_lists (fst (boot_heap m)) = \<lparr>fl_head = Some HEAP_START, fl_len = 1\<rparr> # replicate 20 fl_new"
  by (simp_all add: boot_heap_def ALLOCATOR_eq)

lemma boot_params: "ba_params_ok (fst (boot_heap m))"
proof -
  have "is_power_of_two 16" using next_pow2_power [of 4] by (simp add: is_power_of_two_def)
  then show ?thesis by (simp add: ba_params_ok_def HEAP_START_def usize_bound_def)
qed

lemma boot_nodes:
  "m HEAP_START = None \<Longrightarrow> l < 21 \<Longrightarrow> ba_nodes (boot_heap m) l = (if l = 0 then [HEAP_START] else [])"
  by (cases l) (simp_all add: ba_nodes_def fl_items_def fl_new_items [unfolded fl_items_def])

lemma boot_ok:
  assumes m: "m HEAP_START = None"
  shows "heap_ok (boot_heap m) {}"
proof -
  have ok: "fl_ok (ba_free_lists (fst (boot_heap m)) ! l) m" if "l < 21" for l
    using m that by (cases l) (simp_all add: fl_ok_def fl_items_def fl_new_ok [unfolded fl_ok_def fl_items_def])
  have inv: "ba_inv (boot_heap m)"
    using boot_params [of m] ok boot_nodes [of m, OF m]
    by (auto simp: ba_inv_def HEAP_START_def usize_bound_def split: if_splits)
  have F: "ba_free (boot_heap m) = {(0, HEAP_START)}"
    using boot_nodes [of m, OF m] by (auto simp: ba_free_def split: if_splits)
  show ?thesis using inv whole_free [OF ba_params_geom [OF boot_params, of m]] by (simp add: heap_ok_def F)
qed

text \<open>
  The static heap is consistent at boot, with nothing allocated, provided the first word of the
  heap happens to be zero when the heap pages are mapped.
\<close>

theorem boot_heap_correct:
  assumes "m HEAP_START = None"
  shows "ALLOCATOR = Some (fst (boot_heap m)) \<and> heap_ok (boot_heap m) {}"
  using boot_ok [of m, OF assms] by (simp add: boot_heap_def ALLOCATOR_eq)

lemma ba_level_whole: "ba_get_level_from_size (fst (boot_heap m)) 16777216 = Some (Some 0)"
  using boot_params [of m] ba_max_size_ok [OF boot_params, of m]
    ba_block_size_ok [OF boot_params, of "Suc 0" m]
  by (simp add: ba_get_level_from_size_def ba_level_loop.simps [of _ _ "Suc 0"] bsize_def)

text \<open>
  The proviso is needed.  \<open>new\<close> never writes the first node, so if the first word of the heap is not
  zero, the first whole-heap allocation takes it for the next free block; a second one then panics on
  the length of the list instead of returning null.
\<close>

theorem boot_heap_uninitialised:
  assumes "m HEAP_START = Some x"
  shows "\<exists>s'. ba_alloc (boot_heap m) HEAP_SIZE 1 = Some (HEAP_START, s') \<and> ba_alloc s' HEAP_SIZE 1 = None"
proof -
  let ?a = "fst (boot_heap m)"
  let ?s = "(?a\<lparr>ba_free_lists := \<lparr>fl_head = Some x, fl_len = 0\<rparr> # replicate 20 fl_new\<rparr>, m)"
  have lev: "ba_get_level_from_size ?a 16777216 = Some (Some 0)" by (rule ba_level_whole)
  have lev': "ba_get_level_from_size (fst ?s) 16777216 = Some (Some 0)"
    using lev ba_level_cong [of "fst ?s" ?a] by simp
  have p: "usize_next_power_of_two 16777216 = Some 16777216"
    using layout_size_ok [of 16777216] next_pow2_power [of 24] by simp
  have "ba_list_pop (boot_heap m) 0 = Some (Some HEAP_START, ?s)"
    using assms by (simp add: ba_list_pop_def boot_heap_def ALLOCATOR_eq fl_pop_def)
  then have "ba_get_free_block (boot_heap m) 0 = Some (Some HEAP_START, ?s)"
    by (simp add: ba_get_free_block.simps)
  then have "ba_alloc (boot_heap m) HEAP_SIZE 1 = Some (HEAP_START, ?s)"
    using p lev by (simp add: ba_alloc_def HEAP_SIZE_def)
  moreover have "ba_get_free_block ?s 0 = None"
    by (simp add: ba_get_free_block.simps ba_list_pop_def fl_pop_def usize_sub_def)
  then have "ba_alloc ?s HEAP_SIZE 1 = None" using p lev' by (simp add: ba_alloc_def HEAP_SIZE_def)
  ultimately show ?thesis by blast
qed

text \<open>The heap after the first whole-heap allocation.\<close>

definition full_heap :: ba_state where
  "full_heap = (fst (boot_heap (\<lambda>_. None))\<lparr>ba_free_lists := fl_new # replicate 20 fl_new\<rparr>, \<lambda>_. None)"

lemma full_heap_get: "ba_get_free_block (boot_heap (\<lambda>_. None)) 0 = Some (Some HEAP_START, full_heap)"
proof -
  have "ba_list_pop (boot_heap (\<lambda>_. None)) 0 = Some (Some HEAP_START, full_heap)"
    by (simp add: ba_list_pop_def boot_heap_def ALLOCATOR_eq fl_pop_def full_heap_def fl_new_def)
  then show ?thesis by (simp add: ba_get_free_block.simps)
qed

lemma full_heap_ok: "heap_ok full_heap {(0, HEAP_START)}" "ba_geo full_heap = ba_geo (boot_heap (\<lambda>_. None))"
  using ba_get_ok [OF boot_ok [OF refl], of 0] by (auto simp: full_heap_get)

lemma full_heap_level: "ba_get_level_from_size (fst full_heap) 16777216 = Some (Some 0)"
  using ba_level_whole ba_level_cong [of "fst full_heap" "fst (boot_heap (\<lambda>_. None))"]
  by (simp add: full_heap_def)

lemma next_pow2_heap_size: "next_pow2 16777216 = 16777216"
  using next_pow2_power [of 24] by simp

theorem ba_alloc_correct_witness:
  "\<exists>p s'. ba_alloc (boot_heap (\<lambda>_. None)) 100 8 = Some (p, s') \<and> (p \<noteq> 0 \<longrightarrow> 8 dvd p)"
proof -
  have "is_power_of_two 8" using next_pow2_power [of 3] by (simp add: is_power_of_two_def)
  from ba_alloc_correct [OF boot_ok [OF refl] this, of 100] show ?thesis by (auto split: if_splits)
qed

theorem ba_dealloc_correct_witness:
  "\<exists>s'. ba_dealloc full_heap HEAP_START 16777216 1 = Some s' \<and> heap_ok s' {}"
  using ba_dealloc_correct [of full_heap 0 HEAP_START "{}" 16777216 1]
  by (auto simp: full_heap_ok full_heap_level next_pow2_heap_size)

section \<open>Round trip and interference\<close>

text \<open>Two consistent heaps of the same geometry with the same allocated blocks have the same free ones.\<close>

lemma heap_ok_unique:
  assumes "heap_ok s A" and "heap_ok s' A" and "ba_geo s' = ba_geo s"
  shows "ba_free s' = ba_free s"
  using coalesced_unique [OF heap_okD(4,2,3) [OF assms(1)]] heap_okD(2,3) [OF assms(2)] assms(3) by simp

lemma ba_level_geo:
  assumes "ba_params_ok (fst s)" and "ba_geo s' = ba_geo s"
  shows "ba_get_level_from_size (fst s') = ba_get_level_from_size (fst s)"
  using assms ba_level_cong [of "fst s'" "fst s"] by (auto simp: ba_geo_def)

text \<open>
  C5: freeing what was just allocated is a round trip: the heap has exactly the free blocks it had
  before, whatever splitting the allocation caused.
\<close>

theorem ba_alloc_dealloc:
  assumes h: "heap_ok s A" and sz: "sz \<le> 2 ^ 63" and al: "ba_alloc s sz align = Some (p, s1)" and p: "p \<noteq> 0"
  shows "\<exists>s2. ba_dealloc s1 p sz align = Some s2 \<and> heap_ok s2 A \<and> ba_free s2 = ba_free s"
proof -
  note d = heap_okD [OF h]
  have fit: "max (next_pow2 sz) align \<le> g_size (ba_geo s)"
    using ba_alloc_too_large(1) [OF d(5) sz, of align] al p by fastforce
  then obtain l where lev: "ba_get_level_from_size (fst s) (max (next_pow2 sz) align) = Some (Some l)"
      and l: "l < ba_L (fst s)" using ba_level_ok [OF d(5)] by blast
  from ba_get_ok [OF h l] al p have
    h1: "heap_ok s1 (insert (l, p) A)" and n: "(l, p) \<notin> A" and geo: "ba_geo s1 = ba_geo s"
    by (auto simp: ba_alloc_level [OF sz lev])
  note d1 = heap_okD [OF h1]
  have "0 < p" using p by simp
  then have "ba_dealloc s1 p sz align = ba_merge_buddies s1 l p"
    using lev layout_size_ok [OF sz] by (simp add: ba_dealloc_def ba_level_geo [OF d(5) geo])
  moreover obtain s2 where m: "ba_merge_buddies s1 l p = Some s2" "heap_ok s2 A" "ba_geo s2 = ba_geo s1"
    using ba.merge_safe [OF d1(1,2) n d1(3)] by (auto simp: heap_ok_def)
  moreover have "ba_free s2 = ba_free s" using heap_ok_unique [OF h m(2)] m(3) geo by simp
  ultimately show ?thesis by simp
qed

theorem ba_alloc_dealloc_witness:
  "\<exists>s2. ba_dealloc full_heap HEAP_START HEAP_SIZE 1 = Some s2 \<and> ba_free s2 = {(0, HEAP_START)}"
proof -
  have F: "ba_free (boot_heap (\<lambda>_. None)) = {(0, HEAP_START)}"
    using coalesced_all_free [OF heap_okD(4,2,3) [OF boot_ok [OF refl]]] by simp
  have "ba_alloc (boot_heap (\<lambda>_. None)) HEAP_SIZE 1 = Some (HEAP_START, full_heap)"
    using ba_alloc_level [of 16777216 "boot_heap (\<lambda>_. None)" 1 0]
    by (simp add: full_heap_get ba_level_whole next_pow2_heap_size HEAP_SIZE_def)
  from ba_alloc_dealloc [OF boot_ok [OF refl] _ this] show ?thesis
    by (auto simp: F HEAP_START_def HEAP_SIZE_def)
qed



end
