(* ===== verification/DoubleFreeList.thy ===== *)
theory DoubleFreeList
  imports FreeList
begin

text \<open>
  \<^verbatim>\<open>kernel/src/memory/freelist.rs\<close>, the doubly linked \<^verbatim>\<open>DoubleFreeList\<close> of the frame allocator.  Its
  nodes live in an array of page descriptors (\<^verbatim>\<open>DoubleFreeListNode\<close>), here a function from
  descriptor addresses to records.  The links of a list, the back links and the \<^verbatim>\<open>level_size\<close> tags
  form the representation invariant \<open>dfl_ok\<close>; the lemmas give the effect of every operation on the
  sequence of nodes a list holds and on the memory outside of it.
\<close>

section \<open>The code\<close>

record dnode =
  dn_next :: "addr option"
  dn_prev :: "addr option"
  dn_level_size :: "nat option"

type_synonym dmem = "addr \<Rightarrow> dnode"

record double_free_list =
  dfl_next :: "addr option"
  dfl_prev :: "addr option"
  dfl_len :: nat

definition dfl_new :: double_free_list where
  "dfl_new = \<lparr>dfl_next = None, dfl_prev = None, dfl_len = 0\<rparr>"

definition set_next :: "addr \<Rightarrow> addr option \<Rightarrow> dmem \<Rightarrow> dmem" where
  "set_next a v m = m(a := (m a)\<lparr>dn_next := v\<rparr>)"

definition set_prev :: "addr \<Rightarrow> addr option \<Rightarrow> dmem \<Rightarrow> dmem" where
  "set_prev a v m = m(a := (m a)\<lparr>dn_prev := v\<rparr>)"

definition set_level_size :: "addr \<Rightarrow> nat option \<Rightarrow> dmem \<Rightarrow> dmem" where
  "set_level_size a v m = m(a := (m a)\<lparr>dn_level_size := v\<rparr>)"

definition dfl_push ::
  "double_free_list \<Rightarrow> addr \<Rightarrow> nat \<Rightarrow> dmem \<Rightarrow> (double_free_list \<times> dmem) rust" where
  "dfl_push fl node level_size m = do {
     let m = (case dfl_next fl of Some old_head \<Rightarrow> set_prev old_head (Some node) m | None \<Rightarrow> m);
     let m = set_next node (dfl_next fl) m;
     let m = set_prev node None m;
     let m = set_level_size node (Some level_size) m;
     let fl = fl\<lparr>dfl_next := Some node\<rparr>;
     len \<leftarrow> usize_add (dfl_len fl) 1;
     Some (fl\<lparr>dfl_len := len\<rparr>, m)
   }"

definition dfl_pop :: "double_free_list \<Rightarrow> dmem \<Rightarrow> (addr option \<times> double_free_list \<times> dmem) rust" where
  "dfl_pop fl m = (case dfl_next fl of
     Some node \<Rightarrow> do {
       let fl = fl\<lparr>dfl_next := dn_next (m node)\<rparr>;
       let m = (case dfl_next fl of Some next_node \<Rightarrow> set_prev next_node None m | None \<Rightarrow> m);
       let m = set_next node None m;
       let m = set_prev node None m;
       let m = set_level_size node None m;
       len \<leftarrow> usize_sub (dfl_len fl) 1;
       Some (Some node, fl\<lparr>dfl_len := len\<rparr>, m)
     }
   | None \<Rightarrow> Some (None, fl, m))"

definition dfl_is_empty :: "double_free_list \<Rightarrow> bool" where
  "dfl_is_empty fl \<longleftrightarrow> dfl_len fl = 0"

definition dfl_remove :: "double_free_list \<Rightarrow> addr \<Rightarrow> dmem \<Rightarrow> (double_free_list \<times> dmem) rust" where
  "dfl_remove fl node m = do {
     let (fl, m) = (case dn_prev (m node) of
         Some prev \<Rightarrow> (fl, set_next prev (dn_next (m node)) m)
       | None \<Rightarrow> (fl\<lparr>dfl_next := dn_next (m node)\<rparr>, m));
     let m = (case dn_next (m node) of
         Some next \<Rightarrow> set_prev next (dn_prev (m node)) m
       | None \<Rightarrow> m);
     let m = set_next node None m;
     let m = set_prev node None m;
     let m = set_level_size node None m;
     len \<leftarrow> usize_sub (dfl_len fl) 1;
     Some (fl\<lparr>dfl_len := len\<rparr>, m)
   }"

definition dfl_contains :: "addr \<Rightarrow> nat \<Rightarrow> dmem \<Rightarrow> bool" where
  "dfl_contains node level_size m \<longleftrightarrow>
     (case dn_level_size (m node) of Some sz \<Rightarrow> sz = level_size | None \<Rightarrow> False)"

section \<open>Doubly linked segments\<close>

text \<open>
  \<open>dseg m p xs n\<close>: the nodes \<open>xs\<close> are linked in both directions, the first one points back to \<open>p\<close>
  and the last one on to \<open>n\<close>.
\<close>

definition first_or :: "addr option \<Rightarrow> addr list \<Rightarrow> addr option" where
  "first_or n xs = (case xs of [] \<Rightarrow> n | a # _ \<Rightarrow> Some a)"

definition last_or :: "addr option \<Rightarrow> addr list \<Rightarrow> addr option" where
  "last_or p xs = (if xs = [] then p else Some (last xs))"

primrec dseg :: "dmem \<Rightarrow> addr option \<Rightarrow> addr list \<Rightarrow> addr option \<Rightarrow> bool" where
  "dseg m p [] n \<longleftrightarrow> True"
| "dseg m p (a # as) n \<longleftrightarrow>
     dn_prev (m a) = p \<and> dn_next (m a) = first_or n as \<and> dseg m (Some a) as n"

definition dfl_items :: "double_free_list \<Rightarrow> dmem \<Rightarrow> addr list" where
  "dfl_items fl m = walk (dfl_len fl) (\<lambda>a. dn_next (m a)) (dfl_next fl)"

definition dfl_repr :: "nat \<Rightarrow> double_free_list \<Rightarrow> dmem \<Rightarrow> addr list \<Rightarrow> bool" where
  "dfl_repr ls fl m xs \<longleftrightarrow> dfl_next fl = first_or None xs \<and> dseg m None xs None \<and>
     length xs = dfl_len fl \<and> (\<forall>a \<in> set xs. dn_level_size (m a) = Some ls)"

definition dfl_ok :: "nat \<Rightarrow> double_free_list \<Rightarrow> dmem \<Rightarrow> bool" where
  "dfl_ok ls fl m \<longleftrightarrow> dfl_repr ls fl m (dfl_items fl m)"

lemma first_or_simps [simp]:
  "first_or n [] = n" "first_or n (a # as) = Some a"
  "first_or n (us @ vs) = first_or (first_or n vs) us"
  by (auto simp: first_or_def split: list.split)

lemma last_or_simps [simp]:
  "last_or p [] = p" "last_or p (us @ [a]) = Some a" "last_or p (a # us) = last_or (Some a) us"
  by (auto simp: last_or_def)

lemma first_or_None [simp]: "first_or None xs = None \<longleftrightarrow> xs = []"
  by (cases xs) auto

lemma dnode_overwrite [simp]:
  "(r :: dnode)\<lparr>dn_next := n, dn_prev := p, dn_level_size := l\<rparr> =
     \<lparr>dn_next = n, dn_prev = p, dn_level_size = l\<rparr>"
  by (cases r) simp

lemma dseg_append:
  "dseg m p (us @ vs) n \<longleftrightarrow> dseg m p us (first_or n vs) \<and> dseg m (last_or p us) vs n"
  by (induction us arbitrary: p) auto

lemma dseg_cong:
  "dseg m p xs n \<Longrightarrow>
    (\<And>a. a \<in> set xs \<Longrightarrow> dn_next (m' a) = dn_next (m a) \<and> dn_prev (m' a) = dn_prev (m a)) \<Longrightarrow>
    dseg m' p xs n"
  by (induction xs arbitrary: p) auto

lemma dseg_linked: "dseg m p xs None \<Longrightarrow> linked (\<lambda>a. dn_next (m a)) (first_or None xs) xs"
  by (induction xs arbitrary: p) auto

lemma dseg_set_prev:
  assumes "dseg m p (b # vs) n" and "b \<notin> set vs"
  shows "dseg (set_prev b p' m) p' (b # vs) n"
  using assms by (auto simp: set_prev_def intro: dseg_cong [of m])

lemma dseg_set_next:
  assumes "dseg m p (us @ [q]) n" and "q \<notin> set us"
  shows "dseg (set_next q n' m) p (us @ [q]) n'"
  using assms by (auto simp: dseg_append set_next_def intro: dseg_cong [of m])

lemma dfl_repr_distinct: "dfl_repr ls fl m xs \<Longrightarrow> distinct xs"
  unfolding dfl_repr_def by (metis dseg_linked linked_distinct)

lemma dfl_repr_items:
  assumes "dfl_repr ls fl m xs"
  shows "dfl_items fl m = xs" and "dfl_ok ls fl m"
proof -
  show "dfl_items fl m = xs"
    using assms walk_linked [OF dseg_linked, of m None xs] by (simp add: dfl_repr_def dfl_items_def)
  with assms show "dfl_ok ls fl m" by (simp add: dfl_ok_def)
qed

lemma dfl_repr_cong:
  assumes "dfl_repr ls fl m xs" and "\<And>a. a \<in> set xs \<Longrightarrow> m' a = m a"
  shows "dfl_repr ls fl m' xs"
  using assms dseg_cong [of m None xs None m'] by (simp add: dfl_repr_def)

section \<open>What the operations do\<close>

lemma dfl_new_repr: "dfl_repr ls dfl_new m []"
  by (simp add: dfl_repr_def dfl_new_def)

text \<open>\<open>push\<close> puts an unlisted node in front and tags it with the level.\<close>

lemma dfl_push_repr:
  assumes r: "dfl_repr ls fl m xs" and node: "node \<notin> set xs" and n: "Suc (dfl_len fl) < usize_bound"
  shows "\<exists>fl' m'. dfl_push fl node ls m = Some (fl', m') \<and> dfl_repr ls fl' m' (node # xs) \<and>
    (\<forall>a. a \<notin> insert node (set xs) \<longrightarrow> m' a = m a) \<and>
    (\<forall>a. a \<noteq> node \<longrightarrow> dn_level_size (m' a) = dn_level_size (m a))"
proof -
  define m1 where "m1 = (case dfl_next fl of Some h \<Rightarrow> set_prev h (Some node) m | None \<Rightarrow> m)"
  define m2 where "m2 = m1(node := \<lparr>dn_next = dfl_next fl, dn_prev = None, dn_level_size = Some ls\<rparr>)"
  define fl' where "fl' = fl\<lparr>dfl_next := Some node, dfl_len := Suc (dfl_len fl)\<rparr>"
  have h: "dfl_next fl = first_or None xs" using r by (simp add: dfl_repr_def)
  have "dseg m1 (Some node) xs None"
  proof (cases xs)
    case (Cons b vs)
    with r dfl_repr_distinct [OF r] show ?thesis
      using dseg_set_prev [of m None b vs None "Some node"] by (simp add: m1_def dfl_repr_def)
  qed simp
  moreover have "\<forall>a \<in> set xs. m2 a = m1 a" using node by (auto simp: m2_def)
  ultimately have "dseg m2 (Some node) xs None" by (auto intro: dseg_cong [of m1])
  moreover have "\<forall>a. a \<notin> insert node (set xs) \<longrightarrow> m2 a = m a"
    using h by (cases xs) (auto simp: m2_def m1_def set_prev_def)
  moreover have ls: "\<forall>a. a \<noteq> node \<longrightarrow> dn_level_size (m2 a) = dn_level_size (m a)"
    by (auto simp: m2_def m1_def set_prev_def split: option.split)
  moreover have "\<forall>a \<in> set xs. dn_level_size (m2 a) = Some ls"
    using r node ls unfolding dfl_repr_def by metis
  moreover have "dfl_push fl node ls m = Some (fl', m2)"
    using n by (simp add: dfl_push_def fl'_def m2_def m1_def [symmetric]
      set_next_def set_prev_def set_level_size_def fun_upd_twist)
  ultimately show ?thesis using r h
    by (intro exI [of _ fl'] exI [of _ m2]) (simp add: dfl_repr_def fl'_def m2_def)
qed

text \<open>\<open>remove\<close> unlinks a node wherever it stands in the list.\<close>

lemma dfl_remove_repr:
  assumes r: "dfl_repr ls fl m (us @ node # vs)"
  shows "\<exists>fl' m'. dfl_remove fl node m = Some (fl', m') \<and> dfl_repr ls fl' m' (us @ vs) \<and>
    dn_level_size (m' node) = None \<and>
    (\<forall>a. a \<notin> set (us @ node # vs) \<longrightarrow> m' a = m a) \<and>
    (\<forall>a. a \<noteq> node \<longrightarrow> dn_level_size (m' a) = dn_level_size (m a))"
proof -
  have d: "distinct (us @ node # vs)" using dfl_repr_distinct [OF r] .
  have prv: "dn_prev (m node) = last_or None us" and nxt: "dn_next (m node) = first_or None vs"
    and su: "dseg m None us (Some node)" and sv: "dseg m (Some node) vs None"
    using r by (simp_all add: dfl_repr_def dseg_append)
  define m1 where "m1 = (if us = [] then m else set_next (last us) (first_or None vs) m)"
  define m2 where "m2 = (case vs of b # _ \<Rightarrow> set_prev b (last_or None us) m1 | [] \<Rightarrow> m1)"
  define m3 where "m3 = m2(node := \<lparr>dn_next = None, dn_prev = None, dn_level_size = None\<rparr>)"
  define fl' where "fl' = fl\<lparr>dfl_next := first_or (first_or None vs) us, dfl_len := dfl_len fl - 1\<rparr>"
  have m1: "m1 a = m a" if "a \<notin> set us" for a using that by (auto simp: m1_def set_next_def)
  have m2: "m2 a = m1 a" if "a \<notin> set vs" for a using that by (auto simp: m2_def set_prev_def split: list.split)
  have "dseg m1 None us (first_or None vs)"
  proof (cases us rule: rev_cases)
    case (snoc us' q)
    with d su show ?thesis using dseg_set_next [of m None us' q "Some node"] by (simp add: m1_def)
  qed (simp add: m1_def)
  then have "dseg m3 None us (first_or None vs)"
    by (rule dseg_cong) (use d m2 in \<open>auto simp: m3_def disjoint_iff\<close>)
  moreover have "\<forall>a \<in> set vs. m1 a = m a" using d m1 by auto
  then have "dseg m1 (Some node) vs None" using sv by (auto intro: dseg_cong [of m])
  then have "dseg m2 (last_or None us) vs None"
    by (cases vs) (use d dseg_set_prev [of m1 "Some node"] in \<open>auto simp: m2_def\<close>)
  then have "dseg m3 (last_or None us) vs None" by (rule dseg_cong) (use d in \<open>auto simp: m3_def\<close>)
  moreover have fr: "\<forall>a. a \<notin> set (us @ node # vs) \<longrightarrow> m3 a = m a"
    using m1 m2 by (simp add: m3_def)
  moreover have ls: "\<forall>a. a \<noteq> node \<longrightarrow> dn_level_size (m3 a) = dn_level_size (m a)"
    by (auto simp: m3_def m2_def m1_def set_prev_def set_next_def split: list.split)
  moreover have "\<forall>a \<in> set (us @ vs). dn_level_size (m3 a) = Some ls"
    using r ls d by (auto simp: dfl_repr_def)
  moreover have "dfl_remove fl node m = Some (fl', m3)"
  proof -
    have "m1 node = m node" "m2 node = m node" using d m1 m2 by simp_all
    moreover have "1 \<le> dfl_len fl" using r by (auto simp: dfl_repr_def)
    ultimately show ?thesis
      using prv nxt d r by (cases us rule: rev_cases; cases vs)
        (simp_all add: dfl_remove_def fl'_def m3_def m2_def m1_def set_next_def set_prev_def
          set_level_size_def dfl_repr_def fun_upd_twist)
  qed
  moreover have "dn_level_size (m3 node) = None" by (simp add: m3_def)
  moreover have "length (us @ vs) = dfl_len fl - 1" using r by (auto simp: dfl_repr_def)
  moreover have "dfl_repr ls fl' m3 (us @ vs)"
    using calculation by (simp add: dfl_repr_def dseg_append fl'_def)
  ultimately show ?thesis by blast
qed

text \<open>\<open>pop\<close> returns the first node and unlinks it.\<close>

lemma dfl_pop_Nil: "dfl_repr ls fl m [] \<Longrightarrow> dfl_pop fl m = Some (None, fl, m)"
  by (simp add: dfl_pop_def dfl_repr_def)

lemma dfl_pop_remove:
  assumes "dfl_repr ls fl m (node # vs)"
  shows "dfl_pop fl m = map_option (\<lambda>(fl', m'). (Some node, fl', m')) (dfl_remove fl node m)"
  using assms by (cases vs)
    (simp_all add: dfl_repr_def dfl_pop_def dfl_remove_def set_prev_def Let_def)

lemma dfl_pop_repr:
  assumes r: "dfl_repr ls fl m (node # vs)"
  shows "\<exists>fl' m'. dfl_pop fl m = Some (Some node, fl', m') \<and> dfl_repr ls fl' m' vs \<and>
    dn_level_size (m' node) = None \<and>
    (\<forall>a. a \<notin> set (node # vs) \<longrightarrow> m' a = m a) \<and>
    (\<forall>a. a \<noteq> node \<longrightarrow> dn_level_size (m' a) = dn_level_size (m a))"
  using dfl_remove_repr [of ls fl m "[]" node vs] dfl_pop_remove [OF r] r by fastforce

end
