(* ===== verification/Mapper.thy ===== *)
theory Mapper
  imports Prelude
begin

text \<open>
  What the kernel uses of the \<^verbatim>\<open>x86_64\<close> crate's page tables and of the global frame allocator when it
  maps and unmaps pages.  The crate is not part of the sources, so its operations are parameters: a
  record \<open>mm\<close> of functions over an abstract memory-management state \<open>'k\<close>.  \<open>mapper_spec\<close> is the documented
  behaviour the callers rely on, relative to the translation \<open>xlate\<close> that the page table implements.
  The loops over page ranges that several callers share are defined here once.
\<close>

section \<open>The interface\<close>

datatype map_error = FrameAllocationFailed | ParentEntryHugePage | PageAlreadyMapped

record pt_flags =
  PRESENT :: bool
  WRITABLE :: bool
  USER_ACCESSIBLE :: bool
  NO_CACHE :: bool
  NO_EXECUTE :: bool

definition kernel_rw :: pt_flags where
  "kernel_rw = \<lparr>PRESENT = True, WRITABLE = True, USER_ACCESSIBLE = False, NO_CACHE = False, NO_EXECUTE = False\<rparr>"

definition user_rw :: pt_flags where
  "user_rw = \<lparr>PRESENT = True, WRITABLE = True, USER_ACCESSIBLE = True, NO_CACHE = False, NO_EXECUTE = False\<rparr>"

record 'k mm =
  mm_allocate_frame :: "'k \<Rightarrow> (addr option \<times> 'k) rust"
  mm_deallocate_frame :: "'k \<Rightarrow> addr \<Rightarrow> 'k rust"
  mm_map_to :: "'k \<Rightarrow> addr \<Rightarrow> addr \<Rightarrow> pt_flags \<Rightarrow> (map_error option \<times> 'k) rust"
  mm_unmap :: "'k \<Rightarrow> addr \<Rightarrow> (addr option \<times> 'k) rust"

text \<open>
  \<^verbatim>\<open>map_to\<close> succeeds only on an unmapped page and then adds exactly that translation; \<^verbatim>\<open>unmap\<close> succeeds only
  on a mapped page, returns its frame and removes exactly that translation; failures change no
  translation, and neither do the frame allocator's operations.  None of them panics on such calls;
  frames are given back only when a page was unmapped from them.
\<close>

definition mapper_spec :: "'k mm \<Rightarrow> ('k \<Rightarrow> addr \<Rightarrow> addr option) \<Rightarrow> bool" where
  "mapper_spec mm xlate \<longleftrightarrow>
     (\<forall>k. \<exists>r k'. mm_allocate_frame mm k = Some (r, k') \<and> xlate k' = xlate k) \<and>
     (\<forall>k p f k'. mm_unmap mm k p = Some (Some f, k') \<longrightarrow>
        (\<exists>k''. mm_deallocate_frame mm k' f = Some k'' \<and> xlate k'' = xlate k')) \<and>
     (\<forall>k p f fl. \<exists>r k'. mm_map_to mm k p f fl = Some (r, k') \<and>
        (if r = None then xlate k p = None \<and> xlate k' = (xlate k)(p \<mapsto> f) else xlate k' = xlate k) \<and>
        (xlate k p \<noteq> None \<longrightarrow> r \<noteq> None)) \<and>
     (\<forall>k p. \<exists>r k'. mm_unmap mm k p = Some (r, k') \<and> r = xlate k p \<and> xlate k' = (xlate k)(p := None))"

lemma mapper_specD:
  assumes "mapper_spec mm xlate"
  shows "\<exists>r k'. mm_allocate_frame mm k = Some (r, k') \<and> xlate k' = xlate k"
    and "mm_unmap mm k p = Some (Some f, k1) \<Longrightarrow>
      \<exists>k2. mm_deallocate_frame mm k1 f = Some k2 \<and> xlate k2 = xlate k1"
    and "\<exists>r k'. mm_map_to mm k p f fl = Some (r, k') \<and>
      (if r = None then xlate k p = None \<and> xlate k' = (xlate k)(p \<mapsto> f) else xlate k' = xlate k) \<and>
      (xlate k p \<noteq> None \<longrightarrow> r \<noteq> None)"
    and "\<exists>k'. mm_unmap mm k p = Some (xlate k p, k') \<and> xlate k' = (xlate k)(p := None)"
  using assms unfolding mapper_spec_def by blast+

section \<open>Page ranges\<close>

text \<open>\<^verbatim>\<open>(start..end).step_by(step)\<close>.\<close>

definition step_range :: "nat \<Rightarrow> nat \<Rightarrow> nat \<Rightarrow> nat list" where
  "step_range a b st = map (\<lambda>i. a + i * st) [0 ..< (b - a + st - 1) div st]"

lemma step_range_mult:
  "0 < st \<Longrightarrow> step_range a (a + n * st) st = map (\<lambda>i. a + i * st) [0 ..< n]"
proof -
  assume st: "0 < st"
  have "n * st + st - 1 = (st - 1) + n * st" using st by simp
  moreover have "((st - 1) + n * st) div st = n" using st by (subst div_mult_self1) simp_all
  ultimately have "(n * st + st - 1) div st = n" by (rule ssubst)
  then show ?thesis by (simp add: step_range_def)
qed

lemma step_range_distinct: "0 < st \<Longrightarrow> distinct (step_range a b st)"
  by (auto simp: step_range_def distinct_map inj_on_def)

text \<open>
  Allocate a frame for each page and map it; stop at the first error, leaving what was mapped so far.
\<close>

fun map_pages_loop :: "'k mm \<Rightarrow> pt_flags \<Rightarrow> addr list \<Rightarrow> 'k \<Rightarrow> (map_error option \<times> 'k) rust" where
  "map_pages_loop mm fl [] k = Some (None, k)"
| "map_pages_loop mm fl (page # pages) k = do {
     (frame, k) \<leftarrow> mm_allocate_frame mm k;
     case frame of
       None \<Rightarrow> Some (Some FrameAllocationFailed, k)
     | Some frame \<Rightarrow> do {
         (r, k) \<leftarrow> mm_map_to mm k page frame fl;
         case r of Some e \<Rightarrow> Some (Some e, k) | None \<Rightarrow> map_pages_loop mm fl pages k
       }
   }"

text \<open>Unmap each page and give its frame back; stop at the first page that is not mapped.\<close>

fun unmap_pages_loop :: "'k mm \<Rightarrow> addr list \<Rightarrow> 'k \<Rightarrow> (bool \<times> 'k) rust" where
  "unmap_pages_loop mm [] k = Some (True, k)"
| "unmap_pages_loop mm (page # pages) k = do {
     (r, k) \<leftarrow> mm_unmap mm k page;
     case r of
       None \<Rightarrow> Some (False, k)
     | Some frame \<Rightarrow> do {
         k \<leftarrow> mm_deallocate_frame mm k frame;
         unmap_pages_loop mm pages k
       }
   }"

lemma map_pages_loop_ok:
  assumes sp: "mapper_spec mm xlate" and d: "distinct pages"
  shows "\<exists>r k'. map_pages_loop mm fl pages k = Some (r, k') \<and>
    (\<forall>q. q \<notin> set pages \<longrightarrow> xlate k' q = xlate k q) \<and>
    (r = None \<longrightarrow> (\<forall>q \<in> set pages. xlate k q = None \<and> xlate k' q \<noteq> None)) \<and>
    (r \<noteq> None \<longrightarrow> dom (xlate k) \<subseteq> dom (xlate k'))"
  using d
proof (induction pages arbitrary: k)
  case (Cons p ps)
  obtain f k1 where f: "mm_allocate_frame mm k = Some (f, k1)" "xlate k1 = xlate k"
    using mapper_specD(1) [OF sp] by blast
  show ?case
  proof (cases f)
    case None
    then show ?thesis using f by auto
  next
    case (Some fr)
    obtain r k2 where m: "mm_map_to mm k1 p fr fl = Some (r, k2)"
        "if r = None then xlate k1 p = None \<and> xlate k2 = (xlate k1)(p \<mapsto> fr) else xlate k2 = xlate k1"
      using mapper_specD(3) [OF sp] by blast
    show ?thesis
    proof (cases r)
      case None
      obtain r' k' where ih: "map_pages_loop mm fl ps k2 = Some (r', k')"
          "\<forall>q. q \<notin> set ps \<longrightarrow> xlate k' q = xlate k2 q"
          "r' = None \<longrightarrow> (\<forall>q \<in> set ps. xlate k2 q = None \<and> xlate k' q \<noteq> None)"
          "r' \<noteq> None \<longrightarrow> dom (xlate k2) \<subseteq> dom (xlate k')"
        using Cons.IH [of k2] Cons.prems by auto
      have "map_pages_loop mm fl (p # ps) k = Some (r', k')" using f(1) Some m(1) None ih(1) by simp
      moreover have "\<forall>q \<in> set ps. xlate k2 q = xlate k q" using m(2) None f(2) Cons.prems by auto
      moreover have "xlate k p = None" "xlate k2 = (xlate k)(p \<mapsto> fr)" using m(2) None f(2) by auto
      ultimately show ?thesis using ih(2-4) Cons.prems
        by (intro exI [of _ r'] exI [of _ k']) (auto simp: subset_iff domIff)
    next
      case (Some e)
      then show ?thesis using f \<open>f = Some fr\<close> m by auto
    qed
  qed
qed simp

lemma unmap_pages_loop_ok:
  assumes sp: "mapper_spec mm xlate" and d: "distinct pages"
  shows "\<exists>r k'. unmap_pages_loop mm pages k = Some (r, k') \<and>
    (\<forall>q. q \<notin> set pages \<longrightarrow> xlate k' q = xlate k q) \<and>
    (r = (\<forall>q \<in> set pages. xlate k q \<noteq> None)) \<and> (r \<longrightarrow> (\<forall>q \<in> set pages. xlate k' q = None))"
  using d
proof (induction pages arbitrary: k)
  case (Cons p ps)
  obtain k1 where u: "mm_unmap mm k p = Some (xlate k p, k1)" "xlate k1 = (xlate k)(p := None)"
    using mapper_specD(4) [OF sp] by blast
  show ?case
  proof (cases "xlate k p")
    case None
    then have "xlate k1 = xlate k" using u(2) by auto
    then show ?thesis using u(1) None by auto
  next
    case (Some f)
    obtain k2 where dk: "mm_deallocate_frame mm k1 f = Some k2" "xlate k2 = xlate k1"
      using mapper_specD(2) [OF sp] u(1) Some by metis
    obtain r k' where ih: "unmap_pages_loop mm ps k2 = Some (r, k')"
        "\<forall>q. q \<notin> set ps \<longrightarrow> xlate k' q = xlate k2 q" "r = (\<forall>q \<in> set ps. xlate k2 q \<noteq> None)"
        "r \<longrightarrow> (\<forall>q \<in> set ps. xlate k' q = None)"
      using Cons.IH [of k2] Cons.prems by auto
    have "unmap_pages_loop mm (p # ps) k = Some (r, k')" using u(1) Some dk(1) ih(1) by simp
    moreover have "\<forall>q \<in> set ps. xlate k2 q = xlate k q" using u(2) dk(2) Cons.prems by auto
    ultimately show ?thesis using ih(2-4) u(2) dk(2) Some Cons.prems
      by (intro exI [of _ r] exI [of _ k']) auto
  qed
qed (auto intro: exI [of _ True])

section \<open>An instance\<close>

text \<open>A page table that is a map, with a frame allocator that counts upwards.\<close>

definition bump_mm :: "((addr \<Rightarrow> addr option) \<times> addr) mm" where
  "bump_mm = \<lparr>mm_allocate_frame = (\<lambda>(t, f). Some (Some f, (t, f + 4096))),
     mm_deallocate_frame = (\<lambda>k _. Some k),
     mm_map_to = (\<lambda>(t, f) p fr _. Some (if t p = None then (None, (t(p \<mapsto> fr), f)) else (Some PageAlreadyMapped, (t, f)))),
     mm_unmap = (\<lambda>(t, f) p. Some (t p, (t(p := None), f)))\<rparr>"

lemma bump_mm_spec: "mapper_spec bump_mm fst"
  by (auto simp: mapper_spec_def bump_mm_def)

end
