(* ===== verification/PageAllocator.thy ===== *)
theory PageAllocator
  imports Buddy_Interface Mapper
begin

text \<open>
  \<^verbatim>\<open>kernel/src/memory/alloc.rs\<close>, the virtual-page allocator \<^verbatim>\<open>PageAllocator\<close>.  Its free lists are
  \<^verbatim>\<open>VecDeque\<close>s of addresses, here HOL lists; mapping and unmapping the pages goes through the interface
  of \<open>Mapper\<close>.  The allocator is an instance of \<open>buddy_allocator\<close> with coalesced free lists.
\<close>

section \<open>The code\<close>

record page_allocator =
  pa_heap_start :: addr
  pa_heap_end :: addr
  pa_levels :: nat
  pa_free_lists :: "addr list list"

record page_alloc_layout =
  pl_page :: addr
  pl_length :: nat

definition PAGEALLOC_START :: addr where
  "PAGEALLOC_START = 0xFFFF900000000000"

definition pa_new :: "addr \<Rightarrow> addr \<Rightarrow> nat \<Rightarrow> page_allocator rust" where
  "pa_new virt_start virt_end levels = do {
     rust_assert (virt_start mod 4096 = 0);
     rust_assert (virt_end mod 4096 = 0);
     region_size \<leftarrow> usize_sub virt_end virt_start;
     n \<leftarrow> usize_sub levels 1;
     pages \<leftarrow> usize_shl 1 n;
     expected_size \<leftarrow> usize_mul pages 4096;
     rust_assert (region_size = expected_size);
     let free_lists = replicate levels [];
     l0 \<leftarrow> vec_get free_lists 0;
     start \<leftarrow> non_null virt_start;
     Some \<lparr>pa_heap_start = virt_start, pa_heap_end = virt_end, pa_levels = levels,
       pa_free_lists = free_lists[0 := l0 @ [start]]\<rparr>
   }"

text \<open>The loop that rounds the RAM size up; the shift drops the top bit, so it need not end.\<close>

partial_function (option) pagealloc_size_loop :: "nat \<Rightarrow> nat \<Rightarrow> nat option" where
  "pagealloc_size_loop avail sz =
     (if sz < avail then pagealloc_size_loop avail ((sz * 2) mod usize_bound) else Some sz)"

definition init_page_allocator :: "page_allocator option \<Rightarrow> nat \<Rightarrow> page_allocator rust" where
  "init_page_allocator cur available_ram_bytes = do {
     rust_assert (cur = None);
     pagealloc_size \<leftarrow> pagealloc_size_loop available_ram_bytes 4096;
     pagealloc_end \<leftarrow> usize_add PAGEALLOC_START pagealloc_size;
     let page_count = pagealloc_size div 4096;
     pow \<leftarrow> usize_next_power_of_two page_count;
     let levels = trailing_zeros pow + 1;
     virt_start \<leftarrow> virt_addr_new PAGEALLOC_START;
     virt_end \<leftarrow> virt_addr_new pagealloc_end;
     pa_new virt_start virt_end levels
   }"

definition pa_max_size :: "page_allocator \<Rightarrow> nat rust" where
  "pa_max_size a = usize_sub (pa_heap_end a) (pa_heap_start a)"

definition pa_block_size :: "page_allocator \<Rightarrow> nat \<Rightarrow> nat rust" where
  "pa_block_size a level = do { m \<leftarrow> pa_max_size a; usize_shr m level }"

function level_loop :: "nat \<Rightarrow> nat \<Rightarrow> nat \<Rightarrow> nat \<Rightarrow> nat \<times> nat" where
  "level_loop levels sz level block_size =
     (if block_size > sz \<and> level + 1 < levels
      then level_loop levels sz (level + 1) (block_size div 2) else (level, block_size))"
  by pat_completeness auto
termination by (relation "measure (\<lambda>(levels, _, level, _). levels - level)") auto

declare level_loop.simps [simp del]

definition pa_get_level_from_size :: "page_allocator \<Rightarrow> nat \<Rightarrow> nat option rust" where
  "pa_get_level_from_size a sz = do {
     m \<leftarrow> pa_max_size a;
     let (level, block_size) = level_loop (pa_levels a) sz 0 m;
     Some (if sz > block_size then None else Some level)
   }"

text \<open>\<^verbatim>\<open>pop_front\<close> and \<^verbatim>\<open>push_back\<close> on the deque of a level, and \<^verbatim>\<open>position\<close> and \<^verbatim>\<open>remove\<close> on a deque.\<close>

definition pa_list_pop :: "page_allocator \<Rightarrow> nat \<Rightarrow> (addr option \<times> page_allocator) rust" where
  "pa_list_pop a level = do {
     xs \<leftarrow> vec_get (pa_free_lists a) level;
     Some (case xs of [] \<Rightarrow> (None, a)
       | x # xs \<Rightarrow> (Some x, a\<lparr>pa_free_lists := (pa_free_lists a)[level := xs]\<rparr>))
   }"

definition pa_list_push :: "page_allocator \<Rightarrow> nat \<Rightarrow> addr \<Rightarrow> page_allocator rust" where
  "pa_list_push a level ptr = do {
     xs \<leftarrow> vec_get (pa_free_lists a) level;
     Some (a\<lparr>pa_free_lists := (pa_free_lists a)[level := xs @ [ptr]]\<rparr>)
   }"

primrec vd_position :: "'a \<Rightarrow> 'a list \<Rightarrow> nat option" where
  "vd_position p [] = None"
| "vd_position p (x # xs) = (if x = p then Some 0 else map_option Suc (vd_position p xs))"

definition vd_remove :: "nat \<Rightarrow> 'a list \<Rightarrow> 'a list" where
  "vd_remove i xs = take i xs @ drop (Suc i) xs"

definition pa_list_remove :: "page_allocator \<Rightarrow> nat \<Rightarrow> nat \<Rightarrow> page_allocator rust" where
  "pa_list_remove a level pos = do {
     xs \<leftarrow> vec_get (pa_free_lists a) level;
     Some (a\<lparr>pa_free_lists := (pa_free_lists a)[level := vd_remove pos xs]\<rparr>)
   }"

definition pa_split_buddy :: "page_allocator \<Rightarrow> nat \<Rightarrow> addr \<Rightarrow> addr rust" where
  "pa_split_buddy a level block = do {
     block_size \<leftarrow> pa_block_size a level;
     buddy_addr \<leftarrow> usize_add block block_size;
     non_null buddy_addr
   }"

definition pa_buddy :: "page_allocator \<Rightarrow> nat \<Rightarrow> addr \<Rightarrow> addr rust" where
  "pa_buddy a level ptr = do {
     block_size \<leftarrow> pa_block_size a level;
     offset \<leftarrow> usize_sub ptr (pa_heap_start a);
     buddy_addr \<leftarrow> usize_add (pa_heap_start a) (offset XOR block_size);
     non_null buddy_addr
   }"

function pa_get_free_block :: "page_allocator \<Rightarrow> nat \<Rightarrow> (addr option \<times> page_allocator) rust"
  and pa_split_level :: "page_allocator \<Rightarrow> nat \<Rightarrow> (addr option \<times> page_allocator) rust" where
  "pa_get_free_block a level = do {
     (r, a) \<leftarrow> pa_list_pop a level;
     case r of Some block \<Rightarrow> Some (Some block, a) | None \<Rightarrow> pa_split_level a level
   }"
| "pa_split_level a level = (if level = 0 then Some (None, a) else do {
     (r, a) \<leftarrow> pa_get_free_block a (level - 1);
     case r of
       Some block \<Rightarrow> do {
         buddy_ptr \<leftarrow> pa_split_buddy a level block;
         a \<leftarrow> pa_list_push a level buddy_ptr;
         Some (Some block, a)
       }
     | None \<Rightarrow> Some (None, a)
   })"
  by pat_completeness auto
termination
  by (relation "measure (\<lambda>x. case x of Inl (_, l) \<Rightarrow> 2 * l + 1 | Inr (_, l) \<Rightarrow> 2 * l)") auto

fun pa_merge_buddies :: "page_allocator \<Rightarrow> nat \<Rightarrow> addr \<Rightarrow> page_allocator rust" where
  "pa_merge_buddies a level ptr = (if level = 0 then pa_list_push a level ptr else do {
     buddy_ptr \<leftarrow> pa_buddy a level ptr;
     xs \<leftarrow> vec_get (pa_free_lists a) level;
     case vd_position buddy_ptr xs of
       Some pos \<Rightarrow> do {
         a \<leftarrow> pa_list_remove a level pos;
         let merged_ptr = (if buddy_ptr < ptr then buddy_ptr else ptr);
         pa_merge_buddies a (level - 1) merged_ptr
       }
     | None \<Rightarrow> pa_list_push a level ptr
   })"

declare pa_get_free_block.simps [simp del] pa_split_level.simps [simp del] pa_merge_buddies.simps [simp del]

definition allocate_pages ::
  "'k mm \<Rightarrow> page_allocator \<Rightarrow> nat \<Rightarrow> 'k \<Rightarrow> ((map_error + page_alloc_layout) \<times> page_allocator \<times> 'k) rust" where
  "allocate_pages mm a num_pages k = do {
     bytes \<leftarrow> usize_mul num_pages 4096;
     sz \<leftarrow> usize_next_power_of_two bytes;
     level \<leftarrow> pa_get_level_from_size a sz;
     level \<leftarrow> level;
     (block, a) \<leftarrow> pa_get_free_block a level;
     block \<leftarrow> block;
     limit \<leftarrow> usize_add block sz;
     (r, k) \<leftarrow> map_pages_loop mm kernel_rw (step_range block limit 4096) k;
     case r of
       Some e \<Rightarrow> Some (Inl e, a, k)
     | None \<Rightarrow> Some (Inr \<lparr>pl_page = block div 4096 * 4096, pl_length = num_pages\<rparr>, a, k)
   }"

definition deallocate_pages ::
  "'k mm \<Rightarrow> page_allocator \<Rightarrow> page_alloc_layout \<Rightarrow> 'k \<Rightarrow> (bool \<times> page_allocator \<times> 'k) rust" where
  "deallocate_pages mm a info k = do {
     bytes \<leftarrow> usize_mul (pl_length info) 4096;
     sz \<leftarrow> usize_next_power_of_two bytes;
     level \<leftarrow> pa_get_level_from_size a sz;
     level \<leftarrow> level;
     limit \<leftarrow> usize_add (pl_page info) sz;
     (ok, k) \<leftarrow> unmap_pages_loop mm (step_range (pl_page info) limit 4096) k;
     if ok then do {
       ptr \<leftarrow> non_null (pl_page info);
       a \<leftarrow> pa_merge_buddies a level ptr;
       Some (True, a, k)
     } else Some (False, a, k)
   }"

section \<open>Representation\<close>

definition pa_geo :: "page_allocator \<Rightarrow> geom" where
  "pa_geo a = \<lparr>g_levels = pa_levels a, g_size = pa_heap_end a - pa_heap_start a, g_base = pa_heap_start a\<rparr>"

definition pa_free :: "page_allocator \<Rightarrow> block set" where
  "pa_free a = (SIGMA l : {..< pa_levels a}. set (pa_free_lists a ! l))"

definition pa_params_ok :: "page_allocator \<Rightarrow> bool" where
  "pa_params_ok a \<longleftrightarrow> 0 < pa_levels a \<and> pa_levels a < 52 \<and> 0 < pa_heap_start a \<and> 4096 dvd pa_heap_start a \<and>
     pa_heap_end a = pa_heap_start a + 2 ^ (pa_levels a - 1) * 4096 \<and> pa_heap_end a < usize_bound \<and>
     length (pa_free_lists a) = pa_levels a"

definition pa_inv :: "page_allocator \<Rightarrow> bool" where
  "pa_inv a \<longleftrightarrow> pa_params_ok a \<and> (\<forall>l < pa_levels a. distinct (pa_free_lists a ! l))"

lemma pa_geo_sel [simp]:
  "g_levels (pa_geo a) = pa_levels a" "g_base (pa_geo a) = pa_heap_start a"
  "g_size (pa_geo a) = pa_heap_end a - pa_heap_start a"
  by (simp_all add: pa_geo_def)

lemma mem_pa_free [simp]: "(l, p) \<in> pa_free a \<longleftrightarrow> l < pa_levels a \<and> p \<in> set (pa_free_lists a ! l)"
  by (simp add: pa_free_def)

lemma pa_params_geom: "pa_params_ok a \<Longrightarrow> geom_ok (pa_geo a)"
  by (auto simp: pa_params_ok_def geom_ok_def)

lemma pa_bsize:
  assumes "pa_params_ok a" and "l < pa_levels a"
  shows "bsize (pa_geo a) l = 2 ^ (pa_levels a - 1 - l + 12)"
proof -
  have "(2::nat) ^ (pa_levels a - 1) = 2 ^ (pa_levels a - 1 - l) * 2 ^ l"
    using assms(2) by (simp add: power_add [symmetric])
  then have "(2::nat) ^ (pa_levels a - 1) * 4096 = 2 ^ (pa_levels a - 1 - l) * 4096 * 2 ^ l" by simp
  then have "(2::nat) ^ (pa_levels a - 1) * 4096 div 2 ^ l = 2 ^ (pa_levels a - 1 - l) * 4096"
    by (simp only: nonzero_mult_div_cancel_right power_not_zero)
      simp
  then show ?thesis using assms(1) by (simp add: bsize_def pa_params_ok_def power_add)
qed

lemma pa_max_size_ok: "pa_params_ok a \<Longrightarrow> pa_max_size a = Some (g_size (pa_geo a))"
  by (simp add: pa_params_ok_def pa_max_size_def)

lemma pa_block_size_ok:
  "pa_params_ok a \<Longrightarrow> l < pa_levels a \<Longrightarrow> pa_block_size a l = Some (bsize (pa_geo a) l)"
  using pa_max_size_ok [of a] by (auto simp: pa_params_ok_def pa_block_size_def usize_shr_def bsize_def)

lemma pa_inv_geom: "pa_inv a \<Longrightarrow> geom_ok (pa_geo a)"
  using pa_params_geom by (simp add: pa_inv_def)

lemma vd_position_Some: "vd_position p xs = Some i \<Longrightarrow> vd_remove i xs = remove1 p xs"
  by (induction xs arbitrary: i) (auto simp: vd_remove_def split: if_splits)

lemma vd_position_None: "vd_position p xs = None \<longleftrightarrow> p \<notin> set xs"
  by (induction xs) auto

section \<open>The array of deques\<close>

lemma pa_update:
  assumes inv: "pa_inv a" and l: "l < pa_levels a" and d: "distinct xs"
  defines "a' \<equiv> a\<lparr>pa_free_lists := (pa_free_lists a)[l := xs]\<rparr>"
  shows "pa_inv a'" and "pa_geo a' = pa_geo a"
    and "pa_free a' = {b \<in> pa_free a. fst b \<noteq> l} \<union> {l} \<times> set xs"
proof -
  have len: "length (pa_free_lists a) = pa_levels a" using inv by (simp add: pa_inv_def pa_params_ok_def)
  show "pa_inv a'" using inv d l len by (auto simp: pa_inv_def pa_params_ok_def a'_def nth_list_update)
  show "pa_geo a' = pa_geo a" by (simp add: pa_geo_def a'_def)
  show "pa_free a' = {b \<in> pa_free a. fst b \<noteq> l} \<union> {l} \<times> set xs"
    using l len by (auto simp: pa_free_def a'_def nth_list_update split: if_splits)
qed

lemma pa_invD:
  assumes "pa_inv a" and "l < pa_levels a"
  shows "l < length (pa_free_lists a)" and "distinct (pa_free_lists a ! l)"
  using assms by (auto simp: pa_inv_def pa_params_ok_def)

lemma pa_pop_empty:
  assumes "pa_inv a" and "l < pa_levels a" and "\<And>p. (l, p) \<notin> pa_free a"
  shows "pa_list_pop a l = Some (None, a)"
proof -
  have "p \<notin> set (pa_free_lists a ! l)" for p using assms(3) [of p] assms(2) by simp
  then have "pa_free_lists a ! l = []" by (metis last_in_set)
  then show ?thesis using pa_invD(1) [OF assms(1,2)] by (simp add: pa_list_pop_def)
qed

lemma pa_pop_block:
  assumes "pa_inv a" and "l < pa_levels a" and "(l, q) \<in> pa_free a"
  shows "\<exists>p a'. pa_list_pop a l = Some (Some p, a') \<and> (l, p) \<in> pa_free a \<and> pa_inv a' \<and>
    pa_geo a' = pa_geo a \<and> pa_free a' = pa_free a - {(l, p)}"
proof -
  note d = pa_invD [OF assms(1,2)]
  obtain p ps where xs: "pa_free_lists a ! l = p # ps"
    using assms(3) by (cases "pa_free_lists a ! l") auto
  have "distinct ps" "p \<notin> set ps" using d(2) xs by simp_all
  note u = pa_update [OF assms(1,2) this(1)]
  have "pa_free (a\<lparr>pa_free_lists := (pa_free_lists a)[l := ps]\<rparr>) = pa_free a - {(l, p)}"
    using xs \<open>p \<notin> set ps\<close> assms(2) unfolding u(3) by auto
  moreover have "pa_list_pop a l = Some (Some p, a\<lparr>pa_free_lists := (pa_free_lists a)[l := ps]\<rparr>)"
    using d(1) xs by (simp add: pa_list_pop_def)
  moreover have "(l, p) \<in> pa_free a" using xs assms(2) by simp
  ultimately show ?thesis using u(1,2) by blast
qed

lemma pa_push_block:
  assumes "pa_inv a" and "in_region (pa_geo a) (l, p)" and "\<And>k. (k, p) \<notin> pa_free a"
  shows "\<exists>a'. pa_list_push a l p = Some a' \<and> pa_inv a' \<and> pa_geo a' = pa_geo a \<and>
    pa_free a' = insert (l, p) (pa_free a)"
proof -
  have l: "l < pa_levels a" using assms(2) by (simp add: in_region_def)
  note d = pa_invD [OF assms(1) l]
  have "distinct (pa_free_lists a ! l @ [p])" using d(2) assms(3) [of l] l by simp
  note u = pa_update [OF assms(1) l this]
  have "pa_free (a\<lparr>pa_free_lists := (pa_free_lists a)[l := pa_free_lists a ! l @ [p]]\<rparr>) = insert (l, p) (pa_free a)"
    using l unfolding u(3) by auto
  then show ?thesis using d(1) u(1,2) by (simp add: pa_list_push_def)
qed

definition pa_list_contains :: "page_allocator \<Rightarrow> nat \<Rightarrow> addr \<Rightarrow> bool rust" where
  "pa_list_contains a level ptr = do {
     xs \<leftarrow> vec_get (pa_free_lists a) level;
     Some (vd_position ptr xs \<noteq> None)
   }"

definition pa_list_delete :: "page_allocator \<Rightarrow> nat \<Rightarrow> addr \<Rightarrow> page_allocator rust" where
  "pa_list_delete a level ptr = do {
     xs \<leftarrow> vec_get (pa_free_lists a) level;
     pos \<leftarrow> vd_position ptr xs;
     pa_list_remove a level pos
   }"

lemma pa_del_block:
  assumes "pa_inv a" and "(l, p) \<in> pa_free a"
  shows "\<exists>a'. pa_list_delete a l p = Some a' \<and> pa_inv a' \<and> pa_geo a' = pa_geo a \<and>
    pa_free a' = pa_free a - {(l, p)}"
proof -
  have l: "l < pa_levels a" and p: "p \<in> set (pa_free_lists a ! l)" using assms(2) by auto
  note d = pa_invD [OF assms(1) l]
  obtain i where i: "vd_position p (pa_free_lists a ! l) = Some i"
    using p vd_position_None [of p "pa_free_lists a ! l"] by auto
  note u = pa_update [OF assms(1) l distinct_remove1 [OF d(2), of p]]
  have "pa_free (a\<lparr>pa_free_lists := (pa_free_lists a)[l := remove1 p (pa_free_lists a ! l)]\<rparr>) = pa_free a - {(l, p)}"
    using l d(2) unfolding u(3) by auto
  then show ?thesis using d(1) u(1,2) i vd_position_Some [OF i]
    by (simp add: pa_list_delete_def pa_list_remove_def)
qed

lemma pa_contains_block:
  "pa_inv a \<Longrightarrow> l < pa_levels a \<Longrightarrow> pa_list_contains a l p = Some ((l, p) \<in> pa_free a)"
  using pa_invD(1) [of a l] vd_position_None [of p] by (auto simp: pa_list_contains_def)

lemma pa_merge_eq:
  "pa_merge_buddies a l p = (if l = 0 then pa_list_push a l p else Option.bind (pa_buddy a l p)
     (\<lambda>b. Option.bind (pa_list_contains a l b) (\<lambda>e. if e
       then Option.bind (pa_list_delete a l b) (\<lambda>a'. pa_merge_buddies a' (l - 1) (min p b))
       else pa_list_push a l p)))"
proof -
  have m: "(if b < p then b else p) = min p b" for b by (simp add: min_def)
  show ?thesis
    by (subst pa_merge_buddies.simps)
      (auto simp: pa_list_contains_def pa_list_delete_def m vec_get_def
        intro!: Option.bind_cong split: option.split)
qed

section \<open>The buddy allocator contract\<close>

lemma pa_split_buddy_ok:
  assumes inv: "pa_inv a" and l: "Suc l < pa_levels a" and r: "in_region (pa_geo a) (l, p)"
  shows "pa_split_buddy a (Suc l) p = Some (p + bsize (pa_geo a) (Suc l))"
proof -
  have ok: "pa_params_ok a" and g: "geom_ok (pa_geo a)" using inv pa_inv_geom by (auto simp: pa_inv_def)
  have "in_region (pa_geo a) (Suc l, p + bsize (pa_geo a) (Suc l))"
    using in_region_halves(2) [OF g _ r] l by simp
  then have "p + bsize (pa_geo a) (Suc l) < usize_bound" "0 < p"
    using ok r bsize_pos [OF g] l by (auto simp: in_region_def pa_params_ok_def)
  then show ?thesis using pa_block_size_ok [OF ok l] by (simp add: pa_split_buddy_def)
qed

lemma pa_buddy_ok:
  assumes inv: "pa_inv a" and al: "aligned_block (pa_geo a) (Suc l, p)"
  shows "pa_buddy a (Suc l) p = Some (snd (buddy_of (pa_geo a) (Suc l, p)))"
proof -
  have ok: "pa_params_ok a" and g: "geom_ok (pa_geo a)" using inv pa_inv_geom by (auto simp: pa_inv_def)
  have l: "Suc l < g_levels (pa_geo a)" and base: "pa_heap_start a \<le> p"
    using al by (simp_all add: aligned_block_def in_region_def)
  let ?u = "bsize (pa_geo a) (Suc l)"
  obtain k where k: "?u = 2 ^ k" using pa_bsize [OF ok] l by auto
  let ?b = "snd (buddy_of (pa_geo a) (Suc l, p))"
  have rng: "0 < ?b \<and> ?b < usize_bound \<and> pa_heap_start a \<le> ?b"
  proof (cases rule: buddy_of_cases [OF g l al, case_names lower upper])
    case lower
    then show ?thesis using ok bsize_half [OF g l] bsize_pos [OF g l]
      by (auto simp: aligned_block_def in_region_def pa_params_ok_def)
  next
    case upper
    then show ?thesis using ok al by (auto simp: aligned_block_def in_region_def pa_params_ok_def)
  qed
  have "pa_heap_start a + ((p - pa_heap_start a) XOR ?u) = ?b"
  proof (cases rule: buddy_of_cases [OF g l al, case_names lower upper])
    case lower
    then show ?thesis using base by (auto simp: xor_pow2_nat buddy_of_def k split: if_splits)
  next
    case upper
    then show ?thesis using base rng k by (auto simp: xor_pow2_nat buddy_of_def split: if_splits)
  qed
  then show ?thesis using pa_block_size_ok [OF ok] l base rng by (simp add: pa_buddy_def)
qed

lemma pa_coalesced_buddy:
  assumes "pa_inv a" and "coalesced (pa_geo a) F (insert (Suc l, p) A)"
  shows "pa_buddy a (Suc l) p = Some b \<longleftrightarrow> buddy_of (pa_geo a) (Suc l, p) = (Suc l, b)"
proof -
  have "aligned_block (pa_geo a) (Suc l, p)" using coalesced_aligned [OF assms(2), of "(Suc l, p)"] by simp
  moreover have "fst (buddy_of (pa_geo a) (Suc l, p)) = Suc l" by (simp add: buddy_of_def)
  ultimately show ?thesis using pa_buddy_ok [OF assms(1)] by (auto simp: prod_eq_iff)
qed

lemma pa_bud_block:
  assumes "pa_inv a" and "buddy_inv (pa_geo a) F (insert (Suc l, p) A)"
    and "coalesced (pa_geo a) F (insert (Suc l, p) A)"
  shows "\<exists>b. pa_buddy a (Suc l) p = Some b \<and>
    (b = p + bsize (pa_geo a) (Suc l) \<or> p = b + bsize (pa_geo a) (Suc l))"
proof -
  have al: "aligned_block (pa_geo a) (Suc l, p)" using coalesced_aligned [OF assms(3), of "(Suc l, p)"] by simp
  then have "Suc l < g_levels (pa_geo a)" by (simp add: aligned_block_def in_region_def)
  from buddy_of_cases [OF pa_inv_geom [OF assms(1)] this al] pa_buddy_ok [OF assms(1) al] show ?thesis
    by (metis le_add_diff_inverse2 snd_conv)
qed

interpretation pa: buddy_allocator pa_geo pa_inv pa_free pa_list_pop pa_list_push pa_list_delete
  "\<lambda>_ _. ()" coalesced pa_split_buddy pa_buddy pa_list_contains pa_get_free_block pa_split_level pa_merge_buddies
proof (unfold_locales, goal_cases)
  case (2 a l)
  then show ?case using pa_pop_empty by simp
next
  case (6 s l)
  show ?case by (subst pa_get_free_block.simps) (rule refl)
next
  case (7 s l)
  show ?case by (subst pa_split_level.simps) (auto intro!: Option.bind_cong split: option.split)
next
  case (8 s l p)
  show ?case by (rule pa_merge_eq)
next
  case (9 a l p A)
  then show ?case using pa_split_buddy_ok [of a l p] buddy_inv_region [of "pa_geo a" _ _ "(l, p)"] by simp
next
  case (11 s l p b)
  then show ?case by (intro pa_contains_block) (simp_all add: in_region_def)
next
  case (14 s l p A b)
  then show ?case
    using coalesced_join [OF pa_inv_geom, of s l "pa_free s" p A b] pa_coalesced_buddy
      buddy_inv_region [of "pa_geo s" "pa_free s" _ "(Suc l, p)"] by (auto simp: in_region_def)
next
  case (16 s l p A b)
  then show ?case
    using coalesced_give [OF pa_inv_geom, of s "pa_free s" "Suc l" p A] pa_coalesced_buddy by auto
next
  case (3 a l q)
  then show ?case using pa_pop_block [of a l q] by simp
next
  case (4 a l p)
  then show ?case using pa_push_block [of a l p] by simp
next
  case (5 a l p)
  then show ?case using pa_del_block [of a l p] by simp
qed (blast intro: pa_inv_geom pa_bud_block coalesced_take coalesced_split coalesced_give)+

section \<open>Correctness of the page allocator\<close>

definition pages_ok :: "page_allocator \<Rightarrow> block set \<Rightarrow> bool" where
  "pages_ok a A \<longleftrightarrow> pa_inv a \<and> buddy_inv (pa_geo a) (pa_free a) A \<and> coalesced (pa_geo a) (pa_free a) A"

text \<open>Whether an aligned block of the given size meets no allocated block.\<close>

definition has_room :: "geom \<Rightarrow> block set \<Rightarrow> nat \<Rightarrow> bool" where
  "has_room g A sz \<longleftrightarrow> (\<exists>b. aligned_block g b \<and> bsize g (fst b) = sz \<and> (\<forall>c \<in> A. extent g b \<inter> extent g c = {}))"

lemma pages_okD:
  assumes "pages_ok a A"
  shows "pa_inv a" "buddy_inv (pa_geo a) (pa_free a) A" "coalesced (pa_geo a) (pa_free a) A"
    "geom_ok (pa_geo a)" "pa_params_ok a"
  using assms pa_inv_geom by (auto simp: pages_ok_def pa_inv_def)

text \<open>The level loop halves the block size until it is not above the request.\<close>

lemma level_loop_exact:
  assumes g: "geom_ok g" and j: "j < g_levels g" and "l \<le> j"
  shows "level_loop (g_levels g) (bsize g j) l (bsize g l) = (j, bsize g j)"
  using assms(3)
proof (induction "j - l" arbitrary: l)
  case 0
  then show ?case by (simp add: level_loop.simps [of _ _ l])
next
  case (Suc n)
  have l: "Suc l < g_levels g" and lj: "Suc l \<le> j" using Suc.hyps(2) j by simp_all
  have half: "bsize g l = 2 * bsize g (Suc l)" by (rule bsize_half [OF g l])
  have "bsize g j \<le> bsize g (Suc l)"
    using bsize_dvd [OF g lj j] bsize_pos [OF g l] by (simp add: dvd_imp_le)
  then have "bsize g j < bsize g l" using half bsize_pos [OF g l] by simp
  then have "level_loop (g_levels g) (bsize g j) l (bsize g l) = level_loop (g_levels g) (bsize g j) (Suc l) (bsize g (Suc l))"
    using l half by (subst level_loop.simps) simp
  then show ?case using Suc.hyps(1) [of "Suc l"] Suc.hyps(2) lj by simp
qed

lemma pa_level_exact:
  assumes "pa_params_ok a" and "j < pa_levels a"
  shows "pa_get_level_from_size a (bsize (pa_geo a) j) = Some (Some j)"
  using level_loop_exact [OF pa_params_geom [OF assms(1)], of j 0] assms pa_max_size_ok [OF assms(1)]
  by (simp add: pa_get_level_from_size_def)

lemma pa_level_too_large:
  assumes "pa_params_ok a" and "g_size (pa_geo a) < sz"
  shows "pa_get_level_from_size a sz = Some None"
  using assms pa_max_size_ok [OF assms(1)]
  by (simp add: pa_get_level_from_size_def level_loop.simps [of _ _ 0])

text \<open>A request of at least one page, rounded up, is the size of a level or larger than the region.\<close>

lemma pages_request:
  assumes ok: "pa_params_ok a" and n: "0 < n"
  obtains (level) j where "j < pa_levels a" "next_pow2 (n * 4096) = bsize (pa_geo a) j"
  | (large) "g_size (pa_geo a) < next_pow2 (n * 4096)"
proof -
  obtain k where k: "next_pow2 (n * 4096) = 2 ^ k" using next_pow2_is_pow by blast
  have "2 ^ 12 \<le> n * 4096" using n by simp
  then have "(2::nat) ^ 12 \<le> 2 ^ k" using next_pow2_ge [of "n * 4096"] k by linarith
  then have k12: "12 \<le> k" by (simp only: power_increasing_iff)
  show thesis
  proof (cases "g_size (pa_geo a) < next_pow2 (n * 4096)")
    case False
    have l0: "0 < pa_levels a" using ok by (simp add: pa_params_ok_def)
    from pa_bsize [OF ok this] have "g_size (pa_geo a) = 2 ^ (pa_levels a - 1 + 12)"
      by (simp only: bsize_0 diff_zero)
    with False k have "(2::nat) ^ k \<le> 2 ^ (pa_levels a - 1 + 12)" by (simp only: not_less)
    then have kl: "k \<le> pa_levels a - 1 + 12" by (simp only: power_increasing_iff)
    define j where "j = pa_levels a - 1 + 12 - k"
    have "j < pa_levels a" using k12 l0 unfolding j_def by arith
    moreover have "pa_levels a - 1 - j + 12 = k" using k12 kl l0 unfolding j_def by arith
    ultimately show thesis using level pa_bsize [OF ok, of j] k by simp
  qed (rule large)
qed

lemma pa_get_ok:
  assumes h: "pages_ok a A" and l: "l < pa_levels a"
  shows "(\<exists>p a'. pa_get_free_block a l = Some (Some p, a') \<and> (l, p) \<notin> A \<and> pages_ok a' (insert (l, p) A) \<and>
      pa_geo a' = pa_geo a) \<or>
    (\<exists>a'. pa_get_free_block a l = Some (None, a') \<and> \<not> has_room (pa_geo a) A (bsize (pa_geo a) l))"
proof -
  note d = pages_okD [OF h]
  have "\<not> has_room (pa_geo a) A (bsize (pa_geo a) l)" if none: "\<forall>b \<in> pa_free a. l < fst b"
  proof
    assume "has_room (pa_geo a) A (bsize (pa_geo a) l)"
    then obtain b where b: "aligned_block (pa_geo a) b" "bsize (pa_geo a) (fst b) = bsize (pa_geo a) l"
        "\<forall>c \<in> A. extent (pa_geo a) b \<inter> extent (pa_geo a) c = {}" unfolding has_room_def by blast
    have lb: "fst b < pa_levels a" using b(1) by (simp add: aligned_block_def in_region_def)
    then have "pa_levels a - 1 - fst b = pa_levels a - 1 - l"
      using b(2) pa_bsize [OF d(5) lb] pa_bsize [OF d(5) l] by simp
    then have "fst b = l" using lb l by arith
    with coalesced_cover [OF d(4,2,3), of "fst b" "snd b"] b(1,3) none show False by fastforce
  qed
  then show ?thesis using pa.get_safe [of a l A] d l by (auto simp: pages_ok_def)
qed

lemma pa_block_props:
  assumes h: "pages_ok a A" and b: "(l, p) \<in> A"
  shows "0 < p" "p + bsize (pa_geo a) l < usize_bound" "4096 dvd p" "4096 dvd bsize (pa_geo a) l" "l < pa_levels a"
proof -
  note d = pages_okD [OF h]
  have r: "in_region (pa_geo a) (l, p)" using buddy_inv_region [OF d(2), of "(l, p)"] b by simp
  then show l: "l < pa_levels a" by (simp add: in_region_def)
  show "0 < p" "p + bsize (pa_geo a) l < usize_bound"
    using r d(5) by (auto simp: in_region_def pa_params_ok_def)
  have "grain (pa_geo a) = 4096"
    using pa_bsize [OF d(5), of "pa_levels a - 1"] d(5) by (simp add: grain_def pa_params_ok_def)
  then have "4096 dvd p - pa_heap_start a" "4096 dvd pa_heap_start a" "pa_heap_start a \<le> p"
    using r d(5) by (auto simp: in_region_def pa_params_ok_def)
  then show "4096 dvd p" by (metis dvd_add le_add_diff_inverse)
  show "4096 dvd bsize (pa_geo a) l" using grain_dvd [OF d(4)] l \<open>grain (pa_geo a) = 4096\<close> by simp
qed

lemma next_pow2_pages:
  "n * 4096 \<le> 2 ^ 63 \<Longrightarrow> usize_mul n 4096 = Some (n * 4096) \<and>
    usize_next_power_of_two (n * 4096) = Some (next_pow2 (n * 4096))"
  using next_pow2_least [of "n * 4096" 63] by (simp add: usize_next_power_of_two_def usize_bound_def)

definition block_pages :: "addr \<Rightarrow> nat \<Rightarrow> addr set" where
  "block_pages p sz = (\<lambda>i. p + i * 4096) ` {..< sz div 4096}"

lemma step_range_block: "4096 dvd sz \<Longrightarrow> set (step_range p (p + sz) 4096) = block_pages p sz"
  using step_range_mult [of 4096 p "sz div 4096"] by (auto simp: block_pages_def)

text \<open>\<open>allocate_pages\<close> after the block has been found.\<close>

lemma allocate_pages_unfold:
  assumes n: "n * 4096 \<le> 2 ^ 63" and j: "j < pa_levels a" "next_pow2 (n * 4096) = bsize (pa_geo a) j"
    and ok: "pa_params_ok a"
  shows "allocate_pages mm a n k = Option.bind (pa_get_free_block a j) (\<lambda>(block, a'). Option.bind block (\<lambda>p.
    Option.bind (usize_add p (bsize (pa_geo a) j)) (\<lambda>limit.
    Option.bind (map_pages_loop mm kernel_rw (step_range p limit 4096) k) (\<lambda>(r, k'). case r of
      Some e \<Rightarrow> Some (Inl e, a', k')
    | None \<Rightarrow> Some (Inr \<lparr>pl_page = p div 4096 * 4096, pl_length = n\<rparr>, a', k')))))"
  using next_pow2_pages [OF n] pa_level_exact [OF ok j(1)] j(2) by (simp add: allocate_pages_def)

lemma allocate_pages_block:
  assumes h: "pages_ok a' (insert (l, p) A)" and sp: "mapper_spec mm xlate" and geo: "pa_geo a' = pa_geo a"
    and g: "pa_get_free_block a l = Some (Some p, a')"
    and n: "n * 4096 \<le> 2 ^ 63" "l < pa_levels a" "next_pow2 (n * 4096) = bsize (pa_geo a) l" "pa_params_ok a"
  shows "\<exists>r k'. allocate_pages mm a n k = Some (r, a', k') \<and>
    (\<forall>q. q \<notin> block_pages p (next_pow2 (n * 4096)) \<longrightarrow> xlate k' q = xlate k q) \<and>
    (case r of Inr lay \<Rightarrow> pl_page lay = p \<and> pl_length lay = n \<and>
        (\<forall>q \<in> block_pages p (next_pow2 (n * 4096)). xlate k' q \<noteq> None)
      | Inl e \<Rightarrow> True)"
proof -
  note b = pa_block_props [OF h, of l p, unfolded geo, simplified]
  let ?ps = "step_range p (p + bsize (pa_geo a) l) 4096"
  have ds: "distinct ?ps" by (rule step_range_distinct) simp
  obtain r k' where r: "map_pages_loop mm kernel_rw ?ps k = Some (r, k')"
      "\<forall>q. q \<notin> set ?ps \<longrightarrow> xlate k' q = xlate k q"
      "r = None \<longrightarrow> (\<forall>q \<in> set ?ps. xlate k q = None \<and> xlate k' q \<noteq> None)"
    using map_pages_loop_ok [OF sp ds, of kernel_rw k] by blast
  have "p div 4096 * 4096 = p" using b(3) by simp
  then have "allocate_pages mm a n k = Some (case r of Some e \<Rightarrow> Inl e
      | None \<Rightarrow> Inr \<lparr>pl_page = p, pl_length = n\<rparr>, a', k')"
    using allocate_pages_unfold [OF n, of mm k] g b(2) r(1) by (cases r) simp_all
  then show ?thesis using r(2,3) step_range_block [OF b(4), of p] n(3) by (cases r) auto
qed

text \<open>
  C3: when an aligned run of pages of the rounded size is free, \<open>allocate_pages\<close> does not panic, takes
  one such block out of the free ones, and maps exactly its pages.  An error of the mapper is
  returned, but the block stays allocated and no other page changes.
\<close>

theorem allocate_pages_correct:
  assumes h: "pages_ok a A" and sp: "mapper_spec mm xlate" and n: "0 < n" "n * 4096 \<le> 2 ^ 63"
    and room: "has_room (pa_geo a) A (next_pow2 (n * 4096))"
  shows "\<exists>r a' k' l p. allocate_pages mm a n k = Some (r, a', k') \<and> (l, p) \<notin> A \<and>
    bsize (pa_geo a) l = next_pow2 (n * 4096) \<and> pages_ok a' (insert (l, p) A) \<and> pa_geo a' = pa_geo a \<and>
    (\<forall>q. q \<notin> block_pages p (next_pow2 (n * 4096)) \<longrightarrow> xlate k' q = xlate k q) \<and>
    (case r of Inr lay \<Rightarrow> pl_page lay = p \<and> pl_length lay = n \<and>
        (\<forall>q \<in> block_pages p (next_pow2 (n * 4096)). xlate k' q \<noteq> None)
      | Inl e \<Rightarrow> True)"
proof (cases rule: pages_request [OF pages_okD(5) [OF h] n(1), case_names level large])
  case (level j)
  note d = pages_okD [OF h]
  obtain p a' where g: "pa_get_free_block a j = Some (Some p, a')" "(j, p) \<notin> A"
      "pages_ok a' (insert (j, p) A)" "pa_geo a' = pa_geo a"
    using pa_get_ok [OF h level(1)] room level(2) by auto
  from allocate_pages_block [OF g(3) sp g(4,1) n(2) level d(5), of k] obtain r k' where
    "allocate_pages mm a n k = Some (r, a', k')"
    "\<forall>q. q \<notin> block_pages p (next_pow2 (n * 4096)) \<longrightarrow> xlate k' q = xlate k q"
    "case r of Inr lay \<Rightarrow> pl_page lay = p \<and> pl_length lay = n \<and>
        (\<forall>q \<in> block_pages p (next_pow2 (n * 4096)). xlate k' q \<noteq> None) | Inl e \<Rightarrow> True"
    by (elim exE conjE)
  then show ?thesis using g(2-4) level(2)
    by (intro exI [of _ r] exI [of _ a'] exI [of _ k'] exI [of _ j] exI [of _ p] conjI) simp_all
next
  case large
  obtain b :: block where "bsize (pa_geo a) (fst b) = next_pow2 (n * 4096)"
    using room unfolding has_room_def by blast
  moreover have "bsize (pa_geo a) (fst b) \<le> g_size (pa_geo a)" by (simp add: bsize_def)
  ultimately show ?thesis using large by linarith
qed

text \<open>
  Without such a run, \<open>allocate_pages\<close> panics: running out of virtual pages is not reported as an
  error.
\<close>

theorem allocate_pages_panics:
  assumes h: "pages_ok a A" and n: "0 < n" "n * 4096 \<le> 2 ^ 63"
    and room: "\<not> has_room (pa_geo a) A (next_pow2 (n * 4096))"
  shows "allocate_pages mm a n k = None"
proof (cases rule: pages_request [OF pages_okD(5) [OF h] n(1), case_names level large])
  case (level j)
  note d = pages_okD [OF h]
  have "(\<exists>a'. pa_get_free_block a j = Some (None, a'))"
  proof (rule ccontr)
    assume "\<not> ?thesis"
    then obtain p a' where g: "(j, p) \<notin> A" "pages_ok a' (insert (j, p) A)" "pa_geo a' = pa_geo a"
      using pa_get_ok [OF h level(1)] by blast
    note d' = pages_okD [OF g(2)]
    have "aligned_block (pa_geo a) (j, p)" using coalesced_aligned [OF d'(3), of "(j, p)"] g(3) by simp
    moreover have "extent (pa_geo a) (j, p) \<inter> extent (pa_geo a) c = {}" if "c \<in> A" for c
      using buddy_inv_disjoint [OF d'(2), of "(j, p)" c] that g(1,3) by auto
    ultimately show False using room level(2) unfolding has_room_def by (metis fst_conv)
  qed
  then show ?thesis using allocate_pages_unfold [OF n(2) level d(5), of mm k] by auto
next
  case large
  then show ?thesis
    using next_pow2_pages [OF n(2)] pa_level_too_large [OF pages_okD(5) [OF h] large]
    by (simp add: allocate_pages_def)
qed

text \<open>
  C4: \<open>deallocate_pages\<close> of an allocated block whose pages are all mapped unmaps exactly those pages and
  gives the block back to a coalesced allocator; if some page is not mapped, it reports that and
  keeps the block.
\<close>

theorem deallocate_pages_correct:
  assumes h: "pages_ok a (insert (l, p) A)" and nA: "(l, p) \<notin> A" and sp: "mapper_spec mm xlate"
    and n: "n * 4096 \<le> 2 ^ 63" and lev: "bsize (pa_geo a) l = next_pow2 (n * 4096)"
  shows "\<exists>ok a' k'. deallocate_pages mm a \<lparr>pl_page = p, pl_length = n\<rparr> k = Some (ok, a', k') \<and>
    (\<forall>q. q \<notin> block_pages p (next_pow2 (n * 4096)) \<longrightarrow> xlate k' q = xlate k q) \<and>
    (if \<forall>q \<in> block_pages p (next_pow2 (n * 4096)). xlate k q \<noteq> None
     then ok \<and> pages_ok a' A \<and> pa_geo a' = pa_geo a \<and>
       (\<forall>q \<in> block_pages p (next_pow2 (n * 4096)). xlate k' q = None)
     else \<not> ok \<and> a' = a)"
proof -
  note d = pages_okD [OF h]
  note b = pa_block_props [OF h insertI1]
  let ?ps = "step_range p (p + bsize (pa_geo a) l) 4096"
  have ds: "distinct ?ps" by (rule step_range_distinct) simp
  obtain r k' where r: "unmap_pages_loop mm ?ps k = Some (r, k')"
      "\<forall>q. q \<notin> set ?ps \<longrightarrow> xlate k' q = xlate k q" "r = (\<forall>q \<in> set ?ps. xlate k q \<noteq> None)"
      "r \<longrightarrow> (\<forall>q \<in> set ?ps. xlate k' q = None)"
    using unmap_pages_loop_ok [OF sp ds, of k] by blast
  obtain a' where m: "pa_merge_buddies a l p = Some a'" "pages_ok a' A" "pa_geo a' = pa_geo a"
    using pa.merge_safe [OF d(1,2) nA d(3)] by (auto simp: pages_ok_def)
  have B: "set ?ps = block_pages p (next_pow2 (n * 4096))" using step_range_block [OF b(4), of p] lev by simp
  have "deallocate_pages mm a \<lparr>pl_page = p, pl_length = n\<rparr> k = Some (r, if r then a' else a, k')"
    using next_pow2_pages [OF n] pa_level_exact [OF d(5) b(5)] lev b(1,2) r(1) m(1)
    by (simp add: deallocate_pages_def)
  note eq = this and r' = r(2-4) [unfolded B]
  show ?thesis
  proof (cases r)
    case True
    then show ?thesis using eq r' m(2,3) unfolding r'(2) [symmetric] by (auto simp only: if_True)
  next
    case False
    then show ?thesis using eq r' unfolding r'(2) [symmetric] by (auto simp only: if_False)
  qed
qed

section \<open>Initialisation\<close>

lemma pagealloc_size_loop_step:
  "pagealloc_size_loop avail sz = (if sz < avail then pagealloc_size_loop avail ((sz * 2) mod usize_bound) else Some sz)"
  by (rule pagealloc_size_loop.simps)

text \<open>The rounding loop ends with the least power of two above its start that covers the RAM.\<close>

lemma pagealloc_size_loop_ok:
  assumes "avail \<le> 2 ^ n" and "k \<le> n" and "n \<le> 63"
  shows "\<exists>j. pagealloc_size_loop avail (2 ^ k) = Some (2 ^ j) \<and> k \<le> j \<and> j \<le> n \<and> avail \<le> 2 ^ j"
  using assms(2)
proof (induction "n - k" arbitrary: k)
  case 0
  then show ?case using assms(1) by (subst pagealloc_size_loop_step) auto
next
  case (Suc d)
  show ?case
  proof (cases "2 ^ k < avail")
    case True
    have "(2::nat) ^ Suc k < 2 ^ 64" using Suc.hyps(2) assms(3) by (intro power_strict_increasing) simp_all
    then have "pagealloc_size_loop avail (2 ^ k) = pagealloc_size_loop avail (2 ^ Suc k)"
      using True by (subst pagealloc_size_loop_step) (simp add: usize_bound_def mult.commute)
    moreover have "Suc k \<le> n" "d = n - Suc k" using Suc.hyps(2) by simp_all
    ultimately show ?thesis using Suc.hyps(1) [of "Suc k"] by auto
  next
    case False
    then show ?thesis using Suc.prems by (subst pagealloc_size_loop_step) auto
  qed
qed

lemma pa_new_ok:
  assumes "0 < j" "j < 52" "0 < start" "4096 dvd start" "start + 2 ^ (j - 1) * 4096 < usize_bound"
  shows "\<exists>a. pa_new start (start + 2 ^ (j - 1) * 4096) j = Some a \<and> pages_ok a {} \<and>
    pa_geo a = \<lparr>g_levels = j, g_size = 2 ^ (j - 1) * 4096, g_base = start\<rparr>"
proof -
  let ?a = "\<lparr>pa_heap_start = start, pa_heap_end = start + 2 ^ (j - 1) * 4096, pa_levels = j,
    pa_free_lists = (replicate j [])[0 := [start]]\<rparr>"
  have "(2::nat) ^ (j - 1) < 2 ^ 52" using assms(2) by (intro power_strict_increasing) simp_all
  then have shl: "usize_shl 1 (j - 1) = Some (2 ^ (j - 1))"
    using assms(2) by (simp add: usize_shl_def usize_bound_def)
  have "usize_mul (2 ^ (j - 1)) 4096 = Some (2 ^ (j - 1) * 4096)" using assms(5) by simp
  then have new: "pa_new start (start + 2 ^ (j - 1) * 4096) j = Some ?a"
    using assms shl by (simp add: pa_new_def)
  have ok: "pa_params_ok ?a" using assms by (simp add: pa_params_ok_def)
  then have inv: "pa_inv ?a" by (auto simp: pa_inv_def nth_list_update)
  have F: "pa_free ?a = {(0, start)}" using assms(1)
    by (auto simp: pa_free_def nth_list_update split: if_splits)
  have "pages_ok ?a {}" unfolding pages_ok_def F
    using inv whole_free [OF pa_params_geom [OF ok]] by simp
  moreover have "pa_geo ?a = \<lparr>g_levels = j, g_size = 2 ^ (j - 1) * 4096, g_base = start\<rparr>" by (simp add: pa_geo_def)
  ultimately show ?thesis using new by blast
qed

text \<open>
  Initialising the page allocator for up to 64 TiB of RAM terminates without a panic and gives a
  consistent allocator, with nothing allocated, whose region covers the RAM.
\<close>

theorem init_page_allocator_correct:
  assumes "avail \<le> 2 ^ 46"
  shows "\<exists>a. init_page_allocator None avail = Some a \<and> pages_ok a {} \<and> avail \<le> g_size (pa_geo a) \<and>
    g_base (pa_geo a) = PAGEALLOC_START"
proof -
  obtain j where "pagealloc_size_loop avail (2 ^ 12) = Some (2 ^ j)" "12 \<le> j" "j \<le> 46" "avail \<le> 2 ^ j"
    using pagealloc_size_loop_ok [OF assms, of 12] by auto
  then obtain i where i: "pagealloc_size_loop avail 4096 = Some (2 ^ i * 4096)" "i \<le> 34" "avail \<le> 2 ^ i * 4096"
    using le_Suc_ex [of 12 j] by (auto simp: power_add mult.commute)
  have le: "(2::nat) ^ i \<le> 2 ^ 34" using i(2) by (intro power_increasing) simp_all
  then have lim: "PAGEALLOC_START + 2 ^ i * 4096 < usize_bound"
    by (simp add: PAGEALLOC_START_def usize_bound_def)
  have np: "usize_next_power_of_two (2 ^ i) = Some (2 ^ i)"
    using le by (simp add: usize_next_power_of_two_def usize_bound_def)
  have va: "virt_addr_new PAGEALLOC_START = Some PAGEALLOC_START"
    "virt_addr_new (PAGEALLOC_START + 2 ^ i * 4096) = Some (PAGEALLOC_START + 2 ^ i * 4096)"
    using lim by (simp_all add: virt_addr_new_def PAGEALLOC_START_def usize_bound_def)
  have "init_page_allocator None avail = pa_new PAGEALLOC_START (PAGEALLOC_START + 2 ^ i * 4096) (Suc i)"
    using i(1) lim np va by (simp add: init_page_allocator_def)
  moreover have "0 < PAGEALLOC_START" "4096 dvd PAGEALLOC_START" by (simp_all add: PAGEALLOC_START_def)
  ultimately show ?thesis using pa_new_ok [of "Suc i" PAGEALLOC_START] i(2,3) lim
    by (auto simp del: pa_geo_sel)
qed

section \<open>Witnesses\<close>

text \<open>A region of four pages, free and fully allocated.\<close>

definition four_pages :: page_allocator where
  "four_pages = \<lparr>pa_heap_start = 65536, pa_heap_end = 81920, pa_levels = 3, pa_free_lists = [[65536], [], []]\<rparr>"

definition four_pages_used :: page_allocator where
  "four_pages_used = four_pages\<lparr>pa_free_lists := [[], [], []]\<rparr>"

lemma four_pages_ok: "pages_ok four_pages {}"
proof -
  have "pa_new 65536 81920 3 = Some four_pages"
    by (simp add: pa_new_def four_pages_def usize_shl_def usize_bound_def numeral_3_eq_3)
  then show ?thesis using pa_new_ok [of 3 65536] by (auto simp: usize_bound_def)
qed

lemma four_pages_geo [simp]:
  "pa_geo four_pages = \<lparr>g_levels = 3, g_size = 16384, g_base = 65536\<rparr>" "pa_geo four_pages_used = pa_geo four_pages"
  by (simp_all add: pa_geo_def four_pages_def four_pages_used_def)

lemma four_pages_used_ok: "pages_ok four_pages_used {(0, 65536)}"
proof -
  have "pa_get_free_block four_pages 0 = Some (Some 65536, four_pages_used)"
    by (simp add: pa_get_free_block.simps pa_list_pop_def four_pages_def four_pages_used_def)
  then show ?thesis using pa_get_ok [OF four_pages_ok, of 0] by (auto simp: four_pages_def)
qed

lemma four_pages_room: "has_room (pa_geo four_pages) {} 16384"
  unfolding has_room_def
  using whole_aligned [OF pages_okD(4) [OF four_pages_ok]] by (intro exI [of _ "(0, 65536)"]) simp

lemma next_pow2_three_pages: "next_pow2 12288 = 16384" "next_pow2 16384 = 16384" "next_pow2 20480 = 32768"
  by (simp_all add: next_pow2.simps)

theorem allocate_pages_correct_witness:
  "\<exists>r a' k'. allocate_pages bump_mm four_pages 3 (Map.empty, 0) = Some (r, a', k') \<and>
    (\<exists>l p. pages_ok a' {(l, p)} \<and> bsize (pa_geo four_pages) l = 16384)"
  using allocate_pages_correct [OF four_pages_ok bump_mm_spec, of 3 "(Map.empty, 0)"] four_pages_room
  by (auto simp: next_pow2_three_pages)

theorem deallocate_pages_correct_witness:
  "\<exists>ok a' k'. deallocate_pages bump_mm four_pages_used \<lparr>pl_page = 65536, pl_length = 4\<rparr> (\<lambda>_. Some 0, 0) =
    Some (ok, a', k') \<and> ok \<and> pages_ok a' {}"
  using deallocate_pages_correct [of four_pages_used 0 65536 "{}" bump_mm fst 4 "(\<lambda>_. Some 0, 0)"]
    four_pages_used_ok bump_mm_spec
  by (auto simp: next_pow2_three_pages)

end
