(* ===== verification/FrameAllocator.thy ===== *)
theory FrameAllocator
  imports DoubleFreeList PageAllocator
begin

text \<open>
  \<^verbatim>\<open>kernel/src/memory/paging.rs\<close>, the frame allocator \<^verbatim>\<open>FrameBuddyAllocator\<close> of one run of physical frames.
  Every frame of a memory region has a 32-byte descriptor in the page list at the start of the
  region; the blocks of the allocator are runs of descriptors, and the free lists are the doubly
  linked lists of \<open>DoubleFreeList\<close>.  The allocator splits relative to its own first frame but merges
  relative to the start of the page list; the contract it satisfies is therefore the tiling of
  \<open>buddy_allocator\<close> without natural alignment, and without full coalescing.
\<close>

section \<open>The code\<close>

text \<open>\<^verbatim>\<open>align_of::<DoubleFreeListNode>()\<close>.\<close>

definition NODE_ALIGN :: nat where
  "NODE_ALIGN = 32"

record frame_buddy =
  fb_free_lists :: "double_free_list list"
  fb_levels :: nat
  fb_virt_start :: addr
  fb_virt_end :: addr
  fb_page_list_start :: addr

type_synonym fb_state = "frame_buddy \<times> dmem"

definition fb_new :: "nat \<Rightarrow> nat \<Rightarrow> addr \<Rightarrow> addr \<Rightarrow> addr \<Rightarrow> dmem \<Rightarrow> fb_state rust" where
  "fb_new L levels start limit page_list_start m = do {
     rust_assert (levels \<ge> 2);
     rust_assert (start mod 4096 = 0);
     rust_assert (limit mod 4096 = 0);
     region_size \<leftarrow> usize_sub limit start;
     n \<leftarrow> usize_sub levels 1;
     pages \<leftarrow> usize_shl 1 n;
     expected_size \<leftarrow> usize_mul pages 4096;
     rust_assert (region_size = expected_size);
     let free_lists = replicate L dfl_new;
     d \<leftarrow> usize_sub start page_list_start;
     let page_index = d div 4096;
     let page_ptr = page_index * NODE_ALIGN + page_list_start;
     l0 \<leftarrow> vec_get free_lists 0;
     node \<leftarrow> non_null (page_ptr mod usize_bound);
     (l0, m) \<leftarrow> dfl_push l0 node (region_size div 4096) m;
     Some (\<lparr>fb_free_lists = free_lists[0 := l0], fb_levels = levels, fb_virt_start = start,
       fb_virt_end = limit, fb_page_list_start = page_list_start\<rparr>, m)
   }"

definition fb_block_size :: "frame_buddy \<Rightarrow> nat \<Rightarrow> nat rust" where
  "fb_block_size f level = do {
     d \<leftarrow> usize_sub (fb_virt_end f) (fb_virt_start f);
     usize_shr (d div 4096) level
   }"

definition fb_get_level_from_size :: "frame_buddy \<Rightarrow> nat \<Rightarrow> nat option rust" where
  "fb_get_level_from_size f sz = do {
     m \<leftarrow> usize_sub (fb_virt_end f) (fb_virt_start f);
     let (level, block_size) = level_loop (fb_levels f) sz 0 m;
     Some (if sz > block_size then None else Some level)
   }"

definition fb_list_pop :: "fb_state \<Rightarrow> nat \<Rightarrow> (addr option \<times> fb_state) rust" where
  "fb_list_pop s level = (case s of (f, m) \<Rightarrow> do {
     fl \<leftarrow> vec_get (fb_free_lists f) level;
     (r, fl, m) \<leftarrow> dfl_pop fl m;
     Some (r, f\<lparr>fb_free_lists := (fb_free_lists f)[level := fl]\<rparr>, m)
   })"

text \<open>\<^verbatim>\<open>self.free_lists[level].push(ptr, self.block_size(level))\<close>.\<close>

definition fb_list_push :: "fb_state \<Rightarrow> nat \<Rightarrow> addr \<Rightarrow> fb_state rust" where
  "fb_list_push s level ptr = (case s of (f, m) \<Rightarrow> do {
     fl \<leftarrow> vec_get (fb_free_lists f) level;
     bs \<leftarrow> fb_block_size f level;
     (fl, m) \<leftarrow> dfl_push fl ptr bs m;
     Some (f\<lparr>fb_free_lists := (fb_free_lists f)[level := fl]\<rparr>, m)
   })"

definition fb_list_contains :: "fb_state \<Rightarrow> nat \<Rightarrow> addr \<Rightarrow> bool rust" where
  "fb_list_contains s level ptr = (case s of (f, m) \<Rightarrow> do {
     _ \<leftarrow> vec_get (fb_free_lists f) level;
     bs \<leftarrow> fb_block_size f level;
     Some (dfl_contains ptr bs m)
   })"

definition fb_list_remove :: "fb_state \<Rightarrow> nat \<Rightarrow> addr \<Rightarrow> fb_state rust" where
  "fb_list_remove s level ptr = (case s of (f, m) \<Rightarrow> do {
     fl \<leftarrow> vec_get (fb_free_lists f) level;
     (fl, m) \<leftarrow> dfl_remove fl ptr m;
     Some (f\<lparr>fb_free_lists := (fb_free_lists f)[level := fl]\<rparr>, m)
   })"

definition fb_split_buddy :: "fb_state \<Rightarrow> nat \<Rightarrow> addr \<Rightarrow> addr rust" where
  "fb_split_buddy s level block = do {
     bs \<leftarrow> fb_block_size (fst s) level;
     block_size \<leftarrow> usize_mul bs NODE_ALIGN;
     buddy_addr \<leftarrow> usize_add block block_size;
     non_null buddy_addr
   }"

definition fb_buddy :: "fb_state \<Rightarrow> nat \<Rightarrow> addr \<Rightarrow> addr rust" where
  "fb_buddy s level ptr = do {
     bs \<leftarrow> fb_block_size (fst s) level;
     block_size \<leftarrow> usize_mul bs NODE_ALIGN;
     offset \<leftarrow> usize_sub ptr (fb_page_list_start (fst s));
     buddy_addr \<leftarrow> usize_add (fb_page_list_start (fst s)) (offset XOR block_size);
     non_null buddy_addr
   }"

function fb_get_free_block :: "fb_state \<Rightarrow> nat \<Rightarrow> (addr option \<times> fb_state) rust"
  and fb_split_level :: "fb_state \<Rightarrow> nat \<Rightarrow> (addr option \<times> fb_state) rust" where
  "fb_get_free_block s level = do {
     (r, s) \<leftarrow> fb_list_pop s level;
     case r of Some block \<Rightarrow> Some (Some block, s) | None \<Rightarrow> fb_split_level s level
   }"
| "fb_split_level s level = (if level = 0 then Some (None, s) else do {
     (r, s) \<leftarrow> fb_get_free_block s (level - 1);
     case r of
       Some block \<Rightarrow> do {
         buddy_ptr \<leftarrow> fb_split_buddy s level block;
         s \<leftarrow> fb_list_push s level buddy_ptr;
         Some (Some block, s)
       }
     | None \<Rightarrow> Some (None, s)
   })"
  by pat_completeness auto
termination
  by (relation "measure (\<lambda>x. case x of Inl (_, l) \<Rightarrow> 2 * l + 1 | Inr (_, l) \<Rightarrow> 2 * l)") auto

fun fb_merge_buddies :: "fb_state \<Rightarrow> nat \<Rightarrow> addr \<Rightarrow> fb_state rust" where
  "fb_merge_buddies s level ptr = (if level = 0 then fb_list_push s level ptr else do {
     buddy_ptr \<leftarrow> fb_buddy s level ptr;
     found \<leftarrow> fb_list_contains s level buddy_ptr;
     if found then do {
       s \<leftarrow> fb_list_remove s level buddy_ptr;
       let merged_ptr = (if buddy_ptr < ptr then buddy_ptr else ptr);
       fb_merge_buddies s (level - 1) merged_ptr
     } else fb_list_push s level ptr
   })"

declare fb_get_free_block.simps [simp del] fb_split_level.simps [simp del] fb_merge_buddies.simps [simp del]

definition fb_allocate_contiguous_frames :: "fb_state \<Rightarrow> nat \<Rightarrow> (addr option \<times> fb_state) rust" where
  "fb_allocate_contiguous_frames s frames = do {
     sz \<leftarrow> usize_mul 4096 frames;
     level \<leftarrow> fb_get_level_from_size (fst s) sz;
     case level of
       None \<Rightarrow> Some (None, s)
     | Some level \<Rightarrow> do {
         (block, s) \<leftarrow> fb_get_free_block s level;
         case block of
           None \<Rightarrow> Some (None, s)
         | Some block \<Rightarrow> do {
             d \<leftarrow> usize_sub block (fb_page_list_start (fst s));
             let block_index = d div NODE_ALIGN;
             off \<leftarrow> usize_mul block_index 4096;
             actual_page \<leftarrow> usize_add (fb_page_list_start (fst s)) off;
             Some (Some actual_page, s)
           }
       }
   }"

definition fb_deallocate_contiguous_frames :: "fb_state \<Rightarrow> addr \<Rightarrow> nat \<Rightarrow> fb_state rust" where
  "fb_deallocate_contiguous_frames s addr frames = do {
     d \<leftarrow> usize_sub addr (fb_page_list_start (fst s));
     let page_index = d div 4096;
     off \<leftarrow> usize_mul page_index NODE_ALIGN;
     p \<leftarrow> usize_add (fb_page_list_start (fst s)) off;
     ptr \<leftarrow> non_null p;
     sz \<leftarrow> usize_mul 4096 frames;
     level \<leftarrow> fb_get_level_from_size (fst s) sz;
     level \<leftarrow> level;
     fb_merge_buddies s level ptr
   }"

section \<open>Representation\<close>

text \<open>
  The region of a frame allocator is its run of descriptors.  \<open>fb_zone\<close> is that run with half its size
  on either side: the descriptors that \<^verbatim>\<open>merge_buddies\<close> may look at.  The invariant demands that
  in this zone only the allocator's own free nodes carry the tags of its levels.
\<close>

definition fb_first_node :: "frame_buddy \<Rightarrow> addr" where
  "fb_first_node f = fb_page_list_start f + (fb_virt_start f - fb_page_list_start f) div 4096 * NODE_ALIGN"

definition fb_geo :: "fb_state \<Rightarrow> geom" where
  "fb_geo s = \<lparr>g_levels = fb_levels (fst s), g_size = 2 ^ (fb_levels (fst s) - 1) * NODE_ALIGN,
     g_base = fb_first_node (fst s)\<rparr>"

definition fb_pages :: "frame_buddy \<Rightarrow> nat \<Rightarrow> nat" where
  "fb_pages f l = 2 ^ (fb_levels f - 1 - l)"

definition fb_nodes :: "fb_state \<Rightarrow> nat \<Rightarrow> addr list" where
  "fb_nodes s l = dfl_items (fb_free_lists (fst s) ! l) (snd s)"

definition fb_free :: "fb_state \<Rightarrow> block set" where
  "fb_free s = (SIGMA l : {..< fb_levels (fst s)}. set (fb_nodes s l))"

definition fb_zone :: "fb_state \<Rightarrow> addr set" where
  "fb_zone s = {a. g_base (fb_geo s) \<le> a + g_size (fb_geo s) div 2 \<and>
     a < g_base (fb_geo s) + g_size (fb_geo s) + g_size (fb_geo s) div 2}"

definition fb_params_ok :: "frame_buddy \<Rightarrow> bool" where
  "fb_params_ok f \<longleftrightarrow> 2 \<le> fb_levels f \<and> fb_levels f < 52 \<and> fb_levels f \<le> length (fb_free_lists f) \<and>
     0 < fb_page_list_start f \<and> fb_page_list_start f \<le> fb_virt_start f \<and>
     4096 dvd fb_virt_start f - fb_page_list_start f \<and>
     fb_virt_end f = fb_virt_start f + 2 ^ (fb_levels f - 1) * 4096 \<and> fb_virt_end f < usize_bound"

definition fb_inv :: "fb_state \<Rightarrow> bool" where
  "fb_inv s \<longleftrightarrow> fb_params_ok (fst s) \<and>
     (\<forall>l < fb_levels (fst s). dfl_ok (fb_pages (fst s) l) (fb_free_lists (fst s) ! l) (snd s)) \<and>
     (\<forall>l < fb_levels (fst s). \<forall>p \<in> set (fb_nodes s l). 0 < p \<and> p < usize_bound) \<and>
     (\<forall>l < fb_levels (fst s). \<forall>a \<in> fb_zone s. dn_level_size (snd s a) = Some (fb_pages (fst s) l) \<longrightarrow>
        a \<in> set (fb_nodes s l))"

lemma fb_geo_sel [simp]:
  "g_levels (fb_geo s) = fb_levels (fst s)" "g_base (fb_geo s) = fb_first_node (fst s)"
  "g_size (fb_geo s) = 2 ^ (fb_levels (fst s) - 1) * NODE_ALIGN"
  by (simp_all add: fb_geo_def)

lemma mem_fb_free [simp]: "(l, p) \<in> fb_free s \<longleftrightarrow> l < fb_levels (fst s) \<and> p \<in> set (fb_nodes s l)"
  by (simp add: fb_free_def)

lemma fb_params_geom: "fb_params_ok (fst s) \<Longrightarrow> geom_ok (fb_geo s)"
  by (auto simp: fb_params_ok_def geom_ok_def NODE_ALIGN_def)

lemma fb_bsize: "l < fb_levels (fst s) \<Longrightarrow> bsize (fb_geo s) l = fb_pages (fst s) l * NODE_ALIGN"
proof -
  assume l: "l < fb_levels (fst s)"
  have "(2::nat) ^ (fb_levels (fst s) - 1) = 2 ^ (fb_levels (fst s) - 1 - l) * 2 ^ l"
    using l by (simp add: power_add [symmetric])
  then have "g_size (fb_geo s) = fb_pages (fst s) l * NODE_ALIGN * 2 ^ l" by (simp add: fb_pages_def)
  then show ?thesis by (simp only: bsize_def nonzero_mult_div_cancel_right power_not_zero) simp
qed

lemma fb_block_size_ok:
  assumes "fb_params_ok f" and "l < fb_levels f"
  shows "fb_block_size f l = Some (fb_pages f l)"
proof -
  have "(2::nat) ^ (fb_levels f - 1) = 2 ^ (fb_levels f - 1 - l) * 2 ^ l"
    using assms(2) by (simp add: power_add [symmetric])
  then show ?thesis using assms by (simp add: fb_params_ok_def fb_block_size_def usize_shr_def fb_pages_def)
qed

lemma fb_pages_inj: "l < fb_levels f \<Longrightarrow> k < fb_levels f \<Longrightarrow> fb_pages f l = fb_pages f k \<Longrightarrow> l = k"
  by (simp add: fb_pages_def)

text \<open>The descriptors of the run lie below the frames themselves, so nothing overflows.\<close>

lemma fb_node_bounds:
  assumes "fb_params_ok (fst s)"
  shows "fb_page_list_start (fst s) \<le> fb_first_node (fst s)"
    and "fb_first_node (fst s) + g_size (fb_geo s) \<le> fb_virt_end (fst s)"
    and "0 < fb_first_node (fst s)" and "NODE_ALIGN dvd fb_first_node (fst s) - fb_page_list_start (fst s)"
proof -
  let ?f = "fst s"
  let ?d = "fb_virt_start ?f - fb_page_list_start ?f"
  have "?d div 4096 * 32 \<le> ?d div 4096 * 4096" by simp
  also have "\<dots> \<le> ?d" by (rule div_times_less_eq_dividend)
  finally have "?d div 4096 * 32 \<le> ?d" .
  then have "fb_first_node ?f \<le> fb_virt_start ?f"
    using assms by (auto simp: fb_first_node_def NODE_ALIGN_def fb_params_ok_def)
  then show "fb_first_node ?f + g_size (fb_geo s) \<le> fb_virt_end ?f"
    using assms by (auto simp: fb_params_ok_def NODE_ALIGN_def)
qed (use assms in \<open>auto simp: fb_first_node_def fb_params_ok_def\<close>)

section \<open>The array of free lists\<close>

lemma fb_invD:
  assumes "fb_inv s" and "l < fb_levels (fst s)"
  shows "dfl_repr (fb_pages (fst s) l) (fb_free_lists (fst s) ! l) (snd s) (fb_nodes s l)"
    and "l < length (fb_free_lists (fst s))"
    and "\<And>p. p \<in> set (fb_nodes s l) \<Longrightarrow> 0 < p \<and> p < usize_bound"
    and "\<And>p. p \<in> set (fb_nodes s l) \<Longrightarrow> dn_level_size (snd s p) = Some (fb_pages (fst s) l)"
  using assms by (auto simp: fb_inv_def fb_params_ok_def dfl_ok_def fb_nodes_def dfl_repr_def)

lemma fb_nodes_disjoint:
  assumes "fb_inv s" "l < fb_levels (fst s)" "k < fb_levels (fst s)" "p \<in> set (fb_nodes s l)" "p \<in> set (fb_nodes s k)"
  shows "l = k"
  using fb_invD(4) [OF assms(1,2,4)] fb_invD(4) [OF assms(1,3,5)] fb_pages_inj [OF assms(2,3)] by simp

text \<open>
  Replacing one list, in a memory that agrees with the old one on the nodes of the others and on
  the tags of all nodes but one.
\<close>

lemma fb_update:
  assumes inv: "fb_inv (f, m)" and l: "l < fb_levels f" and r: "dfl_repr (fb_pages f l) fl m' xs"
    and fr: "\<forall>k < fb_levels f. k \<noteq> l \<longrightarrow> (\<forall>q \<in> set (fb_nodes (f, m) k). m' q = m q)"
    and bd: "\<forall>q \<in> set xs. 0 < q \<and> q < usize_bound"
    and tg: "\<forall>a. a \<noteq> q \<longrightarrow> dn_level_size (m' a) = dn_level_size (m a)"
    and tq: "dn_level_size (m' q) = (if q \<in> set xs then Some (fb_pages f l) else None)"
    and sub: "set (fb_nodes (f, m) l) \<subseteq> insert q (set xs)"
  defines "s' \<equiv> (f\<lparr>fb_free_lists := (fb_free_lists f)[l := fl]\<rparr>, m')"
  shows "fb_inv s'" and "fb_geo s' = fb_geo (f, m)"
    and "fb_free s' = {b \<in> fb_free (f, m). fst b \<noteq> l} \<union> {l} \<times> set xs"
proof -
  have par: "fb_params_ok f" and len: "l < length (fb_free_lists f)"
    using inv l fb_invD(2) [OF inv] by (auto simp: fb_inv_def)
  have old: "dfl_repr (fb_pages f k) (fb_free_lists f ! k) m' (fb_nodes (f, m) k)"
    if "k < fb_levels f" "k \<noteq> l" for k
    using dfl_repr_cong [OF fb_invD(1) [OF inv, of k], of m'] that fr by simp
  have nd: "fb_nodes s' k = (if k = l then xs else fb_nodes (f, m) k)" if "k < fb_levels f" for k
    using dfl_repr_items(1) [OF r] dfl_repr_items(1) [OF old [OF that]] len
    by (simp add: fb_nodes_def s'_def)
  have repr: "dfl_repr (fb_pages f k) (fb_free_lists (fst s') ! k) m' (fb_nodes s' k)" if "k < fb_levels f" for k
    using old [OF that] r len nd [OF that] by (cases "k = l") (simp_all add: s'_def)
  have sel [simp]: "fb_levels (fst s') = fb_levels f" "fb_pages (fst s') = fb_pages f" "snd s' = m'"
    by (simp_all add: s'_def fb_pages_def fun_eq_iff)
  show geo: "fb_geo s' = fb_geo (f, m)" by (simp add: fb_geo_def fb_first_node_def s'_def)
  have "fb_params_ok (fst s')" using par by (simp add: fb_params_ok_def s'_def)
  moreover have "0 < p \<and> p < usize_bound" if "k < fb_levels f" "p \<in> set (fb_nodes s' k)" for k p
    using that bd fb_invD(3) [OF inv, of k p] nd [OF that(1)] by (cases "k = l") simp_all
  moreover have "a \<in> set (fb_nodes s' k)"
    if k: "k < fb_levels f" and a: "a \<in> fb_zone s'" and t: "dn_level_size (m' a) = Some (fb_pages f k)" for k a
  proof (cases "a = q")
    case True
    then have "q \<in> set xs" "fb_pages f k = fb_pages f l" using t tq by (auto split: if_splits)
    then show ?thesis using True fb_pages_inj [OF k l] nd [OF k] by simp
  next
    case False
    then have "a \<in> set (fb_nodes (f, m) k)"
      using t tg inv k a geo by (auto simp: fb_inv_def fb_zone_def)
    then show ?thesis using sub False nd [OF k] by (cases "k = l") auto
  qed
  ultimately show "fb_inv s'" using repr dfl_repr_items(2) by (fastforce simp: fb_inv_def)
  show "fb_free s' = {b \<in> fb_free (f, m). fst b \<noteq> l} \<union> {l} \<times> set xs"
    using nd l by (auto simp: fb_free_def split: if_splits)
qed

lemma fb_pop_empty:
  assumes "fb_inv s" and "l < fb_levels (fst s)" and "\<And>p. (l, p) \<notin> fb_free s"
  shows "\<exists>s'. fb_list_pop s l = Some (None, s') \<and> fb_inv s' \<and> fb_geo s' = fb_geo s \<and> fb_free s' = fb_free s \<and>
    snd s' = snd s"
proof -
  note d = fb_invD [OF assms(1,2)]
  have "p \<notin> set (fb_nodes s l)" for p using assms(3) [of p] assms(2) by simp
  then have "fb_nodes s l = []" by (metis last_in_set)
  then have "dfl_pop (fb_free_lists (fst s) ! l) (snd s) = Some (None, fb_free_lists (fst s) ! l, snd s)"
    using dfl_pop_Nil d(1) by simp
  then have "fb_list_pop s l = Some (None, s)" using d(2) by (cases s) (simp add: fb_list_pop_def)
  then show ?thesis using assms(1) by auto
qed

lemma fb_pop_block:
  assumes "fb_inv s" and "l < fb_levels (fst s)" and "(l, q) \<in> fb_free s"
  shows "\<exists>p s'. fb_list_pop s l = Some (Some p, s') \<and> (l, p) \<in> fb_free s \<and> fb_inv s' \<and>
    fb_geo s' = fb_geo s \<and> fb_free s' = fb_free s - {(l, p)} \<and>
    (\<forall>x. (\<forall>k. (k, x) \<notin> fb_free s) \<longrightarrow> snd s' x = snd s x)"
proof -
  obtain f m where s: "s = (f, m)" by fastforce
  have inv: "fb_inv (f, m)" and l: "l < fb_levels f" using assms s by auto
  note d = fb_invD [OF inv, of l, simplified, OF l]
  obtain p ps where nd: "fb_nodes (f, m) l = p # ps" using assms(3) s by (cases "fb_nodes (f, m) l") auto
  from dfl_pop_repr [OF d(1) [unfolded nd]] obtain fl m' where
    pop: "dfl_pop (fb_free_lists f ! l) m = Some (Some p, fl, m')" and r: "dfl_repr (fb_pages f l) fl m' ps"
    and tp: "dn_level_size (m' p) = None" and fr: "\<forall>a. a \<notin> set (p # ps) \<longrightarrow> m' a = m a"
    and tg: "\<forall>a. a \<noteq> p \<longrightarrow> dn_level_size (m' a) = dn_level_size (m a)" by blast
  have dist: "p \<notin> set ps" using dfl_repr_distinct [OF d(1)] nd by simp
  have keep: "\<forall>k < fb_levels f. k \<noteq> l \<longrightarrow> (\<forall>q \<in> set (fb_nodes (f, m) k). m' q = m q)"
    using fr fb_nodes_disjoint [OF inv] l nd by (metis fst_conv)
  have bd: "\<forall>q \<in> set ps. 0 < q \<and> q < usize_bound" using d(3) nd by simp
  have tq: "dn_level_size (m' p) = (if p \<in> set ps then Some (fb_pages f l) else None)" using tp dist by simp
  have sub: "set (fb_nodes (f, m) l) \<subseteq> insert p (set ps)" using nd by simp
  note u = fb_update [OF inv l r keep bd tg tq sub]
  let ?s = "(f\<lparr>fb_free_lists := (fb_free_lists f)[l := fl]\<rparr>, m')"
  have "fb_free ?s = fb_free s - {(l, p)}" using nd dist l unfolding u(3) s by auto
  moreover have "fb_list_pop s l = Some (Some p, ?s)" using pop d(2) by (simp add: s fb_list_pop_def)
  moreover have "(l, p) \<in> fb_free s" using l nd s by simp
  moreover have "snd ?s x = snd s x" if "\<forall>k. (k, x) \<notin> fb_free s" for x
    using fr that [rule_format, of l] nd l by (simp add: s)
  ultimately show ?thesis using u(1,2) s by blast
qed

lemma fb_len_bound:
  assumes "fb_inv s" and "l < fb_levels (fst s)" and "p \<notin> set (fb_nodes s l)" and "0 < p" and "p < usize_bound"
  shows "Suc (dfl_len (fb_free_lists (fst s) ! l)) < usize_bound"
proof -
  note d = fb_invD [OF assms(1,2)]
  have "insert p (set (fb_nodes s l)) \<subseteq> {0 <..< usize_bound}" using d(3) assms by auto
  then have "card (insert p (set (fb_nodes s l))) \<le> card {0 <..< usize_bound}" by (intro card_mono) auto
  moreover have "card (insert p (set (fb_nodes s l))) = Suc (dfl_len (fb_free_lists (fst s) ! l))"
    using assms(3) d(1) dfl_repr_distinct [OF d(1)] by (simp add: distinct_card dfl_repr_def)
  moreover have "0 < usize_bound" by (simp add: usize_bound_def)
  ultimately show ?thesis by simp
qed

lemma fb_region_bound:
  assumes "fb_inv s" and "in_region (fb_geo s) (l, p)"
  shows "0 < p" and "p + bsize (fb_geo s) l < usize_bound" and "l < fb_levels (fst s)"
    and "fb_page_list_start (fst s) \<le> p" and "p < usize_bound"
proof -
  have ok: "fb_params_ok (fst s)" using assms(1) by (simp add: fb_inv_def)
  note n = fb_node_bounds [OF ok]
  show "l < fb_levels (fst s)" "0 < p" "fb_page_list_start (fst s) \<le> p"
    using assms(2) n by (auto simp: in_region_def)
  have "p + bsize (fb_geo s) l \<le> fb_virt_end (fst s)" using assms(2) n(2) by (auto simp: in_region_def)
  then show "p + bsize (fb_geo s) l < usize_bound" using ok by (auto simp: fb_params_ok_def)
  then show "p < usize_bound" by simp
qed

lemma fb_push_block:
  assumes "fb_inv s" and "in_region (fb_geo s) (l, p)" and nf: "\<And>k. (k, p) \<notin> fb_free s"
  shows "\<exists>s'. fb_list_push s l p = Some s' \<and> fb_inv s' \<and> fb_geo s' = fb_geo s \<and>
    fb_free s' = insert (l, p) (fb_free s) \<and>
    (\<forall>x. x \<noteq> p \<and> (\<forall>k. (k, x) \<notin> fb_free s) \<longrightarrow> snd s' x = snd s x)"
proof -
  obtain f m where s: "s = (f, m)" by fastforce
  note b = fb_region_bound [OF assms(1,2)]
  have inv: "fb_inv (f, m)" and l: "l < fb_levels f" using assms(1) b(3) s by auto
  note d = fb_invD [OF inv, of l, simplified, OF l]
  have np: "p \<notin> set (fb_nodes (f, m) k)" if "k < fb_levels f" for k using nf [of k] that s by simp
  have "Suc (dfl_len (fb_free_lists f ! l)) < usize_bound"
    using fb_len_bound [OF inv, of l p] np [OF l] l b by simp
  from dfl_push_repr [OF d(1) np [OF l] this] obtain fl m' where
    push: "dfl_push (fb_free_lists f ! l) p (fb_pages f l) m = Some (fl, m')"
    and r: "dfl_repr (fb_pages f l) fl m' (p # fb_nodes (f, m) l)"
    and fr: "\<forall>a. a \<notin> insert p (set (fb_nodes (f, m) l)) \<longrightarrow> m' a = m a"
    and tg: "\<forall>a. a \<noteq> p \<longrightarrow> dn_level_size (m' a) = dn_level_size (m a)" by blast
  have keep: "\<forall>k < fb_levels f. k \<noteq> l \<longrightarrow> (\<forall>q \<in> set (fb_nodes (f, m) k). m' q = m q)"
    using fr fb_nodes_disjoint [OF inv] l np by (metis fst_conv insert_iff)
  have bd: "\<forall>q \<in> set (p # fb_nodes (f, m) l). 0 < q \<and> q < usize_bound" using d(3) b(1,5) by simp
  have tq: "dn_level_size (m' p) = (if p \<in> set (p # fb_nodes (f, m) l) then Some (fb_pages f l) else None)"
    using r by (simp add: dfl_repr_def)
  have sub: "set (fb_nodes (f, m) l) \<subseteq> insert p (set (p # fb_nodes (f, m) l))" by auto
  note u = fb_update [OF inv l r keep bd tg tq sub]
  let ?s = "(f\<lparr>fb_free_lists := (fb_free_lists f)[l := fl]\<rparr>, m')"
  have "fb_free ?s = insert (l, p) (fb_free s)" using l unfolding u(3) s by auto
  moreover have "fb_params_ok f" using inv by (simp add: fb_inv_def)
  then have "fb_list_push s l p = Some ?s"
    using push d(2) fb_block_size_ok [OF _ l] by (simp add: s fb_list_push_def)
  moreover have "snd ?s x = snd s x" if "x \<noteq> p" "\<forall>k. (k, x) \<notin> fb_free s" for x
    using fr that(1) that(2) [rule_format, of l] l by (simp add: s)
  ultimately show ?thesis using u(1,2) s by blast
qed

lemma fb_del_block:
  assumes "fb_inv s" and "(l, p) \<in> fb_free s"
  shows "\<exists>s'. fb_list_remove s l p = Some s' \<and> fb_inv s' \<and> fb_geo s' = fb_geo s \<and>
    fb_free s' = fb_free s - {(l, p)} \<and> (\<forall>x. (\<forall>k. (k, x) \<notin> fb_free s) \<longrightarrow> snd s' x = snd s x)"
proof -
  obtain f m where s: "s = (f, m)" by fastforce
  have inv: "fb_inv (f, m)" and l: "l < fb_levels f" and p: "p \<in> set (fb_nodes (f, m) l)" using assms s by auto
  note d = fb_invD [OF inv, of l, simplified, OF l]
  obtain us vs where nd: "fb_nodes (f, m) l = us @ p # vs" using p by (auto simp: in_set_conv_decomp)
  from dfl_remove_repr [OF d(1) [unfolded nd]] obtain fl m' where
    rem: "dfl_remove (fb_free_lists f ! l) p m = Some (fl, m')" and r: "dfl_repr (fb_pages f l) fl m' (us @ vs)"
    and tp: "dn_level_size (m' p) = None" and fr: "\<forall>a. a \<notin> set (us @ p # vs) \<longrightarrow> m' a = m a"
    and tg: "\<forall>a. a \<noteq> p \<longrightarrow> dn_level_size (m' a) = dn_level_size (m a)" by blast
  have dist: "p \<notin> set (us @ vs)" using dfl_repr_distinct [OF d(1)] nd by simp
  have keep: "\<forall>k < fb_levels f. k \<noteq> l \<longrightarrow> (\<forall>q \<in> set (fb_nodes (f, m) k). m' q = m q)"
    using fr fb_nodes_disjoint [OF inv] l nd by (metis fst_conv)
  have bd: "\<forall>q \<in> set (us @ vs). 0 < q \<and> q < usize_bound" using d(3) nd by auto
  have tq: "dn_level_size (m' p) = (if p \<in> set (us @ vs) then Some (fb_pages f l) else None)" using tp dist by simp
  have sub: "set (fb_nodes (f, m) l) \<subseteq> insert p (set (us @ vs))" using nd by auto
  note u = fb_update [OF inv l r keep bd tg tq sub]
  let ?s = "(f\<lparr>fb_free_lists := (fb_free_lists f)[l := fl]\<rparr>, m')"
  have "fb_free ?s = fb_free s - {(l, p)}" using nd dist l unfolding u(3) s by auto
  moreover have "fb_list_remove s l p = Some ?s" using rem d(2) by (simp add: s fb_list_remove_def)
  moreover have "snd ?s x = snd s x" if "\<forall>k. (k, x) \<notin> fb_free s" for x
    using fr that [rule_format, of l] nd l by (simp add: s)
  ultimately show ?thesis using u(1,2) s by blast
qed

section \<open>The buddy allocator contract\<close>

lemma fb_inv_geom: "fb_inv s \<Longrightarrow> geom_ok (fb_geo s)"
  using fb_params_geom by (simp add: fb_inv_def)

lemma fb_split_buddy_ok:
  assumes inv: "fb_inv s" and l: "Suc l < fb_levels (fst s)" and r: "in_region (fb_geo s) (l, p)"
  shows "fb_split_buddy s (Suc l) p = Some (p + bsize (fb_geo s) (Suc l))"
proof -
  have ok: "fb_params_ok (fst s)" using inv by (simp add: fb_inv_def)
  have "in_region (fb_geo s) (Suc l, p)" using in_region_halves(1) [OF fb_inv_geom [OF inv] _ r] l by simp
  from fb_region_bound [OF inv this] show ?thesis
    using fb_block_size_ok [OF ok l] fb_bsize [of "Suc l" s] l by (simp add: fb_split_buddy_def)
qed

lemma fb_buddy_ok:
  assumes inv: "fb_inv s" and r: "in_region (fb_geo s) (Suc l, p)"
  shows "\<exists>b. fb_buddy s (Suc l) p = Some b \<and>
    (b = p + bsize (fb_geo s) (Suc l) \<or> p = b + bsize (fb_geo s) (Suc l))"
proof -
  note b = fb_region_bound [OF inv r]
  have ok: "fb_params_ok (fst s)" using inv by (simp add: fb_inv_def)
  define k where "k = fb_levels (fst s) - 1 - Suc l + 5"
  have k: "fb_pages (fst s) (Suc l) * NODE_ALIGN = 2 ^ k"
    by (simp add: fb_pages_def NODE_ALIGN_def k_def power_add)
  then have bs: "bsize (fb_geo s) (Suc l) = 2 ^ k" using fb_bsize [of "Suc l" s] b(3) by simp
  have "2 ^ k < usize_bound" using b(2) bs by simp
  then have mul: "usize_mul (fb_pages (fst s) (Suc l)) NODE_ALIGN = Some (2 ^ k)" using k by simp
  let ?o = "p - fb_page_list_start (fst s)"
  have ge: "2 ^ k \<le> ?o" if "odd (?o div 2 ^ k)" using that by (metis div_less even_zero not_le)
  have lt: "fb_page_list_start (fst s) + (?o XOR 2 ^ k) < usize_bound"
    "0 < fb_page_list_start (fst s) + (?o XOR 2 ^ k)"
    using b bs ok by (auto simp: xor_pow2_nat fb_params_ok_def)
  have "fb_buddy s (Suc l) p = Some (fb_page_list_start (fst s) + (?o XOR 2 ^ k))"
    using fb_block_size_ok [OF ok b(3)] mul b(4) lt by (simp add: fb_buddy_def)
  then show ?thesis using ge b(4) bs by (auto simp: xor_pow2_nat)
qed

lemma fb_has_block:
  assumes inv: "fb_inv s" and r: "in_region (fb_geo s) (Suc l, p)" and b: "fb_buddy s (Suc l) p = Some b"
  shows "fb_list_contains s (Suc l) b = Some ((Suc l, b) \<in> fb_free s)"
proof -
  have ok: "fb_params_ok (fst s)" using inv by (simp add: fb_inv_def)
  have l: "Suc l < fb_levels (fst s)" using r by (simp add: in_region_def)
  have adj: "b = p + bsize (fb_geo s) (Suc l) \<or> p = b + bsize (fb_geo s) (Suc l)"
    using fb_buddy_ok [OF inv r] b by simp
  have "bsize (fb_geo s) l \<le> g_size (fb_geo s)" unfolding bsize_def by (rule div_le_dividend)
  then have "2 * bsize (fb_geo s) (Suc l) \<le> g_size (fb_geo s)"
    using bsize_half [OF fb_inv_geom [OF inv], of l] l by (simp only: fb_geo_sel)
  then have "b \<in> fb_zone s" using adj r bsize_pos [OF fb_inv_geom [OF inv], of "Suc l"] l
    by (auto simp: fb_zone_def in_region_def)
  then have "dn_level_size (snd s b) = Some (fb_pages (fst s) (Suc l)) \<longleftrightarrow> b \<in> set (fb_nodes s (Suc l))"
    using inv l fb_invD(4) [OF inv l] by (auto simp: fb_inv_def)
  then show ?thesis using l fb_block_size_ok [OF ok l] fb_invD(2) [OF inv l]
    by (cases s) (auto simp: fb_list_contains_def dfl_contains_def split: option.split)
qed

interpretation fb: buddy_allocator fb_geo fb_inv fb_free fb_list_pop fb_list_push fb_list_remove
  snd "\<lambda>_ _ _. True" fb_split_buddy fb_buddy fb_list_contains fb_get_free_block fb_split_level fb_merge_buddies
proof (unfold_locales, goal_cases)
  case (2 s l)
  then show ?case using fb_pop_empty [of s l] by simp
next
  case (3 s l q)
  then show ?case using fb_pop_block [of s l q] by simp
next
  case (6 s l)
  show ?case by (subst fb_get_free_block.simps) (rule refl)
next
  case (7 s l)
  show ?case by (subst fb_split_level.simps) (auto intro!: Option.bind_cong split: option.split)
next
  case (8 s l p)
  have "(if b < p then b else p) = min p b" for b by (simp add: min_def)
  then show ?case by (subst fb_merge_buddies.simps) (simp only: Let_def)
next
  case (9 s l p A)
  then show ?case using fb_split_buddy_ok [of s l p] buddy_inv_region [of "fb_geo s" _ _ "(l, p)"] by simp
next
  case (10 s l p A)
  then show ?case using fb_buddy_ok [of s l p] buddy_inv_region [of "fb_geo s" _ _ "(Suc l, p)"] by simp
qed (blast intro: fb_inv_geom fb_push_block fb_del_block fb_has_block)+

section \<open>Correctness of one allocator\<close>

definition frames_ok :: "fb_state \<Rightarrow> block set \<Rightarrow> bool" where
  "frames_ok s A \<longleftrightarrow> fb_inv s \<and> buddy_inv (fb_geo s) (fb_free s) A"

text \<open>The page a descriptor stands for, and the addresses of the pages of a block.\<close>

definition fb_page_of :: "frame_buddy \<Rightarrow> addr \<Rightarrow> addr" where
  "fb_page_of f p = fb_page_list_start f + (p - fb_page_list_start f) div NODE_ALIGN * 4096"

definition fb_block_pages :: "frame_buddy \<Rightarrow> block \<Rightarrow> addr set" where
  "fb_block_pages f b = {fb_page_of f (snd b) ..< fb_page_of f (snd b) + fb_pages f (fst b) * 4096}"

lemma frames_okD:
  assumes "frames_ok s A"
  shows "fb_inv s" "buddy_inv (fb_geo s) (fb_free s) A" "geom_ok (fb_geo s)" "fb_params_ok (fst s)"
  using assms fb_inv_geom by (auto simp: frames_ok_def fb_inv_def)

lemma fb_grain: "fb_params_ok (fst s) \<Longrightarrow> grain (fb_geo s) = NODE_ALIGN"
  using fb_bsize [of "fb_levels (fst s) - 1" s] by (simp add: grain_def fb_params_ok_def fb_pages_def)

text \<open>A block of descriptors is the page list start plus a whole number of descriptors.\<close>

lemma fb_block_index:
  assumes ok: "fb_params_ok (fst s)" and r: "in_region (fb_geo s) (l, p)"
  obtains i where "p = fb_page_list_start (fst s) + (fb_virt_start (fst s) - fb_page_list_start (fst s)) div 4096 * NODE_ALIGN + i * NODE_ALIGN"
    "i + fb_pages (fst s) l \<le> 2 ^ (fb_levels (fst s) - 1)"
    "fb_page_of (fst s) p = fb_virt_start (fst s) + i * 4096"
proof -
  let ?f = "fst s"
  have l: "l < fb_levels ?f" and base: "fb_first_node ?f \<le> p"
    and hi: "p + bsize (fb_geo s) l \<le> fb_first_node ?f + g_size (fb_geo s)"
    using r by (simp_all add: in_region_def)
  have "NODE_ALIGN dvd p - fb_first_node ?f" using r fb_grain [OF ok] by (simp add: in_region_def)
  then obtain i where "p - fb_first_node ?f = i * NODE_ALIGN" by (metis dvd_div_mult_self)
  then have i: "p = fb_first_node ?f + i * NODE_ALIGN" using base by simp
  then have "(i + fb_pages ?f l) * NODE_ALIGN \<le> 2 ^ (fb_levels ?f - 1) * NODE_ALIGN"
    using hi fb_bsize [OF l] by (simp add: algebra_simps)
  then have "i + fb_pages ?f l \<le> 2 ^ (fb_levels ?f - 1)" by (simp add: NODE_ALIGN_def)
  moreover obtain d where d: "fb_virt_start ?f - fb_page_list_start ?f = d * 4096" "fb_page_list_start ?f \<le> fb_virt_start ?f"
    using ok by (auto simp: fb_params_ok_def dvd_def mult.commute)
  moreover have "p - fb_page_list_start ?f = (d + i) * NODE_ALIGN"
    using i d by (simp add: fb_first_node_def algebra_simps)
  then have "fb_page_of ?f p = fb_page_list_start ?f + (d + i) * 4096"
    by (simp add: fb_page_of_def NODE_ALIGN_def)
  then have "fb_page_of ?f p = fb_virt_start ?f + i * 4096" using d by (simp add: algebra_simps)
  ultimately show thesis using that i by (simp add: fb_first_node_def)
qed

text \<open>Blocks of descriptors that do not overlap stand for runs of pages that do not overlap.\<close>

lemma fb_pages_disjoint:
  assumes ok: "fb_params_ok (fst s)" and b: "in_region (fb_geo s) b" and c: "in_region (fb_geo s) c"
    and dis: "extent (fb_geo s) b \<inter> extent (fb_geo s) c = {}"
  shows "fb_block_pages (fst s) b \<inter> fb_block_pages (fst s) c = {}"
proof -
  obtain l p k q where bc: "b = (l, p)" "c = (k, q)" by fastforce
  let ?base = "fb_page_list_start (fst s) + (fb_virt_start (fst s) - fb_page_list_start (fst s)) div 4096 * NODE_ALIGN"
  obtain i where i: "p = ?base + i * NODE_ALIGN" "fb_page_of (fst s) p = fb_virt_start (fst s) + i * 4096"
    using fb_block_index [OF ok b [unfolded bc]] by metis
  obtain j where j: "q = ?base + j * NODE_ALIGN" "fb_page_of (fst s) q = fb_virt_start (fst s) + j * 4096"
    using fb_block_index [OF ok c [unfolded bc]] by metis
  have lk: "l < fb_levels (fst s)" "k < fb_levels (fst s)" using b c bc by (simp_all add: in_region_def)
  have pos: "0 < fb_pages (fst s) l" "0 < fb_pages (fst s) k" by (simp_all add: fb_pages_def)
  have "p + bsize (fb_geo s) l \<le> q \<or> q + bsize (fb_geo s) k \<le> p"
  proof (rule ccontr)
    assume "\<not> ?thesis"
    then have "max p q \<in> extent (fb_geo s) b \<inter> extent (fb_geo s) c"
      using fb_bsize [OF lk(1)] fb_bsize [OF lk(2)] pos by (simp add: extent_def bc NODE_ALIGN_def max_def)
    with dis show False by simp
  qed
  then have "(i + fb_pages (fst s) l) * NODE_ALIGN \<le> j * NODE_ALIGN \<or> (j + fb_pages (fst s) k) * NODE_ALIGN \<le> i * NODE_ALIGN"
    using fb_bsize [OF lk(1)] fb_bsize [OF lk(2)] i(1) j(1) by (simp add: algebra_simps)
  then have "i + fb_pages (fst s) l \<le> j \<or> j + fb_pages (fst s) k \<le> i"
    by (simp only: mult_le_cancel2 NODE_ALIGN_def zero_less_numeral simp_thms)
  then show ?thesis using i(2) j(2) by (auto simp: fb_block_pages_def bc)
qed

text \<open>The level of a power-of-two request is exact; one that is not a power of two has no level.\<close>

lemma fb_size_geom:
  assumes "fb_params_ok f"
  defines "g \<equiv> \<lparr>g_levels = fb_levels f, g_size = 2 ^ (fb_levels f - 1) * 4096, g_base = 0\<rparr>"
  shows "geom_ok g" and "l < fb_levels f \<Longrightarrow> bsize g l = fb_pages f l * 4096"
    and "fb_get_level_from_size f sz = Some (let (level, bs) = level_loop (g_levels g) sz 0 (bsize g 0)
      in if sz > bs then None else Some level)"
proof -
  show "geom_ok g" using assms(1) by (simp add: g_def geom_ok_def fb_params_ok_def)
  show "bsize g l = fb_pages f l * 4096" if "l < fb_levels f"
  proof -
    have "(2::nat) ^ (fb_levels f - 1) = 2 ^ (fb_levels f - 1 - l) * 2 ^ l"
      using that by (simp add: power_add [symmetric])
    then have "2 ^ (fb_levels f - 1) * 4096 = fb_pages f l * 4096 * 2 ^ l" by (simp add: fb_pages_def)
    then show ?thesis by (simp only: g_def bsize_def geom.simps nonzero_mult_div_cancel_right power_not_zero) simp
  qed
  have "fb_virt_end f - fb_virt_start f = g_size g" using assms(1) by (simp add: g_def fb_params_ok_def)
  moreover have "fb_virt_start f \<le> fb_virt_end f" using assms(1) by (simp add: fb_params_ok_def)
  ultimately show "fb_get_level_from_size f sz = Some (let (level, bs) = level_loop (g_levels g) sz 0 (bsize g 0)
      in if sz > bs then None else Some level)"
    by (simp add: fb_get_level_from_size_def g_def split: prod.split)
qed

lemma fb_level_exact:
  assumes "fb_params_ok f" and "l < fb_levels f"
  shows "fb_get_level_from_size f (4096 * fb_pages f l) = Some (Some l)"
proof -
  note g = fb_size_geom [OF assms(1)]
  show ?thesis using level_loop_exact [OF g(1), of l 0] assms(2) g(2) [OF assms(2)]
    by (simp add: g(3) mult.commute)
qed

lemma fb_level_too_large:
  assumes "fb_params_ok f" and "2 ^ (fb_levels f - 1) * 4096 < sz"
  shows "fb_get_level_from_size f sz = Some None"
  using assms fb_size_geom(3) [OF assms(1)] by (simp add: level_loop.simps [of _ _ 0])

lemma frames_request:
  assumes "fb_params_ok f"
  obtains (level) l where "l < fb_levels f" "2 ^ i = fb_pages f l"
  | (large) "2 ^ (fb_levels f - 1) * 4096 < 4096 * (2::nat) ^ i"
proof (cases "i \<le> fb_levels f - 1")
  case True
  then have "2 ^ i = fb_pages f (fb_levels f - 1 - i)" by (simp add: fb_pages_def)
  moreover have "fb_levels f - 1 - i < fb_levels f" using assms by (simp add: fb_params_ok_def)
  ultimately show thesis using level by blast
next
  case False
  then have "(2::nat) ^ (fb_levels f - 1) < 2 ^ i" by (intro power_strict_increasing) simp_all
  then show thesis using large by simp
qed

text \<open>Where the loop stops above the last level, the block size is at most the request.\<close>

lemma level_loop_le:
  assumes g: "geom_ok g" and "l < g_levels g"
  shows "\<exists>j. level_loop (g_levels g) sz l (bsize g l) = (j, bsize g j) \<and> j < g_levels g \<and>
    (bsize g j \<le> sz \<or> Suc j = g_levels g)"
  using assms(2)
proof (induction "g_levels g - l" arbitrary: l)
  case (Suc n)
  show ?case
  proof (cases "sz < bsize g l \<and> Suc l < g_levels g")
    case True
    then have "level_loop (g_levels g) sz l (bsize g l) = level_loop (g_levels g) sz (Suc l) (bsize g (Suc l))"
      using bsize_half [OF g, of l] by (subst level_loop.simps) simp
    then show ?thesis using Suc.hyps(1) [of "Suc l"] Suc.hyps(2) True by simp
  next
    case False
    then have "level_loop (g_levels g) sz l (bsize g l) = (l, bsize g l)" by (subst level_loop.simps) auto
    then show ?thesis using False Suc.prems by auto
  qed
qed simp

text \<open>
  \<open>allocate_contiguous_frames\<close> does not round a request up to a power of two: a request for any
  other positive number of frames fails and changes nothing, however many frames are free.
\<close>

theorem fb_allocate_not_rounded:
  assumes ok: "fb_params_ok (fst s)" and n: "0 < n" "\<not> is_power_of_two n" "4096 * n < usize_bound"
  shows "fb_allocate_contiguous_frames s n = Some (None, s)"
proof -
  note g = fb_size_geom [OF ok]
  have lev: "0 < fb_levels (fst s)" using ok by (simp add: fb_params_ok_def)
  obtain j where j: "level_loop (fb_levels (fst s)) (4096 * n) 0 (2 ^ (fb_levels (fst s) - 1) * 4096) = (j, fb_pages (fst s) j * 4096)"
      "j < fb_levels (fst s)" "fb_pages (fst s) j * 4096 \<le> 4096 * n \<or> Suc j = fb_levels (fst s)"
    using level_loop_le [OF g(1), of 0 "4096 * n"] lev g(2) by auto
  have "fb_pages (fst s) j \<noteq> n" using n(2) by (auto simp: is_power_of_two_iff fb_pages_def)
  moreover have "fb_pages (fst s) j \<le> n"
    using j(3)
  proof
    assume "Suc j = fb_levels (fst s)"
    then have "fb_levels (fst s) - 1 - j = 0" by simp
    then show ?thesis using n(1) by (simp add: fb_pages_def)
  qed simp
  ultimately have "fb_pages (fst s) j * 4096 < 4096 * n" by simp
  then have "fb_get_level_from_size (fst s) (4096 * n) = Some None" using j(1) by (simp add: g(3))
  then show ?thesis using n(3) by (simp add: fb_allocate_contiguous_frames_def)
qed

text \<open>A block of the region as a run of pages.\<close>

lemma fb_block_range:
  assumes inv: "fb_inv s" and r: "in_region (fb_geo s) (l, p)"
  shows "fb_virt_start (fst s) \<le> fb_page_of (fst s) p"
    and "fb_page_of (fst s) p + fb_pages (fst s) l * 4096 \<le> fb_virt_end (fst s)"
    and "4096 dvd fb_page_of (fst s) p - fb_virt_start (fst s)"
    and "fb_page_of (fst s) p < usize_bound"
    and "fb_page_list_start (fst s) + (fb_page_of (fst s) p - fb_page_list_start (fst s)) div 4096 * NODE_ALIGN = p"
proof -
  have ok: "fb_params_ok (fst s)" using inv by (simp add: fb_inv_def)
  note b = fb_region_bound [OF inv r]
  obtain i where i: "p = fb_page_list_start (fst s) + (fb_virt_start (fst s) - fb_page_list_start (fst s)) div 4096 * NODE_ALIGN + i * NODE_ALIGN"
      "i + fb_pages (fst s) l \<le> 2 ^ (fb_levels (fst s) - 1)"
      "fb_page_of (fst s) p = fb_virt_start (fst s) + i * 4096"
    using fb_block_index [OF ok r] by metis
  have v: "fb_virt_end (fst s) = fb_virt_start (fst s) + 2 ^ (fb_levels (fst s) - 1) * 4096"
      "fb_virt_end (fst s) < usize_bound" using ok by (simp_all add: fb_params_ok_def)
  have "(i + fb_pages (fst s) l) * 4096 \<le> 2 ^ (fb_levels (fst s) - 1) * 4096" using i(2) by (rule mult_le_mono1)
  then show hi: "fb_page_of (fst s) p + fb_pages (fst s) l * 4096 \<le> fb_virt_end (fst s)"
    unfolding i(3) v(1) by (simp add: algebra_simps)
  show "fb_virt_start (fst s) \<le> fb_page_of (fst s) p" "4096 dvd fb_page_of (fst s) p - fb_virt_start (fst s)"
    unfolding i(3) by simp_all
  have "fb_page_of (fst s) p \<le> fb_virt_end (fst s)" using hi by simp
  then show "fb_page_of (fst s) p < usize_bound" using v(2) by (rule le_less_trans)
  obtain d where d: "fb_virt_start (fst s) = fb_page_list_start (fst s) + d * 4096"
    using ok unfolding fb_params_ok_def by (metis dvd_div_mult_self le_add_diff_inverse)
  have pg: "fb_page_of (fst s) p = fb_page_list_start (fst s) + (d + i) * 4096" unfolding i(3) d by (simp add: algebra_simps)
  then have "(fb_page_of (fst s) p - fb_page_list_start (fst s)) div 4096 = d + i" by simp
  moreover have "p = fb_page_list_start (fst s) + (d + i) * NODE_ALIGN" using i(1) d by (simp add: algebra_simps)
  ultimately show "fb_page_list_start (fst s) + (fb_page_of (fst s) p - fb_page_list_start (fst s)) div 4096 * NODE_ALIGN = p"
    by simp
qed

lemma fb_get_ok:
  assumes h: "frames_ok s A" and l: "l < fb_levels (fst s)"
  shows "(\<exists>p s'. fb_get_free_block s l = Some (Some p, s') \<and> (l, p) \<notin> A \<and> frames_ok s' (insert (l, p) A) \<and>
      fb_geo s' = fb_geo s \<and> keeps (fb_geo s) A (snd s) (snd s')) \<or>
    (\<exists>s'. fb_get_free_block s l = Some (None, s') \<and> frames_ok s' A \<and> fb_geo s' = fb_geo s \<and>
      fb_free s' = fb_free s \<and> (\<forall>b \<in> fb_free s. l < fst b) \<and> snd s' = snd s)"
  using fb.get_safe [of s l A] frames_okD [OF h] l by (auto simp: frames_ok_def)

text \<open>The operations only change the free lists of an allocator, never its bounds.\<close>

definition same_bounds :: "frame_buddy \<Rightarrow> frame_buddy \<Rightarrow> bool" where
  "same_bounds f f' \<longleftrightarrow> fb_levels f' = fb_levels f \<and> fb_virt_start f' = fb_virt_start f \<and>
     fb_virt_end f' = fb_virt_end f \<and> fb_page_list_start f' = fb_page_list_start f"

lemma same_bounds_trans: "same_bounds f f' \<Longrightarrow> same_bounds f' f'' \<Longrightarrow> same_bounds f f''"
  by (simp add: same_bounds_def)

lemma same_bounds_page_of: "same_bounds f f' \<Longrightarrow> fb_page_of f' = fb_page_of f \<and> fb_pages f' = fb_pages f"
  by (simp add: same_bounds_def fb_page_of_def fb_pages_def fun_eq_iff)

lemma fb_list_bounds:
  "fb_list_pop s l = Some (r, s') \<Longrightarrow> same_bounds (fst s) (fst s')"
  "fb_list_push s l p = Some s' \<Longrightarrow> same_bounds (fst s) (fst s')"
  "fb_list_remove s l p = Some s' \<Longrightarrow> same_bounds (fst s) (fst s')"
  by (auto simp: fb_list_pop_def fb_list_push_def fb_list_remove_def same_bounds_def
      split: prod.splits Option.bind_splits)

lemma fb_get_bounds:
  "fb_get_free_block s l = Some (r, s') \<Longrightarrow> same_bounds (fst s) (fst s')"
  "fb_split_level s l = Some (r, s') \<Longrightarrow> same_bounds (fst s) (fst s')"
proof (induction s l and s l arbitrary: r s' and r s' rule: fb_get_free_block_fb_split_level.induct)
  case (1 s l)
  from "1.prems" obtain q s1 where q: "fb_list_pop s l = Some (q, s1)"
      "(case q of Some b \<Rightarrow> Some (Some b, s1) | None \<Rightarrow> fb_split_level s1 l) = Some (r, s')"
    by (subst (asm) fb_get_free_block.simps) (auto split: Option.bind_splits)
  then show ?case using "1.IH" [OF q(1) refl] fb_list_bounds(1) [OF q(1)]
    by (auto split: option.splits intro: same_bounds_trans)
next
  case (2 s l)
  show ?case
  proof (cases "l = 0")
    case True
    then show ?thesis using "2.prems" by (simp add: fb_split_level.simps same_bounds_def)
  next
    case False
    from "2.prems" False obtain q s1 where q: "fb_get_free_block s (l - 1) = Some (q, s1)"
        "(case q of Some b \<Rightarrow> do { y \<leftarrow> fb_split_buddy s1 l b; s2 \<leftarrow> fb_list_push s1 l y; Some (Some b, s2) }
          | None \<Rightarrow> Some (None, s1)) = Some (r, s')"
      by (subst (asm) fb_split_level.simps) (auto split: Option.bind_splits)
    then show ?thesis using "2.IH" [OF False q(1)]
      by (auto split: option.splits Option.bind_splits intro: same_bounds_trans dest: fb_list_bounds(2))
  qed
qed

lemma fb_merge_bounds: "fb_merge_buddies s l p = Some s' \<Longrightarrow> same_bounds (fst s) (fst s')"
proof (induction s l p rule: fb_merge_buddies.induct)
  case (1 s l p)
  show ?case
  proof (cases "l = 0")
    case True
    then show ?thesis using "1.prems" fb_list_bounds(2) by (simp add: fb_merge_buddies.simps)
  next
    case False
    note eq = "1.prems" [unfolded fb_merge_buddies.simps [of s l p] Let_def if_not_P [OF False]]
    obtain b where b1: "fb_buddy s l p = Some b" using eq by (cases "fb_buddy s l p") simp_all
    obtain e where b2: "fb_list_contains s l b = Some e"
      using eq b1 by (cases "fb_list_contains s l b") simp_all
    have "(if e then do { s1 \<leftarrow> fb_list_remove s l b; fb_merge_buddies s1 (l - 1) (if b < p then b else p) }
          else fb_list_push s l p) = Some s'" using eq b1 b2 by simp
    note b = b1 b2 this
    show ?thesis
    proof (cases e)
      case True
      then obtain s1 where s1: "fb_list_remove s l b = Some s1"
          "fb_merge_buddies s1 (l - 1) (if b < p then b else p) = Some s'"
        using b(3) by (auto split: Option.bind_splits)
      then have "same_bounds (fst s1) (fst s')"
        using "1.IH" [OF False b(1,2) True s1(1) refl] by simp
      then show ?thesis by (rule same_bounds_trans [OF fb_list_bounds(3) [OF s1(1)]])
    next
      case False
      then show ?thesis using b(3) fb_list_bounds(2) by simp
    qed
  qed
qed

lemma fb_allocate_ok:
  assumes h: "frames_ok s A" and i: "4096 * 2 ^ i < usize_bound"
  shows "\<exists>r s'. fb_allocate_contiguous_frames s (2 ^ i) = Some (r, s') \<and> same_bounds (fst s) (fst s') \<and>
    (case r of
       Some a \<Rightarrow> \<exists>l p. (l, p) \<notin> A \<and> frames_ok s' (insert (l, p) A) \<and> fb_pages (fst s) l = 2 ^ i \<and>
         a = fb_page_of (fst s) p \<and> keeps (fb_geo s) A (snd s) (snd s') \<and> fb_geo s' = fb_geo s
     | None \<Rightarrow> frames_ok s' A \<and> fb_free s' = fb_free s \<and> snd s' = snd s \<and> fb_geo s' = fb_geo s \<and>
         (\<forall>b \<in> fb_free s. fb_pages (fst s) (fst b) < 2 ^ i))"
proof (cases rule: frames_request [OF frames_okD(4) [OF h], of i, case_names level large])
  case (level l)
  note d = frames_okD [OF h]
  have lev: "fb_get_level_from_size (fst s) (4096 * 2 ^ i) = Some (Some l)"
    using fb_level_exact [OF d(4) level(1)] level(2) by simp
  from fb_get_ok [OF h level(1)] show ?thesis
  proof (elim disjE exE conjE)
    fix p s' assume g: "fb_get_free_block s l = Some (Some p, s')" "(l, p) \<notin> A"
      "frames_ok s' (insert (l, p) A)" "fb_geo s' = fb_geo s" "keeps (fb_geo s) A (snd s) (snd s')"
    note sb = fb_get_bounds(1) [OF g(1)]
    note d' = frames_okD [OF g(3)]
    have r: "in_region (fb_geo s') (l, p)" using buddy_inv_region [OF d'(2), of "(l, p)"] by simp
    note b = fb_region_bound [OF d'(1) r] and rng = fb_block_range [OF d'(1) r]
    have pg: "fb_page_list_start (fst s') + (p - fb_page_list_start (fst s')) div NODE_ALIGN * 4096 = fb_page_of (fst s') p"
      by (simp add: fb_page_of_def)
    have "fb_allocate_contiguous_frames s (2 ^ i) = Some (Some (fb_page_of (fst s') p), s')"
      using i lev g(1) b(4) rng(4) pg by (simp add: fb_allocate_contiguous_frames_def)
    then show ?thesis using sb same_bounds_page_of [OF sb] g level(2) by auto
  next
    fix s' assume g: "fb_get_free_block s l = Some (None, s')" "frames_ok s' A" "fb_geo s' = fb_geo s"
      "fb_free s' = fb_free s" "\<forall>b \<in> fb_free s. l < fst b" "snd s' = snd s"
    have "fb_pages (fst s) (fst b) < 2 ^ i" if b: "b \<in> fb_free s" for b
    proof -
      have "l < fst b" "fst b < fb_levels (fst s)" using b g(5) by (auto simp: fb_free_def)
      then show ?thesis unfolding level(2) fb_pages_def by (intro power_strict_increasing) auto
    qed
    moreover have "fb_allocate_contiguous_frames s (2 ^ i) = Some (None, s')"
      using i lev g(1) by (simp add: fb_allocate_contiguous_frames_def)
    ultimately show ?thesis using fb_get_bounds(1) [OF g(1)] g by auto
  qed
next
  case large
  note d = frames_okD [OF h]
  have "fb_allocate_contiguous_frames s (2 ^ i) = Some (None, s)"
    using i fb_level_too_large [OF d(4), of "4096 * 2 ^ i"] large by (simp add: fb_allocate_contiguous_frames_def)
  moreover have "fb_pages (fst s) (fst b) < 2 ^ i" for b :: block
  proof -
    have "fb_pages (fst s) (fst b) \<le> 2 ^ (fb_levels (fst s) - 1)" by (simp add: fb_pages_def)
    then show ?thesis using large by linarith
  qed
  ultimately show ?thesis using h by (auto simp: same_bounds_def)
qed

lemma fb_deallocate_ok:
  assumes h: "frames_ok s (insert (l, p) A)" and n: "(l, p) \<notin> A"
  shows "\<exists>s'. fb_deallocate_contiguous_frames s (fb_page_of (fst s) p) (fb_pages (fst s) l) = Some s' \<and>
    frames_ok s' A \<and> fb_geo s' = fb_geo s \<and> keeps (fb_geo s) A (snd s) (snd s') \<and> same_bounds (fst s) (fst s')"
proof -
  note d = frames_okD [OF h]
  have r: "in_region (fb_geo s) (l, p)" using buddy_inv_region [OF d(2), of "(l, p)"] by simp
  note b = fb_region_bound [OF d(1) r] and rng = fb_block_range [OF d(1) r]
  have ge: "fb_page_list_start (fst s) \<le> fb_page_of (fst s) p" by (simp add: fb_page_of_def)
  have "4096 * fb_pages (fst s) l \<le> fb_virt_end (fst s)" using rng(2) by simp
  also have "\<dots> < usize_bound" using d(4) by (simp add: fb_params_ok_def)
  finally have sz: "4096 * fb_pages (fst s) l < usize_bound" .
  have "(fb_page_of (fst s) p - fb_page_list_start (fst s)) div 4096 * NODE_ALIGN \<le> p" using rng(5) by simp
  then have "fb_deallocate_contiguous_frames s (fb_page_of (fst s) p) (fb_pages (fst s) l) = fb_merge_buddies s l p"
    using ge rng(5) b(1,5) sz fb_level_exact [OF d(4) b(3)]
    by (simp add: fb_deallocate_contiguous_frames_def)
  then show ?thesis
    using fb.merge_safe [OF d(1,2) n TrueI] fb_merge_bounds by (fastforce simp: frames_ok_def)
qed

text \<open>
  A power-of-two request for frames never panics.  On success the returned address is the first
  page of a run inside the allocator's range that overlaps no allocated run; on failure no free
  block is that large, and nothing changes.
\<close>

theorem fb_allocate_correct:
  assumes h: "frames_ok s A" and i: "4096 * 2 ^ i < usize_bound"
  shows "\<exists>r s'. fb_allocate_contiguous_frames s (2 ^ i) = Some (r, s') \<and>
    (case r of
       Some a \<Rightarrow> \<exists>l p. frames_ok s' (insert (l, p) A) \<and> fb_pages (fst s) l = 2 ^ i \<and> a = fb_page_of (fst s) p \<and>
         fb_virt_start (fst s) \<le> a \<and> a + 2 ^ i * 4096 \<le> fb_virt_end (fst s) \<and>
         (\<forall>c \<in> A. {a ..< a + 2 ^ i * 4096} \<inter> fb_block_pages (fst s) c = {})
     | None \<Rightarrow> frames_ok s' A \<and> fb_free s' = fb_free s \<and> (\<forall>b \<in> fb_free s. fb_pages (fst s) (fst b) < 2 ^ i))"
proof -
  from fb_allocate_ok [OF h i] obtain r s' where
    al: "fb_allocate_contiguous_frames s (2 ^ i) = Some (r, s')" "same_bounds (fst s) (fst s')" and
    rs: "case r of
       Some a \<Rightarrow> \<exists>l p. (l, p) \<notin> A \<and> frames_ok s' (insert (l, p) A) \<and> fb_pages (fst s) l = 2 ^ i \<and>
         a = fb_page_of (fst s) p \<and> keeps (fb_geo s) A (snd s) (snd s') \<and> fb_geo s' = fb_geo s
     | None \<Rightarrow> frames_ok s' A \<and> fb_free s' = fb_free s \<and> snd s' = snd s \<and> fb_geo s' = fb_geo s \<and>
         (\<forall>b \<in> fb_free s. fb_pages (fst s) (fst b) < 2 ^ i)"
    by (elim exE conjE)
  show ?thesis
  proof (cases r)
    case None
    then show ?thesis using al rs by simp
  next
    case (Some a)
    with rs obtain l p where lp: "(l, p) \<notin> A" "frames_ok s' (insert (l, p) A)" "fb_pages (fst s) l = 2 ^ i"
        "a = fb_page_of (fst s) p" "fb_geo s' = fb_geo s" by auto
    note d = frames_okD [OF h] and d' = frames_okD [OF lp(2)]
    have r: "in_region (fb_geo s) (l, p)" using buddy_inv_region [OF d'(2), of "(l, p)"] lp(5) by simp
    note rng = fb_block_range [OF d(1) r]
    have "fb_block_pages (fst s) (l, p) \<inter> fb_block_pages (fst s) c = {}" if "c \<in> A" for c
    proof (rule fb_pages_disjoint [OF d(4) r])
      show "in_region (fb_geo s) c" using buddy_inv_region [OF d(2), of c] that by simp
      have "(l, p) \<noteq> c" using that lp(1) by blast
      then show "extent (fb_geo s) (l, p) \<inter> extent (fb_geo s) c = {}"
        using buddy_inv_disjoint [OF d'(2), of "(l, p)" c] that lp(5) by simp
    qed
    then have "\<forall>c \<in> A. {a ..< a + 2 ^ i * 4096} \<inter> fb_block_pages (fst s) c = {}"
      using lp(3,4) by (simp add: fb_block_pages_def)
    moreover have "fb_virt_start (fst s) \<le> a" "a + 2 ^ i * 4096 \<le> fb_virt_end (fst s)" using rng lp(3,4) by auto
    ultimately show ?thesis using al(1) Some lp by auto
  qed
qed

text \<open>giving back the first page and the length of an allocated run frees exactly that run.\<close>

theorem fb_deallocate_correct:
  assumes "frames_ok s (insert (l, p) A)" and "(l, p) \<notin> A"
  shows "\<exists>s'. fb_deallocate_contiguous_frames s (fb_page_of (fst s) p) (fb_pages (fst s) l) = Some s' \<and>
    frames_ok s' A"
  using fb_deallocate_ok [OF assms] by blast

section \<open>A fresh allocator\<close>

text \<open>Descriptors as \<^verbatim>\<open>fill_page_list\<close> writes them.\<close>

definition blank_node :: dnode where
  "blank_node = \<lparr>dn_next = None, dn_prev = None, dn_level_size = None\<rparr>"

lemma fb_fresh:
  fixes L levels start pls m
  defines "f \<equiv> \<lparr>fb_free_lists = (replicate L dfl_new)[0 := \<lparr>dfl_next = Some (pls + (start - pls) div 4096 * NODE_ALIGN),
    dfl_prev = None, dfl_len = 1\<rparr>], fb_levels = levels, fb_virt_start = start,
    fb_virt_end = start + 2 ^ (levels - 1) * 4096, fb_page_list_start = pls\<rparr>"
  defines "m' \<equiv> m(fb_first_node f := \<lparr>dn_next = None, dn_prev = None, dn_level_size = Some (2 ^ (levels - 1))\<rparr>)"
  assumes par: "fb_params_ok f" and al: "4096 dvd start"
    and blank: "\<forall>a \<in> fb_zone (f, m). dn_level_size (m a) = None"
  shows "fb_new L levels start (start + 2 ^ (levels - 1) * 4096) pls m = Some (f, m')"
    and "frames_ok (f, m') {}"
proof -
  let ?n = "fb_first_node f"
  have lv: "2 \<le> levels" "levels < 52" "levels \<le> L" "0 < pls" "pls \<le> start"
      "start + 2 ^ (levels - 1) * 4096 < usize_bound"
    using par by (auto simp: fb_params_ok_def f_def)
  define e where "e = pls + (start - pls) div 4096 * NODE_ALIGN"
  have n: "?n = e" by (simp add: fb_first_node_def f_def e_def)
  have nb: "0 < ?n" "?n < usize_bound"
    using fb_node_bounds(2,3) [of "(f, m)"] par by (auto simp: fb_params_ok_def)
  have "(2::nat) ^ (levels - 1) < 2 ^ 52" using lv(2) by (intro power_strict_increasing) simp_all
  then have shl: "usize_shl 1 (levels - 1) = Some (2 ^ (levels - 1))"
    using lv(2) by (simp add: usize_shl_def usize_bound_def)
  have mul: "usize_mul (2 ^ (levels - 1)) 4096 = Some (2 ^ (levels - 1) * 4096)" using lv(6) by simp
  have al': "(start + 2 ^ (levels - 1) * 4096) mod 4096 = 0" using al by simp
  have ptr: "((start - pls) div 4096 * NODE_ALIGN + pls) mod usize_bound = e"
    using n nb(2) by (simp add: add.commute e_def)
  have e: "0 < e" "e < usize_bound" using nb n by simp_all
  have lists: "fb_free_lists f = (replicate L dfl_new)[0 := \<lparr>dfl_next = Some e, dfl_prev = None, dfl_len = 1\<rparr>]"
    by (simp add: f_def e_def)
  have push: "dfl_push dfl_new e (2 ^ (levels - 1)) m = Some (\<lparr>dfl_next = Some e, dfl_prev = None, dfl_len = 1\<rparr>, m')"
    by (simp add: dfl_push_def dfl_new_def m'_def n set_next_def set_prev_def set_level_size_def usize_bound_def)
  show "fb_new L levels start (start + 2 ^ (levels - 1) * 4096) pls m = Some (f, m')"
    unfolding fb_new_def using lv al al' shl mul ptr push e by (simp add: Let_def f_def e_def [symmetric])
  have r0: "dfl_repr (2 ^ (levels - 1)) (fb_free_lists f ! 0) m' [?n]"
    using lv by (simp add: dfl_repr_def lists m'_def n)
  have rk: "dfl_repr (fb_pages f k) (fb_free_lists f ! k) m' (if k = 0 then [?n] else [])" if "k < levels" for k
    using r0 dfl_new_repr [of "fb_pages f k" m'] that lv by (auto simp: f_def fb_pages_def)
  have nd: "fb_nodes (f, m') k = (if k = 0 then [?n] else [])" if "k < levels" for k
    using dfl_repr_items(1) [OF rk [OF that]] by (simp add: fb_nodes_def)
  have dk: "dfl_ok (fb_pages f k) (fb_free_lists f ! k) m'" if "k < levels" for k
    by (rule dfl_repr_items(2) [OF rk [OF that]])
  have lvl [simp]: "fb_levels f = levels" by (simp add: f_def)
  have inv: "fb_inv (f, m')"
    unfolding fb_inv_def fst_conv snd_conv lvl
  proof (intro conjI allI impI ballI)
    fix k a assume k: "k < levels" and a: "a \<in> fb_zone (f, m')" and t: "dn_level_size (m' a) = Some (fb_pages f k)"
    have "a = ?n" using a t blank by (cases "a = ?n") (auto simp: m'_def fb_zone_def fb_geo_def)
    moreover have "levels - 1 - k = levels - 1" using t calculation by (simp add: m'_def fb_pages_def)
    then have "k = 0" using lv(1) k by simp
    ultimately show "a \<in> set (fb_nodes (f, m') k)" using nd [OF k] by simp
  qed (use par dk nd nb in \<open>auto split: if_splits\<close>)
  have "fb_free (f, m') = {(0, g_base (fb_geo (f, m')))}"
    using nd lv by (auto simp: fb_free_def split: if_splits)
  then show "frames_ok (f, m') {}" using inv whole_free(1) [OF fb_inv_geom [OF inv]] by (simp add: frames_ok_def)
qed

text \<open>An allocator of four frames at 8192 whose page list starts at 4096.\<close>

definition four_frames :: fb_state where
  "four_frames = (let f = \<lparr>fb_free_lists = (replicate 3 dfl_new)[0 := \<lparr>dfl_next = Some (4096 + (8192 - 4096) div 4096 * NODE_ALIGN),
      dfl_prev = None, dfl_len = 1\<rparr>], fb_levels = 3, fb_virt_start = 8192,
      fb_virt_end = 8192 + 2 ^ (3 - 1) * 4096, fb_page_list_start = 4096\<rparr>
    in (f, (\<lambda>_. blank_node)(fb_first_node f := \<lparr>dn_next = None, dn_prev = None, dn_level_size = Some (2 ^ (3 - 1))\<rparr>)))"

lemma four_frames_ok: "frames_ok four_frames {}"
  unfolding four_frames_def Let_def
  by (rule fb_fresh(2)) (simp_all add: fb_params_ok_def usize_bound_def blank_node_def)

lemma four_frames_params: "fb_params_ok (fst four_frames)"
  using frames_okD(4) [OF four_frames_ok] .

lemma four_frames_free: "fb_free four_frames \<noteq> {}"
proof
  assume "fb_free four_frames = {}"
  then have "region (fb_geo four_frames) = {}"
    using frames_okD(2) [OF four_frames_ok] by (simp add: buddy_inv_def tiling_def)
  then show False using frames_okD(3) [OF four_frames_ok] by (simp add: region_def geom_ok_def)
qed

lemma four_frames_taken: "\<exists>s l p. frames_ok s {(l, p)}"
proof -
  have "4096 * 2 ^ 0 < usize_bound" by (simp add: usize_bound_def)
  from fb_allocate_ok [OF four_frames_ok this] obtain r s' where
    rs: "case r of
       Some a \<Rightarrow> \<exists>l p. (l, p) \<notin> {} \<and> frames_ok s' (insert (l, p) {}) \<and> fb_pages (fst four_frames) l = 2 ^ 0 \<and>
         a = fb_page_of (fst four_frames) p \<and> keeps (fb_geo four_frames) {} (snd four_frames) (snd s') \<and> fb_geo s' = fb_geo four_frames
     | None \<Rightarrow> frames_ok s' {} \<and> fb_free s' = fb_free four_frames \<and> snd s' = snd four_frames \<and> fb_geo s' = fb_geo four_frames \<and>
         (\<forall>b \<in> fb_free four_frames. fb_pages (fst four_frames) (fst b) < 2 ^ 0)"
    by (elim exE conjE)
  obtain b where "b \<in> fb_free four_frames" using four_frames_free by blast
  then have "r \<noteq> None" using rs by (cases r) (auto simp: fb_pages_def fb_free_def)
  then obtain a where "r = Some a" by blast
  then have "\<exists>l p. frames_ok s' {(l, p)}" using rs by auto
  then show ?thesis by (rule exI)
qed

end
