(* ===== verification/Forest.thy ===== *)
theory Forest
  imports FrameAllocator
begin

text \<open>
  \<^verbatim>\<open>kernel/src/memory/paging.rs\<close>, the forest of frame allocators over all usable memory regions: the
  page lists, the division of a region into allocators, and allocation and deallocation through the
  first allocator that can serve a request.  All allocators share the descriptor memory.
\<close>

section \<open>The code\<close>

text \<open>An entry of the boot loader's memory map; only whether its type is \<^verbatim>\<open>USABLE\<close> matters.\<close>

record mem_entry =
  me_base :: addr
  me_length :: nat
  me_usable :: bool

definition fill_nodes :: "addr \<Rightarrow> nat \<Rightarrow> dmem \<Rightarrow> dmem" where
  "fill_nodes entry_base needed_entries m =
     fold (\<lambda>i m. m(entry_base + i * NODE_ALIGN := blank_node)) [0 ..< needed_entries] m"

fun fill_page_list :: "mem_entry list \<Rightarrow> nat \<Rightarrow> dmem \<Rightarrow> dmem rust" where
  "fill_page_list [] hhdm_offset m = Some m"
| "fill_page_list (entry # entries) hhdm_offset m =
     (if \<not> (me_usable entry \<and> me_base entry \<noteq> 0 \<and> me_length entry > 4096 * 4)
      then fill_page_list entries hhdm_offset m
      else do {
        entry_base \<leftarrow> usize_add (me_base entry) hhdm_offset;
        let needed_entries = me_length entry div 4096;
        fill_page_list entries hhdm_offset (fill_nodes entry_base needed_entries m)
      })"

record forest =
  fo_allocators :: "frame_buddy option list"
  fo_count :: nat
  fo_hddm_offset :: nat

type_synonym forest_state = "forest \<times> dmem"

text \<open>A planned allocator: start, frames, size in bytes, start of its page list.\<close>

type_synonym alloc_config = "nat \<times> nat \<times> nat \<times> nat"

partial_function (option) largest_pow2_loop :: "nat \<Rightarrow> nat \<Rightarrow> nat option" where
  "largest_pow2_loop remaining allocator_frames = do {
     d \<leftarrow> usize_mul allocator_frames 2;
     if d \<le> remaining then largest_pow2_loop remaining d else Some allocator_frames
   }"

partial_function (option) region_loop ::
  "nat \<Rightarrow> nat \<Rightarrow> nat \<Rightarrow> nat \<Rightarrow> nat \<Rightarrow> nat \<Rightarrow> alloc_config list \<Rightarrow> alloc_config list option" where
  "region_loop N min_frames hddm_offset start current_start remaining configs =
     (if remaining \<ge> min_frames then do {
        rust_assert (length configs < N);
        frames \<leftarrow> largest_pow2_loop remaining 1;
        size_bytes \<leftarrow> usize_mul frames 4096;
        list_start \<leftarrow> usize_add start hddm_offset;
        next_start \<leftarrow> usize_add current_start size_bytes;
        left \<leftarrow> usize_sub remaining frames;
        region_loop N min_frames hddm_offset start next_start left
          (configs @ [(current_start, frames, size_bytes, list_start)])
      } else Some configs)"

definition next_multiple_of :: "nat \<Rightarrow> nat \<Rightarrow> nat rust" where
  "next_multiple_of a b = (if a mod b = 0 then Some a else usize_add a (b - a mod b))"

definition region_configs ::
  "nat \<Rightarrow> nat \<Rightarrow> nat \<Rightarrow> mem_entry \<Rightarrow> alloc_config list \<Rightarrow> alloc_config list rust" where
  "region_configs N min_frames hddm_offset entry configs =
     (if \<not> me_usable entry then Some configs
      else do {
        let start = me_base entry;
        let total_frames = me_length entry div 4096;
        bytes \<leftarrow> usize_mul total_frames NODE_ALIGN;
        pages_reserved \<leftarrow> next_multiple_of bytes 4096;
        current_start \<leftarrow> usize_add start pages_reserved;
        remaining \<leftarrow> usize_sub total_frames (pages_reserved div 4096);
        region_loop N min_frames hddm_offset start current_start remaining configs
      })"

fun all_configs ::
  "nat \<Rightarrow> nat \<Rightarrow> nat \<Rightarrow> mem_entry list \<Rightarrow> alloc_config list \<Rightarrow> alloc_config list rust" where
  "all_configs N min_frames hddm_offset [] configs = Some configs"
| "all_configs N min_frames hddm_offset (entry # regions) configs = do {
     configs \<leftarrow> region_configs N min_frames hddm_offset entry configs;
     all_configs N min_frames hddm_offset regions configs
   }"

fun build_allocators ::
  "nat \<Rightarrow> nat \<Rightarrow> alloc_config list \<Rightarrow> frame_buddy list \<Rightarrow> dmem \<Rightarrow> (frame_buddy list \<times> dmem) rust" where
  "build_allocators L hddm_offset [] allocators m = Some (allocators, m)"
| "build_allocators L hddm_offset ((reg_start, frames, size_bytes, start) # configs) allocators m = do {
     virt_start \<leftarrow> usize_add reg_start hddm_offset;
     virt_end \<leftarrow> usize_add virt_start size_bytes;
     let levels = (if frames = 1 then 1 else trailing_zeros frames + 1);
     rust_assert (levels \<le> L);
     (f, m) \<leftarrow> fb_new L levels virt_start virt_end start m;
     build_allocators L hddm_offset configs (allocators @ [f]) m
   }"

text \<open>
  \<^verbatim>\<open>sort_unstable_by_key\<close> leaves the order of equal keys open, so the sorting function is a parameter.
\<close>

definition forest_init ::
  "(alloc_config list \<Rightarrow> alloc_config list) \<Rightarrow> nat \<Rightarrow> nat \<Rightarrow> mem_entry list \<Rightarrow> nat \<Rightarrow> nat \<Rightarrow> dmem \<Rightarrow> forest_state rust" where
  "forest_init sorter N L memory_regions min_allocator_frames hddm_offset m = do {
     rust_assert (min_allocator_frames \<ge> 2);
     rust_assert (is_power_of_two min_allocator_frames);
     configs \<leftarrow> all_configs N min_allocator_frames hddm_offset memory_regions [];
     (allocators, m) \<leftarrow> build_allocators L hddm_offset (sorter configs) [] m;
     Some (\<lparr>fo_allocators = map Some allocators @ replicate (N - length allocators) None,
       fo_count = length allocators, fo_hddm_offset = hddm_offset\<rparr>, m)
   }"

definition init_frame_allocator ::
  "(alloc_config list \<Rightarrow> alloc_config list) \<Rightarrow> forest option \<Rightarrow> mem_entry list \<Rightarrow> nat \<Rightarrow> dmem \<Rightarrow> forest_state rust" where
  "init_frame_allocator sorter cur memory_map hddm_offset m = do {
     rust_assert (cur = None);
     forest_init sorter 100 26 memory_map 16 hddm_offset m
   }"

fun alloc_loop :: "nat \<Rightarrow> frame_buddy option list \<Rightarrow> dmem \<Rightarrow> (addr option \<times> frame_buddy option list \<times> dmem) rust" where
  "alloc_loop pages [] m = Some (None, [], m)"
| "alloc_loop pages (None # as) m = do {
     (r, as, m) \<leftarrow> alloc_loop pages as m;
     Some (r, None # as, m)
   }"
| "alloc_loop pages (Some a # as) m = do {
     (r, a, m) \<leftarrow> fb_allocate_contiguous_frames (a, m) pages;
     case r of
       Some v \<Rightarrow> Some (Some v, Some a # as, m)
     | None \<Rightarrow> do {
         (r, as, m) \<leftarrow> alloc_loop pages as m;
         Some (r, Some a # as, m)
       }
   }"

definition forest_allocate_contiguous_pages :: "forest_state \<Rightarrow> nat \<Rightarrow> (addr option \<times> forest_state) rust" where
  "forest_allocate_contiguous_pages s pages = (case s of (fo, m) \<Rightarrow> do {
     rust_assert (is_power_of_two pages);
     rust_assert (fo_count fo \<le> length (fo_allocators fo));
     (r, as, m) \<leftarrow> alloc_loop pages (take (fo_count fo) (fo_allocators fo)) m;
     let fo = fo\<lparr>fo_allocators := as @ drop (fo_count fo) (fo_allocators fo)\<rparr>;
     case r of
       None \<Rightarrow> Some (None, fo, m)
     | Some v \<Rightarrow> do { v \<leftarrow> virt_addr_new v; Some (Some v, fo, m) }
   })"

fun dealloc_loop :: "addr \<Rightarrow> nat \<Rightarrow> frame_buddy option list \<Rightarrow> dmem \<Rightarrow> (frame_buddy option list \<times> dmem) rust" where
  "dealloc_loop addr pages [] m = None"
| "dealloc_loop addr pages (None # as) m = do {
     (as, m) \<leftarrow> dealloc_loop addr pages as m;
     Some (None # as, m)
   }"
| "dealloc_loop addr pages (Some a # as) m =
     (if addr \<ge> fb_virt_start a \<and> addr < fb_virt_end a
      then do {
        (a, m) \<leftarrow> fb_deallocate_contiguous_frames (a, m) addr pages;
        Some (Some a # as, m)
      }
      else do {
        (as, m) \<leftarrow> dealloc_loop addr pages as m;
        Some (Some a # as, m)
      })"

definition forest_deallocate_contiguous_pages :: "forest_state \<Rightarrow> addr \<Rightarrow> nat \<Rightarrow> forest_state rust" where
  "forest_deallocate_contiguous_pages s virt_addr pages = (case s of (fo, m) \<Rightarrow> do {
     rust_assert (is_power_of_two pages);
     rust_assert (fo_count fo \<le> length (fo_allocators fo));
     (as, m) \<leftarrow> dealloc_loop virt_addr pages (take (fo_count fo) (fo_allocators fo)) m;
     Some (fo\<lparr>fo_allocators := as @ drop (fo_count fo) (fo_allocators fo)\<rparr>, m)
   })"

definition forest_allocate_contiguous_frames :: "forest_state \<Rightarrow> nat \<Rightarrow> (addr option \<times> forest_state) rust" where
  "forest_allocate_contiguous_frames s frames = do {
     rust_assert (is_power_of_two frames);
     (r, s) \<leftarrow> forest_allocate_contiguous_pages s frames;
     case r of
       None \<Rightarrow> Some (None, s)
     | Some v \<Rightarrow> do {
         p \<leftarrow> usize_sub v (fo_hddm_offset (fst s));
         p \<leftarrow> phys_addr_new p;
         Some (Some p, s)
       }
   }"

definition forest_deallocate_contiguous_frames :: "forest_state \<Rightarrow> addr \<Rightarrow> nat \<Rightarrow> forest_state rust" where
  "forest_deallocate_contiguous_frames s phys_addr frames = do {
     rust_assert (is_power_of_two frames);
     v \<leftarrow> usize_add phys_addr (fo_hddm_offset (fst s));
     v \<leftarrow> virt_addr_new v;
     forest_deallocate_contiguous_pages s v frames
   }"

definition allocate_frame :: "forest_state \<Rightarrow> (addr option \<times> forest_state) rust" where
  "allocate_frame s = do {
     (r, s) \<leftarrow> forest_allocate_contiguous_frames s 1;
     Some (map_option (\<lambda>p. p div 4096 * 4096) r, s)
   }"

definition deallocate_frame :: "forest_state \<Rightarrow> addr \<Rightarrow> forest_state rust" where
  "deallocate_frame s frame = forest_deallocate_contiguous_frames s frame 1"

end
