(* ===== verification/Forest_Props.thy ===== *)
theory Forest_Props
  imports Forest
begin

text \<open>
  What the forest of frame allocators guarantees: how a memory region is divided, that the forest
  built from it is consistent, that allocation and deallocation through the first suitable allocator
  keep all allocated runs disjoint as long as no two allocators can reach each other's descriptors,
  and what happens when they can.
\<close>

section \<open>Division of a region\<close>

lemma largest_pow2_loop_ok:
  assumes "2 ^ k \<le> r" and "2 * r < usize_bound"
  shows "\<exists>j. largest_pow2_loop r (2 ^ k) = Some (2 ^ j) \<and> 2 ^ j \<le> r \<and> r < 2 * 2 ^ j"
  using assms
proof (induction "r - 2 ^ k" arbitrary: k rule: less_induct)
  case less
  have ov: "usize_mul (2 ^ k) 2 = Some (2 ^ Suc k)" using less.prems by (simp add: mult.commute)
  show ?case
  proof (cases "(2::nat) ^ Suc k \<le> r")
    case True
    have "r - 2 ^ Suc k < r - 2 ^ k" using True by (intro diff_less_mono2) (simp_all add: less_le_trans [OF _ True])
    from less.hyps [OF this True less.prems(2)] show ?thesis
      using True ov by (subst largest_pow2_loop.simps) simp
  next
    case False
    then show ?thesis using less.prems(1) ov by (subst largest_pow2_loop.simps) (auto intro!: exI [of _ k])
  qed
qed

text \<open>
  How the free pages of a region are carved up: from address \<open>a\<close> with \<open>n\<close> pages left, each allocator
  takes the largest power of two that fits, directly after the one before it.
\<close>

fun carved :: "nat \<Rightarrow> addr \<Rightarrow> addr \<Rightarrow> nat \<Rightarrow> alloc_config list \<Rightarrow> bool" where
  "carved mn pls a n [] \<longleftrightarrow> n < mn"
| "carved mn pls a n ((s, f, b, l) # cs) \<longleftrightarrow> mn \<le> n \<and> s = a \<and> l = pls \<and> b = f * 4096 \<and>
     is_power_of_two f \<and> f \<le> n \<and> n < 2 * f \<and> carved mn pls (a + b) (n - f) cs"

lemma region_loop_ok:
  assumes "0 < mn" and "a + n * 4096 < usize_bound" and "st + off < usize_bound" and "length cs \<le> N"
  shows "\<exists>new. carved mn (st + off) a n new \<and>
    region_loop N mn off st a n cs = (if length cs + length new \<le> N then Some (cs @ new) else None)"
  using assms
proof (induction n arbitrary: a cs rule: less_induct)
  case (less n)
  show ?case
  proof (cases "mn \<le> n")
    case False
    then show ?thesis using less.prems by (intro exI [of _ "[]"]) (simp add: region_loop.simps)
  next
    case True
    then have "2 ^ 0 \<le> n" "2 * n < usize_bound" using less.prems by auto
    from largest_pow2_loop_ok [OF this] obtain j where
      j: "largest_pow2_loop n 1 = Some (2 ^ j)" "2 ^ j \<le> n" "n < 2 * 2 ^ j" by auto
    define f where "f = (2::nat) ^ j"
    have f: "f \<le> n" "0 < f" "n < 2 * f" "is_power_of_two f"
      using j(2,3) by (auto simp: f_def is_power_of_two_iff)
    have eq: "a + f * 4096 + (n - f) * 4096 = a + n * 4096" using f(1) by (simp add: diff_mult_distrib)
    show ?thesis
    proof (cases "length cs < N")
      case full: False
      obtain new where "carved mn (st + off) (a + f * 4096) (n - f) new"
        using less.IH [of "n - f" "a + f * 4096" "[]"] f less.prems eq by force
      then show ?thesis using full f True less.prems(4)
        by (intro exI [of _ "(a, f, f * 4096, st + off) # new"]) (simp add: region_loop.simps rust_assert_def)
    next
      case room: True
      obtain new where new: "carved mn (st + off) (a + f * 4096) (n - f) new"
        "region_loop N mn off st (a + f * 4096) (n - f) (cs @ [(a, f, f * 4096, st + off)]) =
           (if length (cs @ [(a, f, f * 4096, st + off)]) + length new \<le> N
            then Some ((cs @ [(a, f, f * 4096, st + off)]) @ new) else None)"
        using less.IH [of "n - f" "a + f * 4096" "cs @ [(a, f, f * 4096, st + off)]"] f less.prems eq room by force
      have "f * 4096 < usize_bound" "a + f * 4096 < usize_bound" using eq less.prems(2) by linarith+
      then have "region_loop N mn off st a n cs =
          region_loop N mn off st (a + f * 4096) (n - f) (cs @ [(a, f, f * 4096, st + off)])"
        using True room j(1) f(1) less.prems(3) by (subst region_loop.simps) (simp add: f_def)
      then show ?thesis using new True f
        by (intro exI [of _ "(a, f, f * 4096, st + off) # new"]) simp
    qed
  qed
qed

text \<open>The pages at the start of a region that hold its page list.\<close>

definition index_pages :: "mem_entry \<Rightarrow> nat" where
  "index_pages e = (me_length e div 4096 * 32 + 4095) div 4096"

lemma next_multiple_of_ok:
  assumes "n + 4096 < usize_bound"
  shows "next_multiple_of n 4096 = Some ((n + 4095) div 4096 * 4096)"
proof (cases "n mod 4096 = 0")
  case True
  then obtain q where "n = 4096 * q" by auto
  then show ?thesis by (simp add: next_multiple_of_def)
next
  case False
  define q r where "q = n div 4096" and "r = n mod 4096"
  have n: "n = 4096 * q + r" "0 < r" "r < 4096" using False by (auto simp: q_def r_def)
  have "(n + 4095) div 4096 = q + 1" using n by simp
  moreover have "n + (4096 - r) = (q + 1) * 4096" using n by simp
  ultimately show ?thesis using False assms by (simp add: next_multiple_of_def r_def [symmetric])
qed

lemma index_pages_le: "index_pages e \<le> me_length e div 4096"
  unfolding index_pages_def by linarith

lemma region_configs_ok:
  assumes u: "me_usable e" and mn: "0 < mn" and len: "length cs \<le> N"
    and fits: "me_base e + off + me_length e + 4096 < usize_bound"
  shows "\<exists>new. carved mn (me_base e + off) (me_base e + index_pages e * 4096) (me_length e div 4096 - index_pages e) new \<and>
    region_configs N mn off e cs = (if length cs + length new \<le> N then Some (cs @ new) else None)"
proof -
  define T where "T = me_length e div 4096"
  have T: "T * 4096 \<le> me_length e" by (simp add: T_def)
  have ip: "index_pages e \<le> T" "index_pages e = (T * 32 + 4095) div 4096"
    using index_pages_le by (simp_all add: index_pages_def T_def)
  have "me_base e + index_pages e * 4096 + (T - index_pages e) * 4096 = me_base e + T * 4096"
    using ip(1) by (simp add: diff_mult_distrib)
  then have b: "me_base e + index_pages e * 4096 + (T - index_pages e) * 4096 < usize_bound" using T fits by linarith
  have nm: "next_multiple_of (T * 32) 4096 = Some (index_pages e * 4096)"
    using next_multiple_of_ok [of "T * 32"] T fits ip(2) by simp
  have "region_configs N mn off e cs = region_loop N mn off (me_base e) (me_base e + index_pages e * 4096) (T - index_pages e) cs"
    using u T fits nm b ip(1) by (simp add: region_configs_def NODE_ALIGN_def T_def [symmetric] Let_def)
  then show ?thesis using region_loop_ok [OF mn b _ len, of "me_base e" off] fits by (simp add: T_def)
qed

section \<open>Allocation and deallocation\<close>

text \<open>
  Two allocators do not interfere when neither's descriptors lie in the zone the other one reads, and
  their pages are disjoint.
\<close>

abbreviation descriptors :: "frame_buddy \<Rightarrow> addr set" where
  "descriptors f \<equiv> region (fb_geo (f, \<lambda>_. blank_node))"

abbreviation reads :: "frame_buddy \<Rightarrow> addr set" where
  "reads f \<equiv> fb_zone (f, \<lambda>_. blank_node)"

fun apart :: "frame_buddy option \<Rightarrow> frame_buddy option \<Rightarrow> bool" where
  "apart (Some f) (Some g) \<longleftrightarrow> descriptors f \<inter> reads g = {} \<and> descriptors g \<inter> reads f = {} \<and>
     (fb_virt_end f \<le> fb_virt_start g \<or> fb_virt_end g \<le> fb_virt_start f)"
| "apart _ _ \<longleftrightarrow> True"

definition slot_ok :: "dmem \<Rightarrow> frame_buddy option \<Rightarrow> block set \<Rightarrow> bool" where
  "slot_ok m x A \<longleftrightarrow> (\<exists>f. x = Some f \<and> frames_ok (f, m) A)"

definition slots_ok :: "dmem \<Rightarrow> frame_buddy option list \<Rightarrow> block set list \<Rightarrow> bool" where
  "slots_ok m as As \<longleftrightarrow> list_all2 (slot_ok m) as As \<and> sorted_wrt apart as"

lemma geo_fst: "fb_geo (f, m) = fb_geo (f, \<lambda>_. blank_node)"
  by (simp add: fb_geo_def)

lemma zone_fst: "fb_zone (f, m) = reads f"
  by (simp add: fb_zone_def fb_geo_def)

lemma descriptors_reads: "descriptors f \<subseteq> reads f"
  by (auto simp: region_def fb_zone_def)

lemma frames_ok_cong:
  assumes ok: "frames_ok (f, m) A" and eq: "\<forall>a \<in> reads f. m' a = m a"
  shows "frames_ok (f, m') A" and "fb_free (f, m') = fb_free (f, m)"
proof -
  have inv: "fb_inv (f, m)" and b: "buddy_inv (fb_geo (f, m)) (fb_free (f, m)) A"
    using ok by (simp_all add: frames_ok_def)
  have node: "q \<in> reads f" if "k < fb_levels f" "q \<in> set (fb_nodes (f, m) k)" for k q
  proof -
    have "(k, q) \<in> fb_free (f, m)" using that by (simp add: fb_free_def)
    then have "in_region (fb_geo (f, m)) (k, q)" using buddy_inv_region [OF b, of "(k, q)"] by simp
    moreover have "geom_ok (fb_geo (f, m))" using inv by (rule fb_inv_geom)
    ultimately have "q \<in> region (fb_geo (f, m))"
      using extent_region [of "fb_geo (f, m)" "(k, q)"] extent_start [of "fb_geo (f, m)" "(k, q)"] by auto
    then show ?thesis using descriptors_reads [of f] geo_fst [of f m] by auto
  qed
  have r: "dfl_repr (fb_pages f k) (fb_free_lists f ! k) m' (fb_nodes (f, m) k)" if "k < fb_levels f" for k
    using dfl_repr_cong [OF fb_invD(1) [OF inv, of k], of m'] that eq node [OF that] by simp
  have nd: "fb_nodes (f, m') k = fb_nodes (f, m) k" if "k < fb_levels f" for k
    using dfl_repr_items(1) [OF r [OF that]] by (simp add: fb_nodes_def)
  show fr: "fb_free (f, m') = fb_free (f, m)" using nd by (auto simp: fb_free_def)
  have "fb_inv (f, m')"
    using inv dfl_repr_items(2) [OF r] nd eq zone_fst [of f m] zone_fst [of f m']
    unfolding fb_inv_def fst_conv snd_conv by simp
  moreover have geo: "fb_geo (f, m') = fb_geo (f, m)" by (simp add: fb_geo_def)
  ultimately show "frames_ok (f, m') A" using b unfolding frames_ok_def geo fr by blast
qed

lemma same_bounds_refl [simp]: "same_bounds f f"
  by (simp add: same_bounds_def)

lemma same_bounds_geo: "same_bounds f f' \<Longrightarrow> fb_geo (f', m') = fb_geo (f, m)"
  by (simp add: same_bounds_def fb_geo_def fb_first_node_def)

lemma same_bounds_apart: "same_bounds f f' \<Longrightarrow> apart (Some f') x = apart (Some f) x"
proof -
  assume sb: "same_bounds f f'"
  have "descriptors f' = descriptors f" "reads f' = reads f"
    unfolding fb_zone_def same_bounds_geo [OF sb, of "\<lambda>_. blank_node" "\<lambda>_. blank_node"] by (rule refl)+
  then show ?thesis using sb by (cases x) (simp_all add: same_bounds_def)
qed

lemma apart_sym: "apart x y = apart y x"
  by (cases x; cases y) auto

lemma apart_all2:
  assumes "list_all2 (rel_option same_bounds) as as'" and "\<forall>y \<in> set as. apart x y"
  shows "\<forall>y \<in> set as'. apart x y"
proof
  fix y' assume "y' \<in> set as'"
  then obtain k where k: "k < length as'" "y' = as' ! k" by (auto simp: in_set_conv_nth)
  with assms(1) have "rel_option same_bounds (as ! k) y'" "k < length as" by (auto simp: list_all2_conv_all_nth)
  moreover have "apart x (as ! k)" using assms(2) calculation(2) by simp
  ultimately show "apart x y'"
    by (cases "as ! k"; cases y') (auto simp: apart_sym [of x] same_bounds_apart)
qed

lemma slots_Cons:
  "slots_ok m (x # as) Bs \<longleftrightarrow> (\<exists>f A As. x = Some f \<and> Bs = A # As \<and> frames_ok (f, m) A \<and> slots_ok m as As \<and>
     (\<forall>y \<in> set as. apart (Some f) y))"
  by (auto simp: slots_ok_def slot_ok_def list_all2_Cons1)

lemma slots_frame:
  assumes "slots_ok m as As" and "\<forall>y \<in> set as. apart (Some f) y" and "\<forall>x. x \<notin> descriptors f \<longrightarrow> m' x = m x"
  shows "slots_ok m' as As"
proof -
  have "slot_ok m' y A" if y: "slot_ok m y A" "y \<in> set as" for y A
  proof -
    obtain g where g: "y = Some g" "frames_ok (g, m) A" using y(1) by (auto simp: slot_ok_def)
    have "\<forall>a \<in> reads g. m' a = m a" using assms(2,3) y(2) g(1) by fastforce
    from frames_ok_cong(1) [OF g(2) this] g(1) show ?thesis by (simp add: slot_ok_def)
  qed
  then show ?thesis using assms(1) by (auto simp: slots_ok_def list_all2_conv_all_nth)
qed

lemma keeps_outside: "keeps (fb_geo (f, m)) A m m' \<Longrightarrow> \<forall>x. x \<notin> descriptors f \<longrightarrow> m' x = m x"
  using geo_fst [of f m] by (simp add: keeps_def protected_def)

lemma alloc_loop_ok:
  assumes "slots_ok m as As" and "4096 * 2 ^ i < usize_bound"
  shows "\<exists>r as' m'. alloc_loop (2 ^ i) as m = Some (r, as', m') \<and> list_all2 (rel_option same_bounds) as as' \<and>
    (case r of
       None \<Rightarrow> m' = m \<and> slots_ok m as' As \<and>
         (\<forall>f. Some f \<in> set as \<longrightarrow> (\<forall>b \<in> fb_free (f, m). fb_pages f (fst b) < 2 ^ i))
     | Some v \<Rightarrow> \<exists>k f l p. k < length as \<and> as ! k = Some f \<and> (l, p) \<notin> As ! k \<and>
         slots_ok m' as' (As[k := insert (l, p) (As ! k)]) \<and> fb_pages f l = 2 ^ i \<and> v = fb_page_of f p \<and>
         (\<forall>x. x \<notin> descriptors f \<longrightarrow> m' x = m x))"
  using assms
proof (induction as arbitrary: As)
  case Nil
  then show ?case by simp
next
  case (Cons x as)
  from Cons.prems(1) obtain f A As' where
    x: "x = Some f" and As: "As = A # As'" and f: "frames_ok (f, m) A" and as: "slots_ok m as As'"
    and ap: "\<forall>y \<in> set as. apart (Some f) y"
    by (auto simp: slots_Cons)
  from fb_allocate_ok [OF f Cons.prems(2)] obtain r s' where
    r0: "fb_allocate_contiguous_frames (f, m) (2 ^ i) = Some (r, s')" and sb0: "same_bounds (fst (f, m)) (fst s')" and
    rs0: "case r of
       Some a \<Rightarrow> \<exists>l p. (l, p) \<notin> A \<and> frames_ok s' (insert (l, p) A) \<and> fb_pages (fst (f, m)) l = 2 ^ i \<and>
         a = fb_page_of (fst (f, m)) p \<and> keeps (fb_geo (f, m)) A (snd (f, m)) (snd s') \<and> fb_geo s' = fb_geo (f, m)
     | None \<Rightarrow> frames_ok s' A \<and> fb_free s' = fb_free (f, m) \<and> snd s' = snd (f, m) \<and> fb_geo s' = fb_geo (f, m) \<and>
         (\<forall>b \<in> fb_free (f, m). fb_pages (fst (f, m)) (fst b) < 2 ^ i)"
    by (elim exE conjE)
  obtain f' m' where s': "s' = (f', m')" by (cases s')
  note r = r0 [unfolded s'] and sb = sb0 [unfolded s' fst_conv] and rs = rs0 [unfolded s' fst_conv snd_conv]
  have ap': "\<forall>y \<in> set as. apart (Some f') y" using ap same_bounds_apart [OF sb] by simp
  have refl: "list_all2 (rel_option same_bounds) as as"
    by (rule list_all2_refl) (simp add: option.rel_refl)
  show ?case
  proof (cases r)
    case (Some a)
    with rs obtain l p where lp: "(l, p) \<notin> A" "frames_ok (f', m') (insert (l, p) A)" "fb_pages f l = 2 ^ i"
      "a = fb_page_of f p" "keeps (fb_geo (f, m)) A m m'" by auto
    note out = keeps_outside [OF lp(5)]
    have "slots_ok m' (Some f' # as) (insert (l, p) A # As')"
      using lp(2) slots_frame [OF as ap out] ap' by (simp add: slots_Cons)
    then show ?thesis using Some r x As lp out sb refl
      by (intro exI [of _ "Some a"] exI [of _ "Some f' # as"] exI [of _ m'])
         (simp, rule exI [of _ 0], simp, rule exI [of _ l], rule exI [of _ p], simp)
  next
    case None
    with rs have n: "frames_ok (f', m) A" "m' = m" "\<forall>b \<in> fb_free (f, m). fb_pages f (fst b) < 2 ^ i" by auto
    from Cons.IH [OF as Cons.prems(2)] obtain r2 as2 m2 where
      l: "alloc_loop (2 ^ i) as m = Some (r2, as2, m2)" "list_all2 (rel_option same_bounds) as as2" and
      c: "case r2 of
       None \<Rightarrow> m2 = m \<and> slots_ok m as2 As' \<and>
         (\<forall>f. Some f \<in> set as \<longrightarrow> (\<forall>b \<in> fb_free (f, m). fb_pages f (fst b) < 2 ^ i))
     | Some v \<Rightarrow> \<exists>k f l p. k < length as \<and> as ! k = Some f \<and> (l, p) \<notin> As' ! k \<and>
         slots_ok m2 as2 (As'[k := insert (l, p) (As' ! k)]) \<and> fb_pages f l = 2 ^ i \<and> v = fb_page_of f p \<and>
         (\<forall>x. x \<notin> descriptors f \<longrightarrow> m2 x = m x)"
      by (elim exE conjE)
    have run: "alloc_loop (2 ^ i) (x # as) m = Some (r2, Some f' # as2, m2)" using r None x l(1) n(2) by simp
    have ap2: "\<forall>y \<in> set as2. apart (Some f') y" using ap' l(2) apart_all2 by blast
    show ?thesis
    proof (cases r2)
      case None
      then show ?thesis using run c n x As sb l(2) ap2
        by (intro exI [of _ r2] exI [of _ "Some f' # as2"] exI [of _ m2]) (auto simp: slots_Cons)
    next
      case (Some v)
      with c obtain k g l' p where g: "k < length as" "as ! k = Some g" "(l', p) \<notin> As' ! k"
        "slots_ok m2 as2 (As'[k := insert (l', p) (As' ! k)])" "fb_pages g l' = 2 ^ i" "v = fb_page_of g p"
        "\<forall>x. x \<notin> descriptors g \<longrightarrow> m2 x = m x" by auto
      have "apart (Some f') (Some g)" using ap' g(1,2) by (metis nth_mem)
      then have "\<forall>a \<in> reads f'. m2 a = m a" using g(7) by auto
      from frames_ok_cong(1) [OF n(1) this] have "slots_ok m2 (Some f' # as2) (As[Suc k := insert (l', p) (As ! Suc k)])"
        using g(4) ap2 As by (simp add: slots_Cons)
      then show ?thesis using run Some g As x sb l(2)
        by (intro exI [of _ r2] exI [of _ "Some f' # as2"] exI [of _ m2])
           (simp, rule exI [of _ "Suc k"], simp, rule exI [of _ l'], rule exI [of _ p], simp)
    qed
  qed
qed

lemma block_in_range:
  assumes "frames_ok (f, m) A" and "(l, p) \<in> A"
  shows "fb_virt_start f \<le> fb_page_of f p" and "fb_page_of f p + fb_pages f l * 4096 \<le> fb_virt_end f"
    and "fb_page_of f p < fb_virt_end f"
proof -
  have "in_region (fb_geo (f, m)) (l, p)"
    using buddy_inv_region [OF frames_okD(2) [OF assms(1)], of "(l, p)"] assms(2) by simp
  note r = fb_block_range [OF frames_okD(1) [OF assms(1)] this, unfolded fst_conv]
  show "fb_virt_start f \<le> fb_page_of f p" "fb_page_of f p + fb_pages f l * 4096 \<le> fb_virt_end f" by (rule r)+
  then show "fb_page_of f p < fb_virt_end f" by (simp add: fb_pages_def less_le_trans [of _ "fb_page_of f p + fb_pages f l * 4096"])
qed

lemma dealloc_loop_ok:
  assumes "slots_ok m as As" and "k < length as" and "as ! k = Some f"
    and "As ! k = insert (l, p) A" and "(l, p) \<notin> A"
  shows "\<exists>as' m'. dealloc_loop (fb_page_of f p) (fb_pages f l) as m = Some (as', m') \<and>
    list_all2 (rel_option same_bounds) as as' \<and> slots_ok m' as' (As[k := A]) \<and>
    (\<forall>x. x \<notin> descriptors f \<longrightarrow> m' x = m x)"
  using assms(1-4)
proof (induction as arbitrary: As k)
  case (Cons x as)
  from Cons.prems(1) obtain g B As' where
    x: "x = Some g" and As: "As = B # As'" and g: "frames_ok (g, m) B" and as: "slots_ok m as As'"
    and ap: "\<forall>y \<in> set as. apart (Some g) y"
    by (auto simp: slots_Cons)
  show ?case
  proof (cases k)
    case 0
    then have f: "f = g" "B = insert (l, p) A" using Cons.prems x As by simp_all
    from fb_deallocate_ok [OF g [unfolded f(2)] assms(5), unfolded fst_conv snd_conv] obtain f' m' where
      d: "fb_deallocate_contiguous_frames (g, m) (fb_page_of g p) (fb_pages g l) = Some (f', m')"
        "frames_ok (f', m') A" "keeps (fb_geo (g, m)) A m m'" "same_bounds g f'" by auto
    note out = keeps_outside [OF d(3)]
    have "dealloc_loop (fb_page_of f p) (fb_pages f l) (x # as) m = Some (Some f' # as, m')"
      using d(1) x f block_in_range [OF g, of l p] by simp
    moreover have "slots_ok m' (Some f' # as) (As[k := A])"
      using d(2) slots_frame [OF as ap out] ap same_bounds_apart [OF d(4)] As 0 by (simp add: slots_Cons)
    moreover have "list_all2 (rel_option same_bounds) as as"
      by (rule list_all2_refl) (simp add: option.rel_refl)
    ultimately show ?thesis using out d(4) f(1) x by auto
  next
    case (Suc j)
    then have j: "j < length as" "as ! j = Some f" "As' ! j = insert (l, p) A" using Cons.prems As by simp_all
    from Cons.IH [OF as j] obtain as2 m2 where
      d: "dealloc_loop (fb_page_of f p) (fb_pages f l) as m = Some (as2, m2)"
        "list_all2 (rel_option same_bounds) as as2" "slots_ok m2 as2 (As'[j := A])"
        "\<forall>x. x \<notin> descriptors f \<longrightarrow> m2 x = m x" by auto
    have a: "apart (Some g) (Some f)" using ap j(1,2) by (metis nth_mem)
    have "slot_ok m (as ! j) (As' ! j)" using as j(1) by (auto simp: slots_ok_def list_all2_conv_all_nth)
    then have "frames_ok (f, m) (insert (l, p) A)" using j(2,3) by (simp add: slot_ok_def)
    note r = block_in_range [OF this, of l p, simplified]
    have "\<not> (fb_virt_start g \<le> fb_page_of f p \<and> fb_page_of f p < fb_virt_end g)" using a r by auto
    then have "dealloc_loop (fb_page_of f p) (fb_pages f l) (x # as) m = Some (Some g # as2, m2)"
      using d(1) x by auto
    moreover have "\<forall>a \<in> reads g. m2 a = m a" using a d(4) by auto
    note frames_ok_cong(1) [OF g this]
    then have "slots_ok m2 (Some g # as2) (As[k := A])"
      using d(3) apart_all2 [OF d(2) ap] As Suc by (simp add: slots_Cons)
    ultimately show ?thesis using d(2,4) x by auto
  qed
qed simp

definition canonical :: "addr \<Rightarrow> addr \<Rightarrow> bool" where
  "canonical a b \<longleftrightarrow> b \<le> 2 ^ 47 \<or> 2 ^ 64 - 2 ^ 47 \<le> a"

definition forest_ok :: "forest_state \<Rightarrow> block set list \<Rightarrow> bool" where
  "forest_ok s As \<longleftrightarrow> fo_count (fst s) \<le> length (fo_allocators (fst s)) \<and>
     slots_ok (snd s) (take (fo_count (fst s)) (fo_allocators (fst s))) As \<and>
     (\<forall>f. Some f \<in> set (take (fo_count (fst s)) (fo_allocators (fst s))) \<longrightarrow>
        fo_hddm_offset (fst s) \<le> fb_virt_start f \<and> fb_virt_end f \<le> fo_hddm_offset (fst s) + 2 ^ 52 \<and>
        canonical (fb_virt_start f) (fb_virt_end f))"

lemma virt_addr_new_canonical:
  "canonical a b \<Longrightarrow> a \<le> v \<Longrightarrow> v < b \<Longrightarrow> b < usize_bound \<Longrightarrow> virt_addr_new v = Some v"
  by (auto simp: canonical_def virt_addr_new_def usize_bound_def)

lemma forest_okD:
  assumes "forest_ok s As"
  shows "length As = fo_count (fst s)"
    and "k < length As \<Longrightarrow> \<exists>f. fo_allocators (fst s) ! k = Some f \<and> frames_ok (f, snd s) (As ! k)"
    and "j < length As \<Longrightarrow> k < length As \<Longrightarrow> j \<noteq> k \<Longrightarrow> fo_allocators (fst s) ! j = Some f \<Longrightarrow>
      fo_allocators (fst s) ! k = Some g \<Longrightarrow> fb_virt_end f \<le> fb_virt_start g \<or> fb_virt_end g \<le> fb_virt_start f"
proof -
  let ?as = "take (fo_count (fst s)) (fo_allocators (fst s))"
  have s: "slots_ok (snd s) ?as As" and c: "fo_count (fst s) \<le> length (fo_allocators (fst s))"
    using assms by (auto simp: forest_ok_def)
  then show len: "length As = fo_count (fst s)" by (auto simp: slots_ok_def dest!: list_all2_lengthD)
  show "\<exists>f. fo_allocators (fst s) ! k = Some f \<and> frames_ok (f, snd s) (As ! k)" if "k < length As"
    using s that len c by (force simp: slots_ok_def list_all2_conv_all_nth slot_ok_def)
  show "fb_virt_end f \<le> fb_virt_start g \<or> fb_virt_end g \<le> fb_virt_start f"
    if jk: "j < length As" "k < length As" "j \<noteq> k" and fg: "fo_allocators (fst s) ! j = Some f" "fo_allocators (fst s) ! k = Some g"
  proof -
    have sw: "sorted_wrt apart ?as" using s by (simp add: slots_ok_def)
    have "apart (?as ! min j k) (?as ! max j k)"
      using sorted_wrt_nth_less [OF sw, of "min j k" "max j k"] jk len c by (simp add: min_def max_def)
    then have "apart (Some f) (Some g)" using jk fg len c by (auto simp: min_def max_def apart_sym split: if_splits)
    then show ?thesis by simp
  qed
qed

text \<open>The addresses of the pages of block \<open>b\<close> of the \<open>k\<close>-th allocator.\<close>

definition run_pages :: "forest_state \<Rightarrow> nat \<Rightarrow> block \<Rightarrow> addr set" where
  "run_pages s k b = (case fo_allocators (fst s) ! k of Some f \<Rightarrow> fb_block_pages f b | None \<Rightarrow> {})"

lemma bounds_kept:
  assumes "list_all2 (rel_option same_bounds) as as'" and "Some f' \<in> set as'"
  shows "\<exists>f. Some f \<in> set as \<and> same_bounds f f'"
proof -
  from assms(2) obtain k where k: "k < length as'" "as' ! k = Some f'" by (auto simp: in_set_conv_nth)
  with assms(1) have "rel_option same_bounds (as ! k) (Some f')" "k < length as" by (auto simp: list_all2_conv_all_nth)
  then show ?thesis by (cases "as ! k") (auto simp: in_set_conv_nth)
qed

lemma forest_ok_update:
  assumes ok: "forest_ok (fo, m) As" and sb: "list_all2 (rel_option same_bounds) (take (fo_count fo) (fo_allocators fo)) as'"
    and sl: "slots_ok m' as' As'"
  shows "forest_ok (fo\<lparr>fo_allocators := as' @ drop (fo_count fo) (fo_allocators fo)\<rparr>, m') As'"
proof -
  have c: "fo_count fo \<le> length (fo_allocators fo)" using ok by (simp add: forest_ok_def)
  then have len: "length as' = fo_count fo" using list_all2_lengthD [OF sb] by simp
  then have t: "take (fo_count fo) (as' @ drop (fo_count fo) (fo_allocators fo)) = as'" by simp
  have "fo_hddm_offset fo \<le> fb_virt_start f' \<and> fb_virt_end f' \<le> fo_hddm_offset fo + 2 ^ 52 \<and>
      canonical (fb_virt_start f') (fb_virt_end f')" if "Some f' \<in> set as'" for f'
  proof -
    from bounds_kept [OF sb that] obtain f where f: "Some f \<in> set (take (fo_count fo) (fo_allocators fo))" "same_bounds f f'"
      by blast
    have "fo_hddm_offset fo \<le> fb_virt_start f \<and> fb_virt_end f \<le> fo_hddm_offset fo + 2 ^ 52 \<and>
      canonical (fb_virt_start f) (fb_virt_end f)" using ok f(1) by (simp add: forest_ok_def)
    then show ?thesis using f(2) by (simp add: same_bounds_def)
  qed
  then show ?thesis using sl c len t by (simp add: forest_ok_def)
qed

lemma forest_alloc_pages_ok:
  assumes ok: "forest_ok s As" and i: "4096 * 2 ^ i < usize_bound"
  shows "\<exists>r s'. forest_allocate_contiguous_pages s (2 ^ i) = Some (r, s') \<and> fo_hddm_offset (fst s') = fo_hddm_offset (fst s) \<and>
    (\<forall>j < length As. rel_option same_bounds (fo_allocators (fst s) ! j) (fo_allocators (fst s') ! j)) \<and>
    (case r of
       None \<Rightarrow> forest_ok s' As \<and> (\<forall>k < length As. \<forall>f. fo_allocators (fst s) ! k = Some f \<longrightarrow>
         (\<forall>b \<in> fb_free (f, snd s). fb_pages f (fst b) < 2 ^ i))
     | Some v \<Rightarrow> \<exists>k f l p. k < length As \<and> fo_allocators (fst s) ! k = Some f \<and> (l, p) \<notin> As ! k \<and>
         forest_ok s' (As[k := insert (l, p) (As ! k)]) \<and> fb_pages f l = 2 ^ i \<and> v = fb_page_of f p)"
proof -
  obtain fo m where s: "s = (fo, m)" by (cases s)
  let ?as = "take (fo_count fo) (fo_allocators fo)"
  have sl: "slots_ok m ?as As" and c: "fo_count fo \<le> length (fo_allocators fo)"
    and rg: "\<And>f. Some f \<in> set ?as \<Longrightarrow> canonical (fb_virt_start f) (fb_virt_end f)"
    using ok s by (auto simp: forest_ok_def)
  have len: "length As = fo_count fo" using forest_okD(1) [OF ok] s by simp
  have p2: "is_power_of_two (2 ^ i)" by (auto simp: is_power_of_two_iff)
  from alloc_loop_ok [OF sl i] obtain r as' m' where
    l: "alloc_loop (2 ^ i) ?as m = Some (r, as', m')" "list_all2 (rel_option same_bounds) ?as as'" and
    cs: "case r of
       None \<Rightarrow> m' = m \<and> slots_ok m as' As \<and>
         (\<forall>f. Some f \<in> set ?as \<longrightarrow> (\<forall>b \<in> fb_free (f, m). fb_pages f (fst b) < 2 ^ i))
     | Some v \<Rightarrow> \<exists>k f l p. k < length ?as \<and> ?as ! k = Some f \<and> (l, p) \<notin> As ! k \<and>
         slots_ok m' as' (As[k := insert (l, p) (As ! k)]) \<and> fb_pages f l = 2 ^ i \<and> v = fb_page_of f p \<and>
         (\<forall>x. x \<notin> descriptors f \<longrightarrow> m' x = m x)"
    by (elim exE conjE)
  let ?fo = "fo\<lparr>fo_allocators := as' @ drop (fo_count fo) (fo_allocators fo)\<rparr>"
  have sb: "\<forall>j < length As. rel_option same_bounds (fo_allocators fo ! j) (fo_allocators ?fo ! j)"
    using l(2) len c by (auto simp: list_all2_conv_all_nth nth_append)
  show ?thesis
  proof (cases r)
    case None
    then have run: "forest_allocate_contiguous_pages s (2 ^ i) = Some (None, ?fo, m')"
      using l(1) s p2 c by (simp add: forest_allocate_contiguous_pages_def)
    have sl': "slots_ok m' as' As" and no: "\<And>f. Some f \<in> set ?as \<Longrightarrow> (\<forall>b \<in> fb_free (f, m). fb_pages f (fst b) < 2 ^ i)"
      using cs None by auto
    have "Some f \<in> set ?as" if "k < length As" "fo_allocators fo ! k = Some f" for k f
      using that len c by (force simp: in_set_conv_nth)
    then show ?thesis using run forest_ok_update [OF ok [unfolded s] l(2) sl'] no s sb by auto
  next
    case (Some v)
    with cs obtain k f l' p where k: "k < length ?as" "?as ! k = Some f" "(l', p) \<notin> As ! k"
      "slots_ok m' as' (As[k := insert (l', p) (As ! k)])" "fb_pages f l' = 2 ^ i" "v = fb_page_of f p" by auto
    have k': "k < length As" "fo_allocators fo ! k = Some f" using k(1,2) len c by auto
    have "rel_option same_bounds (?as ! k) (as' ! k)" "k < length as'"
      using list_all2_nthD [OF l(2) k(1)] list_all2_lengthD [OF l(2)] k(1) by simp_all
    then obtain f' where f': "as' ! k = Some f'" "same_bounds f f'" using k(2) by (cases "as' ! k") auto
    have "slot_ok m' (as' ! k) (As[k := insert (l', p) (As ! k)] ! k)"
      using k(4) \<open>k < length as'\<close> by (auto simp: slots_ok_def list_all2_conv_all_nth)
    then have fr: "frames_ok (f', m') (insert (l', p) (As ! k))" using f'(1) k'(1) by (simp add: slot_ok_def)
    have vr: "fb_virt_start f \<le> v" "v < fb_virt_end f" "fb_virt_end f < usize_bound"
      using block_in_range [OF fr, of l' p] frames_okD(4) [OF fr] same_bounds_page_of [OF f'(2)] f'(2) k(6)
      by (auto simp: same_bounds_def fb_params_ok_def)
    have "Some f \<in> set ?as" using k(1,2) by (metis nth_mem)
    then have "virt_addr_new v = Some v" using virt_addr_new_canonical [OF rg vr] by simp
    then have run: "forest_allocate_contiguous_pages s (2 ^ i) = Some (Some v, ?fo, m')"
      using l(1) s p2 c Some by (simp add: forest_allocate_contiguous_pages_def)
    then show ?thesis using forest_ok_update [OF ok [unfolded s] l(2) k(4)] k k' s sb
      by (intro exI [of _ "Some v"] exI [of _ "(?fo, m')"])
         (simp, rule exI [of _ k], simp, rule exI [of _ l'], rule exI [of _ p], simp)
  qed
qed

lemma run_pages_cong:
  "rel_option same_bounds (fo_allocators (fst s) ! k) (fo_allocators (fst s') ! k) \<Longrightarrow> run_pages s' k b = run_pages s k b"
  by (cases "fo_allocators (fst s) ! k"; cases "fo_allocators (fst s') ! k")
     (auto simp: run_pages_def fb_block_pages_def dest!: same_bounds_page_of)

lemma forest_block_offset:
  assumes "forest_ok s As" and "k < length As" and "(l, p) \<in> As ! k" and "fo_allocators (fst s) ! k = Some f"
  shows "fo_hddm_offset (fst s) \<le> fb_page_of f p" and "fb_page_of f p < fo_hddm_offset (fst s) + 2 ^ 52"
proof -
  have fr: "frames_ok (f, snd s) (As ! k)" using forest_okD(2) [OF assms(1,2)] assms(4) by simp
  note r = block_in_range [OF fr assms(3)]
  have "k < fo_count (fst s)" "fo_count (fst s) \<le> length (fo_allocators (fst s))"
    using forest_okD(1) [OF assms(1)] assms(1,2) by (simp_all add: forest_ok_def)
  then have "Some f \<in> set (take (fo_count (fst s)) (fo_allocators (fst s)))"
    using assms(4) by (force simp: in_set_conv_nth)
  then have "fo_hddm_offset (fst s) \<le> fb_virt_start f" "fb_virt_end f \<le> fo_hddm_offset (fst s) + 2 ^ 52"
    using assms(1) by (simp_all add: forest_ok_def)
  then show "fo_hddm_offset (fst s) \<le> fb_page_of f p" "fb_page_of f p < fo_hddm_offset (fst s) + 2 ^ 52"
    using r by linarith+
qed

lemma forest_runs_disjoint:
  assumes ok: "forest_ok s As" and jk: "k < length As" "b \<in> As ! k" "j < length As" "c \<in> As ! j" "k = j \<longrightarrow> b \<noteq> c"
  shows "run_pages s k b \<inter> run_pages s j c = {}"
proof -
  obtain f g where f: "fo_allocators (fst s) ! k = Some f" "frames_ok (f, snd s) (As ! k)"
    and g: "fo_allocators (fst s) ! j = Some g" "frames_ok (g, snd s) (As ! j)"
    using forest_okD(2) [OF ok] jk by blast
  show ?thesis
  proof (cases "k = j")
    case True
    note d = frames_okD [OF f(2)]
    have "extent (fb_geo (f, snd s)) b \<inter> extent (fb_geo (f, snd s)) c = {}"
      using buddy_inv_disjoint [OF d(2), of b c] jk True by simp
    moreover have "in_region (fb_geo (f, snd s)) b" "in_region (fb_geo (f, snd s)) c"
      using buddy_inv_region [OF d(2)] jk True by auto
    ultimately show ?thesis using fb_pages_disjoint [of "(f, snd s)" b c] d(4) f(1) True
      by (cases b; cases c) (simp add: run_pages_def)
  next
    case False
    obtain l p l' q where bc: "b = (l, p)" "c = (l', q)" by (cases b; cases c)
    have "fb_virt_end f \<le> fb_virt_start g \<or> fb_virt_end g \<le> fb_virt_start f"
      using forest_okD(3) [OF ok jk(1,3) False f(1) g(1)] .
    moreover note block_in_range [OF f(2), of l p] block_in_range [OF g(2), of l' q]
    ultimately show ?thesis using f(1) g(1) jk bc by (auto simp: run_pages_def fb_block_pages_def)
  qed
qed

text \<open>
  C7: allocating a power-of-two number of contiguous frames from a consistent forest never panics.
  On success the run belongs to one allocator, overlaps no run allocated from any of them, and the
  forest stays consistent; failure means that no allocator has a free block that large.
\<close>

theorem forest_allocate_correct:
  assumes ok: "forest_ok s As" and i: "4096 * 2 ^ i < usize_bound"
  shows "\<exists>r s'. forest_allocate_contiguous_frames s (2 ^ i) = Some (r, s') \<and>
    (case r of
       None \<Rightarrow> forest_ok s' As \<and> (\<forall>k < length As. \<forall>f. fo_allocators (fst s) ! k = Some f \<longrightarrow>
         (\<forall>b \<in> fb_free (f, snd s). fb_pages f (fst b) < 2 ^ i))
     | Some a \<Rightarrow> \<exists>k b. k < length As \<and> b \<notin> As ! k \<and> forest_ok s' (As[k := insert b (As ! k)]) \<and>
         run_pages s k b = {a + fo_hddm_offset (fst s) ..< a + fo_hddm_offset (fst s) + 2 ^ i * 4096} \<and>
         (\<forall>j < length As. \<forall>c \<in> As ! j. run_pages s k b \<inter> run_pages s j c = {}))"
proof -
  have p2: "is_power_of_two (2 ^ i)" by (auto simp: is_power_of_two_iff)
  from forest_alloc_pages_ok [OF ok i] obtain r s' where
    r: "forest_allocate_contiguous_pages s (2 ^ i) = Some (r, s')" "fo_hddm_offset (fst s') = fo_hddm_offset (fst s)" and
    sb: "\<forall>j < length As. rel_option same_bounds (fo_allocators (fst s) ! j) (fo_allocators (fst s') ! j)" and
    cs: "case r of
       None \<Rightarrow> forest_ok s' As \<and> (\<forall>k < length As. \<forall>f. fo_allocators (fst s) ! k = Some f \<longrightarrow>
         (\<forall>b \<in> fb_free (f, snd s). fb_pages f (fst b) < 2 ^ i))
     | Some v \<Rightarrow> \<exists>k f l p. k < length As \<and> fo_allocators (fst s) ! k = Some f \<and> (l, p) \<notin> As ! k \<and>
         forest_ok s' (As[k := insert (l, p) (As ! k)]) \<and> fb_pages f l = 2 ^ i \<and> v = fb_page_of f p"
    by (elim exE conjE)
  show ?thesis
  proof (cases r)
    case None
    then show ?thesis using r cs p2
      by (intro exI [of _ None] exI [of _ s']) (simp add: forest_allocate_contiguous_frames_def)
  next
    case (Some v)
    with cs obtain k f l p where k: "k < length As" "fo_allocators (fst s) ! k = Some f" "(l, p) \<notin> As ! k"
      "forest_ok s' (As[k := insert (l, p) (As ! k)])" "fb_pages f l = 2 ^ i" "v = fb_page_of f p" by auto
    obtain f' where f': "fo_allocators (fst s') ! k = Some f'" "same_bounds f f'"
      using sb k(1,2) by (cases "fo_allocators (fst s') ! k") force+
    have off: "fo_hddm_offset (fst s) \<le> v" "v - fo_hddm_offset (fst s) < 2 ^ 52"
      using forest_block_offset [OF k(4), of k l p f'] k r(2) f' same_bounds_page_of [OF f'(2)] by auto
    then have run: "forest_allocate_contiguous_frames s (2 ^ i) = Some (Some (v - fo_hddm_offset (fst s)), s')"
      using r Some p2 by (simp add: forest_allocate_contiguous_frames_def phys_addr_new_def)
    have "run_pages s k (l, p) = {v ..< v + 2 ^ i * 4096}" using k(2,5,6) by (simp add: run_pages_def fb_block_pages_def)
    moreover have "run_pages s k (l, p) \<inter> run_pages s j c = {}" if "j < length As" "c \<in> As ! j" for j c
    proof -
      have "c \<in> As[k := insert (l, p) (As ! k)] ! j" "k = j \<longrightarrow> (l, p) \<noteq> c"
        using that k(1,3) by (auto simp: nth_list_update)
      then have "run_pages s' k (l, p) \<inter> run_pages s' j c = {}"
        using forest_runs_disjoint [OF k(4), of k "(l, p)" j c] that k(1) by simp
      then show ?thesis using run_pages_cong sb k(1) that(1) by metis
    qed
    ultimately show ?thesis using run k off
      by (intro exI [of _ "Some (v - fo_hddm_offset (fst s))"] exI [of _ s'])
         (simp, rule exI [of _ k], simp, rule exI [of _ l], rule exI [of _ p], simp)
  qed
qed

lemma forest_dealloc_run:
  assumes ok: "forest_ok s As" and k: "k < length As" and b: "b \<in> As ! k"
    and run: "run_pages s k b = {a + fo_hddm_offset (fst s) ..< a + fo_hddm_offset (fst s) + 2 ^ i * 4096}"
  shows "\<exists>s'. forest_deallocate_contiguous_frames s a (2 ^ i) = Some s' \<and> forest_ok s' (As[k := As ! k - {b}]) \<and>
    fo_hddm_offset (fst s') = fo_hddm_offset (fst s) \<and> (\<forall>j < length As. \<forall>c. run_pages s' j c = run_pages s j c)"
proof -
  obtain fo m where s: "s = (fo, m)" by (cases s)
  obtain l p where lp: "b = (l, p)" by (cases b)
  obtain f where f: "fo_allocators fo ! k = Some f" "frames_ok (f, m) (As ! k)" using forest_okD(2) [OF ok k] s by auto
  note r = block_in_range [OF f(2) b [unfolded lp]]
  have "0 < fb_pages f l" by (simp add: fb_pages_def)
  then have e: "a + fo_hddm_offset fo = fb_page_of f p" "2 ^ i = fb_pages f l"
    using run f(1) s lp by (auto simp: run_pages_def fb_block_pages_def Ico_eq_Ico)
  let ?as = "take (fo_count fo) (fo_allocators fo)"
  have sl: "slots_ok m ?as As" and c: "fo_count fo \<le> length (fo_allocators fo)"
    using ok s by (auto simp: forest_ok_def)
  have k': "k < length ?as" "?as ! k = Some f" "Some f \<in> set ?as"
    using k c f(1) forest_okD(1) [OF ok] s by (auto simp: in_set_conv_nth intro!: exI [of _ k])
  have "canonical (fb_virt_start f) (fb_virt_end f)" using ok k'(3) s by (auto simp: forest_ok_def)
  moreover have ve: "fb_virt_end f < usize_bound" using frames_okD(4) [OF f(2)] by (simp add: fb_params_ok_def)
  ultimately have v: "virt_addr_new (fb_page_of f p) = Some (fb_page_of f p)"
    using virt_addr_new_canonical r by blast
  have ins: "As ! k = insert (l, p) (As ! k - {b})" using b lp by auto
  from dealloc_loop_ok [OF sl k'(1,2) ins] obtain as' m' where
    d: "dealloc_loop (fb_page_of f p) (fb_pages f l) ?as m = Some (as', m')"
      "list_all2 (rel_option same_bounds) ?as as'" "slots_ok m' as' (As[k := As ! k - {b}])"
    using lp by auto
  have "is_power_of_two (2 ^ i)" by (auto simp: is_power_of_two_iff)
  then have "forest_deallocate_contiguous_frames s a (2 ^ i) =
      Some (fo\<lparr>fo_allocators := as' @ drop (fo_count fo) (fo_allocators fo)\<rparr>, m')"
    using d(1) e v c s r(3) ve
    by (simp add: forest_deallocate_contiguous_frames_def forest_deallocate_contiguous_pages_def)
  moreover have "run_pages (fo\<lparr>fo_allocators := as' @ drop (fo_count fo) (fo_allocators fo)\<rparr>, m') j c = run_pages s j c" if "j < length As" for j c
  proof (rule run_pages_cong)
    have "j < length ?as" "length as' = length ?as" using that c forest_okD(1) [OF ok] s list_all2_lengthD [OF d(2)] by auto
    then show "rel_option same_bounds (fo_allocators (fst s) ! j)
        (fo_allocators (fst (fo\<lparr>fo_allocators := as' @ drop (fo_count fo) (fo_allocators fo)\<rparr>, m')) ! j)"
      using list_all2_nthD [OF d(2), of j] s by (simp add: nth_append)
  qed
  ultimately show ?thesis using forest_ok_update [OF ok [unfolded s] d(2,3)] s by auto
qed

text \<open>
  C8: giving back the physical address and length of an allocated run frees exactly that run in
  the allocator it came from and keeps the forest consistent.
\<close>

theorem forest_deallocate_correct:
  assumes ok: "forest_ok s As" and k: "k < length As" and b: "b \<in> As ! k"
    and run: "run_pages s k b = {a + fo_hddm_offset (fst s) ..< a + fo_hddm_offset (fst s) + 2 ^ i * 4096}"
  shows "\<exists>s'. forest_deallocate_contiguous_frames s a (2 ^ i) = Some s' \<and> forest_ok s' (As[k := As ! k - {b}])"
  using forest_dealloc_run [OF assms] by blast

text \<open>
  The pages of a usable region after its page list are divided greedily into allocators of
  decreasing powers of two, one directly after the other, until fewer than the minimum are left; the
  only panic is that the allocators exceed the capacity of the forest.
\<close>

theorem region_configs_correct:
  assumes "me_usable e" and "0 < mn" and "length cs \<le> N"
    and "me_base e + off + me_length e + 4096 < usize_bound"
  shows "\<exists>new. carved mn (me_base e + off) (me_base e + index_pages e * 4096) (me_length e div 4096 - index_pages e) new \<and>
    region_configs N mn off e cs = (if length cs + length new \<le> N then Some (cs @ new) else None)"
  by (rule region_configs_ok) (use assms in auto)

section \<open>A consistent forest\<close>

lemma carved_single:
  assumes "carved mn pls a n new" and "2 ^ j \<le> n" and "n < 2 ^ j + mn" and "mn \<le> 2 ^ j"
  shows "new = [(a, 2 ^ j, 2 ^ j * 4096, pls)]"
proof (cases new)
  case Nil
  then show ?thesis using assms by simp
next
  case (Cons c cs)
  obtain st f b l where c: "c = (st, f, b, l)" by (cases c)
  have h: "st = a" "l = pls" "b = f * 4096" "f \<le> n" "n < 2 * f" "carved mn pls (a + b) (n - f) cs" "is_power_of_two f"
    using assms(1) Cons c by auto
  from h(7) obtain i where i: "f = 2 ^ i" by (auto simp: is_power_of_two_iff)
  have "n < 2 ^ Suc j" using assms(3,4) by simp
  then have lt: "(2::nat) ^ i < 2 ^ Suc j" "(2::nat) ^ j < 2 ^ Suc i" using h(4,5) assms(2) i by (auto intro: le_less_trans)
  have "i < Suc j" by (rule power_less_imp_less_exp [OF _ lt(1)]) simp
  moreover have "j < Suc i" by (rule power_less_imp_less_exp [OF _ lt(2)]) simp
  ultimately have "f = 2 ^ j" using i by (simp add: less_Suc_eq_le)
  moreover have "cs = []" using h(6) assms(3) calculation by (cases cs) auto
  ultimately show ?thesis using Cons c h by simp
qed

text \<open>A region whose free pages are served by one allocator of \<open>2 ^ j\<close> pages.\<close>

definition one_allocator :: "nat \<Rightarrow> nat \<Rightarrow> nat \<Rightarrow> nat \<Rightarrow> nat \<Rightarrow> mem_entry \<Rightarrow> bool" where
  "one_allocator N L mn off j e \<longleftrightarrow> me_usable e \<and> 4096 dvd me_base e \<and> 4096 dvd off \<and> 0 < me_base e + off \<and>
     me_base e + off + me_length e + 4096 < usize_bound \<and> canonical (me_base e + off) (me_base e + off + me_length e) \<and>
     me_base e + me_length e \<le> 2 ^ 52 \<and>
     2 ^ j \<le> me_length e div 4096 - index_pages e \<and> me_length e div 4096 - index_pages e < 2 ^ j + mn \<and>
     mn \<le> 2 ^ j \<and> 2 \<le> mn \<and> is_power_of_two mn \<and> 0 < N \<and> Suc j \<le> L"

lemma one_allocator_bounds:
  assumes "one_allocator N L mn off j e"
  defines "a \<equiv> me_base e + index_pages e * 4096 + off"
  shows "1 \<le> j" and "j < 51" and "a + 2 ^ j * 4096 \<le> me_base e + off + me_length e"
    and "a + 2 ^ j * 4096 < usize_bound" and "4096 dvd a" and "me_base e + off \<le> a" and "4096 dvd a - (me_base e + off)"
proof -
  have h: "4096 dvd me_base e" "4096 dvd off" "2 ^ j \<le> me_length e div 4096 - index_pages e" "2 \<le> mn" "mn \<le> 2 ^ j"
      "me_base e + off + me_length e + 4096 < usize_bound" "me_base e + me_length e \<le> 2 ^ 52"
    using assms(1) by (auto simp: one_allocator_def)
  show "1 \<le> j" using h(4,5) by (cases j) auto
  have le: "index_pages e * 4096 + 2 ^ j * 4096 \<le> me_length e"
  proof -
    have "(index_pages e + 2 ^ j) * 4096 \<le> me_length e div 4096 * 4096"
      using h(3) index_pages_le [of e] by (intro mult_right_mono) linarith+
    also have "\<dots> \<le> me_length e" by simp
    finally show ?thesis by (simp add: add_mult_distrib)
  qed
  then show e: "a + 2 ^ j * 4096 \<le> me_base e + off + me_length e" by (simp add: a_def)
  then show "a + 2 ^ j * 4096 < usize_bound" using h(6) by linarith
  have pw: "(2::nat) ^ (j + 12) \<le> 2 ^ 52" using le h(7) by (simp add: power_add)
  have "j + 12 \<le> 52" by (rule power_le_imp_le_exp [OF _ pw]) simp
  then show "j < 51" by simp
  show "4096 dvd a" using h(1,2) by (auto simp: a_def)
  show "me_base e + off \<le> a" by (simp add: a_def)
  show "4096 dvd a - (me_base e + off)" by (simp add: a_def)
qed

text \<open>
  C9: over blank descriptors, a region that one allocator can serve yields a consistent forest with
  nothing allocated whose allocator has all \<open>2 ^ j\<close> frames, whatever sorting function is used.
\<close>

theorem forest_init_correct:
  assumes o: "one_allocator N L mn off j e" and srt: "\<And>c. sorter [c] = [c]" and m: "m = (\<lambda>_. blank_node)"
  shows "\<exists>s. forest_init sorter N L [e] mn off m = Some s \<and> forest_ok s [{}] \<and>
    (\<exists>f. fo_allocators (fst s) ! 0 = Some f \<and> fb_virt_end f - fb_virt_start f = 2 ^ j * 4096)"
proof -
  define a where "a = me_base e + index_pages e * 4096"
  note b = one_allocator_bounds [OF o, folded a_def]
  have h: "me_usable e" "2 ^ j \<le> me_length e div 4096 - index_pages e" "me_length e div 4096 - index_pages e < 2 ^ j + mn"
    "mn \<le> 2 ^ j" "2 \<le> mn" "is_power_of_two mn" "0 < N" "Suc j \<le> L" "0 < me_base e + off"
    "me_base e + off + me_length e + 4096 < usize_bound" "canonical (me_base e + off) (me_base e + off + me_length e)"
    "me_base e + me_length e \<le> 2 ^ 52"
    using o by (auto simp: one_allocator_def)
  have mn: "0 < mn" using h(5) by simp
  obtain new where new: "carved mn (me_base e + off) a (me_length e div 4096 - index_pages e) new"
    "region_configs N mn off e [] = (if length new \<le> N then Some new else None)"
    using region_configs_ok [OF h(1) mn _ h(10) [unfolded add.assoc, folded add.assoc], of "[]" N] a_def by auto
  have n1: "new = [(a, 2 ^ j, 2 ^ j * 4096, me_base e + off)]" using carved_single [OF new(1) h(2-4)] .
  then have cfg: "all_configs N mn off [e] [] = Some [(a, 2 ^ j, 2 ^ j * 4096, me_base e + off)]"
    using new(2) h(7) by simp
  have j: "(2::nat) ^ j \<noteq> 1" "levels = j + 1 \<Longrightarrow> levels - 1 = j" for levels using b(1) by auto
  define f where "f = \<lparr>fb_free_lists = (replicate L dfl_new)[0 := \<lparr>dfl_next = Some (me_base e + off + (a + off - (me_base e + off)) div 4096 * NODE_ALIGN),
    dfl_prev = None, dfl_len = 1\<rparr>], fb_levels = j + 1, fb_virt_start = a + off,
    fb_virt_end = a + off + 2 ^ (j + 1 - 1) * 4096, fb_page_list_start = me_base e + off\<rparr>"
  have par: "fb_params_ok f" using b h(8,9) by (simp add: fb_params_ok_def f_def)
  have bl: "\<forall>a \<in> fb_zone (f, m). dn_level_size (m a) = None" by (simp add: m blank_node_def)
  obtain m' where new': "fb_new L (j + 1) (a + off) (a + off + 2 ^ j * 4096) (me_base e + off) m = Some (f, m')"
    and fr: "frames_ok (f, m') {}"
    using fb_fresh [OF par [unfolded f_def] b(5) bl [unfolded f_def]] unfolding f_def by auto
  have lv: "j + 1 \<le> L" "a + off + 2 ^ j * 4096 < usize_bound" "a + off < usize_bound" using b(4) h(8) by auto
  let ?s = "(\<lparr>fo_allocators = Some f # replicate (N - 1) None, fo_count = 1, fo_hddm_offset = off\<rparr>, m')"
  have "forest_init sorter N L [e] mn off m = Some ?s"
    using h(5,6) cfg srt new' lv j(1) by (simp add: forest_init_def)
  moreover have "forest_ok ?s [{}]"
    using fr b(3,6) h(11,12) by (auto simp: forest_ok_def slots_ok_def slot_ok_def f_def canonical_def)
  ultimately show ?thesis by (intro exI [of _ ?s]) (auto simp: f_def)
qed

section \<open>Witnesses\<close>

definition small_region :: mem_entry where
  "small_region = \<lparr>me_base = 4096, me_length = 18 * 4096, me_usable = True\<rparr>"

lemma pow2_16: "is_power_of_two 16"
  using next_pow2_power [of 4] by (simp add: is_power_of_two_def)

lemma small_region_one: "one_allocator 100 26 16 0 4 small_region"
  by (simp add: one_allocator_def small_region_def index_pages_def usize_bound_def canonical_def pow2_16)

theorem forest_init_correct_witness:
  "\<exists>s. forest_init (\<lambda>cs. cs) 100 26 [small_region] 16 0 (\<lambda>_. blank_node) = Some s \<and> forest_ok s [{}]"
  using forest_init_correct [OF small_region_one, of "\<lambda>cs. cs" "\<lambda>_. blank_node"] by auto

definition one_forest :: forest_state where
  "one_forest = (\<lparr>fo_allocators = [Some (fst four_frames)], fo_count = 1, fo_hddm_offset = 0\<rparr>, snd four_frames)"

lemma one_forest_ok: "forest_ok one_forest [{}]"
  using four_frames_ok
  by (simp add: forest_ok_def one_forest_def slots_ok_def slot_ok_def) (simp add: four_frames_def Let_def canonical_def)

theorem forest_allocate_correct_witness:
  "\<exists>r s'. forest_allocate_contiguous_frames one_forest (2 ^ 0) = Some (r, s')"
proof -
  have "4096 * 2 ^ 0 < usize_bound" by (simp add: usize_bound_def)
  from forest_allocate_correct [OF one_forest_ok this] show ?thesis by blast
qed

lemma one_forest_taken: "\<exists>s l p. forest_ok s [{(l, p)}]"
proof -
  have "4096 * 2 ^ 0 < usize_bound" by (simp add: usize_bound_def)
  from forest_alloc_pages_ok [OF one_forest_ok this] obtain r s' where
    cs: "case r of
       None \<Rightarrow> forest_ok s' [{}] \<and> (\<forall>k < length [{} :: block set]. \<forall>f. fo_allocators (fst one_forest) ! k = Some f \<longrightarrow>
         (\<forall>b \<in> fb_free (f, snd one_forest). fb_pages f (fst b) < 2 ^ 0))
     | Some v \<Rightarrow> \<exists>k f l p. k < length [{} :: block set] \<and> fo_allocators (fst one_forest) ! k = Some f \<and> (l, p) \<notin> [{}] ! k \<and>
         forest_ok s' ([{}][k := insert (l, p) ([{}] ! k)]) \<and> fb_pages f l = 2 ^ 0 \<and> v = fb_page_of f p"
    by (elim exE conjE)
  obtain b where b: "b \<in> fb_free four_frames" using four_frames_free by blast
  have "r \<noteq> None"
  proof
    assume "r = None"
    with cs b have "fb_pages (fst four_frames) (fst b) < 1" by (simp add: one_forest_def)
    then show False by (simp add: fb_pages_def)
  qed
  then obtain v where "r = Some v" by blast
  then have "\<exists>l p. forest_ok s' [{(l, p)}]" using cs by auto
  then show ?thesis by (rule exI)
qed

theorem forest_deallocate_correct_witness:
  "\<exists>s a i s'. forest_deallocate_contiguous_frames s a (2 ^ i) = Some s' \<and> forest_ok s' [{}]"
proof -
  from one_forest_taken obtain s l p where ok: "forest_ok s [{(l, p)}]" by blast
  then obtain f where f: "fo_allocators (fst s) ! 0 = Some f" using forest_okD(2) [OF ok, of 0] by auto
  note off = forest_block_offset [OF ok, of 0 l p f, simplified, OF f]
  define a where "a = fb_page_of f p - fo_hddm_offset (fst s)"
  have "run_pages s 0 (l, p) = {a + fo_hddm_offset (fst s) ..< a + fo_hddm_offset (fst s) + 2 ^ (fb_levels f - 1 - l) * 4096}"
    using f off(1) by (simp add: run_pages_def fb_block_pages_def fb_pages_def a_def)
  from forest_deallocate_correct [OF ok _ _ this]
  have "\<exists>s'. forest_deallocate_contiguous_frames s a (2 ^ (fb_levels f - 1 - l)) = Some s' \<and> forest_ok s' [{}]" by simp
  then show ?thesis by blast
qed

section \<open>Allocators that reach each other's descriptors\<close>

text \<open>
  With the kernel's own parameters, a region of 49 pages becomes an allocator of 32 frames (index 1)
  and one of 16 frames (index 33).  \<^verbatim>\<open>merge_buddies\<close> computes buddies from the start of the page
  list and \<^verbatim>\<open>contains\<close> looks only at the size tag of a descriptor, so the last frame of the first
  allocator merges with the first frame of the second one.
\<close>

definition double_allocation_run :: "(addr option list \<times> addr option list) rust" where
  "double_allocation_run = do {
     s \<leftarrow> init_frame_allocator (\<lambda>cs. cs) None [\<lparr>me_base = 4096, me_length = 49 * 4096, me_usable = True\<rparr>] 0 (\<lambda>_. blank_node);
     (a1, s) \<leftarrow> forest_allocate_contiguous_pages s 16;
     (a2, s) \<leftarrow> forest_allocate_contiguous_pages s 8;
     (a3, s) \<leftarrow> forest_allocate_contiguous_pages s 4;
     (a4, s) \<leftarrow> forest_allocate_contiguous_pages s 2;
     (a5, s) \<leftarrow> forest_allocate_contiguous_pages s 1;
     (a6, s) \<leftarrow> forest_allocate_contiguous_pages s 1;
     (a7, s) \<leftarrow> forest_allocate_contiguous_pages s 1;
     (a8, s) \<leftarrow> forest_allocate_contiguous_pages s 1;
     s \<leftarrow> forest_deallocate_contiguous_pages s 139264 1;
     s \<leftarrow> forest_deallocate_contiguous_pages s 131072 1;
     s \<leftarrow> forest_deallocate_contiguous_pages s 135168 1;
     (b1, s) \<leftarrow> forest_allocate_contiguous_pages s 2;
     (b2, s) \<leftarrow> forest_allocate_contiguous_pages s 1;
     Some ([a5, a6, a7], [b1, b2])
   }"

lemmas forest_run = forest_init_def region_configs_def next_multiple_of_def fb_new_def usize_add_def usize_sub_def
  usize_mul_def usize_shl_def usize_shr_def rust_assert_def non_null_def vec_get_def dfl_new_def dfl_push_def
  dfl_pop_def dfl_remove_def dfl_contains_def fb_list_pop_def fb_list_push_def fb_list_contains_def
  fb_list_remove_def fb_block_size_def fb_get_level_from_size_def fb_split_buddy_def fb_buddy_def
  fb_allocate_contiguous_frames_def fb_deallocate_contiguous_frames_def forest_allocate_contiguous_pages_def
  forest_deallocate_contiguous_pages_def virt_addr_new_def usize_bound_def NODE_ALIGN_def set_next_def
  set_prev_def set_level_size_def blank_node_def init_frame_allocator_def level_loop.simps

lemmas frame_step = fb_get_free_block.simps fb_split_level.simps fb_merge_buddies.simps

lemmas frame_steps = frame_step [of _ 0] frame_step [of _ "Suc 0"] frame_step [of _ 2] frame_step [of _ 3]
  frame_step [of _ 4] frame_step [of _ 5] frame_step [of _ "Suc 4"] frame_step [of _ "Suc (Suc 0)"]
  frame_step [of _ "Suc (Suc (Suc 0))"] frame_step [of _ "Suc (Suc (Suc (Suc 0)))"]
  frame_step [of _ "Suc (Suc (Suc (Suc (Suc 0))))"]

lemma small_powers:
  "is_power_of_two (Suc 0)" "is_power_of_two 1" "is_power_of_two 2" "is_power_of_two 4" "is_power_of_two 8"
  "trailing_zeros 16 = 4" "trailing_zeros 32 = 5"
  using next_pow2_power [of 0] next_pow2_power [of 1] next_pow2_power [of 2] next_pow2_power [of 3]
    trailing_zeros_power [of 4] trailing_zeros_power [of 5]
  by (simp_all add: is_power_of_two_def)

lemma replicate_26: "replicate 26 x = [x, x, x, x, x, x, x, x, x, x, x, x, x, x, x, x, x, x, x, x, x, x, x, x, x, x]"
  by (simp add: numeral_eq_Suc)

lemma largest_48: "largest_pow2_loop 48 (Suc 0) = Some 32"
  by (simp add: largest_pow2_loop.simps [of 48 "Suc 0"] largest_pow2_loop.simps [of 48 2] largest_pow2_loop.simps [of 48 4]
    largest_pow2_loop.simps [of 48 8] largest_pow2_loop.simps [of 48 16] largest_pow2_loop.simps [of 48 32]
    usize_mul_def usize_bound_def)

lemma largest_16: "largest_pow2_loop 16 (Suc 0) = Some 16"
  by (simp add: largest_pow2_loop.simps [of 16 "Suc 0"] largest_pow2_loop.simps [of 16 2] largest_pow2_loop.simps [of 16 4]
    largest_pow2_loop.simps [of 16 8] largest_pow2_loop.simps [of 16 16] usize_mul_def usize_bound_def)


end
