(* ===== verification/KernelSlab.thy ===== *)
theory KernelSlab
  imports Mapper
begin

text \<open>
  \<^verbatim>\<open>kernel/src/tasks/kernelslab.rs\<close>: the slab of kernel stacks behind a 128-bit bitmap, and the stacks of
  user tasks.  Mapping and unmapping go through the interface of \<^verbatim>\<open>Mapper\<close>; user stacks use the page
  table of the task, which is passed as a second record of operations.
\<close>

section \<open>The code\<close>

definition KERNEL_TASKS_START :: addr where
  "KERNEL_TASKS_START = 0xFFFFF30000000000"

definition USER_STACKS_START :: addr where
  "USER_STACKS_START = 0x00007fffffff0000"

definition USTACK_SIZE :: nat where
  "USTACK_SIZE = 512"

definition INITIAL_STACK_PAGES :: nat where
  "INITIAL_STACK_PAGES = 4"

definition KSTACK_SIZE :: nat where
  "KSTACK_SIZE = 4"

datatype stack_alloc_error = FrameError | MapError

record kernel_slab =
  block_bitmap :: u128

definition slab_new :: kernel_slab where
  "slab_new = \<lparr>block_bitmap = 0\<rparr>"

text \<open>\<^verbatim>\<open>u128::trailing_ones\<close>, and \<^verbatim>\<open>x & !(n - 1)\<close> for a power of two \<open>n\<close>.\<close>

definition trailing_ones :: "u128 \<Rightarrow> nat" where
  "trailing_ones w = length (takeWhile (bit w) [0 ..< 128])"

definition align_down :: "nat \<Rightarrow> nat \<Rightarrow> nat" where
  "align_down x n = x div n * n"

fun map_stack_pages ::
  "'k mm \<Rightarrow> pt_flags \<Rightarrow> addr list \<Rightarrow> 'k \<Rightarrow> (stack_alloc_error option \<times> 'k) rust" where
  "map_stack_pages mm fl [] k = Some (None, k)"
| "map_stack_pages mm fl (page_addr # pages) k = do {
     (frame, k) \<leftarrow> mm_allocate_frame mm k;
     case frame of
       None \<Rightarrow> Some (Some FrameError, k)
     | Some frame \<Rightarrow> do {
         v \<leftarrow> virt_addr_new page_addr;
         (r, k) \<leftarrow> mm_map_to mm k (align_down v 4096) frame fl;
         case r of Some e \<Rightarrow> Some (Some MapError, k) | None \<Rightarrow> map_stack_pages mm fl pages k
       }
   }"

definition block_start :: "nat \<Rightarrow> addr" where
  "block_start i = KERNEL_TASKS_START + i * KSTACK_SIZE * 0x1000"

definition get_stack ::
  "'k mm \<Rightarrow> kernel_slab \<Rightarrow> 'k \<Rightarrow> ((stack_alloc_error + addr) \<times> kernel_slab \<times> 'k) rust" where
  "get_stack mm slab k = (
     let block_index = trailing_ones (block_bitmap slab) in
     if block_index \<ge> 128 then Some (Inl FrameError, slab, k)
     else do {
       let start = block_start block_index;
       (r, k) \<leftarrow> map_stack_pages mm kernel_rw (step_range (start + 0x1000) (start + KSTACK_SIZE * 0x1000) 0x1000) k;
       case r of
         Some e \<Rightarrow> Some (Inl e, slab, k)
       | None \<Rightarrow> do {
           let slab = slab\<lparr>block_bitmap := block_bitmap slab OR push_bit block_index 1\<rparr>;
           let stack_top = align_down (start + KSTACK_SIZE * 0x1000 - 1) 16;
           v \<leftarrow> virt_addr_new stack_top;
           Some (Inr v, slab, k)
         }
     })"

definition return_stack :: "kernel_slab \<Rightarrow> addr \<Rightarrow> kernel_slab rust" where
  "return_stack slab stack_top = do {
     offset \<leftarrow> usize_sub stack_top KERNEL_TASKS_START;
     let block_index = align_down offset (KSTACK_SIZE * 0x1000) div (KSTACK_SIZE * 0x1000);
     rust_assert (block_index < 128 \<and> block_bitmap slab AND push_bit block_index 1 \<noteq> 0);
     Some (slab\<lparr>block_bitmap := block_bitmap slab AND NOT (push_bit block_index 1)\<rparr>)
   }"

record user_stack_allocation =
  ua_stack_start :: addr
  ua_stack_end :: addr
  ua_stack_size :: nat

definition get_user_stack ::
  "'k mm \<Rightarrow> 'k \<Rightarrow> ((stack_alloc_error + user_stack_allocation) \<times> 'k) rust" where
  "get_user_stack user_page_table k = do {
     let stack_end = USER_STACKS_START - INITIAL_STACK_PAGES * 0x1000;
     (r, k) \<leftarrow> map_stack_pages user_page_table user_rw (step_range stack_end USER_STACKS_START 0x1000) k;
     case r of
       Some e \<Rightarrow> Some (Inl e, k)
     | None \<Rightarrow> do {
         let max_stack_end = USER_STACKS_START - USTACK_SIZE * 0x1000;
         s \<leftarrow> virt_addr_new USER_STACKS_START;
         e \<leftarrow> virt_addr_new max_stack_end;
         Some (Inr \<lparr>ua_stack_start = s, ua_stack_end = e, ua_stack_size = INITIAL_STACK_PAGES\<rparr>, k)
       }
   }"

text \<open>A page that is not mapped is skipped with a warning.\<close>

fun unmap_stack_pages :: "'k mm \<Rightarrow> addr list \<Rightarrow> 'k \<Rightarrow> 'k rust" where
  "unmap_stack_pages mm [] k = Some k"
| "unmap_stack_pages mm (page_addr # pages) k = do {
     v \<leftarrow> virt_addr_new page_addr;
     (r, k) \<leftarrow> mm_unmap mm k (align_down v 4096);
     case r of
       None \<Rightarrow> unmap_stack_pages mm pages k
     | Some frame \<Rightarrow> do {
         k \<leftarrow> mm_deallocate_frame mm k frame;
         unmap_stack_pages mm pages k
       }
   }"

record user_info =
  ui_stack_start :: addr
  ui_stack_end :: addr
  ui_stack_size :: nat
  ui_kernel_stack :: addr

definition return_user_stack :: "'k mm \<Rightarrow> user_info \<Rightarrow> 'k \<Rightarrow> 'k rust" where
  "return_user_stack user_page_table info k = do {
     bytes \<leftarrow> usize_mul (ui_stack_size info) 0x1000;
     actual_stack_bottom \<leftarrow> usize_sub (ui_stack_start info) bytes;
     unmap_stack_pages user_page_table (step_range actual_stack_bottom (ui_stack_start info) 0x1000) k
   }"

section \<open>The bitmap\<close>

lemma trailing_ones_bounds:
  shows "trailing_ones w \<le> 128" and "i < trailing_ones w \<Longrightarrow> bit w i"
    and "trailing_ones w < 128 \<Longrightarrow> \<not> bit w (trailing_ones w)"
proof -
  let ?l = "takeWhile (bit w) [0 ..< 128]"
  show "trailing_ones w \<le> 128" using length_takeWhile_le [of "bit w" "[0 ..< 128]"] by (simp add: trailing_ones_def)
  show "bit w i" if "i < trailing_ones w"
  proof -
    have "?l ! i \<in> set ?l" using that by (simp add: trailing_ones_def)
    then have "bit w (?l ! i)" by (blast dest: set_takeWhileD)
    moreover have "?l ! i = i"
      using that length_takeWhile_le [of "bit w" "[0 ..< 128]"] takeWhile_nth [of i "bit w" "[0 ..< 128]"]
      by (simp add: trailing_ones_def)
    ultimately show ?thesis by simp
  qed
  show "\<not> bit w (trailing_ones w)" if "trailing_ones w < 128"
    using nth_length_takeWhile [of "bit w" "[0 ..< 128]"] that by (simp add: trailing_ones_def)
qed

lemma trailing_ones_full: "trailing_ones w = 128 \<longleftrightarrow> w = - 1"
proof
  assume "trailing_ones w = 128"
  then have "bit w i" if "i < 128" for i using trailing_ones_bounds(2) [of i w] that by simp
  then show "w = - 1" by (intro bit_word_eqI) simp
next
  assume "w = - 1"
  then have "takeWhile (bit w) [0 ..< 128] = [0 ..< 128]" by (intro takeWhile_eq_all_conv [THEN iffD2]) simp
  then show "trailing_ones w = 128" unfolding trailing_ones_def by (simp only: length_upt)
qed

text \<open>The bitmap as a set of blocks in use.\<close>

definition used_blocks :: "kernel_slab \<Rightarrow> nat set" where
  "used_blocks slab = {i. bit (block_bitmap slab) i}"

lemma used_set: "i < 128 \<Longrightarrow> used_blocks \<lparr>block_bitmap = w OR push_bit i 1\<rparr> = insert i (used_blocks \<lparr>block_bitmap = w\<rparr>)"
  by (auto simp: used_blocks_def bit_simps)

lemma used_clear: "used_blocks \<lparr>block_bitmap = w AND NOT (push_bit i 1)\<rparr> = used_blocks \<lparr>block_bitmap = w\<rparr> - {i}"
  by (auto simp: used_blocks_def bit_simps dest: bit_imp_le_length)

lemma used_test: "i < 128 \<Longrightarrow> w AND push_bit i 1 \<noteq> (0 :: u128) \<longleftrightarrow> i \<in> used_blocks \<lparr>block_bitmap = w\<rparr>"
  by (simp add: used_blocks_def and_exp_eq_0_iff_not_bit push_bit_of_1)

section \<open>Mapping and unmapping stack pages\<close>

definition page_list :: "addr list \<Rightarrow> bool" where
  "page_list pages \<longleftrightarrow> distinct pages \<and> (\<forall>p \<in> set pages. 4096 dvd p \<and> virt_addr_new p = Some p)"

lemma page_list_Cons [simp]:
  "page_list (p # ps) \<longleftrightarrow> p \<notin> set ps \<and> 4096 dvd p \<and> virt_addr_new p = Some p \<and> page_list ps"
  by (auto simp: page_list_def)

lemma align_down_dvd [simp]: "n dvd x \<Longrightarrow> align_down x n = x"
  by (simp add: align_down_def)

lemma map_stack_pages_ok:
  assumes sp: "mapper_spec mm xlate" and d: "page_list pages"
  shows "\<exists>r k'. map_stack_pages mm fl pages k = Some (r, k') \<and>
    (\<forall>q. q \<notin> set pages \<longrightarrow> xlate k' q = xlate k q) \<and>
    (r = None \<longrightarrow> (\<forall>q \<in> set pages. xlate k q = None \<and> xlate k' q \<noteq> None)) \<and>
    (r \<noteq> None \<longrightarrow> dom (xlate k) \<subseteq> dom (xlate k'))"
  using d
proof (induction pages arbitrary: k)
  case (Cons p ps)
  obtain f k1 where f: "mm_allocate_frame mm k = Some (f, k1)" "xlate k1 = xlate k"
    using mapper_specD(1) [OF sp] by blast
  show ?case
  proof (cases f)
    case None
    then show ?thesis using f by auto
  next
    case (Some fr)
    obtain r k2 where m: "mm_map_to mm k1 p fr fl = Some (r, k2)"
        "if r = None then xlate k1 p = None \<and> xlate k2 = (xlate k1)(p \<mapsto> fr) else xlate k2 = xlate k1"
      using mapper_specD(3) [OF sp] by blast
    show ?thesis
    proof (cases r)
      case None
      obtain r' k' where ih: "map_stack_pages mm fl ps k2 = Some (r', k')"
          "\<forall>q. q \<notin> set ps \<longrightarrow> xlate k' q = xlate k2 q"
          "r' = None \<longrightarrow> (\<forall>q \<in> set ps. xlate k2 q = None \<and> xlate k' q \<noteq> None)"
          "r' \<noteq> None \<longrightarrow> dom (xlate k2) \<subseteq> dom (xlate k')"
        using Cons.IH [of k2] Cons.prems by auto
      have "map_stack_pages mm fl (p # ps) k = Some (r', k')" using f(1) Some m(1) None ih(1) Cons.prems by simp
      moreover have "\<forall>q \<in> set ps. xlate k2 q = xlate k q" using m(2) None f(2) Cons.prems by auto
      moreover have "xlate k p = None" "xlate k2 = (xlate k)(p \<mapsto> fr)" using m(2) None f(2) by auto
      ultimately show ?thesis using ih(2-4) Cons.prems
        by (intro exI [of _ r'] exI [of _ k']) (auto simp: subset_iff domIff)
    next
      case (Some e)
      then show ?thesis using f \<open>f = Some fr\<close> m Cons.prems by auto
    qed
  qed
qed simp

lemma unmap_stack_pages_ok:
  assumes sp: "mapper_spec mm xlate" and d: "page_list pages"
  shows "\<exists>k'. unmap_stack_pages mm pages k = Some k' \<and>
    (\<forall>q. xlate k' q = (if q \<in> set pages then None else xlate k q))"
  using d
proof (induction pages arbitrary: k)
  case (Cons p ps)
  obtain k1 where u: "mm_unmap mm k p = Some (xlate k p, k1)" "xlate k1 = (xlate k)(p := None)"
    using mapper_specD(4) [OF sp] by blast
  obtain k2 where k2: "(case xlate k p of None \<Rightarrow> Some k1 | Some f \<Rightarrow> mm_deallocate_frame mm k1 f) = Some k2" "xlate k2 = xlate k1"
    using mapper_specD(2) [OF sp, of k p _ k1] u(1) by (cases "xlate k p") auto
  obtain k' where ih: "unmap_stack_pages mm ps k2 = Some k'" "\<forall>q. xlate k' q = (if q \<in> set ps then None else xlate k2 q)"
    using Cons.IH [of k2] Cons.prems by auto
  have "unmap_stack_pages mm (p # ps) k = Some k'"
    using u(1) k2(1) ih(1) Cons.prems by (cases "xlate k p") simp_all
  then show ?case using ih(2) k2(2) u(2) by auto
qed simp

section \<open>Kernel stacks\<close>

text \<open>A block is a guard page followed by three stack pages.\<close>

definition stack_pages :: "nat \<Rightarrow> addr set" where
  "stack_pages i = {block_start i + 0x1000, block_start i + 0x2000, block_start i + 0x3000}"

definition stack_top :: "nat \<Rightarrow> addr" where
  "stack_top i = block_start i + 0x3FF0"

lemmas slab_consts = block_start_def KERNEL_TASKS_START_def KSTACK_SIZE_def

lemma block_range:
  "step_range (block_start i + 0x1000) (block_start i + KSTACK_SIZE * 0x1000) 0x1000 =
     [block_start i + 0x1000, block_start i + 0x2000, block_start i + 0x3000]"
proof -
  have "block_start i + KSTACK_SIZE * 0x1000 = block_start i + 0x1000 + 3 * 0x1000" by (simp add: KSTACK_SIZE_def)
  then show ?thesis
    using step_range_mult [of 4096 "block_start i + 4096" 3] by (simp only: KSTACK_SIZE_def) (simp add: numeral_3_eq_3)
qed

lemma block_pages_list:
  assumes "i < 128"
  defines "ps \<equiv> step_range (block_start i + 0x1000) (block_start i + KSTACK_SIZE * 0x1000) 0x1000"
  shows "set ps = stack_pages i" and "page_list ps"
proof -
  have ps: "ps = [block_start i + 0x1000, block_start i + 0x2000, block_start i + 0x3000]"
    unfolding ps_def by (rule block_range)
  then show "set ps = stack_pages i" by (simp add: stack_pages_def)
  have "4096 dvd block_start i" by (simp add: slab_consts)
  moreover have "2 ^ 64 - 2 ^ 47 \<le> block_start i" "block_start i + 0x3000 < 2 ^ 64" using assms(1) by (simp_all add: slab_consts)
  ultimately show "page_list ps" unfolding ps by (simp add: page_list_def virt_addr_new_def)
qed

lemma guard_page: "block_start j \<notin> stack_pages i"
proof -
  have "16384 * j \<noteq> c + 16384 * i" if "0 < c" "c < 16384" for c
  proof
    assume "16384 * j = c + 16384 * i"
    then have "(16384 * j) mod 16384 = (c + 16384 * i) mod 16384" by simp
    then show False using that by simp
  qed
  from this [of 4096] this [of 8192] this [of 12288] show ?thesis by (simp add: stack_pages_def slab_consts)
qed

lemma stack_pages_disjoint: "j \<noteq> i \<Longrightarrow> stack_pages i \<inter> stack_pages j = {}"
proof -
  assume ij: "j \<noteq> i"
  have r: "stack_pages l \<subseteq> {block_start l ..< block_start l + 16384}" for l by (simp add: stack_pages_def)
  have "block_start l + 16384 \<le> block_start n" if "l < n" for l n
  proof -
    have "Suc l * 16384 \<le> n * 16384" using that by (intro mult_right_mono) simp_all
    then show ?thesis by (simp add: slab_consts)
  qed
  then have "block_start i + 16384 \<le> block_start j \<or> block_start j + 16384 \<le> block_start i" using ij by (meson nat_neq_iff)
  then have "{block_start i ..< block_start i + 16384} \<inter> {block_start j ..< block_start j + 16384} = {}" by auto
  then show ?thesis using r [of i] r [of j] by blast
qed

lemma stack_top_ok:
  assumes "i < 128"
  shows "align_down (block_start i + KSTACK_SIZE * 0x1000 - 1) 16 = stack_top i"
    and "virt_addr_new (stack_top i) = Some (stack_top i)"
    and "usize_sub (stack_top i) KERNEL_TASKS_START = Some (i * 0x4000 + 0x3FF0)"
    and "align_down (i * 0x4000 + 0x3FF0) (KSTACK_SIZE * 0x1000) div (KSTACK_SIZE * 0x1000) = i"
proof -
  define q where "q = i * 1024 + 0xFFFFF3000000000 + 1023"
  have e: "block_start i + KSTACK_SIZE * 0x1000 - 1 = 16 * q + 15" "stack_top i = 16 * q"
    by (simp_all add: slab_consts q_def stack_top_def)
  show "align_down (block_start i + KSTACK_SIZE * 0x1000 - 1) 16 = stack_top i"
    unfolding align_down_def e by simp
  show "virt_addr_new (stack_top i) = Some (stack_top i)" using assms by (simp add: virt_addr_new_def stack_top_def slab_consts)
  show "usize_sub (stack_top i) KERNEL_TASKS_START = Some (i * 0x4000 + 0x3FF0)" by (simp add: stack_top_def slab_consts)
  show "align_down (i * 0x4000 + 0x3FF0) (KSTACK_SIZE * 0x1000) div (KSTACK_SIZE * 0x1000) = i"
    by (simp add: align_down_def KSTACK_SIZE_def)
qed

lemma get_stack_ok:
  assumes sp: "mapper_spec mm xlate"
  shows "\<exists>r slab' k'. get_stack mm slab k = Some (r, slab', k') \<and>
    (case r of
       Inl e \<Rightarrow> slab' = slab \<and> dom (xlate k) \<subseteq> dom (xlate k')
     | Inr a \<Rightarrow> \<exists>i < 128. i \<notin> used_blocks slab \<and> (\<forall>j < i. j \<in> used_blocks slab) \<and> a = stack_top i \<and>
         slab' = \<lparr>block_bitmap = block_bitmap slab OR push_bit i 1\<rparr> \<and>
         (\<forall>q \<in> stack_pages i. xlate k q = None \<and> xlate k' q \<noteq> None) \<and> (\<forall>q. q \<notin> stack_pages i \<longrightarrow> xlate k' q = xlate k q))"
proof (cases "trailing_ones (block_bitmap slab) < 128")
  case False
  then have "get_stack mm slab k = Some (Inl FrameError, slab, k)" by (simp add: get_stack_def Let_def)
  then show ?thesis by simp
next
  case True
  define i where "i = trailing_ones (block_bitmap slab)"
  have i: "i < 128" "i \<notin> used_blocks slab" "\<forall>j < i. j \<in> used_blocks slab"
    using True trailing_ones_bounds(2,3) by (auto simp: i_def used_blocks_def)
  note pl = block_pages_list [OF i(1)] and st = stack_top_ok [OF i(1)]
  from map_stack_pages_ok [OF sp pl(2), of kernel_rw k] obtain r k' where
    m: "map_stack_pages mm kernel_rw (step_range (block_start i + 0x1000) (block_start i + KSTACK_SIZE * 0x1000) 0x1000) k = Some (r, k')"
      "\<forall>q. q \<notin> stack_pages i \<longrightarrow> xlate k' q = xlate k q"
      "r = None \<longrightarrow> (\<forall>q \<in> stack_pages i. xlate k q = None \<and> xlate k' q \<noteq> None)"
      "r \<noteq> None \<longrightarrow> dom (xlate k) \<subseteq> dom (xlate k')" unfolding pl(1) by blast
  show ?thesis
  proof (cases r)
    case (Some e)
    then have "get_stack mm slab k = Some (Inl e, slab, k')" using m(1) i(1) by (simp add: get_stack_def i_def [symmetric])
    then show ?thesis using m(4) Some by simp
  next
    case None
    then have "get_stack mm slab k = Some (Inr (stack_top i), \<lparr>block_bitmap = block_bitmap slab OR push_bit i 1\<rparr>, k')"
      using m(1) i(1) st(1,2) by (simp add: get_stack_def i_def [symmetric] Let_def)
    then show ?thesis using m(2,3) None i by auto
  qed
qed

lemma return_stack_ok:
  assumes "i < 128"
  shows "return_stack slab (stack_top i) =
    (if i \<in> used_blocks slab then Some \<lparr>block_bitmap = block_bitmap slab AND NOT (push_bit i 1)\<rparr> else None)"
  using stack_top_ok [OF assms] used_test [OF assms, of "block_bitmap slab"] assms
  by (cases slab) (simp add: return_stack_def rust_assert_def)


text \<open>
  C11: \<open>get_stack\<close> never panics.  It takes the lowest free block, maps exactly its three stack pages, which
  were unmapped, never a guard page and never a page of another block, and returns the top of that
  stack; on an error the bitmap is unchanged.
\<close>

theorem get_stack_correct:
  assumes "mapper_spec mm xlate"
  shows "\<exists>r slab' k'. get_stack mm slab k = Some (r, slab', k') \<and>
    (case r of
       Inl e \<Rightarrow> slab' = slab
     | Inr a \<Rightarrow> \<exists>i < 128. i \<notin> used_blocks slab \<and> (\<forall>j < i. j \<in> used_blocks slab) \<and> a = stack_top i \<and>
         used_blocks slab' = insert i (used_blocks slab) \<and>
         (\<forall>q \<in> stack_pages i. xlate k q = None \<and> xlate k' q \<noteq> None) \<and> (\<forall>q. q \<notin> stack_pages i \<longrightarrow> xlate k' q = xlate k q) \<and>
         (\<forall>j. block_start j \<notin> stack_pages i) \<and> (\<forall>j. j \<noteq> i \<longrightarrow> stack_pages i \<inter> stack_pages j = {}))"
proof -
  have guard: "\<forall>j. block_start j \<notin> stack_pages i" "\<forall>j. j \<noteq> i \<longrightarrow> stack_pages i \<inter> stack_pages j = {}" for i
    using guard_page stack_pages_disjoint by blast+
  from get_stack_ok [OF assms, of slab k] obtain r slab' k' where
    g: "get_stack mm slab k = Some (r, slab', k')" and
    c: "case r of
       Inl e \<Rightarrow> slab' = slab \<and> dom (xlate k) \<subseteq> dom (xlate k')
     | Inr a \<Rightarrow> \<exists>i < 128. i \<notin> used_blocks slab \<and> (\<forall>j < i. j \<in> used_blocks slab) \<and> a = stack_top i \<and>
         slab' = \<lparr>block_bitmap = block_bitmap slab OR push_bit i 1\<rparr> \<and>
         (\<forall>q \<in> stack_pages i. xlate k q = None \<and> xlate k' q \<noteq> None) \<and> (\<forall>q. q \<notin> stack_pages i \<longrightarrow> xlate k' q = xlate k q)"
    by (elim exE conjE)
  show ?thesis
  proof (cases r)
    case (Inr a)
    with c obtain i where i: "i < 128" "i \<notin> used_blocks slab" "\<forall>j < i. j \<in> used_blocks slab" "a = stack_top i"
      "slab' = \<lparr>block_bitmap = block_bitmap slab OR push_bit i 1\<rparr>"
      "\<forall>q \<in> stack_pages i. xlate k q = None \<and> xlate k' q \<noteq> None" "\<forall>q. q \<notin> stack_pages i \<longrightarrow> xlate k' q = xlate k q" by auto
    have "used_blocks slab' = insert i (used_blocks slab)" using used_set [OF i(1)] i(5) by (simp add: used_blocks_def)
    then show ?thesis using g Inr i guard [of i]
      by (intro exI [of _ r] exI [of _ slab'] exI [of _ k']) (simp, rule exI [of _ i], simp)
  qed (use g c in auto)
qed

text \<open>
  Returning the stack that \<open>get_stack\<close> handed out restores the bitmap exactly.
\<close>

theorem stack_roundtrip:
  assumes "mapper_spec mm xlate" and "get_stack mm slab k = Some (Inr a, slab', k')"
  shows "return_stack slab' a = Some slab"
proof -
  from get_stack_ok [OF assms(1), of slab k] assms(2) obtain i where
    i: "i < 128" "i \<notin> used_blocks slab" "a = stack_top i" "slab' = \<lparr>block_bitmap = block_bitmap slab OR push_bit i 1\<rparr>" by auto
  have "(block_bitmap slab OR push_bit i 1) AND NOT (push_bit i 1) = block_bitmap slab"
    using i(2) by (intro bit_word_eqI) (auto simp: bit_simps used_blocks_def)
  moreover have "i \<in> used_blocks slab'" using used_set [OF i(1)] i(4) by simp
  ultimately show ?thesis using return_stack_ok [OF i(1)] i(3,4) by simp
qed

text \<open>
  C12: a returned stack cannot be handed out again.  \<open>return_stack\<close> leaves the pages mapped, so the next
  \<open>get_stack\<close>, which picks the same block, fails.
\<close>

theorem returned_stack_unusable:
  assumes "mapper_spec mm xlate" and "get_stack mm slab k = Some (Inr a, slab', k')"
    and "return_stack slab' a = Some slab''"
  shows "\<exists>e k''. get_stack mm slab'' k' = Some (Inl e, slab'', k'')"
proof -
  from get_stack_ok [OF assms(1), of slab k] assms(2) obtain i where
    i: "i < 128" "i \<notin> used_blocks slab" "\<forall>j < i. j \<in> used_blocks slab" "a = stack_top i"
      "slab' = \<lparr>block_bitmap = block_bitmap slab OR push_bit i 1\<rparr>" "\<forall>q \<in> stack_pages i. xlate k' q \<noteq> None" by auto
  have s: "used_blocks slab'' = used_blocks slab"
    using assms(3) return_stack_ok [OF i(1), of slab'] i used_set [OF i(1)] used_clear
    by (auto simp: used_blocks_def split: if_splits)
  from get_stack_ok [OF assms(1), of slab'' k'] obtain r slab3 k3 where
    g: "get_stack mm slab'' k' = Some (r, slab3, k3)" and
    c: "case r of
       Inl e \<Rightarrow> slab3 = slab'' \<and> dom (xlate k') \<subseteq> dom (xlate k3)
     | Inr a \<Rightarrow> \<exists>i < 128. i \<notin> used_blocks slab'' \<and> (\<forall>j < i. j \<in> used_blocks slab'') \<and> a = stack_top i \<and>
         slab3 = \<lparr>block_bitmap = block_bitmap slab'' OR push_bit i 1\<rparr> \<and>
         (\<forall>q \<in> stack_pages i. xlate k' q = None \<and> xlate k3 q \<noteq> None) \<and> (\<forall>q. q \<notin> stack_pages i \<longrightarrow> xlate k3 q = xlate k' q)"
    by (elim exE conjE)
  show ?thesis
  proof (cases r)
    case (Inr b)
    with c obtain j where j: "j \<notin> used_blocks slab''" "\<forall>l < j. l \<in> used_blocks slab''" "\<forall>q \<in> stack_pages j. xlate k' q = None" by auto
    then have "j = i" using i(2,3) s by (metis linorder_neqE_nat)
    then show ?thesis using i(6) j(3) unfolding stack_pages_def by blast
  qed (use g c in auto)
qed

text \<open>
  With all 128 blocks in use \<open>get_stack\<close> reports \<^verbatim>\<open>FrameError\<close> and changes nothing; otherwise it does not
  give up before trying to map pages.
\<close>

theorem get_stack_full:
  "used_blocks slab = {..< 128} \<Longrightarrow> get_stack mm slab k = Some (Inl FrameError, slab, k)"
proof -
  assume u: "used_blocks slab = {..< 128}"
  have "bit (block_bitmap slab) i = bit (- 1 :: u128) i" for i
    using u by (cases "i < 128") (auto simp: used_blocks_def set_eq_iff)
  then have "block_bitmap slab = - 1" by (intro bit_word_eqI) simp
  then have "trailing_ones (block_bitmap slab) = 128" by (simp add: trailing_ones_full)
  then show ?thesis by (simp add: get_stack_def Let_def)
qed

section \<open>User stacks\<close>

lemmas ustack_consts = USER_STACKS_START_def INITIAL_STACK_PAGES_def USTACK_SIZE_def

definition initial_pages :: "addr list" where
  "initial_pages = map (\<lambda>i. USER_STACKS_START - INITIAL_STACK_PAGES * 0x1000 + i * 0x1000) [0 ..< INITIAL_STACK_PAGES]"

lemma initial_pages_range:
  "step_range (USER_STACKS_START - INITIAL_STACK_PAGES * 0x1000) USER_STACKS_START 0x1000 = initial_pages"
  using step_range_mult [of 4096 "USER_STACKS_START - INITIAL_STACK_PAGES * 0x1000" INITIAL_STACK_PAGES]
  by (simp add: initial_pages_def ustack_consts)

lemma initial_pages_list: "page_list initial_pages"
proof -
  have eq: "initial_pages = [0x7fffffff0000 - 0x4000, 0x7fffffff0000 - 0x3000, 0x7fffffff0000 - 0x2000, 0x7fffffff0000 - 0x1000]"
    by (simp add: initial_pages_def ustack_consts upt_rec)
  show ?thesis unfolding page_list_def eq by (simp add: virt_addr_new_def)
qed

text \<open>
  A user stack starts with four mapped pages below \<^verbatim>\<open>USER_STACKS_START\<close> and may grow to 512; giving it
  back unmaps exactly these pages, so that all translations are as before.
\<close>

theorem user_stack_roundtrip:
  assumes sp: "mapper_spec mm xlate"
  shows "\<exists>r k'. get_user_stack mm k = Some (r, k') \<and>
    (case r of
       Inl e \<Rightarrow> dom (xlate k) \<subseteq> dom (xlate k')
     | Inr u \<Rightarrow> ua_stack_start u - ua_stack_end u = 512 * 4096 \<and> ua_stack_size u = 4 \<and>
         (\<forall>q. xlate k' q \<noteq> None \<longleftrightarrow> xlate k q \<noteq> None \<or> q \<in> set initial_pages) \<and>
         (\<exists>k''. return_user_stack mm \<lparr>ui_stack_start = ua_stack_start u, ui_stack_end = ua_stack_end u,
            ui_stack_size = ua_stack_size u, ui_kernel_stack = ks\<rparr> k' = Some k'' \<and> xlate k'' = xlate k))"
proof -
  from map_stack_pages_ok [OF sp initial_pages_list, of user_rw k] obtain r k' where
    m: "map_stack_pages mm user_rw initial_pages k = Some (r, k')"
      "\<forall>q. q \<notin> set initial_pages \<longrightarrow> xlate k' q = xlate k q"
      "r = None \<longrightarrow> (\<forall>q \<in> set initial_pages. xlate k q = None \<and> xlate k' q \<noteq> None)"
      "r \<noteq> None \<longrightarrow> dom (xlate k) \<subseteq> dom (xlate k')" by blast
  show ?thesis
  proof (cases r)
    case (Some e)
    then have "get_user_stack mm k = Some (Inl e, k')" using m(1) by (simp add: get_user_stack_def Let_def initial_pages_range)
    then show ?thesis using m(4) Some by simp
  next
    case None
    let ?u = "\<lparr>ua_stack_start = USER_STACKS_START, ua_stack_end = USER_STACKS_START - USTACK_SIZE * 0x1000, ua_stack_size = INITIAL_STACK_PAGES\<rparr>"
    have g: "get_user_stack mm k = Some (Inr ?u, k')"
      using m(1) None by (simp add: get_user_stack_def Let_def initial_pages_range) (simp add: virt_addr_new_def ustack_consts)
    from unmap_stack_pages_ok [OF sp initial_pages_list, of k'] obtain k'' where
      u: "unmap_stack_pages mm initial_pages k' = Some k''" "\<forall>q. xlate k'' q = (if q \<in> set initial_pages then None else xlate k' q)"
      by blast
    have "return_user_stack mm \<lparr>ui_stack_start = ua_stack_start ?u, ui_stack_end = ua_stack_end ?u,
        ui_stack_size = ua_stack_size ?u, ui_kernel_stack = ks\<rparr> k' = Some k''"
      using u(1) initial_pages_range by (simp add: return_user_stack_def usize_mul_def usize_sub_def usize_bound_def ustack_consts)
    moreover have "xlate k'' = xlate k" using u(2) m(2,3) None by (auto simp: fun_eq_iff)
    moreover have "\<forall>q. xlate k' q \<noteq> None \<longleftrightarrow> xlate k q \<noteq> None \<or> q \<in> set initial_pages"
    proof
      fix q
      show "xlate k' q \<noteq> None \<longleftrightarrow> xlate k q \<noteq> None \<or> q \<in> set initial_pages"
        using m(2,3) None by (cases "q \<in> set initial_pages") simp_all
    qed
    ultimately show ?thesis using g by (intro exI [of _ "Inr ?u"] exI [of _ k']) (simp add: ustack_consts)
  qed
qed

section \<open>Witnesses\<close>

text \<open>The page table and frame allocator of \<^verbatim>\<open>Mapper\<close> with nothing mapped.\<close>

lemma get_stack_empty:
  "\<exists>k'. get_stack bump_mm slab_new (Map.empty, 0) = Some (Inr (stack_top 0), \<lparr>block_bitmap = 1\<rparr>, k')"
proof -
  have t: "trailing_ones 0 = 0" using trailing_ones_bounds(2) [of 0 0] by (cases "trailing_ones 0") simp_all
  have st: "align_down (block_start 0 + KSTACK_SIZE * 0x1000 - 1) 16 = stack_top 0"
    "virt_addr_new (stack_top 0) = Some (stack_top 0)" by (rule stack_top_ok; simp)+
  have p: "page_list [block_start 0 + 0x1000, block_start 0 + 0x2000, block_start 0 + 0x3000]"
    using block_pages_list(2) [of 0] unfolding block_range by simp
  have "\<exists>k'. map_stack_pages bump_mm kernel_rw [block_start 0 + 0x1000, block_start 0 + 0x2000, block_start 0 + 0x3000] (Map.empty, 0) = Some (None, k')"
    using p by (simp add: bump_mm_def)
  then obtain k' where "map_stack_pages bump_mm kernel_rw
      (step_range (block_start 0 + 0x1000) (block_start 0 + KSTACK_SIZE * 0x1000) 0x1000) (Map.empty, 0) = Some (None, k')"
    unfolding block_range by blast
  then show ?thesis by (cases k') (simp add: get_stack_def slab_new_def t st [simplified] Let_def del: map_stack_pages.simps)
qed

theorem get_stack_correct_witness: "\<exists>r slab' k'. get_stack bump_mm slab_new (Map.empty, 0) = Some (r, slab', k')"
  using get_stack_correct [OF bump_mm_spec, of slab_new "(Map.empty, 0)"] by blast

theorem returned_stack_unusable_witness:
  "\<exists>k' e k''. get_stack bump_mm slab_new k' = Some (Inl e, slab_new, k'')"
proof -
  from get_stack_empty obtain k' where g: "get_stack bump_mm slab_new (Map.empty, 0) = Some (Inr (stack_top 0), \<lparr>block_bitmap = 1\<rparr>, k')" by blast
  have "return_stack \<lparr>block_bitmap = 1\<rparr> (stack_top 0) = Some slab_new"
    by (subst return_stack_ok) (simp_all add: used_blocks_def slab_new_def)
  from returned_stack_unusable [OF bump_mm_spec g this] show ?thesis by blast
qed

end
