(* ===== verification/Scheduler.thy ===== *)
theory Scheduler
  imports KernelSlab
begin

text \<open>
  \<^verbatim>\<open>kernel/src/tasks/scheduler.rs\<close>: tasks, their creation, stack growth and termination, and the
  round-robin switch.  The registers that the code reads and writes (\<^verbatim>\<open>CR3\<close>, the segment selectors, the
  kernel stack of the TSS and of the system call entry) are fields of the state.  Page tables and
  physical frames belong to the \<^verbatim>\<open>x86_64\<close> crate and the frame allocator; they are the parameter \<open>mach\<close>,
  whose operations act on the abstract memory \<open>'k\<close>.
\<close>

section \<open>Data\<close>

record task_registers =
  tr_r15 :: u64
  tr_r14 :: u64
  tr_r13 :: u64
  tr_r12 :: u64
  tr_r11 :: u64
  tr_r10 :: u64
  tr_r9 :: u64
  tr_r8 :: u64
  tr_rbp :: u64
  tr_rdi :: u64
  tr_rsi :: u64
  tr_rdx :: u64
  tr_rcx :: u64
  tr_rbx :: u64
  tr_rax :: u64
  tr_interrupt_rip :: u64
  tr_interrupt_cs :: u64
  tr_interrupt_rflags :: u64
  tr_interrupt_rsp :: u64
  tr_interrupt_ss :: u64

datatype wait_reason = Interrupt u8

datatype task_state = Ready | Running | Terminated | Waiting wait_reason

datatype task_type = Kernel "addr option" | User user_info

record pcb =
  pcb_task_type :: task_type
  pcb_regs :: task_registers
  pcb_state :: task_state
  pcb_cr3 :: addr

record 'k kernel =
  kn_task_list :: "pcb list"
  kn_stacks :: kernel_slab
  kn_mem :: 'k
  kn_cr3 :: addr
  kn_cs :: u16
  kn_ss :: u16
  kn_rflags :: u64
  kn_tss_rsp0 :: addr
  kn_syscall_stack :: addr

text \<open>An entry of a page table; \<^verbatim>\<open>frame()\<close> fails on an absent entry and on one that maps a huge page.\<close>

record pt_entry =
  pe_present :: bool
  pe_huge :: bool
  pe_frame :: addr

definition unused_entry :: pt_entry where
  "unused_entry = \<lparr>pe_present = False, pe_huge = False, pe_frame = 0\<rparr>"

definition entry_frame :: "pt_entry \<Rightarrow> addr rust" where
  "entry_frame e = (if pe_present e \<and> \<not> pe_huge e then Some (pe_frame e) else None)"

text \<open>
  \<^verbatim>\<open>ma_user f\<close> is the mapper over the table in frame \<open>f\<close>; \<^verbatim>\<open>ma_entry\<close> and \<^verbatim>\<open>ma_set_table\<close> read one entry and
  write all entries of the table in a frame, \<^verbatim>\<open>ma_write\<close> copies bytes to the start of a frame.
\<close>

record 'k machine =
  ma_kernel :: "'k mm"
  ma_user :: "addr \<Rightarrow> 'k mm"
  ma_entry :: "'k \<Rightarrow> addr \<Rightarrow> nat \<Rightarrow> pt_entry"
  ma_set_table :: "'k \<Rightarrow> addr \<Rightarrow> (nat \<Rightarrow> pt_entry) \<Rightarrow> 'k"
  ma_write :: "'k \<Rightarrow> addr \<Rightarrow> u8 list \<Rightarrow> 'k"
  ma_hhdm_offset :: nat

definition USER_CODE_SEGMENT_INDEX :: u16 where
  "USER_CODE_SEGMENT_INDEX = 3"

definition USER_DATA_SEGMENT_INDEX :: u16 where
  "USER_DATA_SEGMENT_INDEX = 4"

section \<open>Creating kernel tasks\<close>

definition zero_regs :: task_registers where
  "zero_regs = \<lparr>tr_r15 = 0, tr_r14 = 0, tr_r13 = 0, tr_r12 = 0, tr_r11 = 0, tr_r10 = 0, tr_r9 = 0, tr_r8 = 0,
     tr_rbp = 0, tr_rdi = 0, tr_rsi = 0, tr_rdx = 0, tr_rcx = 0, tr_rbx = 0, tr_rax = 0,
     tr_interrupt_rip = 0, tr_interrupt_cs = 0, tr_interrupt_rflags = 0, tr_interrupt_rsp = 0, tr_interrupt_ss = 0\<rparr>"

definition kinit_multitasking :: "'k kernel \<Rightarrow> 'k kernel" where
  "kinit_multitasking s =
     s\<lparr>kn_task_list := \<lparr>pcb_task_type = Kernel None,
         pcb_regs = zero_regs\<lparr>tr_interrupt_cs := ucast (kn_cs s), tr_interrupt_rflags := kn_rflags s,
           tr_interrupt_ss := ucast (kn_ss s)\<rparr>,
         pcb_state = Running, pcb_cr3 = kn_cr3 s\<rparr> # kn_task_list s\<rparr>"

definition kcreate_task :: "'k machine \<Rightarrow> addr \<Rightarrow> 'k kernel \<Rightarrow> 'k kernel rust" where
  "kcreate_task mach task_ptr s = do {
     (r, slab, k) \<leftarrow> get_stack (ma_kernel mach) (kn_stacks s) (kn_mem s);
     case r of
       Inl e \<Rightarrow> None
     | Inr stack_start \<Rightarrow>
         Some (s\<lparr>kn_stacks := slab, kn_mem := k,
           kn_task_list := kn_task_list s @ [\<lparr>pcb_task_type = Kernel (Some stack_start),
             pcb_regs = zero_regs\<lparr>tr_interrupt_rip := of_nat task_ptr, tr_interrupt_cs := ucast (kn_cs s),
               tr_interrupt_rflags := kn_rflags s OR 0x200, tr_interrupt_rsp := of_nat stack_start,
               tr_interrupt_ss := ucast (kn_ss s)\<rparr>,
             pcb_state = Ready, pcb_cr3 = kn_cr3 s\<rparr>]\<rparr>)
   }"

section \<open>Page tables of user tasks\<close>

definition frame_to_virt :: "'k machine \<Rightarrow> addr \<Rightarrow> addr rust" where
  "frame_to_virt mach f = do { a \<leftarrow> usize_add f (ma_hhdm_offset mach); virt_addr_new a }"

definition get_user_page_table_from_cr3 :: "'k machine \<Rightarrow> addr \<Rightarrow> 'k mm rust" where
  "get_user_page_table_from_cr3 mach cr3 = do {
     l4_virt \<leftarrow> frame_to_virt mach cr3;
     off \<leftarrow> virt_addr_new (ma_hhdm_offset mach);
     Some (ma_user mach cr3)
   }"

fun deallocate_user_page_table_recursive :: "'k machine \<Rightarrow> addr \<Rightarrow> nat \<Rightarrow> 'k \<Rightarrow> 'k rust"
and deallocate_entries :: "'k machine \<Rightarrow> addr \<Rightarrow> nat \<Rightarrow> nat list \<Rightarrow> 'k \<Rightarrow> 'k rust" where
  "deallocate_user_page_table_recursive mach table_frame level k = do {
     table_virt \<leftarrow> frame_to_virt mach table_frame;
     deallocate_entries mach table_frame level [0 ..< 256] k
   }"
| "deallocate_entries mach table_frame level [] k = Some k"
| "deallocate_entries mach table_frame level (i # is) k =
     (let entry = ma_entry mach k table_frame i in
      if pe_present entry then do {
        child_frame \<leftarrow> entry_frame entry;
        k \<leftarrow> (if level > 1 then deallocate_user_page_table_recursive mach child_frame (level - 1) k else Some k);
        k \<leftarrow> mm_deallocate_frame (ma_kernel mach) k child_frame;
        deallocate_entries mach table_frame level is k
      }
      else deallocate_entries mach table_frame level is k)"

declare deallocate_user_page_table_recursive.simps [simp del]

definition create_user_page_table :: "'k machine \<Rightarrow> 'k kernel \<Rightarrow> (addr \<times> 'k kernel) rust" where
  "create_user_page_table mach s = do {
     (new_l4_frame, k) \<leftarrow> mm_allocate_frame (ma_kernel mach) (kn_mem s);
     new_l4_frame \<leftarrow> new_l4_frame;
     new_l4_virt \<leftarrow> frame_to_virt mach new_l4_frame;
     let k = ma_set_table mach k new_l4_frame (\<lambda>_. unused_entry);
     current_l4_virt \<leftarrow> frame_to_virt mach (kn_cr3 s);
     let k = ma_set_table mach k new_l4_frame (\<lambda>i. if 256 \<le> i \<and> i < 512 then ma_entry mach k (kn_cr3 s) i
       else ma_entry mach k new_l4_frame i);
     Some (new_l4_frame, s\<lparr>kn_mem := k\<rparr>)
   }"

datatype create_error = EntryPointOutOfRange | NoFrameForCode | CodeMapError map_error | StackError stack_alloc_error

fun load_code ::
  "'k machine \<Rightarrow> 'k mm \<Rightarrow> u8 list \<Rightarrow> addr list \<Rightarrow> nat \<Rightarrow> 'k \<Rightarrow> (create_error option \<times> 'k) rust" where
  "load_code mach pt code_data [] code_offset k = Some (None, k)"
| "load_code mach pt code_data (page # pages) code_offset k = do {
     (frame, k) \<leftarrow> mm_allocate_frame (ma_kernel mach) k;
     case frame of
       None \<Rightarrow> Some (Some NoFrameForCode, k)
     | Some frame \<Rightarrow> do {
         (r, k) \<leftarrow> mm_map_to pt k page frame user_rw;
         case r of
           Some e \<Rightarrow> Some (Some (CodeMapError e), k)
         | None \<Rightarrow> do {
             frame_virt \<leftarrow> frame_to_virt mach frame;
             left \<leftarrow> usize_sub (length code_data) code_offset;
             let bytes_to_copy = min 4096 left;
             let k = ma_write mach k frame (take bytes_to_copy (drop code_offset code_data));
             load_code mach pt code_data pages (code_offset + bytes_to_copy) k
           }
       }
   }"

definition page_range_inclusive :: "addr \<Rightarrow> addr \<Rightarrow> addr list" where
  "page_range_inclusive a b = (if a \<le> b then map (\<lambda>i. a + i * 4096) [0 ..< (b - a) div 4096 + 1] else [])"

definition user_regs :: "'k kernel \<Rightarrow> addr \<Rightarrow> addr \<Rightarrow> task_registers" where
  "user_regs s entry_point stack_start = zero_regs\<lparr>tr_interrupt_rip := of_nat entry_point,
     tr_interrupt_cs := ucast (push_bit 3 USER_CODE_SEGMENT_INDEX OR 3),
     tr_interrupt_rflags := kn_rflags s OR 0x200, tr_interrupt_rsp := of_nat stack_start,
     tr_interrupt_ss := ucast (push_bit 3 USER_DATA_SEGMENT_INDEX OR 3)\<rparr>"

text \<open>\<^verbatim>\<open>ucreate_task\<close> after the code is loaded: the two stacks, and the new entry of the task list.\<close>

definition spawn_user_task ::
  "'k machine \<Rightarrow> addr \<Rightarrow> addr \<Rightarrow> 'k mm \<Rightarrow> 'k kernel \<Rightarrow> (create_error option \<times> 'k kernel) rust" where
  "spawn_user_task mach entry_point user_cr3 user_page_table s = do {
     (r, k) \<leftarrow> get_user_stack user_page_table (kn_mem s);
     case r of
       Inl e \<Rightarrow> do {
         k \<leftarrow> mm_deallocate_frame (ma_kernel mach) k user_cr3;
         Some (Some (StackError e), s\<lparr>kn_mem := k\<rparr>)
       }
     | Inr alloc \<Rightarrow> do {
         (r, slab, k) \<leftarrow> get_stack (ma_kernel mach) (kn_stacks s) k;
         case r of
           Inl e \<Rightarrow> do {
             pt \<leftarrow> get_user_page_table_from_cr3 mach user_cr3;
             k \<leftarrow> return_user_stack pt \<lparr>ui_stack_start = ua_stack_start alloc, ui_stack_end = ua_stack_end alloc,
               ui_stack_size = INITIAL_STACK_PAGES, ui_kernel_stack = 0\<rparr> k;
             k \<leftarrow> mm_deallocate_frame (ma_kernel mach) k user_cr3;
             Some (Some (StackError e), s\<lparr>kn_stacks := slab, kn_mem := k\<rparr>)
           }
         | Inr kernel_stack \<Rightarrow>
             Some (None, s\<lparr>kn_stacks := slab, kn_mem := k,
               kn_task_list := kn_task_list s @ [\<lparr>pcb_task_type = User \<lparr>ui_stack_start = ua_stack_start alloc,
                   ui_stack_end = ua_stack_end alloc, ui_stack_size = INITIAL_STACK_PAGES, ui_kernel_stack = kernel_stack\<rparr>,
                 pcb_regs = user_regs s entry_point (ua_stack_start alloc), pcb_state = Ready, pcb_cr3 = user_cr3\<rparr>]\<rparr>)
       }
   }"

definition ucreate_task ::
  "'k machine \<Rightarrow> addr \<Rightarrow> u8 list option \<Rightarrow> 'k kernel \<Rightarrow> (create_error option \<times> 'k kernel) rust" where
  "ucreate_task mach entry_point code s =
     (if entry_point \<ge> 0x0000800000000000 then Some (Some EntryPointOutOfRange, s)
      else do {
        (user_cr3, s) \<leftarrow> create_user_page_table mach s;
        user_page_table \<leftarrow> get_user_page_table_from_cr3 mach user_cr3;
        (r, k) \<leftarrow> (case code of
            None \<Rightarrow> Some (None, kn_mem s)
          | Some code_data \<Rightarrow> do {
              last \<leftarrow> usize_sub (length code_data) 1;
              code_end \<leftarrow> usize_add entry_point last;
              code_end \<leftarrow> virt_addr_new code_end;
              load_code mach user_page_table code_data
                (page_range_inclusive (align_down entry_point 4096) (align_down code_end 4096)) 0 (kn_mem s)
            });
        case r of
          Some e \<Rightarrow> Some (Some e, s\<lparr>kn_mem := k\<rparr>)
        | None \<Rightarrow> spawn_user_task mach entry_point user_cr3 user_page_table (s\<lparr>kn_mem := k\<rparr>)
      })"

section \<open>Stack growth\<close>

datatype stack_growth_error = StackOverflow | StackUnderflow | NotUserTask | Other

definition get_current_task_stack_info :: "'k kernel \<Rightarrow> (addr \<times> addr \<times> addr) option" where
  "get_current_task_stack_info s = (case kn_task_list s of
     [] \<Rightarrow> None
   | task # _ \<Rightarrow> (case pcb_task_type task of
       User user_info \<Rightarrow> Some (ui_stack_end user_info, ui_stack_start user_info, pcb_cr3 task)
     | Kernel _ \<Rightarrow> None))"

definition bump_stack_size :: "pcb list \<Rightarrow> pcb list rust" where
  "bump_stack_size ts = (case ts of
     [] \<Rightarrow> Some []
   | task # rest \<Rightarrow> (case pcb_task_type task of
       User user_info \<Rightarrow> do {
         n \<leftarrow> usize_add (ui_stack_size user_info) 1;
         Some (task\<lparr>pcb_task_type := User (user_info\<lparr>ui_stack_size := n\<rparr>)\<rparr> # rest)
       }
     | Kernel _ \<Rightarrow> Some (task # rest)))"

definition try_grow_user_stack ::
  "'k machine \<Rightarrow> addr \<Rightarrow> 'k kernel \<Rightarrow> (stack_growth_error option \<times> 'k kernel) rust" where
  "try_grow_user_stack mach fault_addr s = (case get_current_task_stack_info s of
     None \<Rightarrow> Some (Some NotUserTask, s)
   | Some (stack_bottom, stack_limit, user_cr3) \<Rightarrow>
       if fault_addr < stack_bottom then Some (Some StackOverflow, s)
       else if fault_addr \<ge> stack_limit then Some (Some StackUnderflow, s)
       else do {
         let page = align_down fault_addr 4096;
         user_page_table \<leftarrow> get_user_page_table_from_cr3 mach user_cr3;
         (frame, k) \<leftarrow> mm_allocate_frame (ma_kernel mach) (kn_mem s);
         case frame of
           None \<Rightarrow> Some (Some Other, s\<lparr>kn_mem := k\<rparr>)
         | Some frame \<Rightarrow> do {
             (r, k) \<leftarrow> mm_map_to user_page_table k page frame user_rw;
             case r of
               None \<Rightarrow> do {
                 ts \<leftarrow> bump_stack_size (kn_task_list s);
                 Some (None, s\<lparr>kn_mem := k, kn_task_list := ts\<rparr>)
               }
             | Some e \<Rightarrow> do {
                 k \<leftarrow> mm_deallocate_frame (ma_kernel mach) k frame;
                 Some (Some Other, s\<lparr>kn_mem := k\<rparr>)
               }
           }
       })"

text \<open>\<^verbatim>\<open>page_fault_handler\<close> of \<^verbatim>\<open>interrupts/idt.rs\<close>: only user-mode faults may grow the stack; all others panic.\<close>

definition page_fault_handler :: "'k machine \<Rightarrow> bool \<Rightarrow> addr \<Rightarrow> 'k kernel \<Rightarrow> 'k kernel rust" where
  "page_fault_handler mach user_mode fault_addr s =
     (if user_mode then do {
        (r, s) \<leftarrow> try_grow_user_stack mach fault_addr s;
        case r of None \<Rightarrow> Some s | Some _ \<Rightarrow> None
      } else None)"

section \<open>Switching\<close>

definition set_front_state :: "task_state \<Rightarrow> 'k kernel \<Rightarrow> 'k kernel rust" where
  "set_front_state st s = (case kn_task_list s of
     [] \<Rightarrow> None
   | task # rest \<Rightarrow> Some (s\<lparr>kn_task_list := task\<lparr>pcb_state := st\<rparr> # rest\<rparr>))"

definition wake_tasks :: "u8 \<Rightarrow> 'k kernel \<Rightarrow> 'k kernel" where
  "wake_tasks interrupt s = s\<lparr>kn_task_list :=
     map (\<lambda>x. if pcb_state x = Waiting (Interrupt interrupt) then x\<lparr>pcb_state := Ready\<rparr> else x) (kn_task_list s)\<rparr>"

definition release_task :: "'k machine \<Rightarrow> pcb \<Rightarrow> 'k kernel \<Rightarrow> 'k kernel rust" where
  "release_task mach task s = (case pcb_task_type task of
     Kernel (Some stack_start) \<Rightarrow> do {
       slab \<leftarrow> return_stack (kn_stacks s) stack_start;
       Some (s\<lparr>kn_stacks := slab\<rparr>)
     }
   | User user_info \<Rightarrow> do {
       slab \<leftarrow> return_stack (kn_stacks s) (ui_kernel_stack user_info);
       k \<leftarrow> deallocate_user_page_table_recursive mach (pcb_cr3 task) 4 (kn_mem s);
       k \<leftarrow> mm_deallocate_frame (ma_kernel mach) k (pcb_cr3 task);
       Some (s\<lparr>kn_stacks := slab, kn_mem := k\<rparr>)
     }
   | Kernel None \<Rightarrow> Some s)"

definition retire_current :: "'k machine \<Rightarrow> task_registers \<Rightarrow> pcb \<Rightarrow> 'k kernel \<Rightarrow> 'k kernel rust" where
  "retire_current mach context current_task s =
     (if pcb_state current_task = Terminated then release_task mach current_task s
      else case pcb_state current_task of
        Waiting (Interrupt _) \<Rightarrow>
          Some (s\<lparr>kn_task_list := kn_task_list s @ [current_task\<lparr>pcb_regs := context\<rparr>]\<rparr>)
      | _ \<Rightarrow> Some (s\<lparr>kn_task_list := kn_task_list s @ [current_task\<lparr>pcb_state := Ready, pcb_regs := context\<rparr>]\<rparr>))"

definition dispatch_front :: "'k kernel \<Rightarrow> (task_registers \<times> 'k kernel) rust" where
  "dispatch_front s = (case kn_task_list s of
     [] \<Rightarrow> None
   | next_task # rest \<Rightarrow> (
       let next_task = next_task\<lparr>pcb_state := Running\<rparr>;
         s = s\<lparr>kn_task_list := next_task # rest\<rparr>;
         s = (case pcb_task_type next_task of
           User user_info \<Rightarrow> s\<lparr>kn_tss_rsp0 := ui_kernel_stack user_info, kn_syscall_stack := ui_kernel_stack user_info\<rparr>
         | Kernel _ \<Rightarrow> s);
         s = (if kn_cr3 s \<noteq> pcb_cr3 next_task then s\<lparr>kn_cr3 := pcb_cr3 next_task\<rparr> else s)
       in Some (pcb_regs next_task, s)))"

text \<open>The registers on the stack of the interrupted task are the argument, those to be restored the result.\<close>

definition schedule_inner :: "'k machine \<Rightarrow> task_registers \<Rightarrow> 'k kernel \<Rightarrow> (task_registers \<times> 'k kernel) rust" where
  "schedule_inner mach context s = (case kn_task_list s of
     [] \<Rightarrow> None
   | current_task # rest \<Rightarrow> do {
       s \<leftarrow> retire_current mach context current_task (s\<lparr>kn_task_list := rest\<rparr>);
       dispatch_front s
     })"

text \<open>\<^verbatim>\<open>kyield_task\<close> and \<^verbatim>\<open>exit_task\<close> mark the front task and raise the timer interrupt.\<close>

definition kyield_task :: "'k machine \<Rightarrow> u8 \<Rightarrow> task_registers \<Rightarrow> 'k kernel \<Rightarrow> (task_registers \<times> 'k kernel) rust" where
  "kyield_task mach interrupt context s = do {
     s \<leftarrow> set_front_state (Waiting (Interrupt interrupt)) s;
     schedule_inner mach context s
   }"

definition exit_task :: "'k machine \<Rightarrow> task_registers \<Rightarrow> 'k kernel \<Rightarrow> (task_registers \<times> 'k kernel) rust" where
  "exit_task mach context s = do {
     s \<leftarrow> set_front_state Terminated s;
     schedule_inner mach context s
   }"

section \<open>The interrupt entry\<close>

text \<open>
  The stack as the list of its words from the stack pointer upwards.  The processor pushes \<^verbatim>\<open>ss\<close>, \<^verbatim>\<open>rsp\<close>,
  \<^verbatim>\<open>rflags\<close>, \<^verbatim>\<open>cs\<close> and \<^verbatim>\<open>rip\<close>; then the naked function \<^verbatim>\<open>schedule\<close> pushes the general registers.
\<close>

definition push_all :: "u64 list \<Rightarrow> u64 list \<Rightarrow> u64 list" where
  "push_all ws st = fold (\<lambda>w st. w # st) ws st"

definition schedule_entry :: "task_registers \<Rightarrow> u64 list \<Rightarrow> u64 list" where
  "schedule_entry r st = push_all
     [tr_rax r, tr_rbx r, tr_rcx r, tr_rdx r, tr_rsi r, tr_rdi r, tr_rbp r, tr_r8 r, tr_r9 r, tr_r10 r, tr_r11 r,
      tr_r12 r, tr_r13 r, tr_r14 r, tr_r15 r]
     (push_all [tr_interrupt_ss r, tr_interrupt_rsp r, tr_interrupt_rflags r, tr_interrupt_cs r, tr_interrupt_rip r] st)"

text \<open>\<^verbatim>\<open>*context\<close> as a \<^verbatim>\<open>repr(C)\<close> structure at the stack pointer.\<close>

definition read_frame :: "u64 list \<Rightarrow> task_registers" where
  "read_frame st = \<lparr>tr_r15 = st ! 0, tr_r14 = st ! 1, tr_r13 = st ! 2, tr_r12 = st ! 3, tr_r11 = st ! 4,
     tr_r10 = st ! 5, tr_r9 = st ! 6, tr_r8 = st ! 7, tr_rbp = st ! 8, tr_rdi = st ! 9, tr_rsi = st ! 10,
     tr_rdx = st ! 11, tr_rcx = st ! 12, tr_rbx = st ! 13, tr_rax = st ! 14,
     tr_interrupt_rip = st ! 15, tr_interrupt_cs = st ! 16, tr_interrupt_rflags = st ! 17,
     tr_interrupt_rsp = st ! 18, tr_interrupt_ss = st ! 19\<rparr>"

definition write_frame :: "task_registers \<Rightarrow> u64 list \<Rightarrow> u64 list" where
  "write_frame r st =
     [tr_r15 r, tr_r14 r, tr_r13 r, tr_r12 r, tr_r11 r, tr_r10 r, tr_r9 r, tr_r8 r, tr_rbp r, tr_rdi r, tr_rsi r,
      tr_rdx r, tr_rcx r, tr_rbx r, tr_rax r, tr_interrupt_rip r, tr_interrupt_cs r, tr_interrupt_rflags r,
      tr_interrupt_rsp r, tr_interrupt_ss r] @ drop 20 st"

text \<open>Popping \<^verbatim>\<open>r15\<close> to \<^verbatim>\<open>rax\<close>, then \<^verbatim>\<open>iretq\<close>.\<close>

definition schedule_exit :: "u64 list \<Rightarrow> (task_registers \<times> u64 list) option" where
  "schedule_exit st = (case st of
     r15 # r14 # r13 # r12 # r11 # r10 # r9 # r8 # rbp # rdi # rsi # rdx # rcx # rbx # rax #
       rip # cs # rflags # rsp # ss # st \<Rightarrow>
       Some (\<lparr>tr_r15 = r15, tr_r14 = r14, tr_r13 = r13, tr_r12 = r12, tr_r11 = r11, tr_r10 = r10, tr_r9 = r9,
         tr_r8 = r8, tr_rbp = rbp, tr_rdi = rdi, tr_rsi = rsi, tr_rdx = rdx, tr_rcx = rcx, tr_rbx = rbx, tr_rax = rax,
         tr_interrupt_rip = rip, tr_interrupt_cs = cs, tr_interrupt_rflags = rflags, tr_interrupt_rsp = rsp,
         tr_interrupt_ss = ss\<rparr>, st)
   | _ \<Rightarrow> None)"

definition schedule ::
  "'k machine \<Rightarrow> task_registers \<Rightarrow> u64 list \<Rightarrow> 'k kernel \<Rightarrow> ((task_registers \<times> u64 list) \<times> 'k kernel) rust" where
  "schedule mach regs st s = do {
     let st = schedule_entry regs st;
     (context, s) \<leftarrow> schedule_inner mach (read_frame st) s;
     r \<leftarrow> schedule_exit (write_frame context st);
     Some (r, s)
   }"

lemma schedule_frame:
  "read_frame (schedule_entry r st) = r"
  "schedule_exit (write_frame c (schedule_entry r st)) = Some (c, st)"
  by (simp_all add: schedule_entry_def push_all_def read_frame_def write_frame_def schedule_exit_def)

text \<open>
  C13: the interrupt entry is transparent: the registers it saves are those of the interrupted task, the
  ones it restores are those that \<^verbatim>\<open>schedule_inner\<close> chose, and the stack is left as it was.
\<close>

theorem schedule_transparent:
  "schedule mach regs st s = map_option (\<lambda>(context, s'). ((context, st), s')) (schedule_inner mach regs s)"
  by (cases "schedule_inner mach regs s") (auto simp: schedule_def Let_def schedule_frame)

section \<open>What one switch does\<close>

definition park :: "task_registers \<Rightarrow> pcb \<Rightarrow> pcb" where
  "park context t = (case pcb_state t of
     Waiting _ \<Rightarrow> t\<lparr>pcb_regs := context\<rparr> | _ \<Rightarrow> t\<lparr>pcb_state := Ready, pcb_regs := context\<rparr>)"

definition run_front :: "pcb list \<Rightarrow> pcb list" where
  "run_front ts = (case ts of [] \<Rightarrow> [] | t # rest \<Rightarrow> t\<lparr>pcb_state := Running\<rparr> # rest)"

lemma park_simps [simp]:
  "pcb_regs (park c t) = c" "pcb_cr3 (park c t) = pcb_cr3 t" "pcb_task_type (park c t) = pcb_task_type t"
  "pcb_state (park c t) \<noteq> Running"
  by (auto simp: park_def split: task_state.splits)

lemma dispatch_front_ok:
  assumes "kn_task_list s = t # rest"
  shows "\<exists>s'. dispatch_front s = Some (pcb_regs t, s') \<and> kn_task_list s' = t\<lparr>pcb_state := Running\<rparr> # rest \<and>
    kn_stacks s' = kn_stacks s \<and> kn_mem s' = kn_mem s \<and> kn_cr3 s' = pcb_cr3 t \<and>
    (\<forall>u. pcb_task_type t = User u \<longrightarrow> kn_tss_rsp0 s' = ui_kernel_stack u \<and> kn_syscall_stack s' = ui_kernel_stack u)"
  using assms by (cases "pcb_task_type t") (auto simp: dispatch_front_def Let_def)

lemma retire_live:
  "pcb_state t \<noteq> Terminated \<Longrightarrow>
    retire_current mach c t s = Some (s\<lparr>kn_task_list := kn_task_list s @ [park c t]\<rparr>)"
  by (cases "pcb_state t") (auto simp: retire_current_def park_def split: wait_reason.splits)

lemma schedule_inner_live:
  assumes ts: "kn_task_list s = t # rest" and "pcb_state t \<noteq> Terminated"
  shows "\<exists>s'. schedule_inner mach c s = Some (pcb_regs (hd (rest @ [park c t])), s') \<and>
    kn_task_list s' = run_front (rest @ [park c t]) \<and> kn_stacks s' = kn_stacks s \<and> kn_mem s' = kn_mem s"
proof -
  let ?s = "s\<lparr>kn_task_list := rest @ [park c t]\<rparr>"
  obtain n ns where n: "rest @ [park c t] = n # ns" by (cases "rest @ [park c t]") auto
  have "schedule_inner mach c s = dispatch_front ?s"
    using assms by (simp add: schedule_inner_def retire_live)
  moreover obtain s' where "dispatch_front ?s = Some (pcb_regs n, s')"
      "kn_task_list s' = n\<lparr>pcb_state := Running\<rparr> # ns" "kn_stacks s' = kn_stacks ?s" "kn_mem s' = kn_mem ?s"
    using dispatch_front_ok [of ?s n ns] n by auto
  ultimately show ?thesis by (simp add: n run_front_def)
qed

section \<open>Round robin\<close>

fun switches :: "'k machine \<Rightarrow> task_registers list \<Rightarrow> 'k kernel \<Rightarrow> (task_registers list \<times> 'k kernel) rust" where
  "switches mach [] s = Some ([], s)"
| "switches mach (c # cs) s = do {
     (r, s) \<leftarrow> schedule_inner mach c s;
     (rs, s) \<leftarrow> switches mach cs s;
     Some (r # rs, s)
   }"

text \<open>A task without its state, and the same task with other registers.\<close>

type_synonym task_view = "task_type \<times> task_registers \<times> addr"

definition view :: "pcb \<Rightarrow> task_view" where
  "view t = (pcb_task_type t, pcb_regs t, pcb_cr3 t)"

definition view_regs :: "task_view \<Rightarrow> task_registers" where
  "view_regs v = fst (snd v)"

definition with_regs :: "task_registers \<Rightarrow> task_view \<Rightarrow> task_view" where
  "with_regs c v = (fst v, c, snd (snd v))"

definition live :: "'k kernel \<Rightarrow> bool" where
  "live s \<longleftrightarrow> (\<forall>t \<in> set (kn_task_list s). pcb_state t \<noteq> Terminated)"

lemma view_simps [simp]:
  "view (park c t) = with_regs c (view t)" "view (t\<lparr>pcb_state := st\<rparr>) = view t" "view_regs (view t) = pcb_regs t"
  "view_regs (with_regs c v) = c"
  by (simp_all add: view_def with_regs_def view_regs_def)

lemma view_run_front [simp]: "map view (run_front ts) = map view ts"
  by (cases ts) (simp_all add: run_front_def)

lemma switch_view:
  assumes "live s" and "map view (kn_task_list s) = v # vs"
  shows "\<exists>s'. schedule_inner mach c s = Some (view_regs (hd (vs @ [with_regs c v])), s') \<and> live s' \<and>
    map view (kn_task_list s') = vs @ [with_regs c v]"
proof -
  obtain t rest where t: "kn_task_list s = t # rest" "v = view t" "vs = map view rest" using assms(2) by auto
  have nt: "pcb_state t \<noteq> Terminated" "\<forall>x \<in> set rest. pcb_state x \<noteq> Terminated" using assms(1) t(1) by (auto simp: live_def)
  obtain s' where s': "schedule_inner mach c s = Some (pcb_regs (hd (rest @ [park c t])), s')"
      "kn_task_list s' = run_front (rest @ [park c t])"
    using schedule_inner_live [OF t(1) nt(1)] by blast
  have "pcb_state (park c t) \<noteq> Terminated" using nt(1) by (auto simp: park_def split: task_state.splits)
  then have "live s'" using s'(2) nt(2) by (cases rest) (auto simp: live_def run_front_def)
  moreover have "view_regs (hd (vs @ [with_regs c v])) = pcb_regs (hd (rest @ [park c t]))"
    using t(2,3) by (cases rest) simp_all
  ultimately show ?thesis using s' t(2,3) by simp
qed

lemma switches_ok:
  assumes "live s" and "map view (kn_task_list s) = xs @ ys" and "length cs = length xs"
  shows "\<exists>rs s'. switches mach cs s = Some (rs, s') \<and> live s' \<and>
    map view (kn_task_list s') = ys @ map2 with_regs cs xs \<and>
    rs = take (length cs) (tl (map view_regs (xs @ ys @ map2 with_regs cs xs)))"
  using assms
proof (induction cs arbitrary: xs ys s)
  case (Cons c cs)
  then obtain x xs' where xs: "xs = x # xs'" "length cs = length xs'" by (cases xs) auto
  let ?w = "with_regs c x"
  from switch_view [OF Cons.prems(1), of x "xs' @ ys" mach c] Cons.prems(2) xs(1) obtain s1 where
    s1: "schedule_inner mach c s = Some (view_regs (hd (xs' @ ys @ [?w])), s1)" "live s1"
      "map view (kn_task_list s1) = xs' @ ys @ [?w]" by auto
  from Cons.IH [OF s1(2,3) xs(2)] obtain rs s' where
    ih: "switches mach cs s1 = Some (rs, s')" "live s'"
      "map view (kn_task_list s') = (ys @ [?w]) @ map2 with_regs cs xs'"
      "rs = take (length cs) (tl (map view_regs (xs' @ (ys @ [?w]) @ map2 with_regs cs xs')))" by blast
  obtain z zs where z: "xs' @ (ys @ [?w]) @ map2 with_regs cs xs' = z # zs"
    by (cases "xs' @ (ys @ [?w]) @ map2 with_regs cs xs'") auto
  then have h: "hd (xs' @ ys @ [?w]) = z" by (cases xs'; cases ys) auto
  have rs: "rs = take (length cs) (map view_regs zs)" using ih(4) unfolding z by simp
  have tgt: "tl (map view_regs (xs @ ys @ map2 with_regs (c # cs) xs)) = map view_regs (z # zs)"
    unfolding z [symmetric] xs(1) by simp
  have "switches mach (c # cs) s = Some (view_regs z # rs, s')" using s1(1) ih(1) h by simp
  moreover have "map view (kn_task_list s') = ys @ map2 with_regs (c # cs) xs" using ih(3) xs(1) by simp
  ultimately show ?case unfolding tgt using ih(2) rs by simp
qed simp

text \<open>
  C14: with \<open>n\<close> tasks of which none has terminated, \<open>n\<close> switches run every task exactly once in list order,
  each with the registers it was saved with, and the last one resumes the first task with exactly the
  registers at which it was interrupted.
\<close>

theorem round_robin:
  assumes "live s" and "kn_task_list s = t # rest" and "length cs = length (t # rest)"
  shows "\<exists>s'. switches mach cs s = Some (map pcb_regs rest @ [hd cs], s') \<and>
    map view (kn_task_list s') = map2 with_regs cs (map view (kn_task_list s))"
proof -
  have "map view (kn_task_list s) = map view (t # rest) @ []" using assms(2) by simp
  moreover have "length cs = length (map view (t # rest))" using assms(3) by simp
  ultimately obtain rs s' where
    r: "switches mach cs s = Some (rs, s')" "map view (kn_task_list s') = [] @ map2 with_regs cs (map view (t # rest))"
      "rs = take (length cs) (tl (map view_regs (map view (t # rest) @ [] @ map2 with_regs cs (map view (t # rest)))))"
    using switches_ok [OF assms(1), of "map view (t # rest)" "[]" cs mach] by blast
  obtain c cs' where c: "cs = c # cs'" "length cs' = length rest" using assms(3) by (cases cs) auto
  have "rs = map pcb_regs rest @ [hd cs]" using r(3) c by (simp add: comp_def)
  then show ?thesis using r assms(2) by simp
qed

section \<open>The invariant of the scheduler\<close>

text \<open>
  Between two interrupts exactly the front task is running, on its own page table and, if it is a user
  task, with its own kernel stack.
\<close>

definition dispatched :: "'k kernel \<Rightarrow> bool" where
  "dispatched s \<longleftrightarrow> (case kn_task_list s of
     [] \<Rightarrow> False
   | t # rest \<Rightarrow> pcb_state t = Running \<and> (\<forall>x \<in> set rest. pcb_state x \<noteq> Running) \<and> kn_cr3 s = pcb_cr3 t \<and>
       (\<forall>u. pcb_task_type t = User u \<longrightarrow> kn_tss_rsp0 s = ui_kernel_stack u \<and> kn_syscall_stack s = ui_kernel_stack u))"

text \<open>The kernel stacks that tasks own are distinct blocks in use.\<close>

definition kstack :: "pcb \<Rightarrow> addr option" where
  "kstack t = (case pcb_task_type t of Kernel a \<Rightarrow> a | User u \<Rightarrow> Some (ui_kernel_stack u))"

definition kstacks :: "pcb list \<Rightarrow> addr list" where
  "kstacks ts = List.map_filter kstack ts"

definition stacks_owned :: "'k kernel \<Rightarrow> bool" where
  "stacks_owned s \<longleftrightarrow> distinct (kstacks (kn_task_list s)) \<and>
     (\<forall>a \<in> set (kstacks (kn_task_list s)). \<exists>i < 128. i \<in> used_blocks (kn_stacks s) \<and> a = stack_top i)"

inductive kernel_step :: "'k machine \<Rightarrow> 'k kernel \<Rightarrow> 'k kernel \<Rightarrow> bool" for mach where
  tick: "schedule_inner mach c s = Some (r, s') \<Longrightarrow> kernel_step mach s s'"
| yield: "kyield_task mach i c s = Some (r, s') \<Longrightarrow> kernel_step mach s s'"
| exit: "exit_task mach c s = Some (r, s') \<Longrightarrow> kernel_step mach s s'"
| wake: "kernel_step mach s (wake_tasks i s)"
| kcreate: "kcreate_task mach p s = Some s' \<Longrightarrow> kernel_step mach s s'"
| ucreate: "ucreate_task mach p code s = Some (r, s') \<Longrightarrow> kernel_step mach s s'"
| fault: "page_fault_handler mach u a s = Some s' \<Longrightarrow> kernel_step mach s s'"

inductive_cases kernel_stepE: "kernel_step mach s s'"

definition boot_tasks :: "'k kernel \<Rightarrow> bool" where
  "boot_tasks s \<longleftrightarrow> (\<forall>t \<in> set (kn_task_list s). pcb_state t = Ready) \<and> stacks_owned s"

lemma kstacks_simps [simp]:
  "kstacks [] = []" "kstacks (t # ts) = (case kstack t of None \<Rightarrow> kstacks ts | Some a \<Rightarrow> a # kstacks ts)"
  "kstacks (xs @ ys) = kstacks xs @ kstacks ys"
  by (simp_all add: kstacks_def map_filter_def split: option.split)

lemma kstack_simps [simp]: "kstack (park c t) = kstack t" "kstack (t\<lparr>pcb_state := st\<rparr>) = kstack t"
  by (simp_all add: kstack_def)

lemma kstacks_cong: "map kstack xs = map kstack ys \<Longrightarrow> kstacks xs = kstacks ys"
proof -
  have "kstacks ts = List.map_filter id (map kstack ts)" for ts
    by (simp add: kstacks_def List.map_filter_def filter_map comp_def)
  then show "map kstack xs = map kstack ys \<Longrightarrow> kstacks xs = kstacks ys" by simp
qed

lemma stack_top_inj [simp]: "stack_top i = stack_top j \<longleftrightarrow> i = j"
  by (simp add: stack_top_def slab_consts)

lemma dispatch_dispatched:
  assumes "dispatch_front s = Some (r, s')" and "\<forall>x \<in> set (tl (kn_task_list s)). pcb_state x \<noteq> Running"
  shows "dispatched s'" and "kstacks (kn_task_list s') = kstacks (kn_task_list s)" and "kn_stacks s' = kn_stacks s"
proof -
  obtain t rest where t: "kn_task_list s = t # rest" using assms(1) by (cases "kn_task_list s") (auto simp: dispatch_front_def)
  from dispatch_front_ok [OF t] assms show "dispatched s'" "kstacks (kn_task_list s') = kstacks (kn_task_list s)"
    "kn_stacks s' = kn_stacks s" using t by (auto simp: dispatched_def)
qed

lemma release_list: "release_task mach t s = Some s' \<Longrightarrow> kn_task_list s' = kn_task_list s"
  by (auto simp: release_task_def bind_eq_Some_conv split: task_type.splits option.splits)

lemma release_stacks:
  assumes "release_task mach t s = Some s'"
  shows "kstack t = None \<Longrightarrow> kn_stacks s' = kn_stacks s"
    and "kstack t = Some a \<Longrightarrow> return_stack (kn_stacks s) a = Some (kn_stacks s')"
  using assms by (auto simp: release_task_def kstack_def bind_eq_Some_conv split: task_type.splits option.splits)

lemma schedule_inv:
  assumes run: "schedule_inner mach c s = Some (r, s')" and own: "stacks_owned s"
    and nr: "\<forall>x \<in> set (tl (kn_task_list s)). pcb_state x \<noteq> Running"
  shows "dispatched s' \<and> stacks_owned s'"
proof -
  obtain t rest where t: "kn_task_list s = t # rest" using run by (cases "kn_task_list s") (auto simp: schedule_inner_def)
  obtain s1 where s1: "retire_current mach c t (s\<lparr>kn_task_list := rest\<rparr>) = Some s1" "dispatch_front s1 = Some (r, s')"
    using run t by (auto simp: schedule_inner_def bind_eq_Some_conv)
  show ?thesis
  proof (cases "pcb_state t = Terminated")
    case False
    then have s1': "s1 = s\<lparr>kn_task_list := rest @ [park c t]\<rparr>" using s1(1) by (simp add: retire_live)
    have "\<forall>x \<in> set (tl (rest @ [park c t])). pcb_state x \<noteq> Running" using nr t by (cases rest) auto
    then have d: "dispatched s'" "kstacks (kn_task_list s') = kstacks (rest @ [park c t])" "kn_stacks s' = kn_stacks s"
      using dispatch_dispatched [OF s1(2)] s1' by simp_all
    have "distinct (kstacks (rest @ [park c t]))" "set (kstacks (rest @ [park c t])) = set (kstacks (kn_task_list s))"
      using own t by (auto simp: stacks_owned_def split: option.splits)
    then show ?thesis using d own by (simp add: stacks_owned_def)
  next
    case True
    then have rel: "release_task mach t (s\<lparr>kn_task_list := rest\<rparr>) = Some s1" using s1(1) by (simp add: retire_current_def)
    have l1: "kn_task_list s1 = rest" using release_list [OF rel] by simp
    then have "\<forall>x \<in> set (tl (kn_task_list s1)). pcb_state x \<noteq> Running" using nr t by (cases rest) auto
    note d = dispatch_dispatched [OF s1(2) this, unfolded l1]
    show ?thesis
    proof (cases "kstack t")
      case None
      then show ?thesis using release_stacks(1) [OF rel] d own t by (simp add: stacks_owned_def)
    next
      case (Some a)
      obtain i where i: "i < 128" "i \<in> used_blocks (kn_stacks s)" "a = stack_top i" using own t Some by (auto simp: stacks_owned_def)
      have "kn_stacks s1 = \<lparr>block_bitmap = block_bitmap (kn_stacks s) AND NOT (push_bit i 1)\<rparr>"
        using release_stacks(2) [OF rel Some] return_stack_ok [OF i(1), of "kn_stacks s"] i(2,3) by simp
      then have u: "used_blocks (kn_stacks s') = used_blocks (kn_stacks s) - {i}"
        using used_clear [of "block_bitmap (kn_stacks s)" i] d(3) by (simp add: used_blocks_def)
      have n: "distinct (kstacks rest)" "a \<notin> set (kstacks rest)" using own t Some by (auto simp: stacks_owned_def)
      have "\<exists>j < 128. j \<in> used_blocks (kn_stacks s') \<and> b = stack_top j" if b: "b \<in> set (kstacks rest)" for b
      proof -
        obtain j where j: "j < 128" "j \<in> used_blocks (kn_stacks s)" "b = stack_top j" using own t Some b by (auto simp: stacks_owned_def)
        then have "j \<noteq> i" using n(2) b i(3) by auto
        then show ?thesis using j u by blast
      qed
      then show ?thesis using d(1,2) n(1) by (simp add: stacks_owned_def)
    qed
  qed
qed

lemma set_front_inv:
  assumes "set_front_state st s = Some s'"
  shows "stacks_owned s' = stacks_owned s" and "tl (kn_task_list s') = tl (kn_task_list s)"
  using assms by (auto simp: set_front_state_def stacks_owned_def split: list.splits)

lemma mem_irrelevant [simp]:
  "dispatched (s\<lparr>kn_mem := k\<rparr>) = dispatched s" "stacks_owned (s\<lparr>kn_mem := k\<rparr>) = stacks_owned s"
  by (cases "kn_task_list s") (simp_all add: dispatched_def stacks_owned_def)

lemma dispatched_tl: "dispatched s \<Longrightarrow> \<forall>x \<in> set (tl (kn_task_list s)). pcb_state x \<noteq> Running"
  by (auto simp: dispatched_def split: list.splits)

text \<open>The effect of creating a task: a new ready task at the back that owns a fresh block, or only new memory.\<close>

definition spawned :: "'k mm \<Rightarrow> 'k kernel \<Rightarrow> 'k kernel \<Rightarrow> bool" where
  "spawned mm s s' \<longleftrightarrow> (\<exists>a t k k' slab. get_stack mm (kn_stacks s) k = Some (Inr a, slab, k') \<and> kstack t = Some a \<and>
     pcb_state t = Ready \<and> s' = s\<lparr>kn_stacks := slab, kn_mem := k', kn_task_list := kn_task_list s @ [t]\<rparr>)"

lemma spawned_inv:
  assumes d: "dispatched s" "stacks_owned s" and sp: "mapper_spec mm xlate" and s': "spawned mm s s'"
  shows "dispatched s' \<and> stacks_owned s'"
proof -
  from s' obtain a t k k' slab where
    g: "get_stack mm (kn_stacks s) k = Some (Inr a, slab, k')" and t: "kstack t = Some a" "pcb_state t = Ready"
    and s': "s' = s\<lparr>kn_stacks := slab, kn_mem := k', kn_task_list := kn_task_list s @ [t]\<rparr>" by (auto simp: spawned_def)
  from get_stack_ok [OF sp, of "kn_stacks s" k] g obtain i where
    i: "i < 128" "i \<notin> used_blocks (kn_stacks s)" "a = stack_top i"
      "slab = \<lparr>block_bitmap = block_bitmap (kn_stacks s) OR push_bit i 1\<rparr>" by auto
  have u: "used_blocks slab = insert i (used_blocks (kn_stacks s))"
    using used_set [OF i(1), of "block_bitmap (kn_stacks s)"] i(4) by (simp add: used_blocks_def)
  have "a \<notin> set (kstacks (kn_task_list s))" using d(2) i by (auto simp: stacks_owned_def)
  then have "stacks_owned s'" using d(2) s' t(1) u i by (auto simp: stacks_owned_def)
  moreover have "dispatched s'" using d(1) s' t(2) by (cases "kn_task_list s") (auto simp: dispatched_def)
  ultimately show ?thesis by simp
qed

lemma get_stack_Inl: "get_stack mm slab k = Some (Inl e, slab', k') \<Longrightarrow> slab' = slab"
  by (auto simp: get_stack_def Let_def bind_eq_Some_conv split: if_splits option.splits)

lemma create_table_effect:
  "create_user_page_table mach s = Some (f, s') \<Longrightarrow> \<exists>k. s' = s\<lparr>kn_mem := k\<rparr>"
  by (auto simp: create_user_page_table_def bind_eq_Some_conv Let_def)


lemma spawn_effect:
  assumes "spawn_user_task mach p f pt s = Some (r, s')"
  shows "(\<exists>k. s' = s\<lparr>kn_mem := k\<rparr>) \<or> spawned (ma_kernel mach) s s'"
proof -
  from assms obtain ur k1 where u: "get_user_stack pt (kn_mem s) = Some (ur, k1)"
    by (auto simp: spawn_user_task_def bind_eq_Some_conv)
  show ?thesis
  proof (cases ur)
    case (Inl e)
    then show ?thesis using assms u by (auto simp: spawn_user_task_def bind_eq_Some_conv)
  next
    case (Inr alloc)
    with assms u obtain gr slab k2 where g: "get_stack (ma_kernel mach) (kn_stacks s) k1 = Some (gr, slab, k2)"
      by (auto simp: spawn_user_task_def bind_eq_Some_conv)
    show ?thesis
    proof (cases gr)
      case (Inl e)
      have "slab = kn_stacks s" by (rule get_stack_Inl [OF g [unfolded Inl]])
      then show ?thesis using assms u g Inr Inl by (auto simp: spawn_user_task_def bind_eq_Some_conv)
    next
      case kernel: (Inr a)
      have "spawned (ma_kernel mach) s s'"
        using assms u g Inr kernel unfolding spawned_def
        by (intro exI [of _ a] exI [of _ "last (kn_task_list s')"] exI [of _ k1] exI [of _ k2] exI [of _ slab])
           (auto simp: spawn_user_task_def kstack_def)
      then show ?thesis ..
    qed
  qed
qed

lemma ucreate_effect:
  assumes "ucreate_task mach p code s = Some (r, s')"
  shows "\<exists>s1 k. s1 = s\<lparr>kn_mem := k\<rparr> \<and> ((\<exists>k'. s' = s1\<lparr>kn_mem := k'\<rparr>) \<or> spawned (ma_kernel mach) s1 s')"
proof (cases "p \<ge> 0x0000800000000000")
  case True
  then have "s' = s\<lparr>kn_mem := kn_mem s\<rparr>\<lparr>kn_mem := kn_mem s\<rparr>" using assms by (simp add: ucreate_task_def)
  then show ?thesis by blast
next
  case False
  then obtain f s1 pt rk k1 where
    c: "create_user_page_table mach s = Some (f, s1)" and
    rest: "(case rk of
      Some e \<Rightarrow> Some (Some e, s1\<lparr>kn_mem := k1\<rparr>)
    | None \<Rightarrow> spawn_user_task mach p f pt (s1\<lparr>kn_mem := k1\<rparr>)) = Some (r, s')"
    using assms by (auto simp: ucreate_task_def bind_eq_Some_conv)
  from create_table_effect [OF c] obtain k where s1: "s1 = s\<lparr>kn_mem := k\<rparr>" by blast
  show ?thesis
  proof (cases rk)
    case None
    then have "spawn_user_task mach p f pt (s\<lparr>kn_mem := k1\<rparr>) = Some (r, s')" using rest s1 by simp
    from spawn_effect [OF this] show ?thesis by blast
  next
    case (Some e)
    then have "s' = s\<lparr>kn_mem := k1\<rparr>\<lparr>kn_mem := k1\<rparr>" using rest s1 by auto
    then show ?thesis by blast
  qed
qed

lemma grow_cases:
  assumes "try_grow_user_stack mach a s = Some (r, s')"
  shows "(\<exists>k. s' = s\<lparr>kn_mem := k\<rparr>) \<or>
    (\<exists>k ts. bump_stack_size (kn_task_list s) = Some ts \<and> s' = s\<lparr>kn_mem := k, kn_task_list := ts\<rparr>)"
proof (cases "get_current_task_stack_info s")
  case None
  then have "s' = s\<lparr>kn_mem := kn_mem s\<rparr>" using assms by (simp add: try_grow_user_stack_def)
  then show ?thesis by blast
next
  case (Some i)
  obtain lo hi f where i: "i = (lo, hi, f)" by (cases i)
  show ?thesis
  proof (cases "lo \<le> a \<and> a < hi")
    case False
    then have "s' = s\<lparr>kn_mem := kn_mem s\<rparr>" using assms Some i by (auto simp: try_grow_user_stack_def split: if_splits)
    then show ?thesis by blast
  next
    case True
    with assms Some i obtain pt fr k where g: "get_user_page_table_from_cr3 mach f = Some pt"
        "mm_allocate_frame (ma_kernel mach) (kn_mem s) = Some (fr, k)"
      by (auto simp: try_grow_user_stack_def Let_def bind_eq_Some_conv)
    show ?thesis
    proof (cases fr)
      case None
      then show ?thesis using assms Some i True g by (auto simp: try_grow_user_stack_def Let_def)
    next
      case frame: (Some x)
      with assms Some i True g obtain e k' where m: "mm_map_to pt k (align_down a 4096) x user_rw = Some (e, k')"
        by (auto simp: try_grow_user_stack_def Let_def bind_eq_Some_conv)
      show ?thesis using assms Some i True g frame m
        by (cases e) (auto simp: try_grow_user_stack_def Let_def bind_eq_Some_conv)
    qed
  qed
qed

lemma bump_effect:
  assumes "bump_stack_size ts = Some ts'"
  shows "map kstack ts' = map kstack ts" and "map pcb_state ts' = map pcb_state ts" and "map pcb_cr3 ts' = map pcb_cr3 ts"
  using assms by (auto simp: bump_stack_size_def kstack_def bind_eq_Some_conv split: list.splits task_type.splits)

lemma bump_dispatched:
  assumes "bump_stack_size (kn_task_list s) = Some ts" and "dispatched s"
  shows "dispatched (s\<lparr>kn_mem := k, kn_task_list := ts\<rparr>)"
proof -
  obtain t rest where t: "kn_task_list s = t # rest" using assms(2) by (cases "kn_task_list s") (auto simp: dispatched_def)
  show ?thesis using assms
    by (cases "pcb_task_type t") (auto simp: bump_stack_size_def dispatched_def bind_eq_Some_conv t)
qed

lemma grow_inv:
  assumes "try_grow_user_stack mach a s = Some (r, s')" and "dispatched s" and "stacks_owned s"
  shows "dispatched s' \<and> stacks_owned s'"
  using grow_cases [OF assms(1)]
proof (elim disjE exE conjE)
  fix k ts assume b: "bump_stack_size (kn_task_list s) = Some ts" "s' = s\<lparr>kn_mem := k, kn_task_list := ts\<rparr>"
  then have "stacks_owned s'" using assms(3) kstacks_cong [OF bump_effect(1) [OF b(1)]] by (simp add: stacks_owned_def)
  then show ?thesis using bump_dispatched [OF b(1) assms(2), of k] b(2) by simp
qed (use assms in auto)

lemma fault_effect:
  "page_fault_handler mach u a s = Some s' \<Longrightarrow> \<exists>r. try_grow_user_stack mach a s = Some (r, s')"
  by (auto simp: page_fault_handler_def bind_eq_Some_conv split: if_splits option.splits)

lemma kcreate_effect:
  assumes "kcreate_task mach p s = Some s'"
  shows "spawned (ma_kernel mach) s s'"
proof -
  from assms obtain gr slab k where g: "get_stack (ma_kernel mach) (kn_stacks s) (kn_mem s) = Some (gr, slab, k)"
    by (auto simp: kcreate_task_def bind_eq_Some_conv)
  then obtain a where "gr = Inr a" using assms by (cases gr) (auto simp: kcreate_task_def)
  then show ?thesis using assms g unfolding spawned_def
    by (intro exI [of _ a] exI [of _ "last (kn_task_list s')"] exI [of _ "kn_mem s"] exI [of _ k] exI [of _ slab])
       (auto simp: kcreate_task_def kstack_def)
qed

lemma wake_effect: "kstacks (kn_task_list (wake_tasks i s)) = kstacks (kn_task_list s)"
  by (rule kstacks_cong) (simp add: wake_tasks_def)

lemma step_inv:
  assumes sp: "mapper_spec (ma_kernel mach) xlate" and d: "dispatched s" "stacks_owned s" and st: "kernel_step mach s s'"
  shows "dispatched s' \<and> stacks_owned s'"
  using st
proof (cases rule: kernel_step.cases)
  case (tick c r)
  then show ?thesis using schedule_inv [OF _ d(2) dispatched_tl [OF d(1)]] by blast
next
  case (yield i c r)
  then obtain s1 where s1: "set_front_state (Waiting (Interrupt i)) s = Some s1" "schedule_inner mach c s1 = Some (r, s')"
    by (auto simp: kyield_task_def bind_eq_Some_conv)
  then show ?thesis using schedule_inv [OF s1(2)] set_front_inv [OF s1(1)] d dispatched_tl [OF d(1)] by simp
next
  case (exit c r)
  then obtain s1 where s1: "set_front_state Terminated s = Some s1" "schedule_inner mach c s1 = Some (r, s')"
    by (auto simp: exit_task_def bind_eq_Some_conv)
  then show ?thesis using schedule_inv [OF s1(2)] set_front_inv [OF s1(1)] d dispatched_tl [OF d(1)] by simp
next
  case (wake i)
  have "dispatched (wake_tasks i s)" using d(1) by (auto simp: dispatched_def wake_tasks_def split: list.splits)
  moreover have "stacks_owned (wake_tasks i s)" using d(2) wake_effect [of i s] by (simp add: stacks_owned_def wake_tasks_def)
  ultimately show ?thesis using wake by simp
next
  case (kcreate p)
  show ?thesis by (rule spawned_inv [OF d sp kcreate_effect [OF kcreate]])
next
  case (ucreate p code r)
  from ucreate_effect [OF this] obtain s1 k where
    s1: "s1 = s\<lparr>kn_mem := k\<rparr>" "(\<exists>k'. s' = s1\<lparr>kn_mem := k'\<rparr>) \<or> spawned (ma_kernel mach) s1 s'" by blast
  have d1: "dispatched s1" "stacks_owned s1" using d s1(1) by simp_all
  then have "dispatched (s1\<lparr>kn_mem := k'\<rparr>) \<and> stacks_owned (s1\<lparr>kn_mem := k'\<rparr>)" for k' by simp
  then show ?thesis using s1(2) spawned_inv [OF d1 sp, of s'] by blast
next
  case (fault u a)
  from fault_effect [OF this] obtain r where g: "try_grow_user_stack mach a s = Some (r, s')" by blast
  show ?thesis by (rule grow_inv [OF g d])
qed

lemma boot_inv: "boot_tasks s \<Longrightarrow> dispatched (kinit_multitasking s) \<and> stacks_owned (kinit_multitasking s)"
  by (auto simp: boot_tasks_def dispatched_def stacks_owned_def kinit_multitasking_def kstack_def)

text \<open>
  C15: from \<^verbatim>\<open>kinit_multitasking\<close> on, however timer ticks, yields, exits, wake-ups, task creations and
  user page faults interleave, exactly the front task is running, with its own page table and kernel
  stack, and no two tasks share a kernel stack.
\<close>

theorem scheduler_invariant:
  assumes "mapper_spec (ma_kernel mach) xlate" and "boot_tasks s0" and "(kernel_step mach)\<^sup>*\<^sup>* (kinit_multitasking s0) s"
  shows "dispatched s \<and> stacks_owned s"
  using assms(3)
proof (induction rule: rtranclp_induct)
  case base
  show ?case by (rule boot_inv [OF assms(2)])
next
  case (step y z)
  then show ?case using step_inv [OF assms(1)] by blast
qed

section \<open>Waiting, waking and terminating\<close>

text \<open>
  \<open>wake_tasks\<close> makes exactly the tasks that wait for this interrupt ready and changes nothing else.
\<close>

theorem wake_tasks_exact:
  "list_all2 (\<lambda>t t'. view t' = view t \<and>
       pcb_state t' = (if pcb_state t = Waiting (Interrupt i) then Ready else pcb_state t))
     (kn_task_list s) (kn_task_list (wake_tasks i s)) \<and>
   wake_tasks i s = s\<lparr>kn_task_list := kn_task_list (wake_tasks i s)\<rparr>"
  by (simp add: wake_tasks_def list_all2_map2 list_all2_refl)

text \<open>
  C16: a task that waits for an interrupt is nevertheless run as soon as it reaches the front of the list:
  the switch marks it running and restores its registers although nothing woke it.
\<close>

theorem waiting_task_runs:
  assumes "kn_task_list s = t # n # rest" and "pcb_state t \<noteq> Terminated" and "pcb_state n = Waiting w"
  shows "\<exists>s'. schedule_inner mach c s = Some (pcb_regs n, s') \<and> pcb_state (hd (kn_task_list s')) = Running \<and>
    view (hd (kn_task_list s')) = view n"
  using schedule_inner_live [OF assms(1,2), of mach c] by (auto simp: run_front_def)

text \<open>
  A kernel task that exits frees its stack block and its list entry, and the next task is resumed; the
  switch panics exactly when no other task is left.
\<close>

theorem exit_kernel_task:
  assumes own: "stacks_owned s" and t: "kn_task_list s = t # rest" "pcb_task_type t = Kernel (Some a)"
  shows "case rest of
      [] \<Rightarrow> exit_task mach c s = None
    | n # ns \<Rightarrow> \<exists>s' i. exit_task mach c s = Some (pcb_regs n, s') \<and> a = stack_top i \<and>
        used_blocks (kn_stacks s') = used_blocks (kn_stacks s) - {i} \<and> kn_task_list s' = n\<lparr>pcb_state := Running\<rparr> # ns"
proof -
  obtain i where i: "i < 128" "i \<in> used_blocks (kn_stacks s)" "a = stack_top i"
    using own t by (auto simp: stacks_owned_def kstack_def)
  define slab where "slab = \<lparr>block_bitmap = block_bitmap (kn_stacks s) AND NOT (push_bit i 1)\<rparr>"
  have "return_stack (kn_stacks s) a = Some slab" using return_stack_ok [OF i(1)] i(2,3) by (simp add: slab_def)
  then have e: "exit_task mach c s = dispatch_front (s\<lparr>kn_task_list := rest, kn_stacks := slab\<rparr>)"
    using t by (simp add: exit_task_def set_front_state_def schedule_inner_def retire_current_def release_task_def)
  have u: "used_blocks slab = used_blocks (kn_stacks s) - {i}"
    using used_clear [of "block_bitmap (kn_stacks s)" i] by (simp add: slab_def used_blocks_def)
  show ?thesis
  proof (cases rest)
    case Nil
    then show ?thesis using e by (simp add: dispatch_front_def)
  next
    case (Cons n ns)
    then show ?thesis
      using dispatch_front_ok [of "s\<lparr>kn_task_list := rest, kn_stacks := slab\<rparr>" n ns] e i(3) u by auto
  qed
qed

section \<open>Growing a stack\<close>

text \<open>
  C17: a fault inside the stack range of the running user task is handled by mapping exactly the unmapped
  page of the fault and counting it; every other outcome leaves the task list unchanged, and a fault
  outside the range does not touch the memory either.
\<close>

theorem stack_growth_correct:
  assumes kf: "mapper_spec (ma_kernel mach) xlate" and um: "mapper_spec (ma_user mach (pcb_cr3 t)) ux"
    and fr: "\<forall>k k' f. mm_allocate_frame (ma_kernel mach) k = Some (f, k') \<longrightarrow> ux k' = ux k"
    and t: "kn_task_list s = t # rest" "pcb_task_type t = User u"
    and g: "try_grow_user_stack mach a s = Some (r, s')"
  shows "case r of
      None \<Rightarrow> ui_stack_end u \<le> a \<and> a < ui_stack_start u \<and>
        ux (kn_mem s) (align_down a 4096) = None \<and>
        (\<exists>f. ux (kn_mem s') = (ux (kn_mem s))(align_down a 4096 \<mapsto> f)) \<and>
        kn_task_list s' = t\<lparr>pcb_task_type := User (u\<lparr>ui_stack_size := ui_stack_size u + 1\<rparr>)\<rparr> # rest
    | Some e \<Rightarrow> kn_task_list s' = kn_task_list s \<and>
        (a < ui_stack_end u \<longrightarrow> e = StackOverflow \<and> s' = s) \<and>
        (ui_stack_end u \<le> a \<and> ui_stack_start u \<le> a \<longrightarrow> e = StackUnderflow \<and> s' = s)"
proof -
  have i: "get_current_task_stack_info s = Some (ui_stack_end u, ui_stack_start u, pcb_cr3 t)"
    using t by (simp add: get_current_task_stack_info_def)
  show ?thesis
  proof (cases "ui_stack_end u \<le> a \<and> a < ui_stack_start u")
    case False
    then show ?thesis using g i by (auto simp: try_grow_user_stack_def split: if_splits)
  next
    case True
    with g i obtain fo k where f: "get_user_page_table_from_cr3 mach (pcb_cr3 t) = Some (ma_user mach (pcb_cr3 t))"
        "mm_allocate_frame (ma_kernel mach) (kn_mem s) = Some (fo, k)"
      by (auto simp: try_grow_user_stack_def Let_def bind_eq_Some_conv get_user_page_table_from_cr3_def)
    show ?thesis
    proof (cases fo)
      case None
      then show ?thesis using g i True f by (auto simp: try_grow_user_stack_def Let_def)
    next
      case (Some x)
      obtain e k' where m: "mm_map_to (ma_user mach (pcb_cr3 t)) k (align_down a 4096) x user_rw = Some (e, k')"
          "if e = None then ux k (align_down a 4096) = None \<and> ux k' = (ux k)(align_down a 4096 \<mapsto> x) else ux k' = ux k"
        using mapper_specD(3) [OF um] by blast
      have "ux k = ux (kn_mem s)" using fr f(2) by blast
      then show ?thesis using g i True f Some m t
        by (cases e) (auto simp: try_grow_user_stack_def Let_def bind_eq_Some_conv bump_stack_size_def usize_add_Some_iff)
    qed
  qed
qed

section \<open>What termination gives back\<close>

text \<open>
  The frame at the end of a path of indices from a table, the frames that the recursive deallocation
  visits, in order, and the four table indices of a virtual address.
\<close>

fun walk_path :: "(addr \<Rightarrow> nat \<Rightarrow> pt_entry) \<Rightarrow> addr \<Rightarrow> nat list \<Rightarrow> addr option" where
  "walk_path tb f [] = Some f"
| "walk_path tb f (i # is) = (case entry_frame (tb f i) of None \<Rightarrow> None | Some g \<Rightarrow> walk_path tb g is)"

fun dealloc_all :: "'k machine \<Rightarrow> addr list \<Rightarrow> 'k \<Rightarrow> 'k rust" where
  "dealloc_all mach [] k = Some k"
| "dealloc_all mach (f # fs) k = do { k \<leftarrow> mm_deallocate_frame (ma_kernel mach) k f; dealloc_all mach fs k }"

definition table_indices :: "addr \<Rightarrow> nat list" where
  "table_indices a = [a div 2 ^ 39 mod 512, a div 2 ^ 30 mod 512, a div 2 ^ 21 mod 512, a div 2 ^ 12 mod 512]"

lemma dealloc_all_append [simp]:
  "dealloc_all mach (xs @ ys) k = do { k \<leftarrow> dealloc_all mach xs k; dealloc_all mach ys k }"
  by (induction xs arbitrary: k) (auto split: Option.bind_splits)

definition low_path :: "nat list \<Rightarrow> bool" where
  "low_path p \<longleftrightarrow> p \<noteq> [] \<and> (\<forall>i \<in> set p. i < 256)"

text \<open>Giving a frame back does not change the page tables.\<close>

definition tables_kept :: "'k machine \<Rightarrow> bool" where
  "tables_kept mach \<longleftrightarrow> (\<forall>k f k'. mm_deallocate_frame (ma_kernel mach) k f = Some k' \<longrightarrow> ma_entry mach k' = ma_entry mach k)"

definition visits :: "'k machine \<Rightarrow> addr \<Rightarrow> nat \<Rightarrow> 'k \<Rightarrow> 'k \<Rightarrow> bool" where
  "visits mach f level k k' \<longleftrightarrow> (\<exists>fs. dealloc_all mach fs k = Some k' \<and> ma_entry mach k' = ma_entry mach k \<and>
     (\<forall>x \<in> set fs. \<exists>p. low_path p \<and> length p \<le> max 1 level \<and> walk_path (ma_entry mach k) f p = Some x))"

lemma visits_entry:
  assumes e: "entry_frame (ma_entry mach k f i) = Some g" "i < 256"
    and k1: "if level > 1 then visits mach g (level - 1) k k1 else k1 = k"
    and k2: "mm_deallocate_frame (ma_kernel mach) k1 g = Some k2" "tables_kept mach" and k': "visits mach f level k2 k'"
  shows "visits mach f level k k'"
proof -
  obtain fs1 where fs1: "dealloc_all mach fs1 k = Some k1" "ma_entry mach k1 = ma_entry mach k"
      "\<forall>x \<in> set fs1. \<exists>p. low_path p \<and> length p < max 1 level \<and> walk_path (ma_entry mach k) g p = Some x"
  proof (cases "level > 1")
    case True
    with k1 obtain fs1 where "dealloc_all mach fs1 k = Some k1" "ma_entry mach k1 = ma_entry mach k"
      "\<forall>x \<in> set fs1. \<exists>p. low_path p \<and> length p \<le> max 1 (level - 1) \<and> walk_path (ma_entry mach k) g p = Some x"
      by (auto simp: visits_def)
    moreover have "max 1 (level - 1) < max 1 level" using True by simp
    ultimately show thesis using that le_less_trans by meson
  next
    case False
    then show thesis using k1 that [of "[]"] by simp
  qed
  have e2: "ma_entry mach k2 = ma_entry mach k" using k2 fs1(2) by (simp add: tables_kept_def)
  obtain fs2 where fs2: "dealloc_all mach fs2 k2 = Some k'" "ma_entry mach k' = ma_entry mach k2"
      "\<forall>x \<in> set fs2. \<exists>p. low_path p \<and> length p \<le> max 1 level \<and> walk_path (ma_entry mach k2) f p = Some x"
    using k' by (auto simp: visits_def)
  have "dealloc_all mach (fs1 @ g # fs2) k = Some k'" using fs1(1) k2(1) fs2(1) by simp
  moreover have "\<exists>p. low_path p \<and> length p \<le> max 1 level \<and> walk_path (ma_entry mach k) f p = Some x" if x: "x \<in> set fs1" for x
  proof -
    obtain p where "low_path p" "length p < max 1 level" "walk_path (ma_entry mach k) g p = Some x" using fs1(3) x by blast
    then show ?thesis using e by (intro exI [of _ "i # p"]) (auto simp: low_path_def)
  qed
  moreover have "low_path [i] \<and> length [i] \<le> max 1 level \<and> walk_path (ma_entry mach k) f [i] = Some g"
    using e by (simp add: low_path_def)
  ultimately show ?thesis using fs2(2,3) e2 unfolding visits_def by (intro exI [of _ "fs1 @ g # fs2"]) auto
qed

lemma deallocate_visits:
  "tables_kept mach \<Longrightarrow> deallocate_user_page_table_recursive mach f level k = Some k' \<Longrightarrow> visits mach f level k k'"
  "tables_kept mach \<Longrightarrow> deallocate_entries mach f level is k = Some k' \<Longrightarrow> \<forall>i \<in> set is. i < 256 \<Longrightarrow> visits mach f level k k'"
proof (induction mach f level k and mach f level "is" k arbitrary: k' and k'
    rule: deallocate_user_page_table_recursive_deallocate_entries.induct)
  case (1 mach f level k)
  then show ?case
    by (auto simp: deallocate_user_page_table_recursive.simps bind_eq_Some_conv)
next
  case (2 mach f level k)
  then show ?case by (auto simp: visits_def intro!: exI [of _ "[]"])
next
  case (3 mach f level i "is" k)
  let ?e = "ma_entry mach k f i"
  show ?case
  proof (cases "pe_present ?e")
    case False
    then show ?thesis using "3.IH"(3) "3.prems" by (simp add: Let_def)
  next
    case True
    with "3.prems"(2) obtain g k1 k2 where
      g: "entry_frame ?e = Some g" and
      k1: "(if level > 1 then deallocate_user_page_table_recursive mach g (level - 1) k else Some k) = Some k1" and
      k2: "mm_deallocate_frame (ma_kernel mach) k1 g = Some k2" and
      k': "deallocate_entries mach f level is k2 = Some k'"
      by (auto simp: Let_def bind_eq_Some_conv)
    have "if level > 1 then visits mach g (level - 1) k k1 else k1 = k"
      using "3.IH"(1) [OF refl True, of g] "3.prems"(1) g k1 by (auto split: if_splits)
    moreover have "visits mach f level k2 k'"
      using "3.IH"(2) [OF refl True, of g k1 k2] "3.prems" g k1 k2 k' by auto
    ultimately show ?thesis using visits_entry [OF g _ _ k2 "3.prems"(1)] "3.prems"(3) by auto
  qed
qed

text \<open>
  C18: the frames behind a user stack are never given back when the task ends.  The recursive deallocation
  looks at the first 256 entries of the tables of every level, but all stack addresses use entry 511
  of the third-level table.
\<close>

theorem user_stack_frames_leak:
  assumes ro: "tables_kept mach"
    and a: "USER_STACKS_START - USTACK_SIZE * 0x1000 \<le> a" "a < USER_STACKS_START"
    and x: "\<forall>p. length p \<le> 4 \<and> walk_path (ma_entry mach k) root p = Some x \<longrightarrow> p = table_indices a"
    and run: "deallocate_user_page_table_recursive mach root 4 k = Some k'"
  shows "\<exists>fs. dealloc_all mach fs k = Some k' \<and> x \<notin> set fs"
proof -
  have "a div 2 ^ 30 = 0x1FFFF" using a by (simp add: ustack_consts)
  then have "table_indices a ! 1 = 511" by (simp add: table_indices_def)
  then have hi: "\<not> low_path (table_indices a)" by (auto simp: low_path_def table_indices_def)
  from deallocate_visits(1) [OF ro run] obtain fs where
    fs: "dealloc_all mach fs k = Some k'"
      "\<forall>y \<in> set fs. \<exists>p. low_path p \<and> length p \<le> 4 \<and> walk_path (ma_entry mach k) root p = Some y"
    by (auto simp: visits_def)
  have "x \<notin> set fs" using fs(2) x hi by blast
  then show ?thesis using fs(1) by blast
qed

section \<open>Witnesses\<close>

text \<open>A machine over the page table of \<^verbatim>\<open>Mapper\<close>, with a user table that maps the topmost stack page.\<close>

definition demo_table :: "addr \<Rightarrow> nat \<Rightarrow> pt_entry" where
  "demo_table f i =
     (if (f, i) = (0x1000, 255) then \<lparr>pe_present = True, pe_huge = False, pe_frame = 0x2000\<rparr>
      else if (f, i) = (0x2000, 511) then \<lparr>pe_present = True, pe_huge = False, pe_frame = 0x3000\<rparr>
      else if (f, i) = (0x3000, 511) then \<lparr>pe_present = True, pe_huge = False, pe_frame = 0x4000\<rparr>
      else if (f, i) = (0x4000, 495) then \<lparr>pe_present = True, pe_huge = False, pe_frame = 0x5000\<rparr>
      else unused_entry)"

definition demo_machine :: "((addr \<Rightarrow> addr option) \<times> addr) machine" where
  "demo_machine = \<lparr>ma_kernel = bump_mm, ma_user = (\<lambda>_. bump_mm), ma_entry = (\<lambda>_. demo_table),
     ma_set_table = (\<lambda>k _ _. k), ma_write = (\<lambda>k _ _. k), ma_hhdm_offset = 0\<rparr>"

definition demo_task :: "task_type \<Rightarrow> task_state \<Rightarrow> pcb" where
  "demo_task ty st = \<lparr>pcb_task_type = ty, pcb_regs = zero_regs, pcb_state = st, pcb_cr3 = 0x1000\<rparr>"

definition demo_kernel :: "pcb list \<Rightarrow> kernel_slab \<Rightarrow> ((addr \<Rightarrow> addr option) \<times> addr) kernel" where
  "demo_kernel ts slab = \<lparr>kn_task_list = ts, kn_stacks = slab, kn_mem = (Map.empty, 0), kn_cr3 = 0x1000,
     kn_cs = 8, kn_ss = 16, kn_rflags = 2, kn_tss_rsp0 = 0, kn_syscall_stack = 0\<rparr>"

theorem round_robin_witness:
  "\<exists>s'. switches demo_machine [zero_regs\<lparr>tr_rax := 1\<rparr>, zero_regs\<lparr>tr_rax := 2\<rparr>]
     (demo_kernel [demo_task (Kernel None) Running, demo_task (Kernel None) Ready] slab_new) =
     Some ([zero_regs, zero_regs\<lparr>tr_rax := 1\<rparr>], s')"
proof -
  let ?s = "demo_kernel [demo_task (Kernel None) Running, demo_task (Kernel None) Ready] slab_new"
  have l: "live ?s" "kn_task_list ?s = demo_task (Kernel None) Running # [demo_task (Kernel None) Ready]"
    by (simp_all add: live_def demo_kernel_def demo_task_def)
  show ?thesis
    using round_robin [OF l, of "[zero_regs\<lparr>tr_rax := 1\<rparr>, zero_regs\<lparr>tr_rax := 2\<rparr>]" demo_machine]
    by (auto simp: demo_task_def)
qed

theorem scheduler_invariant_witness: "dispatched (kinit_multitasking (demo_kernel [] slab_new))"
proof -
  have "mapper_spec (ma_kernel demo_machine) fst" by (simp add: demo_machine_def bump_mm_spec)
  moreover have "boot_tasks (demo_kernel [] slab_new)" by (simp add: boot_tasks_def stacks_owned_def demo_kernel_def)
  ultimately show ?thesis using scheduler_invariant [OF _ _ rtranclp.rtrancl_refl] by blast
qed

theorem waiting_task_runs_witness:
  "\<exists>s'. schedule_inner demo_machine zero_regs
     (demo_kernel [demo_task (Kernel None) Running, demo_task (Kernel None) (Waiting (Interrupt 33))] slab_new) = Some (zero_regs, s') \<and>
     pcb_state (hd (kn_task_list s')) = Running"
  using waiting_task_runs [of "demo_kernel [demo_task (Kernel None) Running, demo_task (Kernel None) (Waiting (Interrupt 33))] slab_new"
    "demo_task (Kernel None) Running" "demo_task (Kernel None) (Waiting (Interrupt 33))" "[]" "Interrupt 33" demo_machine zero_regs]
  by (auto simp: demo_kernel_def demo_task_def)

definition demo_user :: user_info where
  "demo_user = \<lparr>ui_stack_start = 0x8000, ui_stack_end = 0x4000, ui_stack_size = 1, ui_kernel_stack = 0\<rparr>"

theorem stack_growth_correct_witness:
  "\<exists>r s'. try_grow_user_stack demo_machine 0x6010 (demo_kernel [demo_task (User demo_user) Running] slab_new) = Some (r, s') \<and>
     (r = None \<longrightarrow> (\<exists>f. fst (kn_mem s') = [0x6000 \<mapsto> f]))"
proof -
  let ?s = "demo_kernel [demo_task (User demo_user) Running] slab_new"
  obtain r s' where g: "try_grow_user_stack demo_machine 0x6010 ?s = Some (r, s')"
    by (simp add: try_grow_user_stack_def get_current_task_stack_info_def demo_kernel_def demo_task_def demo_user_def Let_def
        get_user_page_table_from_cr3_def frame_to_virt_def demo_machine_def virt_addr_new_def bump_mm_def bump_stack_size_def
        usize_bound_def align_down_def)
  have sp: "mapper_spec (ma_kernel demo_machine) fst" "mapper_spec (ma_user demo_machine (pcb_cr3 (demo_task (User demo_user) Running))) fst"
    by (simp_all add: demo_machine_def bump_mm_spec)
  have fr: "\<forall>k k' f. mm_allocate_frame (ma_kernel demo_machine) k = Some (f, k') \<longrightarrow> fst k' = fst k"
    by (auto simp: demo_machine_def bump_mm_def)
  have t: "kn_task_list ?s = demo_task (User demo_user) Running # []" "pcb_task_type (demo_task (User demo_user) Running) = User demo_user"
    by (simp_all add: demo_kernel_def demo_task_def)
  from stack_growth_correct [OF sp fr t g] g show ?thesis
    by (intro exI [of _ r] exI [of _ s']) (auto simp: demo_kernel_def align_down_def)
qed

lemma deallocate_skip: "\<forall>i \<in> set is. \<not> pe_present (ma_entry mach k f i) \<Longrightarrow> deallocate_entries mach f level (is @ js) k = deallocate_entries mach f level js k"
  by (induction "is") (simp_all add: Let_def)

lemma demo_walk:
  "walk_path demo_table 0x1000 p = Some 0x5000 \<Longrightarrow> p = [255, 511, 511, 495]"
proof -
  have d: "entry_frame (demo_table f i) = Some g \<longleftrightarrow>
      (f, i, g) \<in> {(0x1000, 255, 0x2000), (0x2000, 511, 0x3000), (0x3000, 511, 0x4000), (0x4000, 495, 0x5000)}" for f i g
    by (auto simp: demo_table_def entry_frame_def unused_entry_def)
  have n: "walk_path demo_table f (i # p) = Some x \<longleftrightarrow> (\<exists>g. entry_frame (demo_table f i) = Some g \<and> walk_path demo_table g p = Some x)" for f i p x
    by (auto split: option.splits)
  have w4: "walk_path demo_table 0x5000 p = Some 0x5000 \<Longrightarrow> p = []" for p
    by (cases p) (simp_all add: n d del: walk_path.simps(2))
  have w3: "walk_path demo_table 0x4000 p = Some 0x5000 \<Longrightarrow> p = [495]" for p
    using w4 by (cases p) (auto simp: n d simp del: walk_path.simps(2))
  have w2: "walk_path demo_table 0x3000 p = Some 0x5000 \<Longrightarrow> p = [511, 495]" for p
    using w3 by (cases p) (auto simp: n d simp del: walk_path.simps(2))
  have w1: "walk_path demo_table 0x2000 p = Some 0x5000 \<Longrightarrow> p = [511, 511, 495]" for p
    using w2 by (cases p) (auto simp: n d simp del: walk_path.simps(2))
  show "walk_path demo_table 0x1000 p = Some 0x5000 \<Longrightarrow> p = [255, 511, 511, 495]"
    using w1 by (cases p) (auto simp: n d simp del: walk_path.simps(2))
qed

theorem user_stack_frames_leak_witness:
  "\<exists>fs. dealloc_all demo_machine fs (Map.empty, 0) = Some (Map.empty, 0) \<and> 0x5000 \<notin> set fs"
proof (rule user_stack_frames_leak [where a = "USER_STACKS_START - 0x1000" and root = "0x1000"])
  show "tables_kept demo_machine" by (simp add: tables_kept_def demo_machine_def)
  show "USER_STACKS_START - USTACK_SIZE * 0x1000 \<le> USER_STACKS_START - 0x1000" "USER_STACKS_START - 0x1000 < USER_STACKS_START"
    by (simp_all add: ustack_consts)
  have "table_indices (USER_STACKS_START - 0x1000) = [255, 511, 511, 495]" by (simp add: table_indices_def ustack_consts)
  then show "\<forall>p. length p \<le> 4 \<and> walk_path (ma_entry demo_machine (Map.empty, 0)) 0x1000 p = Some 0x5000 \<longrightarrow>
      p = table_indices (USER_STACKS_START - 0x1000)"
    using demo_walk by (simp add: demo_machine_def)
  have u: "[0 ..< 256] = [0 ..< 255] @ [255]" by (simp add: upt_Suc_append [of 0 255, simplified])
  have v: "frame_to_virt demo_machine f = Some f" if "f < 2 ^ 47" for f
    using that by (simp add: frame_to_virt_def demo_machine_def virt_addr_new_def usize_bound_def)
  have inner: "deallocate_user_page_table_recursive demo_machine 0x2000 3 k = Some k" for k
    using deallocate_skip [of "[0 ..< 256]" demo_machine k "0x2000" 3 "[]"]
    by (simp add: v deallocate_user_page_table_recursive.simps) (simp add: demo_machine_def demo_table_def unused_entry_def)
  have "deallocate_entries demo_machine 0x1000 4 [255] k = Some k" for k
    using inner by (simp add: Let_def) (simp add: demo_machine_def demo_table_def entry_frame_def bump_mm_def)
  then show "deallocate_user_page_table_recursive demo_machine 0x1000 4 (Map.empty, 0) = Some (Map.empty, 0)"
    unfolding deallocate_user_page_table_recursive.simps u
    by (simp add: v, subst deallocate_skip) (auto simp: demo_machine_def demo_table_def unused_entry_def)
qed

end
