(* ===== verification/Vmm.thy ===== *)
theory Vmm
  imports KernelSlab
begin

text \<open>
  \<^verbatim>\<open>kernel/src/pci/vmm.rs\<close>: the manager of the 16 GB of virtual addresses into which device BARs are mapped.
  Its bitmap is a list of 128-bit words; \<^verbatim>\<open>used_pages\<close> reads it as a set of pages.
\<close>

section \<open>The code\<close>

datatype pci_error = McfgNotFound | EcamMappingFailed | InvalidDevice | MsiXSetupFailed | AllocationFailed

definition PCIE_VMM_START :: addr where
  "PCIE_VMM_START = 0xFFFFFA0000000000"

definition PCIE_VMM_SIZE :: nat where
  "PCIE_VMM_SIZE = 16 * 1024 * 1024 * 1024"

definition PAGE_SIZE :: nat where
  "PAGE_SIZE = 4096"

definition div_ceil :: "nat \<Rightarrow> nat \<Rightarrow> nat" where
  "div_ceil a b = a div b + (if a mod b > 0 then 1 else 0)"

definition PCIE_VMM_PAGES :: nat where
  "PCIE_VMM_PAGES = PCIE_VMM_SIZE div PAGE_SIZE"

definition BITMAP_WORDS :: nat where
  "BITMAP_WORDS = div_ceil PCIE_VMM_PAGES 128"

record pcie_vmm =
  base_address :: addr
  page_bitmap :: "u128 list"
  next_search_start :: nat

record mapped_bar =
  mb_virtual_address :: addr
  mb_physical_address :: addr
  mb_size :: nat
  mb_prefetchable :: bool

definition vmm_new :: pcie_vmm where
  "vmm_new = \<lparr>base_address = PCIE_VMM_START, page_bitmap = replicate BITMAP_WORDS 0, next_search_start = 0\<rparr>"

definition is_page_allocated :: "pcie_vmm \<Rightarrow> nat \<Rightarrow> bool rust" where
  "is_page_allocated v page = (
     if page \<ge> PCIE_VMM_PAGES then Some True
     else do {
       let word_index = page div 128;
       let bit_index = page mod 128;
       rust_assert (word_index < BITMAP_WORDS);
       w \<leftarrow> vec_get (page_bitmap v) word_index;
       Some (w AND push_bit bit_index 1 \<noteq> 0)
     })"

definition set_page_allocated :: "nat \<Rightarrow> pcie_vmm \<Rightarrow> pcie_vmm rust" where
  "set_page_allocated page v = (
     if page < PCIE_VMM_PAGES then do {
       let word_index = page div 128;
       let bit_index = page mod 128;
       rust_assert (word_index < BITMAP_WORDS);
       w \<leftarrow> vec_get (page_bitmap v) word_index;
       Some (v\<lparr>page_bitmap := (page_bitmap v)[word_index := w OR push_bit bit_index 1]\<rparr>)
     } else Some v)"

definition set_page_free :: "nat \<Rightarrow> pcie_vmm \<Rightarrow> pcie_vmm rust" where
  "set_page_free page v = (
     if page < PCIE_VMM_PAGES then do {
       let word_index = page div 128;
       let bit_index = page mod 128;
       rust_assert (word_index < BITMAP_WORDS);
       w \<leftarrow> vec_get (page_bitmap v) word_index;
       Some (v\<lparr>page_bitmap := (page_bitmap v)[word_index := w AND NOT (push_bit bit_index 1)]\<rparr>)
     } else Some v)"

fun is_range_free_loop :: "pcie_vmm \<Rightarrow> nat list \<Rightarrow> bool rust" where
  "is_range_free_loop v [] = Some True"
| "is_range_free_loop v (i # is) =
     (if i \<ge> PCIE_VMM_PAGES then Some False
      else do {
        a \<leftarrow> is_page_allocated v i;
        if a then Some False else is_range_free_loop v is
      })"

definition is_range_free :: "pcie_vmm \<Rightarrow> nat \<Rightarrow> nat \<Rightarrow> bool rust" where
  "is_range_free v start count = do {
     limit \<leftarrow> usize_add start count;
     is_range_free_loop v [start ..< limit]
   }"

fun find_start :: "pcie_vmm \<Rightarrow> nat \<Rightarrow> nat list \<Rightarrow> nat option rust" where
  "find_start v pages_needed [] = Some None"
| "find_start v pages_needed (start # starts) = do {
     b \<leftarrow> is_range_free v start pages_needed;
     if b then Some (Some start) else find_start v pages_needed starts
   }"

definition find_free_pages :: "pcie_vmm \<Rightarrow> nat \<Rightarrow> nat option rust" where
  "find_free_pages v pages_needed = (
     if pages_needed > PCIE_VMM_PAGES then Some None
     else do {
       r \<leftarrow> find_start v pages_needed [next_search_start v ..< PCIE_VMM_PAGES - pages_needed + 1];
       case r of
         Some start \<Rightarrow> Some (Some start)
       | None \<Rightarrow> find_start v pages_needed [0 ..< min (next_search_start v) (PCIE_VMM_PAGES - pages_needed + 1)]
     })"

definition bar_flags :: "bool \<Rightarrow> pt_flags" where
  "bar_flags prefetchable = \<lparr>PRESENT = True, WRITABLE = True, USER_ACCESSIBLE = False,
     NO_CACHE = \<not> prefetchable, NO_EXECUTE = True\<rparr>"

text \<open>The parameter is the page table once it exists; before that the code returns \<^verbatim>\<open>EcamMappingFailed\<close> at once.\<close>

fun vmm_map_pages :: "'k mm \<Rightarrow> addr \<Rightarrow> addr \<Rightarrow> bool \<Rightarrow> nat list \<Rightarrow> 'k \<Rightarrow> (pci_error option \<times> 'k) rust" where
  "vmm_map_pages mm virtual_address physical_address prefetchable [] k = Some (None, k)"
| "vmm_map_pages mm virtual_address physical_address prefetchable (i # is) k = do {
     off \<leftarrow> usize_mul i PAGE_SIZE;
     va \<leftarrow> usize_add virtual_address off;
     va \<leftarrow> virt_addr_new va;
     pa \<leftarrow> usize_add physical_address off;
     pa \<leftarrow> phys_addr_new pa;
     (r, k) \<leftarrow> mm_map_to mm k (align_down va 4096) (align_down pa 4096) (bar_flags prefetchable);
     case r of
       Some e \<Rightarrow> Some (Some EcamMappingFailed, k)
     | None \<Rightarrow> vmm_map_pages mm virtual_address physical_address prefetchable is k
   }"

fun vmm_unmap_pages :: "'k mm \<Rightarrow> addr \<Rightarrow> nat list \<Rightarrow> 'k \<Rightarrow> (pci_error option \<times> 'k) rust" where
  "vmm_unmap_pages mm virtual_address [] k = Some (None, k)"
| "vmm_unmap_pages mm virtual_address (i # is) k = do {
     off \<leftarrow> usize_mul i PAGE_SIZE;
     va \<leftarrow> usize_add virtual_address off;
     va \<leftarrow> virt_addr_new va;
     (r, k) \<leftarrow> mm_unmap mm k (align_down va 4096);
     case r of
       None \<Rightarrow> Some (Some EcamMappingFailed, k)
     | Some frame \<Rightarrow> vmm_unmap_pages mm virtual_address is k
   }"

fun set_pages :: "(nat \<Rightarrow> pcie_vmm \<Rightarrow> pcie_vmm rust) \<Rightarrow> nat list \<Rightarrow> pcie_vmm \<Rightarrow> pcie_vmm rust" where
  "set_pages f [] v = Some v"
| "set_pages f (i # is) v = do { v \<leftarrow> f i v; set_pages f is v }"

definition map_memory_bar ::
  "'k mm \<Rightarrow> pcie_vmm \<Rightarrow> addr \<Rightarrow> nat \<Rightarrow> bool \<Rightarrow> 'k \<Rightarrow> ((pci_error + mapped_bar) \<times> pcie_vmm \<times> 'k) rust" where
  "map_memory_bar mm v physical_address sz prefetchable k =
     (if sz = 0 \<or> physical_address = 0 then Some (Inl InvalidDevice, v, k)
      else do {
        let pages_needed = div_ceil sz PAGE_SIZE;
        start_page \<leftarrow> find_free_pages v pages_needed;
        case start_page of
          None \<Rightarrow> Some (Inl AllocationFailed, v, k)
        | Some start_page \<Rightarrow> do {
            off \<leftarrow> usize_mul start_page PAGE_SIZE;
            va \<leftarrow> usize_add (base_address v) off;
            va \<leftarrow> virt_addr_new va;
            (r, k) \<leftarrow> vmm_map_pages mm va physical_address prefetchable [0 ..< pages_needed] k;
            case r of
              Some e \<Rightarrow> Some (Inl e, v, k)
            | None \<Rightarrow> do {
                v \<leftarrow> set_pages set_page_allocated [start_page ..< start_page + pages_needed] v;
                let next = start_page + pages_needed;
                let v = v\<lparr>next_search_start := if next \<ge> PCIE_VMM_PAGES then 0 else next\<rparr>;
                Some (Inr \<lparr>mb_virtual_address = va, mb_physical_address = physical_address, mb_size = sz,
                  mb_prefetchable = prefetchable\<rparr>, v, k)
              }
          }
      })"

definition unmap_bar :: "'k mm \<Rightarrow> pcie_vmm \<Rightarrow> mapped_bar \<Rightarrow> 'k \<Rightarrow> (pci_error option \<times> pcie_vmm \<times> 'k) rust" where
  "unmap_bar mm v bar k = do {
     let pages_to_unmap = div_ceil (mb_size bar) PAGE_SIZE;
     d \<leftarrow> usize_sub (mb_virtual_address bar) (base_address v);
     let start_page = d div PAGE_SIZE;
     (r, k) \<leftarrow> vmm_unmap_pages mm (mb_virtual_address bar) [0 ..< pages_to_unmap] k;
     case r of
       Some e \<Rightarrow> Some (Some e, v, k)
     | None \<Rightarrow> do {
         v \<leftarrow> set_pages (\<lambda>i v. if i < PCIE_VMM_PAGES then set_page_free i v else Some v)
           [start_page ..< start_page + pages_to_unmap] v;
         let v = (if start_page < next_search_start v then v\<lparr>next_search_start := start_page\<rparr> else v);
         Some (None, v, k)
       }
   }"

text \<open>\<^verbatim>\<open>u128::count_ones\<close>.\<close>

definition count_ones :: "u128 \<Rightarrow> nat" where
  "count_ones w = length (filter (bit w) [0 ..< 128])"

definition count_allocated_pages :: "pcie_vmm \<Rightarrow> nat rust" where
  "count_allocated_pages v = do {
     let count = sum_list (map count_ones (take (BITMAP_WORDS - 1) (page_bitmap v)));
     rust_assert (BITMAP_WORDS - 1 \<le> length (page_bitmap v));
     last_word \<leftarrow> vec_get (page_bitmap v) (BITMAP_WORDS - 1);
     let total_bits = BITMAP_WORDS * 128;
     if total_bits > PCIE_VMM_PAGES
     then do {
       let valid = 128 - (total_bits - PCIE_VMM_PAGES);
       Some (count + count_ones (last_word AND (push_bit valid 1 - 1)))
     }
     else Some (count + count_ones last_word)
   }"

record vmm_stats =
  vs_total_pages :: nat
  vs_allocated_pages :: nat
  vs_free_pages :: nat
  vs_total_size :: nat
  vs_allocated_size :: nat
  vs_free_size :: nat

definition get_stats :: "pcie_vmm \<Rightarrow> vmm_stats rust" where
  "get_stats v = do {
     allocated_pages \<leftarrow> count_allocated_pages v;
     free_pages \<leftarrow> usize_sub PCIE_VMM_PAGES allocated_pages;
     a \<leftarrow> usize_mul allocated_pages PAGE_SIZE;
     f \<leftarrow> usize_mul free_pages PAGE_SIZE;
     Some \<lparr>vs_total_pages = PCIE_VMM_PAGES, vs_allocated_pages = allocated_pages, vs_free_pages = free_pages,
       vs_total_size = PCIE_VMM_SIZE, vs_allocated_size = a, vs_free_size = f\<rparr>
   }"

record memory_bar =
  bar_address :: addr
  bar_size :: nat
  bar_prefetchable :: bool
  bar_is_64bit :: bool

definition map_bar :: "'k mm \<Rightarrow> pcie_vmm \<Rightarrow> memory_bar \<Rightarrow> 'k \<Rightarrow> ((pci_error + mapped_bar) \<times> pcie_vmm \<times> 'k) rust" where
  "map_bar mm v bar k = map_memory_bar mm v (bar_address bar) (bar_size bar) (bar_prefetchable bar) k"

text \<open>The lookup of an existing mapping is a placeholder in the code.\<close>

definition find_existing_mapping :: "addr \<Rightarrow> pci_error + mapped_bar option" where
  "find_existing_mapping physical_address = Inr None"

section \<open>The bitmap\<close>

lemma vmm_consts: "PCIE_VMM_PAGES = 4194304" "BITMAP_WORDS = 32768" "PAGE_SIZE = 4096"
  by (simp_all add: PCIE_VMM_PAGES_def BITMAP_WORDS_def PAGE_SIZE_def PCIE_VMM_SIZE_def div_ceil_def)

definition vmm_ok :: "pcie_vmm \<Rightarrow> bool" where
  "vmm_ok v \<longleftrightarrow> length (page_bitmap v) = BITMAP_WORDS \<and> base_address v = PCIE_VMM_START \<and> next_search_start v < PCIE_VMM_PAGES"

definition used_pages :: "pcie_vmm \<Rightarrow> nat set" where
  "used_pages v = {p. p < PCIE_VMM_PAGES \<and> bit (page_bitmap v ! (p div 128)) (p mod 128)}"

lemma word_index: "p < PCIE_VMM_PAGES \<Longrightarrow> p div 128 < BITMAP_WORDS"
  by (simp add: vmm_consts)

lemma and_exp: "b < 128 \<Longrightarrow> w AND push_bit b 1 \<noteq> (0 :: u128) \<longleftrightarrow> bit w b"
  by (simp add: and_exp_eq_0_iff_not_bit push_bit_of_1)

lemma is_page_allocated_ok:
  "vmm_ok v \<Longrightarrow> p < PCIE_VMM_PAGES \<Longrightarrow> is_page_allocated v p = Some (p \<in> used_pages v)"
  using word_index [of p] and_exp [of "p mod 128"] by (simp add: is_page_allocated_def vmm_ok_def used_pages_def Let_def)

lemma same_bit: "(p div 128 = q div 128 \<and> p mod 128 = q mod 128) = (p = (q::nat))"
  by (metis div_mult_mod_eq)

lemma set_page_allocated_ok:
  assumes ok: "vmm_ok v" and p: "p < PCIE_VMM_PAGES"
  shows "\<exists>v'. set_page_allocated p v = Some v' \<and> vmm_ok v' \<and> used_pages v' = insert p (used_pages v) \<and>
    next_search_start v' = next_search_start v"
proof -
  let ?v = "v\<lparr>page_bitmap := (page_bitmap v)[p div 128 := page_bitmap v ! (p div 128) OR push_bit (p mod 128) 1]\<rparr>"
  have len: "length (page_bitmap v) = BITMAP_WORDS" using ok by (simp add: vmm_ok_def)
  have "set_page_allocated p v = Some ?v"
    using word_index [OF p] p len by (simp add: set_page_allocated_def Let_def)
  moreover have "q \<in> used_pages ?v \<longleftrightarrow> q = p \<or> q \<in> used_pages v" for q
    using same_bit [of p q] word_index [OF p] p len
    by (cases "p div 128 = q div 128") (auto simp: used_pages_def bit_simps nth_list_update)
  ultimately show ?thesis using ok by (auto simp: vmm_ok_def)
qed

lemma set_page_free_ok:
  assumes ok: "vmm_ok v" and p: "p < PCIE_VMM_PAGES"
  shows "\<exists>v'. set_page_free p v = Some v' \<and> vmm_ok v' \<and> used_pages v' = used_pages v - {p} \<and>
    next_search_start v' = next_search_start v"
proof -
  let ?v = "v\<lparr>page_bitmap := (page_bitmap v)[p div 128 := page_bitmap v ! (p div 128) AND NOT (push_bit (p mod 128) 1)]\<rparr>"
  have len: "length (page_bitmap v) = BITMAP_WORDS" using ok by (simp add: vmm_ok_def)
  have "set_page_free p v = Some ?v"
    using word_index [OF p] p len by (simp add: set_page_free_def Let_def)
  moreover have "q \<in> used_pages ?v \<longleftrightarrow> q \<noteq> p \<and> q \<in> used_pages v" for q
    using same_bit [of p q] word_index [OF p] p len
    by (cases "p div 128 = q div 128") (auto simp: used_pages_def bit_simps nth_list_update dest: bit_imp_le_length)
  ultimately show ?thesis using ok by (auto simp: vmm_ok_def)
qed

lemma set_pages_allocated:
  assumes "vmm_ok v" and "\<forall>p \<in> set ps. p < PCIE_VMM_PAGES"
  shows "\<exists>v'. set_pages set_page_allocated ps v = Some v' \<and> vmm_ok v' \<and> used_pages v' = used_pages v \<union> set ps \<and>
    next_search_start v' = next_search_start v"
  using assms
proof (induction ps arbitrary: v)
  case (Cons p ps)
  from set_page_allocated_ok [of v p] Cons.prems obtain v1 where
    v1: "set_page_allocated p v = Some v1" "vmm_ok v1" "used_pages v1 = insert p (used_pages v)" "next_search_start v1 = next_search_start v" by auto
  from Cons.IH [OF v1(2)] Cons.prems show ?case using v1 by auto
qed simp

lemma set_pages_free:
  assumes "vmm_ok v" and "\<forall>p \<in> set ps. p < PCIE_VMM_PAGES"
  shows "\<exists>v'. set_pages (\<lambda>i v. if i < PCIE_VMM_PAGES then set_page_free i v else Some v) ps v = Some v' \<and> vmm_ok v' \<and>
    used_pages v' = used_pages v - set ps \<and> next_search_start v' = next_search_start v"
  using assms
proof (induction ps arbitrary: v)
  case (Cons p ps)
  from set_page_free_ok [of v p] Cons.prems obtain v1 where
    v1: "set_page_free p v = Some v1" "vmm_ok v1" "used_pages v1 = used_pages v - {p}" "next_search_start v1 = next_search_start v" by auto
  from Cons.IH [OF v1(2)] Cons.prems show ?case using v1 by auto
qed simp

section \<open>Searching\<close>

abbreviation run_free :: "pcie_vmm \<Rightarrow> nat \<Rightarrow> nat \<Rightarrow> bool" where
  "run_free v start n \<equiv> {start ..< start + n} \<inter> used_pages v = {}"

lemma is_range_free_loop_ok:
  "vmm_ok v \<Longrightarrow> \<forall>i \<in> set is. i < PCIE_VMM_PAGES \<Longrightarrow> is_range_free_loop v is = Some (set is \<inter> used_pages v = {})"
  by (induction "is") (auto simp: is_page_allocated_ok)

lemma is_range_free_ok:
  assumes "vmm_ok v" and "start + n \<le> PCIE_VMM_PAGES"
  shows "is_range_free v start n = Some (run_free v start n)"
proof -
  have "start + n < usize_bound" using assms(2) by (simp add: vmm_consts usize_bound_def)
  then show ?thesis using assms is_range_free_loop_ok [of v "[start ..< start + n]"] by (simp add: is_range_free_def)
qed

lemma find_start_ok:
  "vmm_ok v \<Longrightarrow> \<forall>st \<in> set sts. st + n \<le> PCIE_VMM_PAGES \<Longrightarrow>
    find_start v n sts = Some (List.find (\<lambda>st. run_free v st n) sts)"
  by (induction sts) (auto simp: is_range_free_ok)

lemma find_SomeD: "List.find P xs = Some x \<Longrightarrow> P x \<and> x \<in> set xs"
  by (auto simp: find_Some_iff)

lemma find_NoneD: "List.find P xs = None \<Longrightarrow> x \<in> set xs \<Longrightarrow> \<not> P x"
  by (auto simp: find_None_iff)

lemma find_free_pages_ok:
  assumes ok: "vmm_ok v"
  shows "\<exists>r. find_free_pages v n = Some r \<and> (case r of
      Some st \<Rightarrow> st + n \<le> PCIE_VMM_PAGES \<and> run_free v st n
    | None \<Rightarrow> \<forall>st. st + n \<le> PCIE_VMM_PAGES \<longrightarrow> \<not> run_free v st n)"
proof (cases "n \<le> PCIE_VMM_PAGES")
  case False
  then show ?thesis by (simp add: find_free_pages_def)
next
  case True
  let ?N = "PCIE_VMM_PAGES - n + 1"
  let ?f = "\<lambda>st. run_free v st n"
  let ?a = "List.find ?f [next_search_start v ..< ?N]"
  let ?b = "List.find ?f [0 ..< min (next_search_start v) ?N]"
  have le: "st + n \<le> PCIE_VMM_PAGES \<longleftrightarrow> st < ?N" for st using True by auto
  have "find_start v n [next_search_start v ..< ?N] = Some ?a" "find_start v n [0 ..< min (next_search_start v) ?N] = Some ?b"
    using find_start_ok [OF ok] le by auto
  then have r: "find_free_pages v n = Some (case ?a of Some st \<Rightarrow> Some st | None \<Rightarrow> ?b)"
    using True by (simp add: find_free_pages_def not_less split: option.splits)
  show ?thesis
  proof (cases ?a)
    case (Some st)
    from find_SomeD [OF this] have "run_free v st n" "st < ?N" by auto
    then show ?thesis using r Some le [of st] by simp
  next
    case None
    have no: "\<not> ?f st" if "next_search_start v \<le> st" "st < ?N" for st 
      by (rule find_NoneD [OF None]) (use that in \<open>simp only: set_upt atLeastLessThan_iff\<close>)
    show ?thesis
    proof (cases ?b)
      case b: (Some st)
      from find_SomeD [OF this] have "run_free v st n" "st < ?N" by auto
      then show ?thesis using r None b le [of st] by simp
    next
      case b: None
      have "\<not> ?f st" if "st < next_search_start v" "st < ?N" for st 
        by (rule find_NoneD [OF b]) (use that in \<open>simp only: set_upt atLeastLessThan_iff min_less_iff_conj simp_thms le0\<close>)
      then have "\<not> ?f st" if "st < ?N" for st using no that by (meson not_le)
      then show ?thesis using r None b unfolding le by simp
    qed
  qed
qed

section \<open>Mapping\<close>

text \<open>Page \<open>p\<close> of the region, and where page \<open>i\<close> of a BAR lies in physical memory.\<close>

definition page_addr :: "nat \<Rightarrow> addr" where
  "page_addr p = PCIE_VMM_START + p * 4096"

lemma page_addr_inj [simp]: "page_addr p = page_addr q \<longleftrightarrow> p = q"
  by (simp add: page_addr_def)

lemma page_addr_ok:
  assumes "p < PCIE_VMM_PAGES"
  shows "virt_addr_new (page_addr p) = Some (page_addr p)" and "page_addr p < usize_bound" and "align_down (page_addr p) 4096 = page_addr p"
  using assms by (simp_all add: page_addr_def PCIE_VMM_START_def virt_addr_new_def vmm_consts usize_bound_def)

lemma align_down_add: "align_down (a + i * 4096) 4096 = align_down a 4096 + i * 4096"
  by (simp add: align_down_def)

lemma vmm_map_pages_at:
  assumes sp: "mapper_spec mm xlate" and d: "distinct is" and r: "\<forall>i \<in> set is. va + i * 4096 < usize_bound \<and> virt_addr_new (va + i * 4096) = Some (va + i * 4096) \<and> phys + i * 4096 < 2 ^ 52"
    and al: "align_down va 4096 = va"
  shows "\<exists>e k'. vmm_map_pages mm va phys pf is k = Some (e, k') \<and>
    (\<forall>q. q \<notin> (\<lambda>i. va + i * 4096) ` set is \<longrightarrow> xlate k' q = xlate k q) \<and>
    (if e = None
     then \<forall>i \<in> set is. xlate k (va + i * 4096) = None \<and> xlate k' (va + i * 4096) = Some (align_down phys 4096 + i * 4096)
     else e = Some EcamMappingFailed \<and> dom (xlate k) \<subseteq> dom (xlate k'))"
  using d r
proof (induction "is" arbitrary: k)
  case (Cons i "is")
  have i: "phys + i * 4096 < 2 ^ 52" and pa: "virt_addr_new (va + i * 4096) = Some (va + i * 4096)" "va + i * 4096 < usize_bound"
    "align_down (va + i * 4096) 4096 = va + i * 4096"
    using Cons.prems(2) al by (auto simp: align_down_add)
  have ar: "usize_mul i PAGE_SIZE = Some (i * 4096)" "usize_add va (i * 4096) = Some (va + i * 4096)"
    "usize_add phys (i * 4096) = Some (phys + i * 4096)" "phys_addr_new (phys + i * 4096) = Some (phys + i * 4096)"
    using i pa(2) by (simp_all add: usize_bound_def PAGE_SIZE_def phys_addr_new_def)
  let ?f = "align_down phys 4096 + i * 4096"
  obtain r k1 where m: "mm_map_to mm k (va + i * 4096) ?f (bar_flags pf) = Some (r, k1)"
      "if r = None then xlate k (va + i * 4096) = None \<and> xlate k1 = (xlate k)(va + i * 4096 \<mapsto> ?f) else xlate k1 = xlate k"
    using mapper_specD(3) [OF sp] by blast
  have step: "vmm_map_pages mm va phys pf (i # is) k =
      (case r of Some e \<Rightarrow> Some (Some EcamMappingFailed, k1) | None \<Rightarrow> vmm_map_pages mm va phys pf is k1)"
    using ar pa m(1) by (simp add: align_down_add split: option.split)
  show ?case
  proof (cases r)
    case (Some e)
    then show ?thesis using step m(2) by simp
  next
    case None
    from Cons.IH [of k1] Cons.prems obtain e k' where ih: "vmm_map_pages mm va phys pf is k1 = Some (e, k')"
      "\<forall>q. q \<notin> (\<lambda>i. va + i * 4096) ` set is \<longrightarrow> xlate k' q = xlate k1 q"
      "if e = None
       then \<forall>i \<in> set is. xlate k1 (va + i * 4096) = None \<and> xlate k' (va + i * 4096) = Some (align_down phys 4096 + i * 4096)
       else e = Some EcamMappingFailed \<and> dom (xlate k1) \<subseteq> dom (xlate k')" by auto
    have x: "xlate k (va + i * 4096) = None" "xlate k1 = (xlate k)(va + i * 4096 \<mapsto> ?f)" using m(2) None by auto
    have ni: "va + i * 4096 \<notin> (\<lambda>i. va + i * 4096) ` set is" using Cons.prems(1) by auto
    show ?thesis
    proof (cases e)
      case e: None
      have "xlate k' (va + i * 4096) = Some ?f" using ih(2) ni x(2) by simp
      moreover have "xlate k1 (va + j * 4096) = xlate k (va + j * 4096)" if "j \<in> set is" for j
        using that Cons.prems(1) x(2) by auto
      ultimately show ?thesis using step None ih e x by (intro exI [of _ e] exI [of _ k']) auto
    next
      case e: (Some x')
      then have "e = Some EcamMappingFailed" "dom (xlate k) \<subseteq> dom (xlate k')" using ih(3) x(2) by auto
      moreover have "\<forall>q. q \<notin> (\<lambda>i. va + i * 4096) ` set (i # is) \<longrightarrow> xlate k' q = xlate k q" using ih(2) x(2) by auto
      ultimately show ?thesis using step None ih(1) by (intro exI [of _ e] exI [of _ k']) simp
    qed
  qed
qed simp

lemma vmm_map_pages_ok:
  assumes sp: "mapper_spec mm xlate" and d: "distinct is" and r: "\<forall>i \<in> set is. st + i < PCIE_VMM_PAGES \<and> phys + i * 4096 < 2 ^ 52"
  shows "\<exists>e k'. vmm_map_pages mm (page_addr st) phys pf is k = Some (e, k') \<and>
    (\<forall>q. q \<notin> (\<lambda>i. page_addr (st + i)) ` set is \<longrightarrow> xlate k' q = xlate k q) \<and>
    (if e = None
     then \<forall>i \<in> set is. xlate k (page_addr (st + i)) = None \<and> xlate k' (page_addr (st + i)) = Some (align_down phys 4096 + i * 4096)
     else e = Some EcamMappingFailed \<and> dom (xlate k) \<subseteq> dom (xlate k'))"
proof -
  have e: "page_addr st + i * 4096 = page_addr (st + i)" for i by (simp add: page_addr_def add_mult_distrib)
  show ?thesis
  proof (cases "is")
    case (Cons i "is'")
    then have "st < PCIE_VMM_PAGES" using r by auto
    moreover have "\<forall>i \<in> set is. page_addr (st + i) < usize_bound \<and> virt_addr_new (page_addr (st + i)) = Some (page_addr (st + i)) \<and> phys + i * 4096 < 2 ^ 52"
      using r page_addr_ok by blast
    ultimately show ?thesis using vmm_map_pages_at [OF sp d, of "page_addr st" phys pf k] page_addr_ok(3) unfolding e by blast
  qed simp
qed

lemma vmm_unmap_pages_ok:
  assumes sp: "mapper_spec mm xlate" and d: "distinct is" and r: "\<forall>i \<in> set is. st + i < PCIE_VMM_PAGES \<and> xlate k (page_addr (st + i)) \<noteq> None"
  shows "\<exists>k'. vmm_unmap_pages mm (page_addr st) is k = Some (None, k') \<and>
    (\<forall>q. xlate k' q = (if q \<in> (\<lambda>i. page_addr (st + i)) ` set is then None else xlate k q))"
  using d r
proof (induction "is" arbitrary: k)
  case (Cons i "is")
  have i: "st + i < PCIE_VMM_PAGES" using Cons.prems(2) by auto
  note pa = page_addr_ok [OF i(1)]
  have e: "page_addr st + i * 4096 = page_addr (st + i)" by (simp add: page_addr_def add_mult_distrib)
  have ar: "usize_mul i PAGE_SIZE = Some (i * 4096)" "usize_add (page_addr st) (i * 4096) = Some (page_addr (st + i))"
    using i pa(2) e by (simp_all add: usize_bound_def vmm_consts)
  obtain k1 where m: "mm_unmap mm k (page_addr (st + i)) = Some (xlate k (page_addr (st + i)), k1)"
      "xlate k1 = (xlate k)(page_addr (st + i) := None)"
    using mapper_specD(4) [OF sp] by blast
  obtain f where f: "xlate k (page_addr (st + i)) = Some f" using Cons.prems(2) by auto
  have step: "vmm_unmap_pages mm (page_addr st) (i # is) k = vmm_unmap_pages mm (page_addr st) is k1"
    using ar pa m(1) f by simp
  have "\<forall>j \<in> set is. st + j < PCIE_VMM_PAGES \<and> xlate k1 (page_addr (st + j)) \<noteq> None" using Cons.prems m(2) by auto
  then obtain k' where ih: "vmm_unmap_pages mm (page_addr st) is k1 = Some (None, k')"
    "\<forall>q. xlate k' q = (if q \<in> (\<lambda>i. page_addr (st + i)) ` set is then None else xlate k1 q)"
    using Cons.IH [of k1] Cons.prems(1) by auto
  then show ?case using step m(2) by auto
qed simp

section \<open>Mapping and unmapping a BAR\<close>

abbreviation pages_of :: "nat \<Rightarrow> nat" where
  "pages_of sz \<equiv> div_ceil sz PAGE_SIZE"

lemma pages_of_bounds: "sz \<le> pages_of sz * 4096" "pages_of sz * 4096 < sz + 4096" "0 < sz \<Longrightarrow> 0 < pages_of sz"
proof -
  define q r where "q = sz div 4096" and "r = sz mod 4096"
  have s: "sz = q * 4096 + r" "r < 4096" by (simp_all add: q_def r_def)
  have "pages_of sz = q + (if r > 0 then 1 else 0)" by (simp add: div_ceil_def PAGE_SIZE_def q_def r_def)
  then show "sz \<le> pages_of sz * 4096" "pages_of sz * 4096 < sz + 4096" using s by auto
  then show "0 < sz \<Longrightarrow> 0 < pages_of sz" by (cases "pages_of sz") auto
qed

definition bar_mapped :: "('k \<Rightarrow> addr \<Rightarrow> addr option) \<Rightarrow> addr \<Rightarrow> nat \<Rightarrow> nat \<Rightarrow> 'k \<Rightarrow> 'k \<Rightarrow> bool" where
  "bar_mapped xlate phys n st k k' \<longleftrightarrow>
     (\<forall>i < n. xlate k (page_addr (st + i)) = None \<and> xlate k' (page_addr (st + i)) = Some (align_down phys 4096 + i * 4096)) \<and>
     (\<forall>q. q \<notin> page_addr ` {st ..< st + n} \<longrightarrow> xlate k' q = xlate k q)"

lemma map_memory_bar_ok:
  assumes sp: "mapper_spec mm xlate" and ok: "vmm_ok v" and sz: "0 < sz" "0 < phys" "phys + sz + 4096 \<le> 2 ^ 52"
  shows "\<exists>r v' k'. map_memory_bar mm v phys sz pf k = Some (r, v', k') \<and> vmm_ok v' \<and> (case r of
      Inl e \<Rightarrow> v' = v \<and> dom (xlate k) \<subseteq> dom (xlate k') \<and> (e = AllocationFailed \<or> e = EcamMappingFailed) \<and>
        (e = AllocationFailed \<longleftrightarrow> (\<forall>st. st + pages_of sz \<le> PCIE_VMM_PAGES \<longrightarrow> \<not> run_free v st (pages_of sz)))
    | Inr bar \<Rightarrow> \<exists>st. st + pages_of sz \<le> PCIE_VMM_PAGES \<and> run_free v st (pages_of sz) \<and>
        used_pages v' = used_pages v \<union> {st ..< st + pages_of sz} \<and> bar_mapped xlate phys (pages_of sz) st k k' \<and>
        bar = \<lparr>mb_virtual_address = page_addr st, mb_physical_address = phys, mb_size = sz, mb_prefetchable = pf\<rparr>)"
proof -
  let ?n = "pages_of sz"
  from find_free_pages_ok [OF ok, of ?n] obtain fr where fr: "find_free_pages v ?n = Some fr"
    and fc: "case fr of Some st \<Rightarrow> st + ?n \<le> PCIE_VMM_PAGES \<and> run_free v st ?n
      | None \<Rightarrow> \<forall>st. st + ?n \<le> PCIE_VMM_PAGES \<longrightarrow> \<not> run_free v st ?n" by blast
  show ?thesis
  proof (cases fr)
    case None
    then have "map_memory_bar mm v phys sz pf k = Some (Inl AllocationFailed, v, k)"
      using fr sz by (simp add: map_memory_bar_def Let_def)
    then show ?thesis using None fc ok by simp
  next
    case (Some st)
    then have st: "st + ?n \<le> PCIE_VMM_PAGES" "run_free v st ?n" using fc by auto
    have stP: "st < PCIE_VMM_PAGES" using st(1) pages_of_bounds(3) [OF sz(1)] by simp
    note pa = page_addr_ok [OF stP]
    have b: "base_address v = PCIE_VMM_START" using ok by (simp add: vmm_ok_def)
    have ar: "usize_mul st PAGE_SIZE = Some (st * 4096)" "usize_add (base_address v) (st * 4096) = Some (page_addr st)"
      using stP pa(2) b by (simp_all add: usize_bound_def vmm_consts page_addr_def)
    have rg: "\<forall>i \<in> set [0 ..< ?n]. st + i < PCIE_VMM_PAGES \<and> phys + i * 4096 < 2 ^ 52"
      using st(1) sz(3) pages_of_bounds(2) [of sz] by auto
    have im: "(\<lambda>i. page_addr (st + i)) ` set [0 ..< ?n] = page_addr ` {st ..< st + ?n}"
      unfolding image_image [of page_addr "(+) st", symmetric] set_upt by (simp add: add.commute)
    obtain e k' where m: "vmm_map_pages mm (page_addr st) phys pf [0 ..< ?n] k = Some (e, k')"
      "\<forall>q. q \<notin> page_addr ` {st ..< st + ?n} \<longrightarrow> xlate k' q = xlate k q"
      "if e = None
       then \<forall>i \<in> set [0 ..< ?n]. xlate k (page_addr (st + i)) = None \<and> xlate k' (page_addr (st + i)) = Some (align_down phys 4096 + i * 4096)
       else e = Some EcamMappingFailed \<and> dom (xlate k) \<subseteq> dom (xlate k')"
      using vmm_map_pages_ok [OF sp distinct_upt rg, of pf k] unfolding im by auto
    show ?thesis
    proof (cases e)
      case e: (Some x)
      then have "x = EcamMappingFailed" using m(3) by simp
      then have "map_memory_bar mm v phys sz pf k = Some (Inl EcamMappingFailed, v, k')"
        using fr Some ar pa m(1) e sz by (simp add: map_memory_bar_def Let_def)
      then show ?thesis using ok e m(3) st by auto
    next
      case e: None
      have "\<forall>p \<in> set [st ..< st + ?n]. p < PCIE_VMM_PAGES" using st(1) by auto
      from set_pages_allocated [OF ok this] obtain v1 where
        v1: "set_pages set_page_allocated [st ..< st + ?n] v = Some v1" "vmm_ok v1" "used_pages v1 = used_pages v \<union> {st ..< st + ?n}" by auto
      let ?v = "v1\<lparr>next_search_start := if st + ?n \<ge> PCIE_VMM_PAGES then 0 else st + ?n\<rparr>"
      let ?bar = "\<lparr>mb_virtual_address = page_addr st, mb_physical_address = phys, mb_size = sz, mb_prefetchable = pf\<rparr>"
      have "map_memory_bar mm v phys sz pf k = Some (Inr ?bar, ?v, k')"
        using fr Some ar pa m(1) e sz v1(1) by (simp add: map_memory_bar_def Let_def)
      moreover have "vmm_ok ?v" "used_pages ?v = used_pages v \<union> {st ..< st + ?n}"
        using v1(2,3) by (auto simp: vmm_ok_def used_pages_def vmm_consts)
      moreover have "bar_mapped xlate phys ?n st k k'" using m(2,3) e by (simp add: bar_mapped_def)
      ultimately show ?thesis using st by (intro exI [of _ "Inr ?bar"] exI [of _ ?v] exI [of _ k']) auto
    qed
  qed
qed

text \<open>
  C19: mapping a BAR never panics.  On success its pages are a run that was free and unmapped, they are
  now taken and translate to the consecutive frames of the BAR, and nothing else changes;
  \<^verbatim>\<open>AllocationFailed\<close> is returned exactly when no run of that length is free.
\<close>

theorem map_memory_bar_correct:
  assumes "mapper_spec mm xlate" and "vmm_ok v" and "0 < sz" and "0 < phys" and "phys + sz + 4096 \<le> 2 ^ 52"
  shows "\<exists>r v' k'. map_memory_bar mm v phys sz pf k = Some (r, v', k') \<and> vmm_ok v' \<and> (case r of
      Inl e \<Rightarrow> v' = v \<and>
        (e = AllocationFailed \<longleftrightarrow> (\<forall>st. st + pages_of sz \<le> PCIE_VMM_PAGES \<longrightarrow> \<not> run_free v st (pages_of sz)))
    | Inr bar \<Rightarrow> \<exists>st. st + pages_of sz \<le> PCIE_VMM_PAGES \<and> run_free v st (pages_of sz) \<and>
        used_pages v' = used_pages v \<union> {st ..< st + pages_of sz} \<and> bar_mapped xlate phys (pages_of sz) st k k' \<and>
        mb_virtual_address bar = page_addr st \<and> mb_size bar = sz)"
proof -
  from map_memory_bar_ok [OF assms, of pf k] obtain r v' k' where
    m: "map_memory_bar mm v phys sz pf k = Some (r, v', k')" "vmm_ok v'" and c: "case r of
      Inl e \<Rightarrow> v' = v \<and> dom (xlate k) \<subseteq> dom (xlate k') \<and> (e = AllocationFailed \<or> e = EcamMappingFailed) \<and>
        (e = AllocationFailed \<longleftrightarrow> (\<forall>st. st + pages_of sz \<le> PCIE_VMM_PAGES \<longrightarrow> \<not> run_free v st (pages_of sz)))
    | Inr bar \<Rightarrow> \<exists>st. st + pages_of sz \<le> PCIE_VMM_PAGES \<and> run_free v st (pages_of sz) \<and>
        used_pages v' = used_pages v \<union> {st ..< st + pages_of sz} \<and> bar_mapped xlate phys (pages_of sz) st k k' \<and>
        bar = \<lparr>mb_virtual_address = page_addr st, mb_physical_address = phys, mb_size = sz, mb_prefetchable = pf\<rparr>"
    by (elim exE conjE)
  show ?thesis
  proof (cases r)
    case (Inl e)
    then show ?thesis using m c by (intro exI [of _ r] exI [of _ v'] exI [of _ k']) simp
  next
    case (Inr bar)
    then show ?thesis using m c
      by (intro exI [of _ r] exI [of _ v'] exI [of _ k']) (simp, metis mapped_bar.select_convs(1,3))
  qed
qed

lemma unmap_bar_ok:
  assumes sp: "mapper_spec mm xlate" and ok: "vmm_ok v" and st: "st + pages_of sz \<le> PCIE_VMM_PAGES" "0 < sz"
    and mp: "\<forall>i < pages_of sz. xlate k (page_addr (st + i)) \<noteq> None" and bar: "mb_virtual_address bar = page_addr st" "mb_size bar = sz"
  shows "\<exists>v' k'. unmap_bar mm v bar k = Some (None, v', k') \<and> vmm_ok v' \<and> used_pages v' = used_pages v - {st ..< st + pages_of sz} \<and>
    (\<forall>q. xlate k' q = (if q \<in> page_addr ` {st ..< st + pages_of sz} then None else xlate k q))"
proof -
  let ?n = "pages_of sz"
  have b: "base_address v = PCIE_VMM_START" using ok by (simp add: vmm_ok_def)
  have sub: "usize_sub (page_addr st) (base_address v) = Some (st * 4096)" by (simp add: b page_addr_def)
  have im: "(\<lambda>i. page_addr (st + i)) ` set [0 ..< ?n] = page_addr ` {st ..< st + ?n}"
    unfolding image_image [of page_addr "(+) st", symmetric] set_upt by (simp add: add.commute)
  have "\<forall>i \<in> set [0 ..< ?n]. st + i < PCIE_VMM_PAGES \<and> xlate k (page_addr (st + i)) \<noteq> None" using st mp by auto
  from vmm_unmap_pages_ok [OF sp distinct_upt this] obtain k' where
    u: "vmm_unmap_pages mm (page_addr st) [0 ..< ?n] k = Some (None, k')"
      "\<forall>q. xlate k' q = (if q \<in> page_addr ` {st ..< st + ?n} then None else xlate k q)" unfolding im by blast
  have "\<forall>p \<in> set [st ..< st + ?n]. p < PCIE_VMM_PAGES" using st(1) by auto
  from set_pages_free [OF ok this] obtain v1 where
    v1: "set_pages (\<lambda>i v. if i < PCIE_VMM_PAGES then set_page_free i v else Some v) [st ..< st + ?n] v = Some v1" "vmm_ok v1"
      "used_pages v1 = used_pages v - {st ..< st + ?n}" by auto
  have stP: "st < PCIE_VMM_PAGES" using st pages_of_bounds(3) [of sz] by simp
  let ?v = "if st < next_search_start v1 then v1\<lparr>next_search_start := st\<rparr> else v1"
  have "unmap_bar mm v bar k = Some (None, ?v, k')"
    using sub u(1) v1(1) bar by (simp add: unmap_bar_def Let_def PAGE_SIZE_def)
  moreover have "vmm_ok ?v" "used_pages ?v = used_pages v1" using v1(2) stP by (auto simp: vmm_ok_def used_pages_def)
  ultimately show ?thesis using v1(3) u(2) by auto
qed

text \<open>
  C20: unmapping a BAR that was just mapped succeeds and restores the set of taken pages and every
  translation.
\<close>

theorem map_unmap_bar:
  assumes sp: "mapper_spec mm xlate" and ok: "vmm_ok v" and sz: "0 < sz" "0 < phys" "phys + sz + 4096 \<le> 2 ^ 52"
    and m: "map_memory_bar mm v phys sz pf k = Some (Inr bar, v', k')"
  shows "\<exists>v'' k''. unmap_bar mm v' bar k' = Some (None, v'', k'') \<and> vmm_ok v'' \<and> used_pages v'' = used_pages v \<and> xlate k'' = xlate k"
proof -
  from map_memory_bar_ok [OF sp ok sz, of pf k] m obtain st where
    st: "vmm_ok v'" "st + pages_of sz \<le> PCIE_VMM_PAGES" "run_free v st (pages_of sz)" "used_pages v' = used_pages v \<union> {st ..< st + pages_of sz}"
      "bar_mapped xlate phys (pages_of sz) st k k'" "mb_virtual_address bar = page_addr st" "mb_size bar = sz" by auto
  have mp: "\<forall>i < pages_of sz. xlate k' (page_addr (st + i)) \<noteq> None" using st(5) by (simp add: bar_mapped_def)
  from unmap_bar_ok [OF sp st(1,2) sz(1) mp st(6,7)] obtain v'' k'' where
    u: "unmap_bar mm v' bar k' = Some (None, v'', k'')" "vmm_ok v''" "used_pages v'' = used_pages v' - {st ..< st + pages_of sz}"
      "\<forall>q. xlate k'' q = (if q \<in> page_addr ` {st ..< st + pages_of sz} then None else xlate k' q)" by blast
  have "used_pages v'' = used_pages v" using u(3) st(3,4) by blast
  moreover have "xlate k'' q = xlate k q" for q
  proof (cases "q \<in> page_addr ` {st ..< st + pages_of sz}")
    case True
    then obtain p where p: "q = page_addr p" "st \<le> p" "p < st + pages_of sz" by auto
    then have "xlate k (page_addr (st + (p - st))) = None" using st(5) unfolding bar_mapped_def by (metis add.commute less_diff_conv2)
    then show ?thesis using u(4) True p by simp
  next
    case False
    then show ?thesis using u(4) st(5) by (simp add: bar_mapped_def)
  qed
  ultimately show ?thesis using u(1,2) by blast
qed

text \<open>
  A mapping that fails half-way is never undone: the pages mapped before the failure stay mapped while
  the bitmap calls them free, so the same request fails again, forever.
\<close>

theorem failed_mapping_sticks:
  assumes sp: "mapper_spec mm xlate" and ok: "vmm_ok v" and sz: "0 < sz" "0 < phys" "phys + sz + 4096 \<le> 2 ^ 52"
    and st: "find_free_pages v (pages_of sz) = Some (Some st)" "xlate k (page_addr st) \<noteq> None"
  shows "\<exists>k'. map_memory_bar mm v phys sz pf k = Some (Inl EcamMappingFailed, v, k') \<and> xlate k' (page_addr st) \<noteq> None"
proof -
  have nz: "0 < pages_of sz" by (rule pages_of_bounds(3) [OF sz(1)])
  from find_free_pages_ok [OF ok, of "pages_of sz"] st(1) have f: "st + pages_of sz \<le> PCIE_VMM_PAGES" "run_free v st (pages_of sz)" by auto
  from map_memory_bar_ok [OF sp ok sz, of pf k] obtain r v' k' where
    m: "map_memory_bar mm v phys sz pf k = Some (r, v', k')" and c: "case r of
      Inl e \<Rightarrow> v' = v \<and> dom (xlate k) \<subseteq> dom (xlate k') \<and> (e = AllocationFailed \<or> e = EcamMappingFailed) \<and>
        (e = AllocationFailed \<longleftrightarrow> (\<forall>st. st + pages_of sz \<le> PCIE_VMM_PAGES \<longrightarrow> \<not> run_free v st (pages_of sz)))
    | Inr bar \<Rightarrow> \<exists>st. st + pages_of sz \<le> PCIE_VMM_PAGES \<and> run_free v st (pages_of sz) \<and>
        used_pages v' = used_pages v \<union> {st ..< st + pages_of sz} \<and> bar_mapped xlate phys (pages_of sz) st k k' \<and>
        bar = \<lparr>mb_virtual_address = page_addr st, mb_physical_address = phys, mb_size = sz, mb_prefetchable = pf\<rparr>"
    by (elim exE conjE)
  show ?thesis
  proof (cases r)
    case (Inl e)
    then have "e \<noteq> AllocationFailed" "dom (xlate k) \<subseteq> dom (xlate k')" "v' = v" "e = AllocationFailed \<or> e = EcamMappingFailed" using c f by auto
    moreover have "page_addr st \<in> dom (xlate k)" using st(2) by blast
    ultimately show ?thesis using m Inl by blast
  next
    case (Inr bar)
    then obtain st' where s': "bar_mapped xlate phys (pages_of sz) st' k k'" "mb_virtual_address bar = page_addr st'" using c by auto
    have "map_memory_bar mm v phys sz pf k = Some (Inr bar, v', k')" using m Inr by simp
    then have "mb_virtual_address bar = page_addr st"
      using st(1) sz ok f(1) nz
      by (auto simp: map_memory_bar_def Let_def bind_eq_Some_conv usize_mul_Some_iff usize_add_Some_iff virt_addr_new_def vmm_ok_def
          page_addr_def PAGE_SIZE_def split: option.splits if_splits)
    then have "st' = st" using s'(2) by simp
    then have "xlate k (page_addr (st + 0)) = None" using s'(1) nz unfolding bar_mapped_def by blast
    then show ?thesis using st(2) by simp
  qed
qed

section \<open>Statistics\<close>

lemma card_words:
  "card {p. p < 128 * n \<and> P (p div 128) (p mod 128)} = (\<Sum>i < n. card {b. b < (128::nat) \<and> P i b})"
proof (induction n)
  case (Suc n)
  let ?new = "(\<lambda>b. 128 * n + b) ` {b. b < 128 \<and> P n b}"
  let ?old = "{p. p < 128 * n \<and> P (p div 128) (p mod 128)}"
  have "p \<in> ?old \<union> ?new \<longleftrightarrow> p < 128 * Suc n \<and> P (p div 128) (p mod 128)" for p
  proof (cases "p < 128 * n")
    case True
    then show ?thesis by auto
  next
    case False
    then have "p < 128 * Suc n \<longleftrightarrow> p - 128 * n < 128" "p = 128 * n + (p - 128 * n)" by auto
    moreover have "p div 128 = n \<and> p mod 128 = p - 128 * n" if "p - 128 * n < 128"
      using that False by (metis add_diff_inverse_nat div_mult_self4 div_less mod_mult_self4 mod_less not_less add_0_right zero_neq_numeral)
    ultimately show ?thesis using False by (auto simp: image_iff)
  qed
  then have e: "{p. p < 128 * Suc n \<and> P (p div 128) (p mod 128)} = ?old \<union> ?new" by blast
  have "card (?old \<union> ?new) = card ?old + card ?new" by (rule card_Un_disjoint) auto
  moreover have "card ?new = card {b. b < 128 \<and> P n b}" by (rule card_image) (simp add: inj_on_def)
  ultimately show ?case unfolding e using Suc.IH by simp
qed simp

lemma count_ones_card: "count_ones w = card {b. b < 128 \<and> bit w b}"
proof -
  have "{b. b < 128 \<and> bit w b} = set (filter (bit w) [0 ..< 128])" by auto
  then show ?thesis by (simp only: count_ones_def distinct_card [OF distinct_filter [OF distinct_upt]])
qed

lemma count_allocated_ok:
  assumes "vmm_ok v"
  shows "count_allocated_pages v = Some (card (used_pages v))"
proof -
  let ?xs = "page_bitmap v"
  have len: "length ?xs = 32768" using assms by (simp add: vmm_ok_def vmm_consts)
  have "?xs = take 32767 ?xs @ [?xs ! 32767]" using len take_Suc_conv_app_nth [of 32767 ?xs] by simp
  then have "sum_list (map count_ones (take 32767 ?xs)) + count_ones (?xs ! 32767) = sum_list (map count_ones ?xs)"
    by (metis (no_types, lifting) map_append list.map sum_list_append sum_list.Cons sum_list.Nil add_0_right)
  also have "\<dots> = (\<Sum>i < 32768. count_ones (?xs ! i))" using len by (simp add: sum_list_sum_nth atLeast0LessThan)
  also have "\<dots> = card (used_pages v)"
    using card_words [of 32768 "\<lambda>i b. bit (?xs ! i) b"] by (simp add: count_ones_card used_pages_def vmm_consts)
  finally have "sum_list (map count_ones (take 32767 ?xs)) + count_ones (?xs ! 32767) = card (used_pages v)" .
  then show ?thesis using len by (simp add: count_allocated_pages_def vmm_consts Let_def)
qed

text \<open>
  The statistics never panic, count exactly the taken pages, and taken and free pages add up to the
  whole region.
\<close>

theorem get_stats_correct:
  assumes "vmm_ok v"
  shows "\<exists>st. get_stats v = Some st \<and> vs_allocated_pages st = card (used_pages v) \<and>
    vs_allocated_pages st + vs_free_pages st = vs_total_pages st \<and>
    vs_allocated_size st + vs_free_size st = vs_total_size st"
proof -
  have "used_pages v \<subseteq> {..< PCIE_VMM_PAGES}" by (auto simp: used_pages_def)
  then have le: "card (used_pages v) \<le> 4194304" using card_mono [of "{..< PCIE_VMM_PAGES}"] by (simp add: vmm_consts)
  then have "card (used_pages v) * 4096 < usize_bound" "(4194304 - card (used_pages v)) * 4096 < usize_bound"
    by (simp_all add: usize_bound_def)
  then show ?thesis
    using count_allocated_ok [OF assms] le by (simp add: get_stats_def vmm_consts PCIE_VMM_SIZE_def diff_mult_distrib)
qed

section \<open>Witnesses\<close>

lemma vmm_new_ok: "vmm_ok vmm_new"
  by (simp add: vmm_ok_def vmm_new_def vmm_consts)

lemma vmm_new_unused: "used_pages vmm_new = {}"
  by (auto simp: used_pages_def vmm_new_def vmm_consts)

lemma find_first: "find_free_pages vmm_new 2 = Some (Some 0)"
proof -
  have "is_range_free vmm_new 0 2 = Some True" using is_range_free_ok [OF vmm_new_ok, of 0 2] by (simp add: vmm_new_unused vmm_consts)
  moreover have "[next_search_start vmm_new ..< PCIE_VMM_PAGES - 2 + 1] = 0 # [1 ..< PCIE_VMM_PAGES - 2 + 1]"
    by (simp add: vmm_new_def upt_conv_Cons)
  ultimately show ?thesis unfolding find_free_pages_def by (simp add: vmm_consts)
qed

theorem map_memory_bar_correct_witness:
  "\<exists>r v' k'. map_memory_bar bump_mm vmm_new 0xFEBC0000 8192 False (Map.empty, 0) = Some (r, v', k') \<and> vmm_ok v'"
  using map_memory_bar_correct [OF bump_mm_spec vmm_new_ok, of 8192 "0xFEBC0000" False "(Map.empty, 0)"] by auto

lemma map_empty: "\<exists>bar v' k'. map_memory_bar bump_mm vmm_new 0xFEBC0000 8192 False (Map.empty, 0) = Some (Inr bar, v', k')"
proof -
  have u: "[0 ..< 2] = [0, 1 :: nat]" by (simp add: upt_rec)
  have n: "div_ceil 8192 PAGE_SIZE = 2" by (simp add: div_ceil_def PAGE_SIZE_def)
  have m: "\<exists>k'. vmm_map_pages bump_mm PCIE_VMM_START 0xFEBC0000 False [0 ..< 2] (Map.empty, 0) = Some (None, k')"
    unfolding u by (simp add: bump_mm_def PAGE_SIZE_def PCIE_VMM_START_def usize_bound_def virt_addr_new_def phys_addr_new_def align_down_def)
  have b: "base_address vmm_new = PCIE_VMM_START" by (simp add: vmm_new_def)
  have "\<exists>v'. set_pages set_page_allocated [0 ..< 2] vmm_new = Some v'"
    using set_pages_allocated [OF vmm_new_ok, of "[0 ..< 2]"] by (auto simp: vmm_consts)
  with m obtain v' k' where "vmm_map_pages bump_mm PCIE_VMM_START 0xFEBC0000 False [0 ..< 2] (Map.empty, 0) = Some (None, k')"
    "set_pages set_page_allocated [0 ..< 2] vmm_new = Some v'" by (elim exE)
  then show ?thesis using find_first n
    by (cases k') (simp del: upt_rec_numeral add_2_eq_Suc add_2_eq_Suc' add: map_memory_bar_def Let_def b PCIE_VMM_START_def usize_bound_def virt_addr_new_def)
qed

theorem map_unmap_bar_witness:
  "\<exists>bar v' k' v'' k''. unmap_bar bump_mm v' bar k' = Some (None, v'', k'') \<and> used_pages v'' = {}"
proof -
  from map_empty obtain bar v' k' where "map_memory_bar bump_mm vmm_new 0xFEBC0000 8192 False (Map.empty, 0) = Some (Inr bar, v', k')" by blast
  from map_unmap_bar [OF bump_mm_spec vmm_new_ok _ _ _ this]
  have "\<exists>v'' k''. unmap_bar bump_mm v' bar k' = Some (None, v'', k'') \<and> used_pages v'' = {}" by (auto simp: vmm_new_unused)
  then show ?thesis by (elim exE) (intro exI)
qed

end
