(* ===== verification/Syscall.thy ===== *)
theory Syscall
  imports Scheduler
begin

text \<open>
  \<^verbatim>\<open>kernel/src/syscall.rs\<close>: the entry of the \<^verbatim>\<open>syscall\<close> instruction, its dispatcher and the system calls, with
  the descriptor table of \<^verbatim>\<open>kernel/src/gdt.rs\<close> that the selectors refer to.  The bytes that reach the serial
  line and the screen are the fields of \<open>console\<close>; user memory is a partial function, undefined where no
  page is mapped.
\<close>

section \<open>Selectors\<close>

definition KERNEL_CODE_SEGMENT_INDEX :: u16 where
  "KERNEL_CODE_SEGMENT_INDEX = 1"

definition KERNEL_DATA_SEGMENT_INDEX :: u16 where
  "KERNEL_DATA_SEGMENT_INDEX = 2"

datatype descriptor = NullSegment | KernelCodeSegment | KernelDataSegment | UserCodeSegment | UserDataSegment | TssSegment

text \<open>\<^verbatim>\<open>GDT\<close>: the table starts with the null descriptor, \<^verbatim>\<open>append\<close> adds at its end.\<close>

definition GDT :: "descriptor list" where
  "GDT = [NullSegment, KernelCodeSegment, KernelDataSegment, UserCodeSegment, UserDataSegment, TssSegment]"

text \<open>The layout of a selector: the index in the table and the privilege level in the two lowest bits.\<close>

definition segment_selector :: "u16 \<Rightarrow> u16 \<Rightarrow> u16" where
  "segment_selector index rpl = push_bit 3 index OR rpl"

definition selected :: "u16 \<Rightarrow> descriptor rust" where
  "selected sel = vec_get GDT (unat (drop_bit 3 sel))"

record msrs =
  ms_syscall_enabled :: bool
  ms_star :: u64
  ms_lstar :: addr
  ms_sfmask :: u64

text \<open>
  \<^verbatim>\<open>Star::write\<close> of the \<^verbatim>\<open>x86_64\<close> crate is the parameter \<open>star_write\<close>; \<^verbatim>\<open>0x200\<close> is the interrupt flag.
\<close>

definition init_syscall :: "(u16 \<Rightarrow> u16 \<Rightarrow> u16 \<Rightarrow> u16 \<Rightarrow> u64 option) \<Rightarrow> addr \<Rightarrow> msrs rust" where
  "init_syscall star_write handler = (
     let kernel_cs = segment_selector KERNEL_CODE_SEGMENT_INDEX 0;
       kernel_ss = segment_selector KERNEL_DATA_SEGMENT_INDEX 0;
       user_cs_32 = segment_selector USER_DATA_SEGMENT_INDEX 3;
       user_cs = segment_selector USER_CODE_SEGMENT_INDEX 3
     in do {
       star \<leftarrow> star_write user_cs_32 user_cs kernel_cs kernel_ss;
       lstar \<leftarrow> virt_addr_new handler;
       Some \<lparr>ms_syscall_enabled = True, ms_star = star, ms_lstar = lstar, ms_sfmask = 0x200\<rparr>
     })"

section \<open>Strings\<close>

text \<open>
  \<^verbatim>\<open>core::str::from_utf8\<close>, which accepts exactly the byte sequences of well-formed UTF-8: no overlong forms, no
  surrogates, nothing above \<^verbatim>\<open>U+10FFFF\<close>.
\<close>

definition utf8_cont :: "u8 \<Rightarrow> bool" where
  "utf8_cont b \<longleftrightarrow> 0x80 \<le> b \<and> b \<le> 0xBF"

definition utf8_second3 :: "u8 \<Rightarrow> u8 \<Rightarrow> bool" where
  "utf8_second3 b c \<longleftrightarrow> utf8_cont c \<and> (b = 0xE0 \<longrightarrow> 0xA0 \<le> c) \<and> (b = 0xED \<longrightarrow> c \<le> 0x9F)"

definition utf8_second4 :: "u8 \<Rightarrow> u8 \<Rightarrow> bool" where
  "utf8_second4 b c \<longleftrightarrow> utf8_cont c \<and> (b = 0xF0 \<longrightarrow> 0x90 \<le> c) \<and> (b = 0xF4 \<longrightarrow> c \<le> 0x8F)"

fun from_utf8 :: "u8 list \<Rightarrow> bool" where
  "from_utf8 [] = True"
| "from_utf8 (b # bs) =
     (if b < 0x80 then from_utf8 bs
      else if 0xC2 \<le> b \<and> b \<le> 0xDF then
        (case bs of c # bs \<Rightarrow> utf8_cont c \<and> from_utf8 bs | _ \<Rightarrow> False)
      else if 0xE0 \<le> b \<and> b \<le> 0xEF then
        (case bs of c # d # bs \<Rightarrow> utf8_second3 b c \<and> utf8_cont d \<and> from_utf8 bs | _ \<Rightarrow> False)
      else if 0xF0 \<le> b \<and> b \<le> 0xF4 then
        (case bs of c # d # e # bs \<Rightarrow> utf8_second4 b c \<and> utf8_cont d \<and> utf8_cont e \<and> from_utf8 bs | _ \<Rightarrow> False)
      else False)"

section \<open>The system calls\<close>

record console =
  con_serial :: "u8 list"
  con_screen :: "u8 list"

record syscall_regs =
  sr_r15 :: u64
  sr_r14 :: u64
  sr_r13 :: u64
  sr_r12 :: u64
  sr_rbp :: u64
  sr_rbx :: u64
  sr_r9 :: u64
  sr_r8 :: u64
  sr_r10 :: u64
  sr_rdx :: u64
  sr_rsi :: u64
  sr_rdi :: u64
  sr_rax :: u64
  sr_rip :: u64
  sr_rflags :: u64
  sr_rsp :: u64

datatype syscall_number = Exit | Write | Read

definition syscall_from_u64 :: "u64 \<Rightarrow> syscall_number option" where
  "syscall_from_u64 n =
     (if n = 0 then Some Exit else if n = 1 then Some Write else if n = 2 then Some Read else None)"

definition USER_LIMIT :: nat where
  "USER_LIMIT = 0x0000800000000000"

definition saturating_add :: "nat \<Rightarrow> nat \<Rightarrow> nat" where
  "saturating_add a b = min (a + b) (usize_bound - 1)"

text \<open>A read of an unmapped page in kernel mode ends in \<^verbatim>\<open>page_fault_handler\<close>, which panics.\<close>

definition read_user :: "(addr \<Rightarrow> u8 option) \<Rightarrow> addr \<Rightarrow> nat \<Rightarrow> u8 list rust" where
  "read_user mem buf count = those (map mem [buf ..< buf + count])"

definition sys_write :: "(addr \<Rightarrow> u8 option) \<Rightarrow> u32 \<Rightarrow> addr \<Rightarrow> nat \<Rightarrow> console \<Rightarrow> (u64 \<times> console) rust" where
  "sys_write mem fd buf count con =
     (if fd \<noteq> 1 \<and> fd \<noteq> 2 then Some (- 1, con)
      else if buf \<ge> USER_LIMIT \<or> saturating_add buf count \<ge> USER_LIMIT then Some (- 1, con)
      else if count = 0 then Some (0, con)
      else do {
        slice \<leftarrow> read_user mem buf count;
        if \<not> from_utf8 slice then Some (- 1, con)
        else do {
          let con = con\<lparr>con_serial := con_serial con @ slice\<rparr>;
          let con = (if fd = 1 then con\<lparr>con_screen := con_screen con @ slice\<rparr> else con);
          Some (of_nat count, con)
        }
      })"

text \<open>
  \<^verbatim>\<open>sys_exit\<close> does not return: the scheduler leaves the registers of the next task behind.
\<close>

datatype syscall_result = Returns u64 | Switches task_registers

definition sys_exit :: "'k machine \<Rightarrow> task_registers \<Rightarrow> 'k kernel \<Rightarrow> (syscall_result \<times> 'k kernel) rust" where
  "sys_exit mach context s = do {
     (regs, s) \<leftarrow> exit_task mach context s;
     Some (Switches regs, s)
   }"

definition handle_syscall ::
  "'k machine \<Rightarrow> (addr \<Rightarrow> u8 option) \<Rightarrow> task_registers \<Rightarrow> syscall_regs \<Rightarrow> console \<Rightarrow> 'k kernel
    \<Rightarrow> (syscall_result \<times> console \<times> 'k kernel) rust" where
  "handle_syscall mach mem context regs con s = (case syscall_from_u64 (sr_rax regs) of
     None \<Rightarrow> Some (Returns (- 1), con, s)
   | Some Exit \<Rightarrow> do {
       (r, s) \<leftarrow> sys_exit mach context s;
       Some (r, con, s)
     }
   | Some Write \<Rightarrow> do {
       (v, con) \<leftarrow> sys_write mem (ucast (sr_rdi regs)) (unat (sr_rsi regs)) (unat (sr_rdx regs)) con;
       Some (Returns v, con, s)
     }
   | Some Read \<Rightarrow> None)"

section \<open>The entry\<close>

text \<open>
  The registers of the interrupted program.  \<^verbatim>\<open>syscall\<close> saves \<^verbatim>\<open>rip\<close> in \<^verbatim>\<open>rcx\<close> and \<^verbatim>\<open>rflags\<close> in \<^verbatim>\<open>r11\<close>; \<^verbatim>\<open>sysretq\<close>
  restores them from there, forcing the reserved bits of \<^verbatim>\<open>rflags\<close>.
\<close>

record cpu =
  cp_rax :: u64
  cp_rbx :: u64
  cp_rcx :: u64
  cp_rdx :: u64
  cp_rsi :: u64
  cp_rdi :: u64
  cp_rbp :: u64
  cp_rsp :: u64
  cp_r8 :: u64
  cp_r9 :: u64
  cp_r10 :: u64
  cp_r11 :: u64
  cp_r12 :: u64
  cp_r13 :: u64
  cp_r14 :: u64
  cp_r15 :: u64
  cp_rip :: u64
  cp_rflags :: u64

definition syscall_insn :: "cpu \<Rightarrow> cpu" where
  "syscall_insn c = c\<lparr>cp_rcx := cp_rip c, cp_r11 := cp_rflags c\<rparr>"

definition sysretq_insn :: "cpu \<Rightarrow> cpu" where
  "sysretq_insn c = c\<lparr>cp_rip := cp_rcx c, cp_rflags := (cp_r11 c AND 0x3C7FD7) OR 2\<rparr>"

definition sysretq_cs :: "u64 \<Rightarrow> u16" where
  "sysretq_cs star = (ucast (drop_bit 48 star) + 16) OR 3"

definition sysretq_ss :: "u64 \<Rightarrow> u16" where
  "sysretq_ss star = (ucast (drop_bit 48 star) + 8) OR 3"

text \<open>The pushes of \<^verbatim>\<open>syscall_handler\<close> on the kernel stack, and the structure that \<^verbatim>\<open>handle_syscall\<close> sees there.\<close>

definition syscall_entry :: "cpu \<Rightarrow> u64 list \<Rightarrow> u64 list" where
  "syscall_entry c st = push_all
     [cp_rsp c, cp_r11 c, cp_rcx c, cp_rax c, cp_rdi c, cp_rsi c, cp_rdx c, cp_r10 c, cp_r8 c, cp_r9 c,
      cp_rbx c, cp_rbp c, cp_r12 c, cp_r13 c, cp_r14 c, cp_r15 c] st"

definition read_syscall_regs :: "u64 list \<Rightarrow> syscall_regs" where
  "read_syscall_regs st = \<lparr>sr_r15 = st ! 0, sr_r14 = st ! 1, sr_r13 = st ! 2, sr_r12 = st ! 3, sr_rbp = st ! 4,
     sr_rbx = st ! 5, sr_r9 = st ! 6, sr_r8 = st ! 7, sr_r10 = st ! 8, sr_rdx = st ! 9, sr_rsi = st ! 10,
     sr_rdi = st ! 11, sr_rax = st ! 12, sr_rip = st ! 13, sr_rflags = st ! 14, sr_rsp = st ! 15\<rparr>"

text \<open>The pops, from the registers \<open>c\<close> that the call left behind; \<^verbatim>\<open>add rsp, 8\<close> drops the saved \<^verbatim>\<open>rax\<close>.\<close>

definition syscall_exit :: "cpu \<Rightarrow> u64 list \<Rightarrow> (cpu \<times> u64 list) option" where
  "syscall_exit c st = (case st of
     r15 # r14 # r13 # r12 # rbp # rbx # r9 # r8 # r10 # rdx # rsi # rdi # _ # rcx # r11 # rsp # st \<Rightarrow>
       Some (sysretq_insn (c\<lparr>cp_r15 := r15, cp_r14 := r14, cp_r13 := r13, cp_r12 := r12, cp_rbp := rbp, cp_rbx := rbx,
         cp_r9 := r9, cp_r8 := r8, cp_r10 := r10, cp_rdx := rdx, cp_rsi := rsi, cp_rdi := rdi, cp_rcx := rcx,
         cp_r11 := r11, cp_rsp := rsp\<rparr>), st)
   | _ \<Rightarrow> None)"

text \<open>
  The whole call.  \<open>junk\<close> stands for what the compiled dispatcher leaves in the registers that its calling
  convention does not preserve.
\<close>

definition syscall_handler ::
  "'k machine \<Rightarrow> (addr \<Rightarrow> u8 option) \<Rightarrow> task_registers \<Rightarrow> cpu \<Rightarrow> cpu \<Rightarrow> u64 list \<Rightarrow> console \<Rightarrow> 'k kernel
    \<Rightarrow> ((task_registers + cpu \<times> u64 list) \<times> console \<times> 'k kernel) rust" where
  "syscall_handler mach mem context junk c st con s = do {
     let st = syscall_entry (syscall_insn c) st;
     (r, con, s) \<leftarrow> handle_syscall mach mem context (read_syscall_regs st) con s;
     case r of
       Switches regs \<Rightarrow> Some (Inl regs, con, s)
     | Returns v \<Rightarrow> do {
         ret \<leftarrow> syscall_exit (junk\<lparr>cp_rax := v\<rparr>) st;
         Some (Inr ret, con, s)
       }
   }"


section \<open>Well-formed UTF-8\<close>

text \<open>The scalar values and their encoding in one to four bytes.\<close>

definition utf8_scalar :: "nat \<Rightarrow> bool" where
  "utf8_scalar c \<longleftrightarrow> c < 0xD800 \<or> 0xE000 \<le> c \<and> c < 0x110000"

definition utf8_encode :: "nat \<Rightarrow> u8 list" where
  "utf8_encode c = map of_nat
     (if c < 0x80 then [c]
      else if c < 0x800 then [0xC0 + c div 64, 0x80 + c mod 64]
      else if c < 0x10000 then [0xE0 + c div 4096, 0x80 + c div 64 mod 64, 0x80 + c mod 64]
      else [0xF0 + c div 262144, 0x80 + c div 4096 mod 64, 0x80 + c div 64 mod 64, 0x80 + c mod 64])"

lemmas utf8_bytes = utf8_cont_def utf8_second3_def utf8_second4_def word_le_nat_alt word_less_nat_alt
  unat_of_nat word_unat_eq_iff

lemma unat_byte: "n < 256 \<Longrightarrow> unat (of_nat n :: u8) = n"
  by (simp add: unat_of_nat)

lemma from_utf8_width:
  "unat b < 0x80 \<Longrightarrow> from_utf8 (b # bs) = from_utf8 bs"
  "0xC2 \<le> unat b \<Longrightarrow> unat b \<le> 0xDF \<Longrightarrow> from_utf8 (b # c # bs) = (utf8_cont c \<and> from_utf8 bs)"
  "0xE0 \<le> unat b \<Longrightarrow> unat b \<le> 0xEF \<Longrightarrow>
    from_utf8 (b # c # d # bs) = (utf8_second3 b c \<and> utf8_cont d \<and> from_utf8 bs)"
  "0xF0 \<le> unat b \<Longrightarrow> unat b \<le> 0xF4 \<Longrightarrow>
    from_utf8 (b # c # d # e # bs) = (utf8_second4 b c \<and> utf8_cont d \<and> utf8_cont e \<and> from_utf8 bs)"
  by (simp_all add: word_le_nat_alt word_less_nat_alt)

lemma from_utf8_encode:
  assumes "utf8_scalar c"
  shows "from_utf8 (utf8_encode c @ bs) = from_utf8 bs"
proof -
  define x y z where d: "x = c div 4096 mod 64" "y = c div 64 mod 64" "z = c mod 64"
  have b: "x < 64" "y < 64" "z < 64" by (simp_all add: d)
  have two: "c = 64 * (c div 64) + z" by (simp add: d)
  have three: "c = 4096 * (c div 4096) + 64 * y + z"
    using div_mult_mod_eq [of "c div 64" 64] div_mult_mod_eq [of c 64] div_mult2_eq [of c 64 64, simplified]
    unfolding d by linarith
  have four: "c = 262144 * (c div 262144) + 4096 * x + 64 * y + z"
    using div_mult_mod_eq [of "c div 4096" 64] three div_mult2_eq [of c 4096 64, simplified] unfolding d by linarith
  define tail :: "nat \<Rightarrow> u8" where "tail n = of_nat (0x80 + n)" for n
  have t: "unat (tail n) = 0x80 + n" if "n < 64" for n using that unfolding tail_def by (subst unat_byte) simp_all
  consider "c < 0x80" | "0x80 \<le> c" "c < 0x800" | "0x800 \<le> c" "c < 0x10000" | "0x10000 \<le> c" by linarith
  then show ?thesis
  proof cases
    case 1
    then show ?thesis by (simp add: utf8_encode_def from_utf8_width(1) unat_byte del: from_utf8.simps)
  next
    case 2
    define h :: u8 where "h = of_nat (0xC0 + c div 64)"
    have "unat h = 0xC0 + c div 64" "2 \<le> c div 64" "c div 64 < 32" using 2 unfolding h_def by (simp_all only: unat_byte)
    moreover have "utf8_encode c = [h, tail z]" using 2 by (simp add: utf8_encode_def h_def tail_def d)
    ultimately show ?thesis using b t by (simp add: from_utf8_width(2) utf8_bytes del: from_utf8.simps)
  next
    case 3
    define h :: u8 where "h = of_nat (0xE0 + c div 4096)"
    have "c div 4096 < 16" using 3 three by linarith
    moreover from this have "unat h = 0xE0 + c div 4096" unfolding h_def by (subst unat_byte) simp_all
    moreover have "utf8_encode c = [h, tail y, tail z]" using 3 by (simp add: utf8_encode_def h_def tail_def d)
    ultimately show ?thesis using b t three 3 assms
      by (auto simp: from_utf8_width(3) utf8_bytes utf8_scalar_def simp del: from_utf8.simps)
  next
    case 4
    define h :: u8 where "h = of_nat (0xF0 + c div 262144)"
    have "c div 262144 < 5" using four assms unfolding utf8_scalar_def by linarith
    moreover from this have "unat h = 0xF0 + c div 262144" unfolding h_def by (subst unat_byte) simp_all
    moreover have "utf8_encode c = [h, tail x, tail y, tail z]" using 4 by (simp add: utf8_encode_def h_def tail_def d)
    ultimately show ?thesis using b t four 4 assms
      by (auto simp: from_utf8_width(4) utf8_bytes utf8_scalar_def simp del: from_utf8.simps)
  qed
qed

lemma utf8_encode_digits:
  assumes "y < 64" "z < 64"
  shows "w < 0x80 \<Longrightarrow> utf8_encode w = [of_nat w]"
    "2 \<le> w \<Longrightarrow> w < 32 \<Longrightarrow> utf8_encode (64 * w + z) = [of_nat (0xC0 + w), of_nat (0x80 + z)]"
    "0x800 \<le> 4096 * w + 64 * y \<Longrightarrow> w < 16 \<Longrightarrow>
      utf8_encode (4096 * w + 64 * y + z) = [of_nat (0xE0 + w), of_nat (0x80 + y), of_nat (0x80 + z)]"
    "x < 64 \<Longrightarrow> 0x10000 \<le> 262144 * w + 4096 * x \<Longrightarrow>
      utf8_encode (262144 * w + 4096 * x + 64 * y + z) =
        [of_nat (0xF0 + w), of_nat (0x80 + x), of_nat (0x80 + y), of_nat (0x80 + z)]"
proof -
  show "w < 0x80 \<Longrightarrow> utf8_encode w = [of_nat w]" by (simp add: utf8_encode_def)
  show "2 \<le> w \<Longrightarrow> w < 32 \<Longrightarrow> utf8_encode (64 * w + z) = [of_nat (0xC0 + w), of_nat (0x80 + z)]"
    using assms by (simp add: utf8_encode_def)
  have m: "(4096 * v + 64 * u + t) mod 64 = t" if "t < 64" for t u v :: nat
  proof -
    have "4096 * v + 64 * u + t = 64 * (64 * v + u) + t" by simp
    then show ?thesis using that by (metis mod_mult_self4 mod_less)
  qed
  have 3: "(4096 * v + 64 * y + z) div 64 = 64 * v + y" "(4096 * v + 64 * y + z) div 4096 = v" for v
    using assms by linarith+
  from m [OF assms(2)] this show "0x800 \<le> 4096 * w + 64 * y \<Longrightarrow> w < 16 \<Longrightarrow>
      utf8_encode (4096 * w + 64 * y + z) = [of_nat (0xE0 + w), of_nat (0x80 + y), of_nat (0x80 + z)]"
    using assms by (simp add: utf8_encode_def)
  have "262144 * w + 4096 * x + 64 * y + z = 4096 * (64 * w + x) + 64 * y + z" by simp
  then show "x < 64 \<Longrightarrow> 0x10000 \<le> 262144 * w + 4096 * x \<Longrightarrow>
      utf8_encode (262144 * w + 4096 * x + 64 * y + z) =
        [of_nat (0xF0 + w), of_nat (0x80 + x), of_nat (0x80 + y), of_nat (0x80 + z)]"
    using assms 3 [of "64 * w + x"] m [of z "64 * w + x" y] m [of y w x] by (simp add: utf8_encode_def div_mult2_eq [of _ 4096 64, simplified])
qed


lemma from_utf8_decode: "from_utf8 bs \<Longrightarrow> \<exists>cs. (\<forall>c \<in> set cs. utf8_scalar c) \<and> bs = concat (map utf8_encode cs)"
proof (induction "length bs" arbitrary: bs rule: less_induct)
  case less
  have step: ?case if "bs = utf8_encode c @ r" "utf8_scalar c" "utf8_encode c \<noteq> []" "from_utf8 r" for c r
  proof -
    from less.hyps [of r] that obtain cs where "\<forall>c \<in> set cs. utf8_scalar c" "r = concat (map utf8_encode cs)" by auto
    then have "(\<forall>d \<in> set (c # cs). utf8_scalar d) \<and> bs = concat (map utf8_encode (c # cs))" using that by simp
    then show ?thesis by blast
  qed
  show ?case
  proof (cases bs)
    case Nil
    then have "(\<forall>c \<in> set []. utf8_scalar c) \<and> bs = concat (map utf8_encode [])" by simp
    then show ?thesis by blast
  next
    case b: (Cons b r1)
    have [simp]: "word_of_nat (unat x) = x" "of_nat (unat x - k + k) = x" if "k \<le> unat x" for x :: u8 and k using that by simp_all
    consider (1) "b < 0x80" | (2) c r where "0xC2 \<le> b" "b \<le> 0xDF" "r1 = c # r" "utf8_cont c" "from_utf8 r"
      | (3) c d r where "0xE0 \<le> b" "b \<le> 0xEF" "r1 = c # d # r" "utf8_second3 b c" "utf8_cont d" "from_utf8 r"
      | (4) c d e r where "0xF0 \<le> b" "b \<le> 0xF4" "r1 = c # d # e # r" "utf8_second4 b c" "utf8_cont d" "utf8_cont e" "from_utf8 r"
      using less.prems b by (auto split: if_splits list.splits)
    then show ?thesis
    proof cases
      case 1
      then show ?thesis using step [of "unat b" r1] less.prems b
        by (simp add: utf8_encode_def word_less_nat_alt utf8_scalar_def)
    next
      case 2
      define x z where d: "x = unat b - 0xC0" "z = unat c - 0x80"
      have n: "2 \<le> x" "x < 32" "z < 64" "utf8_scalar (64 * x + z)" and u: "of_nat (0xC0 + x) = b" "of_nat (0x80 + z) = c"
        using 2 unfolding d by (auto simp: utf8_bytes utf8_scalar_def)
      show ?thesis using step [of "64 * x + z" r] utf8_encode_digits(2) [OF _ n(3,1,2), of 0] n(4) u 2 b by simp
    next
      case 3
      define x y z where d: "x = unat b - 0xE0" "y = unat c - 0x80" "z = unat d - 0x80"
      have n: "x < 16" "y < 64" "z < 64" "0x800 \<le> 4096 * x + 64 * y" "x = 13 \<Longrightarrow> y < 32"
        and u: "of_nat (0xE0 + x) = b" "of_nat (0x80 + y) = c" "of_nat (0x80 + z) = d"
        using 3 unfolding d by (auto simp: utf8_bytes)
      have sc: "utf8_scalar (4096 * x + 64 * y + z)"
        using n unfolding utf8_scalar_def by (cases "x < 13"; cases "x = 13") linarith+
      show ?thesis using step [of "4096 * x + 64 * y + z" r] utf8_encode_digits(3) [OF n(2,3,4,1)] sc u 3 b by simp
    next
      case 4
      define w x y z where d: "w = unat b - 0xF0" "x = unat c - 0x80" "y = unat d - 0x80" "z = unat e - 0x80"
      have n: "x < 64" "y < 64" "z < 64" "0x10000 \<le> 262144 * w + 4096 * x" "utf8_scalar (262144 * w + 4096 * x + 64 * y + z)"
        and u: "of_nat (0xF0 + w) = b" "of_nat (0x80 + x) = c" "of_nat (0x80 + y) = d" "of_nat (0x80 + z) = e"
        using 4 unfolding d by (auto simp: utf8_bytes utf8_scalar_def)
      show ?thesis using step [of "262144 * w + 4096 * x + 64 * y + z" r] utf8_encode_digits(4) [OF n(2,3,1,4)] n(5) u 4 b by simp
    qed
  qed
qed

lemma from_utf8_iff: "from_utf8 bs \<longleftrightarrow> (\<exists>cs. (\<forall>c \<in> set cs. utf8_scalar c) \<and> bs = concat (map utf8_encode cs))"
proof -
  have "from_utf8 (concat (map utf8_encode cs))" if "\<forall>c \<in> set cs. utf8_scalar c" for cs
    using that by (induction cs) (simp_all add: from_utf8_encode)
  then show ?thesis using from_utf8_decode by blast
qed


section \<open>Properties\<close>


text \<open>A buffer that is not mapped brings the kernel down: the fault is taken in kernel mode.\<close>

lemma sys_write_unmapped:
  assumes "fd = 1 \<or> fd = 2" "buf + count < USER_LIMIT" "i < count" "mem (buf + i) = None"
  shows "sys_write mem fd buf count con = None"
proof -
  have "those (map mem xs) = None" if "x \<in> set xs" "mem x = None" for x xs
    using that by (induction xs) (auto split: option.splits)
  from this [of "buf + i"] have "read_user mem buf count = None" using assms(3,4) by (simp add: read_user_def)
  then show ?thesis using assms by (auto simp: sys_write_def saturating_add_def USER_LIMIT_def usize_bound_def)
qed

text \<open>
  C22: the assembly entry passes the registers of the program to the dispatcher in the declared structure
  and gives every register but \<^verbatim>\<open>rax\<close> back, with \<^verbatim>\<open>rcx\<close> and \<^verbatim>\<open>r11\<close> as the \<^verbatim>\<open>syscall\<close> instruction defines them; the kernel
  stack is balanced, whatever the compiled dispatcher left in the registers.
\<close>

theorem syscall_transparent:
  "syscall_handler mach mem context junk c st con s =
     (case handle_syscall mach mem context
         \<lparr>sr_r15 = cp_r15 c, sr_r14 = cp_r14 c, sr_r13 = cp_r13 c, sr_r12 = cp_r12 c, sr_rbp = cp_rbp c, sr_rbx = cp_rbx c,
           sr_r9 = cp_r9 c, sr_r8 = cp_r8 c, sr_r10 = cp_r10 c, sr_rdx = cp_rdx c, sr_rsi = cp_rsi c, sr_rdi = cp_rdi c,
           sr_rax = cp_rax c, sr_rip = cp_rip c, sr_rflags = cp_rflags c, sr_rsp = cp_rsp c\<rparr> con s of
       None \<Rightarrow> None
     | Some (Switches regs, con', s') \<Rightarrow> Some (Inl regs, con', s')
     | Some (Returns v, con', s') \<Rightarrow>
         Some (Inr (c\<lparr>cp_rax := v, cp_rcx := cp_rip c, cp_r11 := cp_rflags c,
           cp_rflags := (cp_rflags c AND 0x3C7FD7) OR 2\<rparr>, st), con', s'))"
proof -
  have regs: "read_syscall_regs (syscall_entry (syscall_insn c) st) =
      \<lparr>sr_r15 = cp_r15 c, sr_r14 = cp_r14 c, sr_r13 = cp_r13 c, sr_r12 = cp_r12 c, sr_rbp = cp_rbp c, sr_rbx = cp_rbx c,
        sr_r9 = cp_r9 c, sr_r8 = cp_r8 c, sr_r10 = cp_r10 c, sr_rdx = cp_rdx c, sr_rsi = cp_rsi c, sr_rdi = cp_rdi c,
        sr_rax = cp_rax c, sr_rip = cp_rip c, sr_rflags = cp_rflags c, sr_rsp = cp_rsp c\<rparr>"
    by (simp add: read_syscall_regs_def syscall_entry_def syscall_insn_def push_all_def)
  have restored: "syscall_exit (junk\<lparr>cp_rax := v\<rparr>) (syscall_entry (syscall_insn c) st) =
      Some (c\<lparr>cp_rax := v, cp_rcx := cp_rip c, cp_r11 := cp_rflags c, cp_rflags := (cp_rflags c AND 0x3C7FD7) OR 2\<rparr>, st)" for v
    by (simp add: syscall_exit_def syscall_entry_def syscall_insn_def sysretq_insn_def push_all_def)
  show ?thesis
    unfolding syscall_handler_def Let_def regs by (auto simp: restored split: option.splits syscall_result.splits)
qed

text \<open>
  What \<^verbatim>\<open>Star::write\<close> promises: it accepts selectors whose distances and privilege levels fit the layout of the
  register, and stores the base from which \<^verbatim>\<open>sysretq\<close> computes the two user selectors in the top bits.
\<close>

definition star_spec :: "(u16 \<Rightarrow> u16 \<Rightarrow> u16 \<Rightarrow> u16 \<Rightarrow> u64 option) \<Rightarrow> bool" where
  "star_spec star_write \<longleftrightarrow> (\<forall>cs_sysret ss_sysret cs_syscall ss_syscall.
     cs_sysret - 16 = ss_sysret - 8 \<and> cs_syscall = ss_syscall - 8 \<and> ss_sysret AND 3 = 3 \<and> ss_syscall AND 3 = 0 \<longrightarrow>
     (\<exists>star. star_write cs_sysret ss_sysret cs_syscall ss_syscall = Some star \<and> ucast (drop_bit 48 star) = ss_sysret - 8))"

text \<open>
  C23: after \<^verbatim>\<open>init_syscall\<close> a return from a system call loads the selector of the user data segment into \<^verbatim>\<open>CS\<close>
  and that of the user code segment into \<^verbatim>\<open>SS\<close>, the reverse of what \<^verbatim>\<open>ucreate_task\<close> starts a task with: the
  two descriptors are in the wrong order in the table.
\<close>

theorem sysret_selectors_swapped:
  assumes "star_spec star_write" and "handler < 2 ^ 47 \<or> 2 ^ 64 - 2 ^ 47 \<le> handler \<and> handler < 2 ^ 64"
  shows "\<exists>m. init_syscall star_write handler = Some m \<and>
    selected (sysretq_cs (ms_star m)) = Some UserDataSegment \<and> selected (sysretq_ss (ms_star m)) = Some UserCodeSegment \<and>
    selected (ucast (tr_interrupt_cs (user_regs s entry_point stack))) = Some UserCodeSegment \<and>
    selected (ucast (tr_interrupt_ss (user_regs s entry_point stack))) = Some UserDataSegment"
proof -
  let ?cs = "segment_selector USER_DATA_SEGMENT_INDEX 3" and ?ss = "segment_selector USER_CODE_SEGMENT_INDEX 3"
  have sel: "?cs = 35" "?ss = 27" "segment_selector KERNEL_CODE_SEGMENT_INDEX 0 = 8" "segment_selector KERNEL_DATA_SEGMENT_INDEX 0 = 16"
    by (simp_all add: segment_selector_def USER_DATA_SEGMENT_INDEX_def USER_CODE_SEGMENT_INDEX_def
        KERNEL_CODE_SEGMENT_INDEX_def KERNEL_DATA_SEGMENT_INDEX_def)
  obtain star where star: "star_write 35 27 8 16 = Some star" "ucast (drop_bit 48 star) = (19 :: u16)"
    using assms(1) [unfolded star_spec_def, THEN spec [of _ 35], THEN spec [of _ 27], THEN spec [of _ 8], THEN spec [of _ 16]] by auto
  then have "init_syscall star_write handler = Some \<lparr>ms_syscall_enabled = True, ms_star = star, ms_lstar = handler, ms_sfmask = 0x200\<rparr>"
    using assms(2) by (simp add: init_syscall_def sel virt_addr_new_def Let_def)
  moreover have "sysretq_cs star = 35" "sysretq_ss star = 27" using star(2) by (simp_all add: sysretq_cs_def sysretq_ss_def)
  moreover have "selected 35 = Some UserDataSegment" "selected 27 = Some UserCodeSegment"
    by (simp_all add: selected_def GDT_def drop_bit_eq_div)
  ultimately show ?thesis
    by (simp add: user_regs_def zero_regs_def USER_CODE_SEGMENT_INDEX_def USER_DATA_SEGMENT_INDEX_def)
qed

section \<open>Witnesses\<close>

definition hello_mem :: "addr \<Rightarrow> u8 option" where
  "hello_mem a = (if a = 0x1000 then Some 0x48 else if a = 0x1001 then Some 0x69 else None)"


definition star_layout :: "u16 \<Rightarrow> u16 \<Rightarrow> u16 \<Rightarrow> u16 \<Rightarrow> u64 option" where
  "star_layout cs_sysret ss_sysret cs_syscall ss_syscall =
     (if cs_sysret - 16 = ss_sysret - 8 \<and> cs_syscall = ss_syscall - 8 \<and> ss_sysret AND 3 = 3 \<and> ss_syscall AND 3 = 0
      then Some (push_bit 48 (ucast (ss_sysret - 8)) OR push_bit 32 (ucast cs_syscall)) else None)"

lemma star_layout_spec: "star_spec star_layout"
proof -
  have "\<not> bit w (16 + n)" for w :: u16 and n using bit_imp_le_length [of w "16 + n"] by auto
  then show ?thesis unfolding star_spec_def star_layout_def by (auto intro!: bit_word_eqI simp: bit_simps)
qed

theorem sysret_selectors_swapped_witness:
  "\<exists>m. init_syscall star_layout 0x1000 = Some m \<and> selected (sysretq_cs (ms_star m)) = Some UserDataSegment"
  using sysret_selectors_swapped [OF star_layout_spec, of "0x1000" "demo_kernel [] slab_new" 0 0] by auto

end
