(* ===== verification/Ps2.thy ===== *)
theory Ps2
  imports Prelude
begin

text \<open>
  \<^verbatim>\<open>kernel/src/ps2.rs\<close>: the PS/2 controller.  The two I/O ports are hardware; what a read or a write of a port
  does to the device is the parameter \<open>ps2_ports\<close>, over an abstract device state \<open>'d\<close>.  The waiting loops spin
  until the device answers; a loop that never ends is \<open>None\<close>, like a panic.
\<close>

section \<open>Constants\<close>

definition OUTPUT_BUFFER_FULL :: u8 where "OUTPUT_BUFFER_FULL = 0x01"
definition INPUT_BUFFER_FULL :: u8 where "INPUT_BUFFER_FULL = 0x02"

definition READ_CONFIG :: u8 where "READ_CONFIG = 0x20"
definition WRITE_CONFIG :: u8 where "WRITE_CONFIG = 0x60"
definition DISABLE_SECOND_PORT :: u8 where "DISABLE_SECOND_PORT = 0xA7"
definition TEST_CONTROLLER :: u8 where "TEST_CONTROLLER = 0xAA"
definition TEST_FIRST_PORT :: u8 where "TEST_FIRST_PORT = 0xAB"
definition DISABLE_FIRST_PORT :: u8 where "DISABLE_FIRST_PORT = 0xAD"
definition ENABLE_FIRST_PORT :: u8 where "ENABLE_FIRST_PORT = 0xAE"

definition SCANCODE_SET :: u8 where "SCANCODE_SET = 0xF0"
definition ENABLE_SCANNING :: u8 where "ENABLE_SCANNING = 0xF4"
definition RESET :: u8 where "RESET = 0xFF"

definition ACK :: u8 where "ACK = 0xFA"
definition SELF_TEST_PASSED :: u8 where "SELF_TEST_PASSED = 0xAA"

definition FIRST_PORT_INTERRUPT :: u8 where "FIRST_PORT_INTERRUPT = 0x01"
definition SECOND_PORT_INTERRUPT :: u8 where "SECOND_PORT_INTERRUPT = 0x02"
definition FIRST_PORT_TRANSLATION :: u8 where "FIRST_PORT_TRANSLATION = 0x40"

section \<open>The controller\<close>

record 'd ps2_ports =
  in_command :: "'d \<Rightarrow> u8 \<times> 'd"
  in_data :: "'d \<Rightarrow> u8 \<times> 'd"
  out_command :: "u8 \<Rightarrow> 'd \<Rightarrow> 'd"
  out_data :: "u8 \<Rightarrow> 'd \<Rightarrow> 'd"

definition read_status :: "'d ps2_ports \<Rightarrow> 'd \<Rightarrow> u8 \<times> 'd" where
  "read_status io d = in_command io d"

definition output_buffer_full :: "'d ps2_ports \<Rightarrow> 'd \<Rightarrow> bool \<times> 'd" where
  "output_buffer_full io d = (case read_status io d of (s, d) \<Rightarrow> (s AND OUTPUT_BUFFER_FULL \<noteq> 0, d))"

definition input_buffer_full :: "'d ps2_ports \<Rightarrow> 'd \<Rightarrow> bool \<times> 'd" where
  "input_buffer_full io d = (case read_status io d of (s, d) \<Rightarrow> (s AND INPUT_BUFFER_FULL \<noteq> 0, d))"

partial_function (option) wait_input_buffer_empty :: "'d ps2_ports \<Rightarrow> 'd \<Rightarrow> 'd rust" where
  "wait_input_buffer_empty io d =
     (case input_buffer_full io d of (full, d) \<Rightarrow> if full then wait_input_buffer_empty io d else Some d)"

partial_function (option) wait_output_buffer_full :: "'d ps2_ports \<Rightarrow> 'd \<Rightarrow> 'd rust" where
  "wait_output_buffer_full io d =
     (case output_buffer_full io d of (full, d) \<Rightarrow> if \<not> full then wait_output_buffer_full io d else Some d)"

definition read_data :: "'d ps2_ports \<Rightarrow> 'd \<Rightarrow> (u8 \<times> 'd) rust" where
  "read_data io d = do { d \<leftarrow> wait_output_buffer_full io d; Some (in_data io d) }"

definition write_data :: "'d ps2_ports \<Rightarrow> u8 \<Rightarrow> 'd \<Rightarrow> 'd rust" where
  "write_data io b d = do { d \<leftarrow> wait_input_buffer_empty io d; Some (out_data io b d) }"

definition send_command :: "'d ps2_ports \<Rightarrow> u8 \<Rightarrow> 'd \<Rightarrow> 'd rust" where
  "send_command io c d = do { d \<leftarrow> wait_input_buffer_empty io d; Some (out_command io c d) }"

definition send_command_with_response :: "'d ps2_ports \<Rightarrow> u8 \<Rightarrow> 'd \<Rightarrow> (u8 \<times> 'd) rust" where
  "send_command_with_response io c d = do { d \<leftarrow> send_command io c d; read_data io d }"

end
