(* ===== verification/Keyboard.thy ===== *)
theory Keyboard
  imports Ps2
begin

text \<open>
  \<^verbatim>\<open>kernel/src/ps2/keyboard.rs\<close>: scan codes, modifier state, the event buffer and the interrupt handler, and
  the initialisation of the keyboard and of the whole PS/2 subsystem (\<^verbatim>\<open>init\<close> of \<^verbatim>\<open>kernel/src/ps2.rs\<close>).
\<close>

definition KEYBOARD_BUFFER_SIZE :: nat where
  "KEYBOARD_BUFFER_SIZE = 256"

section \<open>Scan codes\<close>

datatype (plugins only: size) scan_code =
    Sc_A | Sc_B | Sc_C | Sc_D | Sc_E | Sc_F | Sc_G | Sc_H | Sc_I | Sc_J
  | Sc_K | Sc_L | Sc_M | Sc_N | Sc_O | Sc_P | Sc_Q | Sc_R | Sc_S | Sc_T
  | Sc_U | Sc_V | Sc_W | Sc_X | Sc_Y | Sc_Z | Sc_Key1 | Sc_Key2 | Sc_Key3 | Sc_Key4
  | Sc_Key5 | Sc_Key6 | Sc_Key7 | Sc_Key8 | Sc_Key9 | Sc_Key0 | Sc_F1 | Sc_F2 | Sc_F3 | Sc_F4
  | Sc_F5 | Sc_F6 | Sc_F7 | Sc_F8 | Sc_F9 | Sc_F10 | Sc_F11 | Sc_F12 | Sc_Escape | Sc_Backspace
  | Sc_Tab | Sc_Enter | Sc_Space | Sc_LeftShift | Sc_RightShift | Sc_LeftCtrl | Sc_LeftAlt | Sc_CapsLock | Sc_Minus | Sc_Equals
  | Sc_LeftBracket | Sc_RightBracket | Sc_Semicolon | Sc_Quote | Sc_Grave | Sc_Backslash | Sc_Comma | Sc_Period | Sc_Slash | Sc_UpArrow
  | Sc_DownArrow | Sc_LeftArrow | Sc_RightArrow | Sc_Delete | Sc_Home | Sc_End | Sc_PageUp | Sc_PageDown | Sc_Insert

text \<open>The discriminants of the enumeration.\<close>

definition scan_code_u8 :: "scan_code \<Rightarrow> u8" where
  "scan_code_u8 k = (case k of
     Sc_A \<Rightarrow> 0x1E | Sc_B \<Rightarrow> 0x30 | Sc_C \<Rightarrow> 0x2E | Sc_D \<Rightarrow> 0x20 | Sc_E \<Rightarrow> 0x12 | Sc_F \<Rightarrow> 0x21
   | Sc_G \<Rightarrow> 0x22 | Sc_H \<Rightarrow> 0x23 | Sc_I \<Rightarrow> 0x17 | Sc_J \<Rightarrow> 0x24 | Sc_K \<Rightarrow> 0x25 | Sc_L \<Rightarrow> 0x26
   | Sc_M \<Rightarrow> 0x32 | Sc_N \<Rightarrow> 0x31 | Sc_O \<Rightarrow> 0x18 | Sc_P \<Rightarrow> 0x19 | Sc_Q \<Rightarrow> 0x10 | Sc_R \<Rightarrow> 0x13
   | Sc_S \<Rightarrow> 0x1F | Sc_T \<Rightarrow> 0x14 | Sc_U \<Rightarrow> 0x16 | Sc_V \<Rightarrow> 0x2F | Sc_W \<Rightarrow> 0x11 | Sc_X \<Rightarrow> 0x2D
   | Sc_Y \<Rightarrow> 0x15 | Sc_Z \<Rightarrow> 0x2C | Sc_Key1 \<Rightarrow> 0x02 | Sc_Key2 \<Rightarrow> 0x03 | Sc_Key3 \<Rightarrow> 0x04 | Sc_Key4 \<Rightarrow> 0x05
   | Sc_Key5 \<Rightarrow> 0x06 | Sc_Key6 \<Rightarrow> 0x07 | Sc_Key7 \<Rightarrow> 0x08 | Sc_Key8 \<Rightarrow> 0x09 | Sc_Key9 \<Rightarrow> 0x0A | Sc_Key0 \<Rightarrow> 0x0B
   | Sc_F1 \<Rightarrow> 0x3B | Sc_F2 \<Rightarrow> 0x3C | Sc_F3 \<Rightarrow> 0x3D | Sc_F4 \<Rightarrow> 0x3E | Sc_F5 \<Rightarrow> 0x3F | Sc_F6 \<Rightarrow> 0x40
   | Sc_F7 \<Rightarrow> 0x41 | Sc_F8 \<Rightarrow> 0x42 | Sc_F9 \<Rightarrow> 0x43 | Sc_F10 \<Rightarrow> 0x44 | Sc_F11 \<Rightarrow> 0x57 | Sc_F12 \<Rightarrow> 0x58
   | Sc_Escape \<Rightarrow> 0x01 | Sc_Backspace \<Rightarrow> 0x0E | Sc_Tab \<Rightarrow> 0x0F | Sc_Enter \<Rightarrow> 0x1C | Sc_Space \<Rightarrow> 0x39 | Sc_LeftShift \<Rightarrow> 0x2A
   | Sc_RightShift \<Rightarrow> 0x36 | Sc_LeftCtrl \<Rightarrow> 0x1D | Sc_LeftAlt \<Rightarrow> 0x38 | Sc_CapsLock \<Rightarrow> 0x3A | Sc_Minus \<Rightarrow> 0x0C | Sc_Equals \<Rightarrow> 0x0D
   | Sc_LeftBracket \<Rightarrow> 0x1A | Sc_RightBracket \<Rightarrow> 0x1B | Sc_Semicolon \<Rightarrow> 0x27 | Sc_Quote \<Rightarrow> 0x28 | Sc_Grave \<Rightarrow> 0x29 | Sc_Backslash \<Rightarrow> 0x2B
   | Sc_Comma \<Rightarrow> 0x33 | Sc_Period \<Rightarrow> 0x34 | Sc_Slash \<Rightarrow> 0x35 | Sc_UpArrow \<Rightarrow> 0x48 | Sc_DownArrow \<Rightarrow> 0x50 | Sc_LeftArrow \<Rightarrow> 0x4B
   | Sc_RightArrow \<Rightarrow> 0x4D | Sc_Delete \<Rightarrow> 0x53 | Sc_Home \<Rightarrow> 0x47 | Sc_End \<Rightarrow> 0x4F | Sc_PageUp \<Rightarrow> 0x49 | Sc_PageDown \<Rightarrow> 0x51
   | Sc_Insert \<Rightarrow> 0x52)"

definition is_character :: "scan_code \<Rightarrow> bool" where
  "is_character k = (case k of
     Sc_A \<Rightarrow> True | Sc_B \<Rightarrow> True | Sc_C \<Rightarrow> True | Sc_D \<Rightarrow> True | Sc_E \<Rightarrow> True | Sc_F \<Rightarrow> True
   | Sc_G \<Rightarrow> True | Sc_H \<Rightarrow> True | Sc_I \<Rightarrow> True | Sc_J \<Rightarrow> True | Sc_K \<Rightarrow> True | Sc_L \<Rightarrow> True
   | Sc_M \<Rightarrow> True | Sc_N \<Rightarrow> True | Sc_O \<Rightarrow> True | Sc_P \<Rightarrow> True | Sc_Q \<Rightarrow> True | Sc_R \<Rightarrow> True
   | Sc_S \<Rightarrow> True | Sc_T \<Rightarrow> True | Sc_U \<Rightarrow> True | Sc_V \<Rightarrow> True | Sc_W \<Rightarrow> True | Sc_X \<Rightarrow> True
   | Sc_Y \<Rightarrow> True | Sc_Z \<Rightarrow> True | Sc_Key1 \<Rightarrow> True | Sc_Key2 \<Rightarrow> True | Sc_Key3 \<Rightarrow> True | Sc_Key4 \<Rightarrow> True
   | Sc_Key5 \<Rightarrow> True | Sc_Key6 \<Rightarrow> True | Sc_Key7 \<Rightarrow> True | Sc_Key8 \<Rightarrow> True | Sc_Key9 \<Rightarrow> True | Sc_Key0 \<Rightarrow> True
   | Sc_Minus \<Rightarrow> True | Sc_Equals \<Rightarrow> True | Sc_LeftBracket \<Rightarrow> True | Sc_RightBracket \<Rightarrow> True | Sc_Semicolon \<Rightarrow> True | Sc_Quote \<Rightarrow> True
   | Sc_Grave \<Rightarrow> True | Sc_Backslash \<Rightarrow> True | Sc_Comma \<Rightarrow> True | Sc_Period \<Rightarrow> True | Sc_Slash \<Rightarrow> True | Sc_Space \<Rightarrow> True
   | _ \<Rightarrow> False)"

definition to_char :: "scan_code \<Rightarrow> bool \<Rightarrow> bool \<Rightarrow> char option" where
  "to_char k shift_pressed caps_lock = (case k of
     Sc_A \<Rightarrow> Some (if shift_pressed \<noteq> caps_lock then CHR ''A'' else CHR ''a'')
   | Sc_B \<Rightarrow> Some (if shift_pressed \<noteq> caps_lock then CHR ''B'' else CHR ''b'')
   | Sc_C \<Rightarrow> Some (if shift_pressed \<noteq> caps_lock then CHR ''C'' else CHR ''c'')
   | Sc_D \<Rightarrow> Some (if shift_pressed \<noteq> caps_lock then CHR ''D'' else CHR ''d'')
   | Sc_E \<Rightarrow> Some (if shift_pressed \<noteq> caps_lock then CHR ''E'' else CHR ''e'')
   | Sc_F \<Rightarrow> Some (if shift_pressed \<noteq> caps_lock then CHR ''F'' else CHR ''f'')
   | Sc_G \<Rightarrow> Some (if shift_pressed \<noteq> caps_lock then CHR ''G'' else CHR ''g'')
   | Sc_H \<Rightarrow> Some (if shift_pressed \<noteq> caps_lock then CHR ''H'' else CHR ''h'')
   | Sc_I \<Rightarrow> Some (if shift_pressed \<noteq> caps_lock then CHR ''I'' else CHR ''i'')
   | Sc_J \<Rightarrow> Some (if shift_pressed \<noteq> caps_lock then CHR ''J'' else CHR ''j'')
   | Sc_K \<Rightarrow> Some (if shift_pressed \<noteq> caps_lock then CHR ''K'' else CHR ''k'')
   | Sc_L \<Rightarrow> Some (if shift_pressed \<noteq> caps_lock then CHR ''L'' else CHR ''l'')
   | Sc_M \<Rightarrow> Some (if shift_pressed \<noteq> caps_lock then CHR ''M'' else CHR ''m'')
   | Sc_N \<Rightarrow> Some (if shift_pressed \<noteq> caps_lock then CHR ''N'' else CHR ''n'')
   | Sc_O \<Rightarrow> Some (if shift_pressed \<noteq> caps_lock then CHR ''O'' else CHR ''o'')
   | Sc_P \<Rightarrow> Some (if shift_pressed \<noteq> caps_lock then CHR ''P'' else CHR ''p'')
   | Sc_Q \<Rightarrow> Some (if shift_pressed \<noteq> caps_lock then CHR ''Q'' else CHR ''q'')
   | Sc_R \<Rightarrow> Some (if shift_pressed \<noteq> caps_lock then CHR ''R'' else CHR ''r'')
   | Sc_S \<Rightarrow> Some (if shift_pressed \<noteq> caps_lock then CHR ''S'' else CHR ''s'')
   | Sc_T \<Rightarrow> Some (if shift_pressed \<noteq> caps_lock then CHR ''T'' else CHR ''t'')
   | Sc_U \<Rightarrow> Some (if shift_pressed \<noteq> caps_lock then CHR ''U'' else CHR ''u'')
   | Sc_V \<Rightarrow> Some (if shift_pressed \<noteq> caps_lock then CHR ''V'' else CHR ''v'')
   | Sc_W \<Rightarrow> Some (if shift_pressed \<noteq> caps_lock then CHR ''W'' else CHR ''w'')
   | Sc_X \<Rightarrow> Some (if shift_pressed \<noteq> caps_lock then CHR ''X'' else CHR ''x'')
   | Sc_Y \<Rightarrow> Some (if shift_pressed \<noteq> caps_lock then CHR ''Y'' else CHR ''y'')
   | Sc_Z \<Rightarrow> Some (if shift_pressed \<noteq> caps_lock then CHR ''Z'' else CHR ''z'')
   | Sc_Key1 \<Rightarrow> Some (if shift_pressed then CHR 0x21 else CHR ''1'')
   | Sc_Key2 \<Rightarrow> Some (if shift_pressed then CHR 0x40 else CHR ''2'')
   | Sc_Key3 \<Rightarrow> Some (if shift_pressed then CHR 0x23 else CHR ''3'')
   | Sc_Key4 \<Rightarrow> Some (if shift_pressed then CHR 0x24 else CHR ''4'')
   | Sc_Key5 \<Rightarrow> Some (if shift_pressed then CHR 0x25 else CHR ''5'')
   | Sc_Key6 \<Rightarrow> Some (if shift_pressed then CHR 0x5E else CHR ''6'')
   | Sc_Key7 \<Rightarrow> Some (if shift_pressed then CHR 0x26 else CHR ''7'')
   | Sc_Key8 \<Rightarrow> Some (if shift_pressed then CHR 0x2A else CHR ''8'')
   | Sc_Key9 \<Rightarrow> Some (if shift_pressed then CHR 0x28 else CHR ''9'')
   | Sc_Key0 \<Rightarrow> Some (if shift_pressed then CHR 0x29 else CHR ''0'')
   | Sc_Minus \<Rightarrow> Some (if shift_pressed then CHR 0x5F else CHR 0x2D)
   | Sc_Equals \<Rightarrow> Some (if shift_pressed then CHR 0x2B else CHR 0x3D)
   | Sc_LeftBracket \<Rightarrow> Some (if shift_pressed then CHR 0x7B else CHR 0x5B)
   | Sc_RightBracket \<Rightarrow> Some (if shift_pressed then CHR 0x7D else CHR 0x5D)
   | Sc_Semicolon \<Rightarrow> Some (if shift_pressed then CHR 0x3A else CHR 0x3B)
   | Sc_Quote \<Rightarrow> Some (if shift_pressed then CHR 0x22 else CHR 0x27)
   | Sc_Grave \<Rightarrow> Some (if shift_pressed then CHR 0x7E else CHR 0x60)
   | Sc_Backslash \<Rightarrow> Some (if shift_pressed then CHR 0x7C else CHR 0x5C)
   | Sc_Comma \<Rightarrow> Some (if shift_pressed then CHR 0x3C else CHR 0x2C)
   | Sc_Period \<Rightarrow> Some (if shift_pressed then CHR 0x3E else CHR 0x2E)
   | Sc_Slash \<Rightarrow> Some (if shift_pressed then CHR 0x3F else CHR 0x2F)
   | Sc_Space \<Rightarrow> Some (CHR 0x20)
   | Sc_Enter \<Rightarrow> Some (CHR 0x0A)
   | Sc_Backspace \<Rightarrow> Some (CHR 0x08)
   | _ \<Rightarrow> None)"

section \<open>The driver\<close>

datatype key_event = KeyDown scan_code | KeyUp scan_code | Unknown u8

record keyboard_state =
  ks_left_shift :: bool
  ks_right_shift :: bool
  ks_left_ctrl :: bool
  ks_left_alt :: bool
  ks_caps_lock :: bool

definition keyboard_state_default :: keyboard_state where
  "keyboard_state_default = \<lparr>ks_left_shift = False, ks_right_shift = False, ks_left_ctrl = False, ks_left_alt = False,
     ks_caps_lock = False\<rparr>"

definition shift_pressed :: "keyboard_state \<Rightarrow> bool" where
  "shift_pressed s \<longleftrightarrow> ks_left_shift s \<or> ks_right_shift s"

definition keyboard_update :: "key_event \<Rightarrow> keyboard_state \<Rightarrow> keyboard_state" where
  "keyboard_update event s = (case event of
     KeyDown scancode \<Rightarrow> (case scancode of
         Sc_LeftShift \<Rightarrow> s\<lparr>ks_left_shift := True\<rparr>
       | Sc_RightShift \<Rightarrow> s\<lparr>ks_right_shift := True\<rparr>
       | Sc_LeftCtrl \<Rightarrow> s\<lparr>ks_left_ctrl := True\<rparr>
       | Sc_LeftAlt \<Rightarrow> s\<lparr>ks_left_alt := True\<rparr>
       | Sc_CapsLock \<Rightarrow> s\<lparr>ks_caps_lock := \<not> ks_caps_lock s\<rparr>
       | _ \<Rightarrow> s)
   | KeyUp scancode \<Rightarrow> (case scancode of
         Sc_LeftShift \<Rightarrow> s\<lparr>ks_left_shift := False\<rparr>
       | Sc_RightShift \<Rightarrow> s\<lparr>ks_right_shift := False\<rparr>
       | Sc_LeftCtrl \<Rightarrow> s\<lparr>ks_left_ctrl := False\<rparr>
       | Sc_LeftAlt \<Rightarrow> s\<lparr>ks_left_alt := False\<rparr>
       | _ \<Rightarrow> s)
   | Unknown _ \<Rightarrow> s)"

record keyboard_driver =
  kd_input_buffer :: "key_event list"
  kd_state :: keyboard_state
  kd_extended_scancode :: bool

definition keyboard_driver_new :: keyboard_driver where
  "keyboard_driver_new = \<lparr>kd_input_buffer = [], kd_state = keyboard_state_default, kd_extended_scancode = False\<rparr>"

definition scancode_to_enum :: "u8 \<Rightarrow> bool \<Rightarrow> scan_code option" where
  "scancode_to_enum scancode extended =
     (if extended then
        if scancode = 0x48 then Some Sc_UpArrow else if scancode = 0x50 then Some Sc_DownArrow else if scancode = 0x4B then Some Sc_LeftArrow else
        if scancode = 0x4D then Some Sc_RightArrow else if scancode = 0x53 then Some Sc_Delete else if scancode = 0x47 then Some Sc_Home else
        if scancode = 0x4F then Some Sc_End else if scancode = 0x49 then Some Sc_PageUp else if scancode = 0x51 then Some Sc_PageDown else
        if scancode = 0x52 then Some Sc_Insert else None
      else
        if scancode = 0x1E then Some Sc_A else if scancode = 0x30 then Some Sc_B else if scancode = 0x2E then Some Sc_C else
        if scancode = 0x20 then Some Sc_D else if scancode = 0x12 then Some Sc_E else if scancode = 0x21 then Some Sc_F else
        if scancode = 0x22 then Some Sc_G else if scancode = 0x23 then Some Sc_H else if scancode = 0x17 then Some Sc_I else
        if scancode = 0x24 then Some Sc_J else if scancode = 0x25 then Some Sc_K else if scancode = 0x26 then Some Sc_L else
        if scancode = 0x32 then Some Sc_M else if scancode = 0x31 then Some Sc_N else if scancode = 0x18 then Some Sc_O else
        if scancode = 0x19 then Some Sc_P else if scancode = 0x10 then Some Sc_Q else if scancode = 0x13 then Some Sc_R else
        if scancode = 0x1F then Some Sc_S else if scancode = 0x14 then Some Sc_T else if scancode = 0x16 then Some Sc_U else
        if scancode = 0x2F then Some Sc_V else if scancode = 0x11 then Some Sc_W else if scancode = 0x2D then Some Sc_X else
        if scancode = 0x15 then Some Sc_Y else if scancode = 0x2C then Some Sc_Z else if scancode = 0x02 then Some Sc_Key1 else
        if scancode = 0x03 then Some Sc_Key2 else if scancode = 0x04 then Some Sc_Key3 else if scancode = 0x05 then Some Sc_Key4 else
        if scancode = 0x06 then Some Sc_Key5 else if scancode = 0x07 then Some Sc_Key6 else if scancode = 0x08 then Some Sc_Key7 else
        if scancode = 0x09 then Some Sc_Key8 else if scancode = 0x0A then Some Sc_Key9 else if scancode = 0x0B then Some Sc_Key0 else
        if scancode = 0x3B then Some Sc_F1 else if scancode = 0x3C then Some Sc_F2 else if scancode = 0x3D then Some Sc_F3 else
        if scancode = 0x3E then Some Sc_F4 else if scancode = 0x3F then Some Sc_F5 else if scancode = 0x40 then Some Sc_F6 else
        if scancode = 0x41 then Some Sc_F7 else if scancode = 0x42 then Some Sc_F8 else if scancode = 0x43 then Some Sc_F9 else
        if scancode = 0x44 then Some Sc_F10 else if scancode = 0x57 then Some Sc_F11 else if scancode = 0x58 then Some Sc_F12 else
        if scancode = 0x01 then Some Sc_Escape else if scancode = 0x0E then Some Sc_Backspace else if scancode = 0x0F then Some Sc_Tab else
        if scancode = 0x1C then Some Sc_Enter else if scancode = 0x39 then Some Sc_Space else if scancode = 0x2A then Some Sc_LeftShift else
        if scancode = 0x36 then Some Sc_RightShift else if scancode = 0x1D then Some Sc_LeftCtrl else if scancode = 0x38 then Some Sc_LeftAlt else
        if scancode = 0x3A then Some Sc_CapsLock else if scancode = 0x0C then Some Sc_Minus else if scancode = 0x0D then Some Sc_Equals else
        if scancode = 0x1A then Some Sc_LeftBracket else if scancode = 0x1B then Some Sc_RightBracket else if scancode = 0x27 then Some Sc_Semicolon else
        if scancode = 0x28 then Some Sc_Quote else if scancode = 0x29 then Some Sc_Grave else if scancode = 0x2B then Some Sc_Backslash else
        if scancode = 0x33 then Some Sc_Comma else if scancode = 0x34 then Some Sc_Period else if scancode = 0x35 then Some Sc_Slash else None)"

definition process_scancode :: "u8 \<Rightarrow> keyboard_driver \<Rightarrow> keyboard_driver" where
  "process_scancode scancode k =
     (if scancode = 0xE0 then k\<lparr>kd_extended_scancode := True\<rparr>
      else
        let is_release = (scancode AND 0x80 \<noteq> 0);
          base_scancode = scancode AND 0x7F
        in case scancode_to_enum base_scancode (kd_extended_scancode k) of
          None \<Rightarrow>
            let k = k\<lparr>kd_extended_scancode := False\<rparr>;
              event = Unknown scancode
            in if length (kd_input_buffer k) < KEYBOARD_BUFFER_SIZE
               then k\<lparr>kd_input_buffer := kd_input_buffer k @ [event]\<rparr> else k
        | Some scan_code \<Rightarrow>
            let event = (if is_release then KeyUp scan_code else KeyDown scan_code);
              k = k\<lparr>kd_state := keyboard_update event (kd_state k)\<rparr>;
              k = (if length (kd_input_buffer k) < KEYBOARD_BUFFER_SIZE
                then k\<lparr>kd_input_buffer := kd_input_buffer k @ [event]\<rparr> else k)
            in k\<lparr>kd_extended_scancode := False\<rparr>)"

definition driver_read_key :: "keyboard_driver \<Rightarrow> key_event option \<times> keyboard_driver" where
  "driver_read_key k = (case kd_input_buffer k of
     [] \<Rightarrow> (None, k)
   | e # es \<Rightarrow> (Some e, k\<lparr>kd_input_buffer := es\<rparr>))"

section \<open>The interface of the module\<close>

text \<open>The global \<^verbatim>\<open>KEYBOARD\<close> is an optional driver.\<close>

definition read_key :: "keyboard_driver option \<Rightarrow> key_event option \<times> keyboard_driver option" where
  "read_key kb = (case kb of
     None \<Rightarrow> (None, None)
   | Some k \<Rightarrow> (case driver_read_key k of (e, k) \<Rightarrow> (e, Some k)))"

definition has_key :: "keyboard_driver option \<Rightarrow> bool" where
  "has_key kb = (case kb of None \<Rightarrow> False | Some k \<Rightarrow> kd_input_buffer k \<noteq> [])"

definition get_keyboard_state :: "keyboard_driver option \<Rightarrow> keyboard_state option" where
  "get_keyboard_state kb = map_option kd_state kb"

definition key_event_to_char :: "keyboard_driver option \<Rightarrow> key_event \<Rightarrow> char option" where
  "key_event_to_char kb event = (case event of
     KeyDown scancode \<Rightarrow> (case get_keyboard_state kb of
         Some state \<Rightarrow> to_char scancode (shift_pressed state) (ks_caps_lock state)
       | None \<Rightarrow> to_char scancode False False)
   | _ \<Rightarrow> None)"

definition is_character_key :: "key_event \<Rightarrow> bool" where
  "is_character_key event = (case event of KeyDown scancode \<Rightarrow> is_character scancode | _ \<Rightarrow> False)"

text \<open>
  The interrupt handler reads the status port directly; the keyboard is locked anew for every byte.
\<close>

partial_function (option) handle_interrupt ::
  "'d ps2_ports \<Rightarrow> 'd \<Rightarrow> keyboard_driver option \<Rightarrow> ('d \<times> keyboard_driver option) rust" where
  "handle_interrupt io d kb = (case in_command io d of
     (status, d) \<Rightarrow>
       if status AND 0x01 \<noteq> 0 then
         (case in_data io d of (scancode, d) \<Rightarrow> handle_interrupt io d (map_option (process_scancode scancode) kb))
       else Some (d, kb))"

section \<open>Initialisation\<close>

text \<open>The message of the failure, or \<open>None\<close> and an empty driver in \<^verbatim>\<open>KEYBOARD\<close>.\<close>

definition keyboard_init ::
  "'d ps2_ports \<Rightarrow> 'd \<Rightarrow> keyboard_driver option \<Rightarrow> (string option \<times> 'd \<times> keyboard_driver option) rust" where
  "keyboard_init io d kb = do {
     d \<leftarrow> write_data io RESET d;
     (response, d) \<leftarrow> read_data io d;
     if response \<noteq> ACK then Some (Some ''Keyboard reset failed'', d, kb)
     else do {
       (self_test, d) \<leftarrow> read_data io d;
       if self_test \<noteq> SELF_TEST_PASSED then Some (Some ''Keyboard self-test failed'', d, kb)
       else do {
         d \<leftarrow> write_data io SCANCODE_SET d;
         (ack, d) \<leftarrow> read_data io d;
         if ack \<noteq> ACK then Some (Some ''Scancode set command failed'', d, kb)
         else do {
           d \<leftarrow> write_data io 0x01 d;
           (ack2, d) \<leftarrow> read_data io d;
           if ack2 \<noteq> ACK then Some (Some ''Scancode set selection failed'', d, kb)
           else do {
             d \<leftarrow> write_data io ENABLE_SCANNING d;
             (ack3, d) \<leftarrow> read_data io d;
             if ack3 \<noteq> ACK then Some (Some ''Enable scanning failed'', d, kb)
             else Some (None, d, Some keyboard_driver_new)
           }
         }
       }
     }
   }"

text \<open>The loop that drains the output buffer.\<close>

partial_function (option) drain_output :: "'d ps2_ports \<Rightarrow> 'd \<Rightarrow> 'd rust" where
  "drain_output io d = (case output_buffer_full io d of
     (full, d) \<Rightarrow> if full then do { (b, d) \<leftarrow> read_data io d; drain_output io d } else Some d)"

definition ps2_init ::
  "'d ps2_ports \<Rightarrow> 'd \<Rightarrow> keyboard_driver option \<Rightarrow> (string option \<times> 'd \<times> keyboard_driver option) rust" where
  "ps2_init io d kb = do {
     d \<leftarrow> send_command io DISABLE_FIRST_PORT d;
     d \<leftarrow> send_command io DISABLE_SECOND_PORT d;
     d \<leftarrow> drain_output io d;
     (config, d) \<leftarrow> send_command_with_response io READ_CONFIG d;
     let new_config = config AND NOT (FIRST_PORT_INTERRUPT OR SECOND_PORT_INTERRUPT OR FIRST_PORT_TRANSLATION);
     d \<leftarrow> send_command io WRITE_CONFIG d;
     d \<leftarrow> write_data io new_config d;
     (test_result, d) \<leftarrow> send_command_with_response io TEST_CONTROLLER d;
     if test_result \<noteq> 0x55 then Some (Some ''PS/2 controller self-test failed'', d, kb)
     else do {
       (port_test, d) \<leftarrow> send_command_with_response io TEST_FIRST_PORT d;
       if port_test \<noteq> 0x00 then Some (Some ''PS/2 keyboard port test failed'', d, kb)
       else do {
         d \<leftarrow> send_command io ENABLE_FIRST_PORT d;
         (r, d, kb) \<leftarrow> keyboard_init io d kb;
         case r of
           Some e \<Rightarrow> Some (Some e, d, kb)
         | None \<Rightarrow> do {
             (config, d) \<leftarrow> send_command_with_response io READ_CONFIG d;
             let new_config = config OR FIRST_PORT_INTERRUPT;
             d \<leftarrow> send_command io WRITE_CONFIG d;
             d \<leftarrow> write_data io new_config d;
             (final_config, d) \<leftarrow> send_command_with_response io READ_CONFIG d;
             Some (None, d, kb)
           }
       }
     }
   }"


section \<open>Decoding\<close>

definition is_extended :: "scan_code \<Rightarrow> bool" where
  "is_extended k \<longleftrightarrow> k \<in> {Sc_UpArrow, Sc_DownArrow, Sc_LeftArrow, Sc_RightArrow, Sc_Delete, Sc_Home, Sc_End, Sc_PageUp,
     Sc_PageDown, Sc_Insert}"

lemma scancode_to_enum_code: "scancode_to_enum (scan_code_u8 k) (is_extended k) = Some k"
  by (cases k) (simp_all add: scancode_to_enum_def scan_code_u8_def is_extended_def)

lemma scancode_to_enum_SomeD:
  "scancode_to_enum c ext = Some k \<Longrightarrow> c = scan_code_u8 k \<and> ext = is_extended k"
  unfolding scancode_to_enum_def
  by (auto simp: scan_code_u8_def is_extended_def split: if_split_asm)


text \<open>
  The decoder of set 1 inverts the table of the enumeration: a byte decodes to a key exactly when it is
  the key's code and the prefix \<^verbatim>\<open>0xE0\<close> was seen exactly for the ten navigation keys.
\<close>

theorem scancode_roundtrip: "scancode_to_enum c ext = Some k \<longleftrightarrow> c = scan_code_u8 k \<and> ext = is_extended k"
  using scancode_to_enum_code [of k] scancode_to_enum_SomeD [of c ext k] by blast

text \<open>What the keyboard sends for a key: an optional prefix, and the code with the top bit set on release.\<close>

fun key_bytes :: "key_event \<Rightarrow> u8 list" where
  "key_bytes (KeyDown k) = (if is_extended k then [0xE0] else []) @ [scan_code_u8 k]"
| "key_bytes (KeyUp k) = (if is_extended k then [0xE0] else []) @ [scan_code_u8 k OR 0x80]"
| "key_bytes (Unknown b) = [b]"

definition known :: "key_event \<Rightarrow> bool" where
  "known e \<longleftrightarrow> (case e of Unknown _ \<Rightarrow> False | _ \<Rightarrow> True)"

definition kd_ok :: "keyboard_driver \<Rightarrow> bool" where
  "kd_ok k \<longleftrightarrow> length (kd_input_buffer k) \<le> KEYBOARD_BUFFER_SIZE"

definition accept :: "key_event list \<Rightarrow> keyboard_driver \<Rightarrow> keyboard_driver" where
  "accept es k = k\<lparr>kd_input_buffer := take KEYBOARD_BUFFER_SIZE (kd_input_buffer k @ es),
     kd_state := fold keyboard_update es (kd_state k)\<rparr>"

lemma accept_simps [simp]:
  "kd_ok k \<Longrightarrow> accept [] k = k" "kd_ok (accept es k)" "kd_extended_scancode (accept es k) = kd_extended_scancode k"
  by (simp_all add: accept_def kd_ok_def)

lemma take_take_append: "take n (take n xs @ ys) = take n (xs @ ys)"
  by (cases "n \<le> length xs") auto

lemma accept_append: "accept (es @ fs) k = accept fs (accept es k)"
  using take_take_append [of KEYBOARD_BUFFER_SIZE "kd_input_buffer k @ es" fs] by (simp add: accept_def del: take_append)

lemma code_bits:
  "scan_code_u8 k AND 0x80 = 0" "scan_code_u8 k AND 0x7F = scan_code_u8 k"
  "(scan_code_u8 k OR 0x80) AND 0x80 \<noteq> 0" "(scan_code_u8 k OR 0x80) AND 0x7F = scan_code_u8 k"
  "scan_code_u8 k \<noteq> 0xE0" "scan_code_u8 k OR 0x80 \<noteq> 0xE0"
  by (cases k; simp add: scan_code_u8_def)+

lemma process_key:
  assumes "kd_ok k" "\<not> kd_extended_scancode k" "known e"
  shows "fold process_scancode (key_bytes e) k = accept [e] k"
proof -
  have step: "process_scancode (if up then scan_code_u8 c OR 0x80 else scan_code_u8 c) (k\<lparr>kd_extended_scancode := is_extended c\<rparr>) =
      accept [if up then KeyUp c else KeyDown c] k" for up c
    using assms(1,2) code_bits [of c] scancode_to_enum_code [of c]
    by (auto simp: process_scancode_def accept_def kd_ok_def Let_def)
  have prefix: "process_scancode 0xE0 k = k\<lparr>kd_extended_scancode := True\<rparr>" by (simp add: process_scancode_def)
  have same: "k\<lparr>kd_extended_scancode := False\<rparr> = k" using assms(2) by simp
  show ?thesis
  proof (cases e)
    case (KeyDown c)
    then show ?thesis using step [of False c] prefix same by (cases "is_extended c") simp_all
  next
    case (KeyUp c)
    then show ?thesis using step [of True c] prefix same by (cases "is_extended c") simp_all
  qed (use assms(3) in \<open>simp add: known_def\<close>)
qed

lemma process_keys:
  assumes "kd_ok k" "\<not> kd_extended_scancode k" "\<forall>e \<in> set es. known e"
  shows "fold process_scancode (concat (map key_bytes es)) k = accept es k"
  using assms
proof (induction es arbitrary: k)
  case (Cons e es)
  then have "fold process_scancode (concat (map key_bytes (e # es))) k = accept es (accept [e] k)"
    using process_key [of k e] by simp
  then show ?case using accept_append [of "[e]" es k] by simp
qed simp

text \<open>The meaning of the modifier state: caps lock counts presses, a held key follows its last event.\<close>

lemma caps_lock_fold:
  "ks_caps_lock (fold keyboard_update es s) = (ks_caps_lock s \<noteq> odd (length (filter (\<lambda>e. e = KeyDown Sc_CapsLock) es)))"
proof (induction es arbitrary: s)
  case (Cons e es)
  have "ks_caps_lock (keyboard_update e s) = (ks_caps_lock s \<noteq> (e = KeyDown Sc_CapsLock))"
    by (cases e) (auto simp: keyboard_update_def split: scan_code.splits)
  then show ?case using Cons.IH [of "keyboard_update e s"] by auto
qed simp

lemma left_shift_snoc:
  "ks_left_shift (fold keyboard_update (es @ [e]) s) =
     (if e = KeyDown Sc_LeftShift then True else if e = KeyUp Sc_LeftShift then False
      else ks_left_shift (fold keyboard_update es s))"
  by (cases e) (auto simp: keyboard_update_def split: scan_code.splits)

section \<open>The interrupt handler\<close>

text \<open>
  The documented behaviour of the controller's ports while no further byte arrives: bit 0 of the status says
  whether a byte is pending, and a read of the data port takes the oldest one.
\<close>

definition ports_spec :: "'d ps2_ports \<Rightarrow> ('d \<Rightarrow> u8 list) \<Rightarrow> bool" where
  "ports_spec io pending \<longleftrightarrow> (\<forall>d. case in_command io d of (s, d') \<Rightarrow>
     (s AND 0x01 \<noteq> 0) = (pending d \<noteq> []) \<and> pending d' = pending d) \<and>
   (\<forall>d b bs. pending d = b # bs \<longrightarrow> fst (in_data io d) = b \<and> pending (snd (in_data io d)) = bs)"

lemma ports_specD:
  assumes "ports_spec io pending"
  shows "in_command io d = (s, d') \<Longrightarrow> (s AND 0x01 \<noteq> 0) = (pending d \<noteq> []) \<and> pending d' = pending d"
    and "pending d = b # bs \<Longrightarrow> \<exists>d'. in_data io d = (b, d') \<and> pending d' = bs"
proof -
  show "in_command io d = (s, d') \<Longrightarrow> (s AND 0x01 \<noteq> 0) = (pending d \<noteq> []) \<and> pending d' = pending d"
    using conjunct1 [OF assms [unfolded ports_spec_def], THEN spec [of _ d]] by simp
  show "pending d = b # bs \<Longrightarrow> \<exists>d'. in_data io d = (b, d') \<and> pending d' = bs"
    using conjunct2 [OF assms [unfolded ports_spec_def], THEN spec [of _ d]] by (cases "in_data io d") simp
qed

lemma handle_interrupt_drains:
  assumes "ports_spec io pending"
  shows "\<exists>d'. handle_interrupt io d kb = Some (d', map_option (fold process_scancode (pending d)) kb) \<and> pending d' = []"
proof (induction "pending d" arbitrary: d kb)
  case Nil
  obtain s d' where i: "in_command io d = (s, d')" by (cases "in_command io d")
  with ports_specD(1) [OF assms i] Nil have "s AND 0x01 = 0" "pending d' = []" by simp_all
  then show ?case using Nil i by (cases kb) (simp_all add: handle_interrupt.simps [of io d])
next
  case (Cons b bs)
  obtain s d1 where i: "in_command io d = (s, d1)" by (cases "in_command io d")
  with ports_specD(1) [OF assms i] Cons.hyps(2) [symmetric] have s: "s AND 0x01 \<noteq> 0" "pending d1 = b # bs" by simp_all
  from ports_specD(2) [OF assms s(2)] obtain d2 where j: "in_data io d1 = (b, d2)" "pending d2 = bs" by blast
  have "handle_interrupt io d kb = handle_interrupt io d2 (map_option (process_scancode b) kb)"
    using i s(1) j(1) by (simp add: handle_interrupt.simps [of io d])
  moreover have "map_option (fold process_scancode (pending d)) kb =
      map_option (fold process_scancode (pending d2)) (map_option (process_scancode b) kb)"
    using j(2) Cons.hyps(2) [symmetric] by (cases kb) simp_all
  ultimately show ?case using Cons.hyps(1) [OF j(2) [symmetric], of "map_option (process_scancode b) kb"] by simp
qed

text \<open>
  C24: a keyboard interrupt with whole key sequences pending terminates with the controller drained; every
  key event is decoded, the modifiers follow all of them, and the buffer keeps the oldest 256 events.
\<close>

theorem handle_interrupt_correct:
  assumes "ports_spec io pending" and "pending d = concat (map key_bytes es)" and "\<forall>e \<in> set es. known e"
    and "length (kd_input_buffer k) \<le> 256" and "\<not> kd_extended_scancode k"
  shows "\<exists>d'. handle_interrupt io d (Some k) =
      Some (d', Some (k\<lparr>kd_input_buffer := take 256 (kd_input_buffer k @ es), kd_state := fold keyboard_update es (kd_state k)\<rparr>)) \<and>
    pending d' = []"
  using handle_interrupt_drains [OF assms(1), of d "Some k"] process_keys [of k es] assms
  by (auto simp: accept_def kd_ok_def KEYBOARD_BUFFER_SIZE_def)

text \<open>The keys that give a character are those that count as characters, and enter and backspace.\<close>

lemma to_char_iff: "to_char k shift caps \<noteq> None \<longleftrightarrow> is_character k \<or> k = Sc_Enter \<or> k = Sc_Backspace"
  by (cases k) (simp_all add: to_char_def is_character_def)

text \<open>
  A character is computed with the modifiers at the time of reading, not at the time of the key press: a
  shifted letter whose shift key is released before the letter is read comes out in lower case.
\<close>

lemma late_character:
  "case read_key (Some (fold process_scancode (concat (map key_bytes [KeyDown Sc_LeftShift, KeyDown Sc_A, KeyUp Sc_LeftShift]))
       keyboard_driver_new)) of (_, kb) \<Rightarrow>
     (case read_key kb of (e, kb) \<Rightarrow> e = Some (KeyDown Sc_A) \<and> key_event_to_char kb (KeyDown Sc_A) = Some (CHR ''a''))"
proof -
  have "fold process_scancode (concat (map key_bytes [KeyDown Sc_LeftShift, KeyDown Sc_A, KeyUp Sc_LeftShift])) keyboard_driver_new =
      accept [KeyDown Sc_LeftShift, KeyDown Sc_A, KeyUp Sc_LeftShift] keyboard_driver_new"
    by (rule process_keys) (simp_all add: kd_ok_def keyboard_driver_new_def known_def)
  then show ?thesis
    by (simp del: key_bytes.simps add: accept_def keyboard_driver_new_def KEYBOARD_BUFFER_SIZE_def read_key_def driver_read_key_def
        keyboard_update_def keyboard_state_default_def key_event_to_char_def get_keyboard_state_def shift_pressed_def to_char_def)
qed

text \<open>Initialisation installs an empty driver exactly when it succeeds, and leaves the old one on every error.\<close>

lemma keyboard_init_result:
  assumes "keyboard_init io d kb = Some (r, d', kb')"
  shows "kb' = (if r = None then Some keyboard_driver_new else kb)"
  using assms unfolding keyboard_init_def by (auto simp: bind_eq_Some_conv split: if_splits)

section \<open>Witnesses\<close>

definition fifo_ports :: "u8 list ps2_ports" where
  "fifo_ports = \<lparr>in_command = (\<lambda>q. (if q = [] then 0 else 1, q)), in_data = (\<lambda>q. case q of [] \<Rightarrow> (0, []) | b # bs \<Rightarrow> (b, bs)),
     out_command = (\<lambda>_ q. q), out_data = (\<lambda>_ q. q)\<rparr>"

lemma fifo_ports_spec: "ports_spec fifo_ports id"
  by (simp add: ports_spec_def fifo_ports_def)

theorem handle_interrupt_correct_witness:
  "\<exists>d'. handle_interrupt fifo_ports [0xE0, 0x48, 0x1E] (Some keyboard_driver_new) =
    Some (d', Some (keyboard_driver_new\<lparr>kd_input_buffer := [KeyDown Sc_UpArrow, KeyDown Sc_A]\<rparr>)) \<and> d' = []"
  using handle_interrupt_correct [OF fifo_ports_spec, of "[0xE0, 0x48, 0x1E]" "[KeyDown Sc_UpArrow, KeyDown Sc_A]" keyboard_driver_new]
  by (auto simp: keyboard_driver_new_def known_def is_extended_def scan_code_u8_def keyboard_update_def)

end
