(* ===== verification/Layout.thy ===== *)
theory Layout
  imports Prelude
begin

text \<open>
  Memory that the kernel shares with devices: bytes, little-endian words, and the layout of \<^verbatim>\<open>repr(C)\<close>
  structures.  The processor is little-endian; a volatile read or write of a structure is a read or write
  of its bytes.
\<close>

type_synonym ram = "addr \<Rightarrow> u8"

section \<open>Bytes\<close>

definition get_bytes :: "ram \<Rightarrow> addr \<Rightarrow> nat \<Rightarrow> u8 list" where
  "get_bytes m a n = map (\<lambda>i. m (a + i)) [0 ..< n]"

definition put_bytes :: "addr \<Rightarrow> u8 list \<Rightarrow> ram \<Rightarrow> ram" where
  "put_bytes a bs m = (\<lambda>x. if a \<le> x \<and> x < a + length bs then bs ! (x - a) else m x)"

text \<open>\<^verbatim>\<open>core::ptr::write_bytes::<T>(p, v, count)\<close> writes \<open>count\<close> elements, each of the size of \<^verbatim>\<open>T\<close>.\<close>

definition write_bytes :: "nat \<Rightarrow> addr \<Rightarrow> u8 \<Rightarrow> nat \<Rightarrow> ram \<Rightarrow> ram" where
  "write_bytes elem_size a v count m = put_bytes a (replicate (count * elem_size) v) m"

lemma get_put_same: "length bs = n \<Longrightarrow> get_bytes (put_bytes a bs m) a n = bs"
  by (auto simp: get_bytes_def put_bytes_def intro!: nth_equalityI)

lemma get_put_other:
  assumes "b + n \<le> a \<or> a + length bs \<le> b"
  shows "get_bytes (put_bytes a bs m) b n = get_bytes m b n"
  using assms by (auto simp: get_bytes_def put_bytes_def)

lemma length_get_bytes [simp]: "length (get_bytes m a n) = n"
  by (simp add: get_bytes_def)

lemma take_get_bytes: "n \<le> k \<Longrightarrow> take n (get_bytes m a k) = get_bytes m a n"
  by (simp add: get_bytes_def take_map)

lemma drop_get_bytes: "drop n (get_bytes m a k) = get_bytes m (a + n) (k - n)"
  by (auto simp: get_bytes_def add.assoc intro!: nth_equalityI)

section \<open>Little-endian words\<close>

definition to_le :: "nat \<Rightarrow> 'a::len word \<Rightarrow> u8 list" where
  "to_le n w = map (\<lambda>i. ucast (drop_bit (8 * i) w)) [0 ..< n]"

definition of_le :: "u8 list \<Rightarrow> 'a::len word" where
  "of_le bs = foldr (\<lambda>b w. ucast b OR push_bit 8 w) bs 0"

lemma length_to_le [simp]: "length (to_le n w) = n"
  by (simp add: to_le_def)

lemma bit_of_le:
  "bit (of_le bs :: 'a::len word) k \<longleftrightarrow> k < LENGTH('a) \<and> k div 8 < length bs \<and> bit (bs ! (k div 8)) (k mod 8)"
proof (induction bs arbitrary: k)
  case (Cons b bs)
  have "of_le (b # bs) = (ucast b OR push_bit 8 (of_le bs) :: 'a word)" by (simp add: of_le_def)
  then have e: "bit (of_le (b # bs) :: 'a word) k \<longleftrightarrow>
      k < LENGTH('a) \<and> (bit b k \<or> 8 \<le> k \<and> bit (of_le bs :: 'a word) (k - 8))"
    by (auto simp: bit_simps)
  show ?case
  proof (cases "k < 8")
    case True
    then show ?thesis unfolding e by simp
  next
    case False
    then have "\<not> bit b k" using bit_imp_le_length [of b k] by auto
    moreover have "k div 8 = Suc ((k - 8) div 8)" "(k - 8) mod 8 = k mod 8" using False by (simp_all add: le_div_geq le_mod_geq)
    ultimately show ?thesis unfolding e using False Cons.IH [of "k - 8"] by auto
  qed
qed (simp add: of_le_def)

lemma of_le_to_le:
  assumes "LENGTH('a::len) \<le> 8 * n"
  shows "of_le (to_le n w) = (w :: 'a word)"
proof (rule bit_word_eqI)
  fix k
  assume "k < LENGTH('a)"
  moreover from this assms have "k div 8 < n" by simp
  ultimately show "bit (of_le (to_le n w) :: 'a word) k \<longleftrightarrow> bit w k"
    by (simp add: bit_of_le) (simp add: to_le_def bit_simps)
qed

section \<open>Structures\<close>

text \<open>Field types: integers, byte arrays, arrays of a field type, and nested structures as their fields.\<close>

datatype field_type = U8 | U16 | U32 | U64 | Arr nat field_type | Struct "field_type list"

fun ft_align :: "field_type \<Rightarrow> nat" where
  "ft_align U8 = 1" | "ft_align U16 = 2" | "ft_align U32 = 4" | "ft_align U64 = 8"
| "ft_align (Arr n t) = ft_align t"
| "ft_align (Struct ts) = foldr (\<lambda>t m. max (ft_align t) m) ts 1"

definition round_up :: "nat \<Rightarrow> nat \<Rightarrow> nat" where
  "round_up x a = (x + a - 1) div a * a"

text \<open>The offset after each field in order, with padding to the field's alignment before it.\<close>

fun ft_size :: "field_type \<Rightarrow> nat" where
  "ft_size U8 = 1" | "ft_size U16 = 2" | "ft_size U32 = 4" | "ft_size U64 = 8"
| "ft_size (Arr n t) = n * ft_size t"
| "ft_size (Struct ts) = round_up (foldl (\<lambda>off t. round_up off (ft_align t) + ft_size t) 0 ts) (foldr (\<lambda>t m. max (ft_align t) m) ts 1)"

type_synonym layout = "(string \<times> field_type) list"

fun offset_from :: "nat \<Rightarrow> layout \<Rightarrow> string \<Rightarrow> nat option" where
  "offset_from off [] f = None"
| "offset_from off ((g, t) # fs) f =
     (if f = g then Some (round_up off (ft_align t)) else offset_from (round_up off (ft_align t) + ft_size t) fs f)"

definition offset_of :: "layout \<Rightarrow> string \<Rightarrow> nat option" where
  "offset_of l f = offset_from 0 l f"

definition size_of :: "layout \<Rightarrow> nat" where
  "size_of l = ft_size (Struct (map snd l))"

definition field_bytes :: "layout \<Rightarrow> string \<Rightarrow> u8 list \<Rightarrow> u8 list option" where
  "field_bytes l f bs = (case (offset_of l f, map_of l f) of
     (Some off, Some t) \<Rightarrow> Some (take (ft_size t) (drop off bs))
   | _ \<Rightarrow> None)"

end
