(* ===== verification/Dma.thy ===== *)
theory Dma
  imports Forest_Props Layout
begin

text \<open>
  \<^verbatim>\<open>kernel/src/pci/dma.rs\<close>: buffers for direct memory access.  They come from the frame allocator of the
  kernel, \<^verbatim>\<open>FRAME_ALLOCATOR\<close>, which is an optional forest; their contents are bytes of memory at the
  addresses of the direct mapping.
\<close>

section \<open>Buffers\<close>

datatype dma_error = DmaError

record dma_buffer =
  db_phys_addr :: addr
  db_virt_addr :: addr
  db_size :: nat

type_synonym dma_state = "forest_state option \<times> ram"

text \<open>
  The memory is cleared through a pointer to \<^verbatim>\<open>()\<close>, a type of size zero.
\<close>

definition get_zeroed_dma_internal :: "nat \<Rightarrow> dma_state \<Rightarrow> ((dma_error + dma_buffer) \<times> dma_state) rust" where
  "get_zeroed_dma_internal frames d = (case d of (fa, m) \<Rightarrow> (case fa of
     None \<Rightarrow> Some (Inl DmaError, fa, m)
   | Some allocator \<Rightarrow> do {
       (r, allocator) \<leftarrow> forest_allocate_contiguous_pages allocator frames;
       case r of
         None \<Rightarrow> Some (Inl DmaError, Some allocator, m)
       | Some virt \<Rightarrow> do {
           count \<leftarrow> usize_mul frames 4096;
           let m = write_bytes 0 virt 0 count m;
           phys \<leftarrow> usize_sub virt (fo_hddm_offset (fst allocator));
           phys \<leftarrow> phys_addr_new phys;
           Some (Inr \<lparr>db_phys_addr = phys, db_virt_addr = virt, db_size = frames\<rparr>, Some allocator, m)
         }
     }))"

definition get_zeroed_dma :: "nat \<Rightarrow> dma_state \<Rightarrow> ((dma_error + dma_buffer) \<times> dma_state) rust" where
  "get_zeroed_dma frames d = get_zeroed_dma_internal frames d"

definition free_zeroed_dma :: "dma_buffer \<Rightarrow> dma_state \<Rightarrow> (dma_error option \<times> dma_state) rust" where
  "free_zeroed_dma buffer d = (case d of (fa, m) \<Rightarrow> (case fa of
     None \<Rightarrow> Some (Some DmaError, fa, m)
   | Some allocator \<Rightarrow> do {
       allocator \<leftarrow> forest_deallocate_contiguous_frames allocator (db_phys_addr buffer) (db_size buffer);
       Some (None, Some allocator, m)
     }))"

text \<open>\<^verbatim>\<open>Drop\<close> of a \<^verbatim>\<open>DynamicDmaBuffer\<close>: the result of freeing is ignored.\<close>

definition drop_dynamic :: "dma_buffer \<Rightarrow> dma_state \<Rightarrow> dma_state rust" where
  "drop_dynamic buffer d = do { (r, d) \<leftarrow> free_zeroed_dma buffer d; Some d }"

section \<open>Pools\<close>

record dma_pool =
  dp_buffers :: "dma_buffer list"
  dp_free_buffers :: "nat list"
  dp_buffer_size :: nat

fun pool_fill :: "nat \<Rightarrow> nat \<Rightarrow> dma_buffer list \<Rightarrow> dma_state \<Rightarrow> ((dma_error + dma_buffer list) \<times> dma_state) rust" where
  "pool_fill buffer_size_frames 0 buffers d = Some (Inr buffers, d)"
| "pool_fill buffer_size_frames (Suc n) buffers d = do {
     (r, d) \<leftarrow> get_zeroed_dma_internal buffer_size_frames d;
     case r of
       Inl e \<Rightarrow> Some (Inl e, d)
     | Inr buffer \<Rightarrow> pool_fill buffer_size_frames n (buffers @ [buffer]) d
   }"

definition dma_pool_new :: "nat \<Rightarrow> nat \<Rightarrow> dma_state \<Rightarrow> ((dma_error + dma_pool) \<times> dma_state) rust" where
  "dma_pool_new buffer_size_frames num_buffers d = do {
     (r, d) \<leftarrow> pool_fill buffer_size_frames num_buffers [] d;
     case r of
       Inl e \<Rightarrow> Some (Inl e, d)
     | Inr buffers \<Rightarrow> Some (Inr \<lparr>dp_buffers = buffers, dp_free_buffers = [0 ..< num_buffers],
         dp_buffer_size = buffer_size_frames\<rparr>, d)
   }"

text \<open>\<^verbatim>\<open>Vec::pop\<close> takes the last index.\<close>

definition allocate_buffer :: "dma_pool \<Rightarrow> (dma_buffer option \<times> dma_pool) rust" where
  "allocate_buffer p =
     (if dp_free_buffers p = [] then Some (None, p)
      else do {
        b \<leftarrow> vec_get (dp_buffers p) (last (dp_free_buffers p));
        Some (Some b, p\<lparr>dp_free_buffers := butlast (dp_free_buffers p)\<rparr>)
      })"

definition buffer_position :: "addr \<Rightarrow> dma_buffer list \<Rightarrow> nat option" where
  "buffer_position v bs = find (\<lambda>i. db_virt_addr (bs ! i) = v) [0 ..< length bs]"

definition free_buffer :: "dma_buffer \<Rightarrow> dma_pool \<Rightarrow> dma_pool" where
  "free_buffer buffer p = (case buffer_position (db_virt_addr buffer) (dp_buffers p) of
     Some index \<Rightarrow> p\<lparr>dp_free_buffers := dp_free_buffers p @ [index]\<rparr>
   | None \<Rightarrow> p)"

text \<open>\<^verbatim>\<open>DmaManager\<close>: one pool of 24 buffers of one frame.\<close>

record dma_manager =
  dm_pools_4kb :: dma_pool

definition dma_manager_new :: "dma_state \<Rightarrow> ((dma_error + dma_manager) \<times> dma_state) rust" where
  "dma_manager_new d = do {
     (r, d) \<leftarrow> dma_pool_new 1 24 d;
     case r of
       Inl e \<Rightarrow> Some (Inl e, d)
     | Inr p \<Rightarrow> Some (Inr \<lparr>dm_pools_4kb = p\<rparr>, d)
   }"

definition get_pool_4kb :: "dma_manager \<Rightarrow> (dma_buffer option \<times> dma_manager) rust" where
  "get_pool_4kb dm = do {
     (b, p) \<leftarrow> allocate_buffer (dm_pools_4kb dm);
     Some (b, dm\<lparr>dm_pools_4kb := p\<rparr>)
   }"

definition free_buffer_4kb :: "dma_buffer \<Rightarrow> dma_manager \<Rightarrow> dma_manager" where
  "free_buffer_4kb buffer dm = dm\<lparr>dm_pools_4kb := free_buffer buffer (dm_pools_4kb dm)\<rparr>"

text \<open>\<^verbatim>\<open>DMA_MANAGER\<close> is built when it is first locked; a failure to build it panics.\<close>

definition dma_manager_lock :: "dma_manager option \<Rightarrow> dma_state \<Rightarrow> (dma_manager \<times> dma_state) rust" where
  "dma_manager_lock pool d = (case pool of
     Some dm \<Rightarrow> Some (dm, d)
   | None \<Rightarrow> do {
       (r, d) \<leftarrow> dma_manager_new d;
       case r of Inl e \<Rightarrow> None | Inr dm \<Rightarrow> Some (dm, d)
     })"

section \<open>Single buffers\<close>

definition buffer_range :: "dma_buffer \<Rightarrow> addr set" where
  "buffer_range b = {db_virt_addr b ..< db_virt_addr b + db_size b * 4096}"

lemma write_bytes_unit [simp]: "write_bytes 0 a v n m = m"
  by (rule ext) (auto simp: write_bytes_def put_bytes_def)

text \<open>An allocation of the forest, with the run of the new block and the runs of all others.\<close>

lemma forest_alloc_run:
  assumes ok: "forest_ok s As" and i: "4096 * 2 ^ i < usize_bound"
  shows "\<exists>r s'. forest_allocate_contiguous_pages s (2 ^ i) = Some (r, s') \<and>
    fo_hddm_offset (fst s') = fo_hddm_offset (fst s) \<and>
    (\<forall>k < length As. \<forall>b. run_pages s' k b = run_pages s k b) \<and>
    (case r of
       None \<Rightarrow> forest_ok s' As
     | Some v \<Rightarrow> \<exists>k b. k < length As \<and> b \<notin> As ! k \<and> forest_ok s' (As[k := insert b (As ! k)]) \<and>
         run_pages s k b = {v ..< v + 2 ^ i * 4096} \<and> fo_hddm_offset (fst s) \<le> v \<and> v - fo_hddm_offset (fst s) < 2 ^ 52)"
proof -
  from forest_alloc_pages_ok [OF ok i] obtain r s' where
    r: "forest_allocate_contiguous_pages s (2 ^ i) = Some (r, s')" "fo_hddm_offset (fst s') = fo_hddm_offset (fst s)" and
    sb: "\<forall>j < length As. rel_option same_bounds (fo_allocators (fst s) ! j) (fo_allocators (fst s') ! j)" and
    cs: "case r of
       None \<Rightarrow> forest_ok s' As \<and> (\<forall>k < length As. \<forall>f. fo_allocators (fst s) ! k = Some f \<longrightarrow>
         (\<forall>b \<in> fb_free (f, snd s). fb_pages f (fst b) < 2 ^ i))
     | Some v \<Rightarrow> \<exists>k f l p. k < length As \<and> fo_allocators (fst s) ! k = Some f \<and> (l, p) \<notin> As ! k \<and>
         forest_ok s' (As[k := insert (l, p) (As ! k)]) \<and> fb_pages f l = 2 ^ i \<and> v = fb_page_of f p"
    by (elim exE conjE)
  have run: "\<forall>k < length As. \<forall>b. run_pages s' k b = run_pages s k b" using sb run_pages_cong by blast
  show ?thesis
  proof (cases r)
    case None
    then show ?thesis using r run cs by simp
  next
    case (Some v)
    with cs obtain k f l p where k: "k < length As" "fo_allocators (fst s) ! k = Some f" "(l, p) \<notin> As ! k"
      "forest_ok s' (As[k := insert (l, p) (As ! k)])" "fb_pages f l = 2 ^ i" "v = fb_page_of f p" by auto
    obtain f' where f': "fo_allocators (fst s') ! k = Some f'" "same_bounds f f'"
      using sb k(1,2) by (cases "fo_allocators (fst s') ! k") force+
    have "fo_hddm_offset (fst s) \<le> v" "v - fo_hddm_offset (fst s) < 2 ^ 52"
      using forest_block_offset [OF k(4), of k l p f'] k r(2) f' same_bounds_page_of [OF f'(2)] by auto
    moreover have "run_pages s k (l, p) = {v ..< v + 2 ^ i * 4096}" using k(2,5,6) by (simp add: run_pages_def fb_block_pages_def)
    ultimately show ?thesis using r run k(1,3,4) Some
      by (intro exI [of _ "Some v"] exI [of _ s']) (simp, rule exI [of _ k], simp, rule exI [of _ l], rule exI [of _ p], simp)
  qed
qed

text \<open>The contents of the memory are left as they were.\<close>

lemma get_dma_memory:
  assumes "get_zeroed_dma_internal frames (fa, m) = Some (r, d)"
  shows "snd d = m"
proof (cases fa)
  case (Some s)
  show ?thesis
  proof (cases "forest_allocate_contiguous_pages s frames")
    case None
    then show ?thesis using assms Some by (simp add: get_zeroed_dma_internal_def)
  next
    case a: (Some p)
    obtain x s' where p: "p = (x, s')" by (cases p)
    then show ?thesis using assms Some a
      by (cases x) (auto simp: get_zeroed_dma_internal_def bind_eq_Some_conv)
  qed
qed (use assms in \<open>auto simp: get_zeroed_dma_internal_def\<close>)

lemma drop_dma_memory: "drop_dynamic buf (fa, m) = Some d \<Longrightarrow> snd d = m"
  by (cases fa) (auto simp: drop_dynamic_def free_zeroed_dma_def bind_eq_Some_conv)

lemma get_dma_run:
  assumes ok: "forest_ok s As" and i: "4096 * 2 ^ i < usize_bound"
  shows "\<exists>r s'. get_zeroed_dma_internal (2 ^ i) (Some s, m) = Some (r, Some s', m) \<and>
    fo_hddm_offset (fst s') = fo_hddm_offset (fst s) \<and>
    (\<forall>k < length As. \<forall>b. run_pages s' k b = run_pages s k b) \<and>
    (case r of
       Inl e \<Rightarrow> forest_ok s' As
     | Inr buf \<Rightarrow> \<exists>k b. k < length As \<and> b \<notin> As ! k \<and> forest_ok s' (As[k := insert b (As ! k)]) \<and>
         run_pages s k b = buffer_range buf \<and> db_size buf = 2 ^ i \<and>
         db_phys_addr buf + fo_hddm_offset (fst s) = db_virt_addr buf)"
proof -
  from forest_alloc_run [OF assms] obtain r s' where
    r: "forest_allocate_contiguous_pages s (2 ^ i) = Some (r, s')" "fo_hddm_offset (fst s') = fo_hddm_offset (fst s)"
      "\<forall>k < length As. \<forall>b. run_pages s' k b = run_pages s k b" and
    cs: "case r of
       None \<Rightarrow> forest_ok s' As
     | Some v \<Rightarrow> \<exists>k b. k < length As \<and> b \<notin> As ! k \<and> forest_ok s' (As[k := insert b (As ! k)]) \<and>
         run_pages s k b = {v ..< v + 2 ^ i * 4096} \<and> fo_hddm_offset (fst s) \<le> v \<and> v - fo_hddm_offset (fst s) < 2 ^ 52"
    by (elim exE conjE)
  show ?thesis
  proof (cases r)
    case None
    then show ?thesis using r cs
      by (intro exI [of _ "Inl DmaError"] exI [of _ s']) (simp add: get_zeroed_dma_internal_def)
  next
    case (Some v)
    define buf where "buf = \<lparr>db_phys_addr = v - fo_hddm_offset (fst s), db_virt_addr = v, db_size = 2 ^ i\<rparr>"
    from cs Some obtain k b where k: "k < length As" "b \<notin> As ! k" "forest_ok s' (As[k := insert b (As ! k)])"
      "run_pages s k b = {v ..< v + 2 ^ i * 4096}" "fo_hddm_offset (fst s) \<le> v" "v - fo_hddm_offset (fst s) < 2 ^ 52" by auto
    then have "get_zeroed_dma_internal (2 ^ i) (Some s, m) = Some (Inr buf, Some s', m)"
      using r Some i by (simp add: get_zeroed_dma_internal_def phys_addr_new_def buf_def mult.commute)
    then show ?thesis using r k
      by (intro exI [of _ "Inr buf"] exI [of _ s'])
         (simp, rule exI [of _ k], simp, rule exI [of _ "fst b"], rule exI [of _ "snd b"], simp add: buffer_range_def buf_def)
  qed
qed


lemma free_dma_run:
  assumes ok: "forest_ok s As" and k: "k < length As" "b \<in> As ! k"
    and run: "run_pages s k b = buffer_range buf" "db_size buf = 2 ^ i" "db_phys_addr buf + fo_hddm_offset (fst s) = db_virt_addr buf"
  shows "\<exists>s'. free_zeroed_dma buf (Some s, m) = Some (None, Some s', m) \<and> forest_ok s' (As[k := As ! k - {b}]) \<and>
    fo_hddm_offset (fst s') = fo_hddm_offset (fst s) \<and> (\<forall>j < length As. \<forall>c. run_pages s' j c = run_pages s j c)"
proof -
  have "run_pages s k b = {db_phys_addr buf + fo_hddm_offset (fst s) ..<
      db_phys_addr buf + fo_hddm_offset (fst s) + 2 ^ i * 4096}" using run by (simp add: buffer_range_def)
  from forest_dealloc_run [OF ok k this] obtain s' where
    "forest_deallocate_contiguous_frames s (db_phys_addr buf) (2 ^ i) = Some s'" "forest_ok s' (As[k := As ! k - {b}])"
    "fo_hddm_offset (fst s') = fo_hddm_offset (fst s)" "\<forall>j < length As. \<forall>c. run_pages s' j c = run_pages s j c" by blast
  then show ?thesis using run(2) by (simp add: free_zeroed_dma_def)
qed

text \<open>Taking a buffer and dropping it leaves exactly the blocks that were allocated before.\<close>

lemma dma_take_drop:
  assumes ok: "forest_ok s As" and i: "4096 * 2 ^ i < usize_bound"
    and get: "get_zeroed_dma (2 ^ i) (Some s, m) = Some (Inr buf, d)"
  shows "\<exists>s'. drop_dynamic buf d = Some (Some s', m) \<and> forest_ok s' As"
proof -
  from get_dma_run [OF ok i, of m] obtain r s1 where r: "get_zeroed_dma_internal (2 ^ i) (Some s, m) = Some (r, Some s1, m)" and
    d: "fo_hddm_offset (fst s1) = fo_hddm_offset (fst s)" "\<forall>k < length As. \<forall>b. run_pages s1 k b = run_pages s k b" and
    c: "case r of Inl e \<Rightarrow> forest_ok s1 As | Inr buf \<Rightarrow>
      \<exists>k b. k < length As \<and> b \<notin> As ! k \<and> forest_ok s1 (As[k := insert b (As ! k)]) \<and> run_pages s k b = buffer_range buf \<and>
        db_size buf = 2 ^ i \<and> db_phys_addr buf + fo_hddm_offset (fst s) = db_virt_addr buf"
    by (elim exE conjE)
  have e: "r = Inr buf" "d = (Some s1, m)" using r get by (simp_all add: get_zeroed_dma_def)
  have cs: "\<exists>k b. k < length As \<and> b \<notin> As ! k \<and> forest_ok s1 (As[k := insert b (As ! k)]) \<and> run_pages s k b = buffer_range buf \<and>
      db_size buf = 2 ^ i \<and> db_phys_addr buf + fo_hddm_offset (fst s) = db_virt_addr buf" using c unfolding e by simp
  from cs obtain k b where k: "k < length As" "b \<notin> As ! k" "forest_ok s1 (As[k := insert b (As ! k)])"
      "run_pages s k b = buffer_range buf" "db_size buf = 2 ^ i" "db_phys_addr buf + fo_hddm_offset (fst s) = db_virt_addr buf"
    by (elim exE conjE)
  have "run_pages s1 k b = buffer_range buf" "db_phys_addr buf + fo_hddm_offset (fst s1) = db_virt_addr buf"
    using k d(1) d(2) [rule_format, OF k(1), of b] by simp_all
  from free_dma_run [OF k(3) _ _ this(1) k(5) this(2), of m]
  have "\<exists>s'. free_zeroed_dma buf (Some s1, m) = Some (None, Some s', m) \<and> forest_ok s' As" using k(1,2) by auto
  then show ?thesis by (auto simp: drop_dynamic_def e(2))
qed

section \<open>Pools\<close>

text \<open>The buffers occupy pairwise different allocated blocks of the forest, given as indices and blocks.\<close>

definition owns :: "forest_state \<Rightarrow> block set list \<Rightarrow> dma_buffer list \<Rightarrow> (nat \<times> block) list \<Rightarrow> bool" where
  "owns s As bufs bs \<longleftrightarrow> length bs = length bufs \<and> distinct bs \<and>
     (\<forall>i < length bs. fst (bs ! i) < length As \<and> snd (bs ! i) \<in> As ! fst (bs ! i) \<and>
        run_pages s (fst (bs ! i)) (snd (bs ! i)) = buffer_range (bufs ! i))"

lemma owns_snoc:
  assumes "owns s As bufs bs" and "k < length As" "b \<notin> As ! k" "run_pages s k b = buffer_range buf"
    and "\<forall>k < length As. \<forall>b. run_pages s' k b = run_pages s k b"
  shows "owns s' (As[k := insert b (As ! k)]) (bufs @ [buf]) (bs @ [(k, b)])"
proof -
  have "(k, b) \<notin> set bs"
  proof
    assume "(k, b) \<in> set bs"
    then obtain i where "i < length bs" "bs ! i = (k, b)" by (auto simp: in_set_conv_nth)
    then show False using assms(1,3) by (force simp: owns_def)
  qed
  moreover have rp: "run_pages s' j c = run_pages s j c" if "j < length As" for j c using assms(5) that by blast
  ultimately show ?thesis using assms(1-4) by (auto simp: owns_def nth_append nth_list_update rp)
qed

lemma owns_disjoint:
  assumes "forest_ok s As" "owns s As bufs bs" "i < length bufs" "j < length bufs" "i \<noteq> j"
  shows "buffer_range (bufs ! i) \<inter> buffer_range (bufs ! j) = {}"
proof -
  have "bs ! i \<noteq> bs ! j" using assms(2-5) by (simp add: owns_def nth_eq_iff_index_eq)
  then have "fst (bs ! i) = fst (bs ! j) \<longrightarrow> snd (bs ! i) \<noteq> snd (bs ! j)" by (auto simp: prod_eq_iff)
  then show ?thesis
    using assms(2-4) forest_runs_disjoint [OF assms(1), of "fst (bs ! i)" "snd (bs ! i)" "fst (bs ! j)" "snd (bs ! j)"]
    by (auto simp: owns_def)
qed

lemma owns_apart_old:
  assumes "forest_ok s' As'" "owns s' As' bufs bs" "\<forall>j < length bs. snd (bs ! j) \<notin> As ! fst (bs ! j)"
    and "length As' = length As" "\<forall>k < length As. As ! k \<subseteq> As' ! k" and a: "a < length bufs" "k < length As" "c \<in> As ! k"
  shows "buffer_range (bufs ! a) \<inter> run_pages s' k c = {}"
proof -
  have "a < length bs" using assms(2) a by (simp add: owns_def)
  with assms a have "fst (bs ! a) < length As'" "snd (bs ! a) \<in> As' ! fst (bs ! a)" "snd (bs ! a) \<notin> As ! fst (bs ! a)"
    "run_pages s' (fst (bs ! a)) (snd (bs ! a)) = buffer_range (bufs ! a)" by (auto simp: owns_def)
  moreover have "c \<in> As' ! k" "k < length As'" using assms(4,5) a by auto
  ultimately show ?thesis
    using forest_runs_disjoint [OF assms(1), of "fst (bs ! a)" "snd (bs ! a)" k c] a(3) by metis
qed

lemma owns_nonempty:
  assumes "forest_ok s As" "owns s As bufs bs" "a < length bufs"
  shows "buffer_range (bufs ! a) \<noteq> {}"
proof -
  have "a < length bs" using assms by (simp add: owns_def)
  then have "fst (bs ! a) < length As" "run_pages s (fst (bs ! a)) (snd (bs ! a)) = buffer_range (bufs ! a)"
    using assms(2) by (auto simp: owns_def)
  moreover obtain f where "fo_allocators (fst s) ! fst (bs ! a) = Some f" using forest_okD(2) [OF assms(1)] calculation(1) by blast
  ultimately show ?thesis by (auto simp: run_pages_def fb_block_pages_def fb_pages_def)
qed

lemma pool_fill_ok:
  assumes "forest_ok s As" "4096 * 2 ^ i < usize_bound" "owns s As bufs bs"
  shows "\<exists>r s' As'. pool_fill (2 ^ i) n bufs (Some s, m) = Some (r, Some s', m) \<and> forest_ok s' As' \<and>
    length As' = length As \<and> (\<forall>k < length As. As ! k \<subseteq> As' ! k) \<and>
    (case r of
       Inl e \<Rightarrow> True
     | Inr bufs' \<Rightarrow> \<exists>new bs'. bufs' = bufs @ new \<and> length new = n \<and> owns s' As' bufs' bs' \<and> take (length bs) bs' = bs \<and>
         (\<forall>j. length bs \<le> j \<and> j < length bs' \<longrightarrow> snd (bs' ! j) \<notin> As ! fst (bs' ! j)))"
  using assms(1,3)
proof (induction n arbitrary: s As bufs bs)
  case 0
  then show ?case by (intro exI [of _ "Inr bufs"] exI [of _ s] exI [of _ As]) (auto simp: owns_def intro!: exI [of _ bs])
next
  case (Suc n)
  from get_dma_run [OF Suc.prems(1) assms(2), of m] obtain r s1 where
    g: "get_zeroed_dma_internal (2 ^ i) (Some s, m) = Some (r, Some s1, m)"
      "\<forall>k < length As. \<forall>b. run_pages s1 k b = run_pages s k b" and
    cs: "case r of
       Inl e \<Rightarrow> forest_ok s1 As
     | Inr buf \<Rightarrow> \<exists>k b. k < length As \<and> b \<notin> As ! k \<and> forest_ok s1 (As[k := insert b (As ! k)]) \<and>
         run_pages s k b = buffer_range buf \<and> db_size buf = 2 ^ i \<and>
         db_phys_addr buf + fo_hddm_offset (fst s) = db_virt_addr buf"
    by (elim exE conjE)
  show ?case
  proof (cases r)
    case (Inl e)
    then show ?thesis using g cs by (intro exI [of _ "Inl e"] exI [of _ s1] exI [of _ As]) simp
  next
    case (Inr buf)
    with cs obtain k b where k: "k < length As" "b \<notin> As ! k" "forest_ok s1 (As[k := insert b (As ! k)])"
      "run_pages s k b = buffer_range buf" by auto
    let ?As = "As[k := insert b (As ! k)]"
    from Suc.IH [OF k(3) owns_snoc [OF Suc.prems(2) k(1,2,4) g(2)]] obtain r' s' As' where
      ih: "pool_fill (2 ^ i) n (bufs @ [buf]) (Some s1, m) = Some (r', Some s', m)" "forest_ok s' As'" "length As' = length ?As"
        "\<forall>j < length ?As. ?As ! j \<subseteq> As' ! j" and
      cs': "case r' of
         Inl e \<Rightarrow> True
       | Inr bufs' \<Rightarrow> \<exists>new bs'. bufs' = (bufs @ [buf]) @ new \<and> length new = n \<and> owns s' As' bufs' bs' \<and>
           take (length (bs @ [(k, b)])) bs' = bs @ [(k, b)] \<and>
           (\<forall>j. length (bs @ [(k, b)]) \<le> j \<and> j < length bs' \<longrightarrow> snd (bs' ! j) \<notin> ?As ! fst (bs' ! j))"
      by (elim exE conjE)
    have mono: "\<forall>j < length As. As ! j \<subseteq> As' ! j" using ih(4) k(1) by (auto simp: nth_list_update split: if_splits)
    have "case r' of
        Inl e \<Rightarrow> True
      | Inr bufs' \<Rightarrow> \<exists>new bs'. bufs' = bufs @ new \<and> length new = Suc n \<and> owns s' As' bufs' bs' \<and> take (length bs) bs' = bs \<and>
          (\<forall>j. length bs \<le> j \<and> j < length bs' \<longrightarrow> snd (bs' ! j) \<notin> As ! fst (bs' ! j))"
    proof (cases r')
      case (Inr bufs')
      with cs' obtain new bs' where n: "bufs' = (bufs @ [buf]) @ new" "length new = n" "owns s' As' bufs' bs'"
        "take (Suc (length bs)) bs' = bs @ [(k, b)]"
        "\<forall>j. Suc (length bs) \<le> j \<and> j < length bs' \<longrightarrow> snd (bs' ! j) \<notin> ?As ! fst (bs' ! j)" by auto
      have "take (length bs) bs' = bs" using arg_cong [OF n(4), of "take (length bs)"] by simp
      moreover have "bs' ! length bs = (k, b)" using arg_cong [OF n(4), of "\<lambda>xs. xs ! length bs"] by simp
      moreover have "snd (bs' ! j) \<notin> As ! fst (bs' ! j)" if "Suc (length bs) \<le> j" "j < length bs'" for j
        using n(5) that k(1) by (cases "fst (bs' ! j) = k") auto
      ultimately have "\<forall>j. length bs \<le> j \<and> j < length bs' \<longrightarrow> snd (bs' ! j) \<notin> As ! fst (bs' ! j)"
        using k(2) by (metis le_eq_less_or_eq Suc_leI fst_conv snd_conv)
      then show ?thesis using Inr n(1-3) \<open>take (length bs) bs' = bs\<close>
        by (simp, intro exI [of _ "buf # new"] exI [of _ bs']) simp
    qed simp
    then show ?thesis using g(1) Inr ih mono by (intro exI [of _ r'] exI [of _ s'] exI [of _ As']) simp
  qed
qed

definition pool_ok :: "dma_pool \<Rightarrow> nat set \<Rightarrow> bool" where
  "pool_ok p out \<longleftrightarrow> distinct (dp_free_buffers p) \<and> set (dp_free_buffers p) \<inter> out = {} \<and>
     set (dp_free_buffers p) \<union> out = {..< length (dp_buffers p)} \<and>
     (\<forall>i < length (dp_buffers p). \<forall>j < length (dp_buffers p). i \<noteq> j \<longrightarrow>
        db_virt_addr (dp_buffers p ! i) \<noteq> db_virt_addr (dp_buffers p ! j))"

lemma allocate_buffer_ok:
  assumes "pool_ok p out"
  shows "if dp_free_buffers p = [] then allocate_buffer p = Some (None, p)
    else \<exists>i p'. i \<notin> out \<and> i < length (dp_buffers p) \<and> allocate_buffer p = Some (Some (dp_buffers p ! i), p') \<and>
      dp_buffers p' = dp_buffers p \<and> pool_ok p' (insert i out)"
proof (cases "dp_free_buffers p" rule: rev_cases)
  case (snoc fs i)
  have "i \<notin> out" "i < length (dp_buffers p)" using assms snoc unfolding pool_ok_def by auto
  moreover have "pool_ok (p\<lparr>dp_free_buffers := fs\<rparr>) (insert i out)" using assms snoc unfolding pool_ok_def by auto
  ultimately show ?thesis using snoc
    by (simp add: allocate_buffer_def) (rule exI [of _ i], simp)
qed (simp add: allocate_buffer_def)

lemma free_buffer_ok:
  assumes "pool_ok p out" "i \<in> out"
  shows "pool_ok (free_buffer (dp_buffers p ! i) p) (out - {i})"
proof -
  have i: "i < length (dp_buffers p)" "i \<notin> set (dp_free_buffers p)" using assms unfolding pool_ok_def by auto
  have "find (\<lambda>j. db_virt_addr (dp_buffers p ! j) = db_virt_addr (dp_buffers p ! i)) [0 ..< length (dp_buffers p)] = Some i"
    unfolding find_Some_iff using assms(1) i(1) by (intro exI [of _ i]) (auto simp: pool_ok_def)
  then show ?thesis using assms i by (auto simp: pool_ok_def free_buffer_def buffer_position_def)
qed

text \<open>
  C25: creating a pool never panics on a consistent frame allocator; its buffers are pairwise disjoint, and
  disjoint from everything that was allocated before; all of them are free.
\<close>

theorem dma_pool_new_correct:
  assumes ok: "forest_ok s As" and i: "4096 * 2 ^ i < usize_bound"
  shows "\<exists>r s' As'. dma_pool_new (2 ^ i) n (Some s, m) = Some (r, Some s', m) \<and> forest_ok s' As' \<and>
    (\<forall>p. r = Inr p \<longrightarrow> length (dp_buffers p) = n \<and> pool_ok p {} \<and>
      (\<forall>a < n. \<forall>b < n. a \<noteq> b \<longrightarrow> buffer_range (dp_buffers p ! a) \<inter> buffer_range (dp_buffers p ! b) = {}) \<and>
      (\<forall>a < n. \<forall>k < length As. \<forall>c \<in> As ! k. buffer_range (dp_buffers p ! a) \<inter> run_pages s' k c = {}))"
proof -
  have "owns s As [] []" by (simp add: owns_def)
  from pool_fill_ok [OF ok i this, of n m] obtain r s' As' where
    f: "pool_fill (2 ^ i) n [] (Some s, m) = Some (r, Some s', m)" "forest_ok s' As'" "length As' = length As"
      "\<forall>k < length As. As ! k \<subseteq> As' ! k" and
    cs: "case r of
       Inl e \<Rightarrow> True
     | Inr bufs' \<Rightarrow> \<exists>new bs'. bufs' = [] @ new \<and> length new = n \<and> owns s' As' bufs' bs' \<and>
         take (length ([] :: (nat \<times> block) list)) bs' = [] \<and> (\<forall>j. length ([] :: (nat \<times> block) list) \<le> j \<and> j < length bs' \<longrightarrow> snd (bs' ! j) \<notin> As ! fst (bs' ! j))"
    by (elim exE conjE)
  show ?thesis
  proof (cases r)
    case (Inl e)
    then show ?thesis using f by (simp add: dma_pool_new_def) blast
  next
    case (Inr bufs)
    with cs obtain bs where b: "length bufs = n" "owns s' As' bufs bs" "\<forall>j < length bs. snd (bs ! j) \<notin> As ! fst (bs ! j)" by auto
    define p where "p = \<lparr>dp_buffers = bufs, dp_free_buffers = [0 ..< n], dp_buffer_size = 2 ^ i\<rparr>"
    have dis: "\<forall>a < n. \<forall>b < n. a \<noteq> b \<longrightarrow> buffer_range (bufs ! a) \<inter> buffer_range (bufs ! b) = {}"
      using owns_disjoint [OF f(2) b(2)] b(1) by simp
    have old: "\<forall>a < n. \<forall>k < length As. \<forall>c \<in> As ! k. buffer_range (bufs ! a) \<inter> run_pages s' k c = {}"
      using owns_apart_old [OF f(2) b(2,3) f(3,4)] b(1) by blast
    note ne = owns_nonempty [OF f(2) b(2), unfolded b(1)]
    have "db_virt_addr (bufs ! a) \<noteq> db_virt_addr (bufs ! c)" if "a < n" "c < n" "a \<noteq> c" for a c
      using dis that ne [OF that(1)] ne [OF that(2)] by (force simp: buffer_range_def)
    then have "pool_ok p {}" using b(1) by (auto simp: pool_ok_def p_def)
    moreover have "dma_pool_new (2 ^ i) n (Some s, m) = Some (Inr p, Some s', m)" using f(1) Inr by (simp add: dma_pool_new_def p_def)
    ultimately show ?thesis using f(2) dis old b(1)
      by (intro exI [of _ "Inr p"] exI [of _ s'] exI [of _ As']) (simp add: p_def)
  qed
qed

lemma one_forest_get:
  "\<exists>buf d. get_zeroed_dma 1 (Some one_forest, m) = Some (Inr buf, d) \<and> db_virt_addr buf < 0x6000 \<and> db_phys_addr buf < 0x6000"
proof -
  have "4096 * 2 ^ 0 < usize_bound" by (simp add: usize_bound_def)
  from forest_alloc_pages_ok [OF one_forest_ok this] obtain r s' where
    r: "forest_allocate_contiguous_pages one_forest (2 ^ 0) = Some (r, s')" "fo_hddm_offset (fst s') = fo_hddm_offset (fst one_forest)" and
    sb: "\<forall>j < length [{} :: block set]. rel_option same_bounds (fo_allocators (fst one_forest) ! j) (fo_allocators (fst s') ! j)" and
    cs: "case r of
       None \<Rightarrow> forest_ok s' [{}] \<and> (\<forall>k < length [{} :: block set]. \<forall>f. fo_allocators (fst one_forest) ! k = Some f \<longrightarrow>
         (\<forall>b \<in> fb_free (f, snd one_forest). fb_pages f (fst b) < 2 ^ 0))
     | Some v \<Rightarrow> \<exists>k f l p. k < length [{} :: block set] \<and> fo_allocators (fst one_forest) ! k = Some f \<and> (l, p) \<notin> [{}] ! k \<and>
         forest_ok s' ([{}][k := insert (l, p) ([{}] ! k)]) \<and> fb_pages f l = 2 ^ 0 \<and> v = fb_page_of f p"
    by (elim exE conjE)
  obtain b where b: "b \<in> fb_free four_frames" using four_frames_free by blast
  have "r \<noteq> None"
  proof
    assume "r = None"
    with cs b have "fb_pages (fst four_frames) (fst b) < 1" by (simp add: one_forest_def)
    then show False by (simp add: fb_pages_def)
  qed
  then obtain v l p where v: "r = Some v" "forest_ok s' [{(l, p)}]" "v = fb_page_of (fst four_frames) p"
    using cs by (auto simp: one_forest_def)
  obtain f' where f': "fo_allocators (fst s') ! 0 = Some f'" "same_bounds (fst four_frames) f'"
    using sb by (cases "fo_allocators (fst s') ! 0") (auto simp: one_forest_def)
  have "frames_ok (f', snd s') {(l, p)}" using forest_okD(2) [OF v(2), of 0] f'(1) by simp
  then have "fb_page_of f' p < fb_virt_end f'" using block_in_range(3) by blast
  moreover have "fb_page_of f' p = v" "fb_virt_end f' = 0x6000"
    using f'(2) v(3) same_bounds_page_of [OF f'(2)] by (auto simp: same_bounds_def four_frames_def Let_def)
  ultimately have "v < 0x6000" by simp
  then show ?thesis using r v(1)
    by (simp add: get_zeroed_dma_def get_zeroed_dma_internal_def one_forest_def phys_addr_new_def usize_bound_def)
qed

theorem dma_pool_new_correct_witness:
  "\<exists>r s'. dma_pool_new (2 ^ 0) 24 (Some one_forest, \<lambda>_. 0) = Some (r, Some s', \<lambda>_. 0)"
proof -
  have "4096 * 2 ^ 0 < usize_bound" by (simp add: usize_bound_def)
  from dma_pool_new_correct [OF one_forest_ok this, of 24 "\<lambda>_. 0"] show ?thesis by (elim exE conjE) (intro exI)
qed

end
