(* ===== verification/Nvme_Commands.thy ===== *)
theory Nvme_Commands
  imports Layout
begin

text \<open>
  \<^verbatim>\<open>kernel/src/pci/nvme/commands.rs\<close> and \<^verbatim>\<open>kernel/src/pci/nvme/registers.rs\<close>: the commands and completions that the
  driver exchanges with an NVMe controller, the structures it identifies itself with, and its registers.
  Each structure has its \<^verbatim>\<open>repr(C)\<close> layout; commands and completions are also records with their bytes.
\<close>

section \<open>Layouts\<close>

definition nvme_command_layout :: layout where
  "nvme_command_layout = [
     (''cdw0'', U32), (''nsid'', U32), (''cdw2'', U32), (''cdw3'', U32), (''mptr'', U64), (''prp1'', U64),
     (''prp2'', U64), (''cdw10'', U32), (''cdw11'', U32), (''cdw12'', U32), (''cdw13'', U32), (''cdw14'', U32),
     (''cdw15'', U32)]"

definition nvme_completion_layout :: layout where
  "nvme_completion_layout = [
     (''dw0'', U32), (''dw1'', U32), (''sq_head'', U16), (''sq_id'', U16), (''cid'', U16), (''status'', U16)]"

definition lba_format_layout :: layout where
  "lba_format_layout = [
     (''ms'', U16), (''lbads'', U8), (''rp'', U8)]"

definition identify_controller_layout :: layout where
  "identify_controller_layout = [
     (''vid'', U16), (''ssvid'', U16), (''sn'', Arr 20 U8), (''mn'', Arr 40 U8), (''fr'', Arr 8 U8),
     (''rab'', U8), (''ieee'', Arr 3 U8), (''cmic'', U8), (''mdts'', U8), (''cntlid'', U16), (''ver'', U32),
     (''rtd3r'', U32), (''rtd3e'', U32), (''oaes'', U32), (''ctratt'', U32), (''rrls'', U16),
     (''_reserved1'', Arr 9 U8), (''cntrltype'', U8), (''fguid'', Arr 16 U8), (''crdt1'', U16),
     (''crdt2'', U16), (''crdt3'', U16), (''_reserved2'', Arr 122 U8), (''oacs'', U16), (''acl'', U8),
     (''aerl'', U8), (''frmw'', U8), (''lpa'', U8), (''elpe'', U8), (''npss'', U8), (''avscc'', U8),
     (''apsta'', U8), (''wctemp'', U16), (''cctemp'', U16), (''mtfa'', U16), (''hmpre'', U32), (''hmmin'', U32),
     (''tnvmcap'', Arr 16 U8), (''unvmcap'', Arr 16 U8), (''rpmbs'', U32), (''edstt'', U16), (''dsto'', U8),
     (''fwug'', U8), (''kas'', U16), (''hctma'', U16), (''mntmt'', U16), (''mxtmt'', U16), (''sanicap'', U32),
     (''hmminds'', U32), (''hmmaxd'', U16), (''nsetidmax'', U16), (''endgidmax'', U16), (''anatt'', U8),
     (''anacap'', U8), (''anagrpmax'', U32), (''nanagrpid'', U32), (''pels'', U32),
     (''_reserved3'', Arr 156 U8), (''sqes'', U8), (''cqes'', U8), (''maxcmd'', U16), (''nn'', U32),
     (''oncs'', U16), (''fuses'', U16), (''fna'', U8), (''vwc'', U8), (''awun'', U16), (''awupf'', U16),
     (''nvscc'', U8), (''nwpc'', U8), (''acwu'', U16), (''_reserved4'', Arr 2 U8), (''sgls'', U32),
     (''mnan'', U32), (''_reserved5'', Arr 224 U8), (''subnqn'', Arr 256 U8), (''_reserved6'', Arr 768 U8),
     (''ioccsz'', U32), (''iorcsz'', U32), (''icdoff'', U16), (''fcatt'', U8), (''msdbd'', U8), (''ofcs'', U16),
     (''_reserved7'', Arr 242 U8), (''psd'', Arr 768 U8), (''vs'', Arr 1024 U8)]"

definition identify_namespace_layout :: layout where
  "identify_namespace_layout = [
     (''nsze'', U64), (''ncap'', U64), (''nuse'', U64), (''nsfeat'', U8), (''nlbaf'', U8), (''flbas'', U8),
     (''mc'', U8), (''dpc'', U8), (''dps'', U8), (''nmic'', U8), (''rescap'', U8), (''fpi'', U8),
     (''dlfeat'', U8), (''nawun'', U16), (''nawupf'', U16), (''nacwu'', U16), (''nabsn'', U16), (''nabo'', U16),
     (''nabspf'', U16), (''noiob'', U16), (''nvmcap'', Arr 16 U8), (''npwg'', U16), (''npwa'', U16),
     (''npdg'', U16), (''npda'', U16), (''nows'', U16), (''_reserved1'', Arr 18 U8), (''anagrpid'', U32),
     (''_reserved2'', Arr 3 U8), (''nsattr'', U8), (''nvmsetid'', U16), (''endgid'', U16),
     (''nguid'', Arr 16 U8), (''eui64'', Arr 8 U8), (''lbaf'', Arr 16 (Struct (map snd lba_format_layout))),
     (''_reserved3'', Arr 192 U8), (''vs'', Arr 3712 U8)]"

definition nvme_registers_layout :: layout where
  "nvme_registers_layout = [
     (''cap'', U64), (''vs'', U32), (''intms'', U32), (''intmc'', U32), (''cc'', U32), (''reserved1'', U32),
     (''csts'', U32), (''nssr'', U32), (''aqa'', U32), (''asq'', U64), (''acq'', U64), (''cmbloc'', U32),
     (''cmbsz'', U32), (''_reserved'', Arr 4032 U8), (''doorbells'', Arr 256 U32)]"

section \<open>Commands\<close>

definition ADMIN_CREATE_IO_SQ :: u8 where "ADMIN_CREATE_IO_SQ = 0x01"
definition ADMIN_CREATE_IO_CQ :: u8 where "ADMIN_CREATE_IO_CQ = 0x05"
definition ADMIN_IDENTIFY :: u8 where "ADMIN_IDENTIFY = 0x06"
definition NVM_WRITE :: u8 where "NVM_WRITE = 0x01"
definition NVM_READ :: u8 where "NVM_READ = 0x02"

record nvme_command =
  nc_cdw0 :: u32
  nc_nsid :: u32
  nc_cdw2 :: u32
  nc_cdw3 :: u32
  nc_mptr :: u64
  nc_prp1 :: u64
  nc_prp2 :: u64
  nc_cdw10 :: u32
  nc_cdw11 :: u32
  nc_cdw12 :: u32
  nc_cdw13 :: u32
  nc_cdw14 :: u32
  nc_cdw15 :: u32

definition nvme_command_new :: nvme_command where
  "nvme_command_new = \<lparr>nc_cdw0 = 0, nc_nsid = 0, nc_cdw2 = 0, nc_cdw3 = 0, nc_mptr = 0, nc_prp1 = 0, 
     nc_prp2 = 0, nc_cdw10 = 0, nc_cdw11 = 0, nc_cdw12 = 0, nc_cdw13 = 0, nc_cdw14 = 0, nc_cdw15 = 0\<rparr>"

definition nc_opcode :: "nvme_command \<Rightarrow> u8" where
  "nc_opcode c = ucast (nc_cdw0 c AND 0xFF)"

definition set_opcode :: "u8 \<Rightarrow> nvme_command \<Rightarrow> nvme_command" where
  "set_opcode opcode c = c\<lparr>nc_cdw0 := (nc_cdw0 c AND NOT 0xFF) OR ucast opcode\<rparr>"

definition nc_command_id :: "nvme_command \<Rightarrow> u16" where
  "nc_command_id c = ucast (drop_bit 16 (nc_cdw0 c) AND 0xFFFF)"

definition set_command_id :: "u16 \<Rightarrow> nvme_command \<Rightarrow> nvme_command" where
  "set_command_id cid c = c\<lparr>nc_cdw0 := (nc_cdw0 c AND 0x0000FFFF) OR push_bit 16 (ucast cid)\<rparr>"

definition identify_controller_cmd :: "u64 \<Rightarrow> nvme_command" where
  "identify_controller_cmd buffer_addr =
     (set_opcode ADMIN_IDENTIFY nvme_command_new)\<lparr>nc_nsid := 0, nc_prp1 := buffer_addr, nc_cdw10 := 1\<rparr>"

definition identify_namespace_cmd :: "u32 \<Rightarrow> u64 \<Rightarrow> nvme_command" where
  "identify_namespace_cmd nsid buffer_addr =
     (set_opcode ADMIN_IDENTIFY nvme_command_new)\<lparr>nc_nsid := nsid, nc_prp1 := buffer_addr, nc_cdw10 := 0\<rparr>"

text \<open>\<^verbatim>\<open>x - 1\<close> on a \<^verbatim>\<open>u16\<close> panics for zero.\<close>

definition u16_pred :: "u16 \<Rightarrow> u16 rust" where
  "u16_pred x = (if x = 0 then None else Some (x - 1))"

definition create_io_cq :: "u16 \<Rightarrow> u16 \<Rightarrow> u64 \<Rightarrow> nvme_command rust" where
  "create_io_cq queue_id queue_size buffer_addr = do {
     n \<leftarrow> u16_pred queue_size;
     Some ((set_opcode ADMIN_CREATE_IO_CQ nvme_command_new)\<lparr>nc_prp1 := buffer_addr,
       nc_cdw10 := push_bit 16 (ucast n) OR ucast queue_id, nc_cdw11 := 1\<rparr>)
   }"

definition create_io_cq_with_interrupt :: "u16 \<Rightarrow> u16 \<Rightarrow> u64 \<Rightarrow> u16 \<Rightarrow> nvme_command rust" where
  "create_io_cq_with_interrupt queue_id queue_size buffer_addr interrupt_vector = do {
     n \<leftarrow> u16_pred queue_size;
     Some ((set_opcode ADMIN_CREATE_IO_CQ nvme_command_new)\<lparr>nc_prp1 := buffer_addr,
       nc_cdw10 := push_bit 16 (ucast n) OR ucast queue_id,
       nc_cdw11 := push_bit 16 (ucast interrupt_vector) OR push_bit 1 1 OR 1\<rparr>)
   }"

definition create_io_sq :: "u16 \<Rightarrow> u16 \<Rightarrow> u16 \<Rightarrow> u64 \<Rightarrow> nvme_command rust" where
  "create_io_sq queue_id cq_id queue_size buffer_addr = do {
     n \<leftarrow> u16_pred queue_size;
     Some ((set_opcode ADMIN_CREATE_IO_SQ nvme_command_new)\<lparr>nc_prp1 := buffer_addr,
       nc_cdw10 := push_bit 16 (ucast n) OR ucast queue_id,
       nc_cdw11 := push_bit 16 (ucast cq_id) OR 1\<rparr>)
   }"

definition nvme_read_cmd :: "u32 \<Rightarrow> u64 \<Rightarrow> u16 \<Rightarrow> u64 \<Rightarrow> nvme_command rust" where
  "nvme_read_cmd nsid lba blocks buffer_addr = do {
     n \<leftarrow> u16_pred blocks;
     Some ((set_opcode NVM_READ nvme_command_new)\<lparr>nc_nsid := nsid, nc_prp1 := buffer_addr,
       nc_cdw10 := ucast lba, nc_cdw11 := ucast (drop_bit 32 lba), nc_cdw12 := ucast n\<rparr>)
   }"

definition nvme_write_cmd :: "u32 \<Rightarrow> u64 \<Rightarrow> u16 \<Rightarrow> u64 \<Rightarrow> nvme_command rust" where
  "nvme_write_cmd nsid lba blocks buffer_addr = do {
     n \<leftarrow> u16_pred blocks;
     Some ((set_opcode NVM_WRITE nvme_command_new)\<lparr>nc_nsid := nsid, nc_prp1 := buffer_addr,
       nc_cdw10 := ucast lba, nc_cdw11 := ucast (drop_bit 32 lba), nc_cdw12 := ucast n\<rparr>)
   }"

definition set_prp2 :: "u64 \<Rightarrow> nvme_command \<Rightarrow> nvme_command" where
  "set_prp2 addr c = c\<lparr>nc_prp2 := addr\<rparr>"

definition encode_command :: "nvme_command \<Rightarrow> u8 list" where
  "encode_command c = to_le 4 (nc_cdw0 c) @ to_le 4 (nc_nsid c) @ to_le 4 (nc_cdw2 c) @ to_le 4 (nc_cdw3 c) @ to_le 8 (nc_mptr c) @
     to_le 8 (nc_prp1 c) @ to_le 8 (nc_prp2 c) @ to_le 4 (nc_cdw10 c) @ to_le 4 (nc_cdw11 c) @
     to_le 4 (nc_cdw12 c) @ to_le 4 (nc_cdw13 c) @ to_le 4 (nc_cdw14 c) @ to_le 4 (nc_cdw15 c)"

definition decode_command :: "u8 list \<Rightarrow> nvme_command" where
  "decode_command bs =
     \<lparr>nc_cdw0 = of_le (take 4 (drop 0 bs)), nc_nsid = of_le (take 4 (drop 4 bs)), nc_cdw2 = of_le (take 4 (drop 8 bs)),
       nc_cdw3 = of_le (take 4 (drop 12 bs)), nc_mptr = of_le (take 8 (drop 16 bs)), nc_prp1 = of_le (take 8 (drop 24 bs)),
       nc_prp2 = of_le (take 8 (drop 32 bs)), nc_cdw10 = of_le (take 4 (drop 40 bs)), nc_cdw11 = of_le (take 4 (drop 44 bs)),
       nc_cdw12 = of_le (take 4 (drop 48 bs)), nc_cdw13 = of_le (take 4 (drop 52 bs)), nc_cdw14 = of_le (take 4 (drop 56 bs)),
       nc_cdw15 = of_le (take 4 (drop 60 bs))\<rparr>"

section \<open>Completions\<close>

record nvme_completion =
  cq_dw0 :: u32
  cq_dw1 :: u32
  cq_sq_head :: u16
  cq_sq_id :: u16
  cq_cid :: u16
  cq_status :: u16

definition status_code :: "nvme_completion \<Rightarrow> u16" where
  "status_code c = drop_bit 1 (cq_status c) AND 0x7FFF"

definition phase_bit :: "nvme_completion \<Rightarrow> bool" where
  "phase_bit c \<longleftrightarrow> cq_status c AND 1 \<noteq> 0"

definition is_success :: "nvme_completion \<Rightarrow> bool" where
  "is_success c \<longleftrightarrow> status_code c = 0"

definition completion_is_valid :: "nvme_completion \<Rightarrow> bool \<Rightarrow> bool" where
  "completion_is_valid c expected_phase \<longleftrightarrow> phase_bit c = expected_phase"

definition encode_completion :: "nvme_completion \<Rightarrow> u8 list" where
  "encode_completion c = to_le 4 (cq_dw0 c) @ to_le 4 (cq_dw1 c) @ to_le 2 (cq_sq_head c) @ to_le 2 (cq_sq_id c) @ to_le 2 (cq_cid c) @ to_le 2 (cq_status c)"

definition decode_completion :: "u8 list \<Rightarrow> nvme_completion" where
  "decode_completion bs =
     \<lparr>cq_dw0 = of_le (take 4 (drop 0 bs)), cq_dw1 = of_le (take 4 (drop 4 bs)), cq_sq_head = of_le (take 2 (drop 8 bs)),
       cq_sq_id = of_le (take 2 (drop 10 bs)), cq_cid = of_le (take 2 (drop 12 bs)), cq_status = of_le (take 2 (drop 14 bs))\<rparr>"

section \<open>Identify structures\<close>

definition field_word :: "layout \<Rightarrow> string \<Rightarrow> u8 list \<Rightarrow> 'a::len word" where
  "field_word l f bs = of_le (the (field_bytes l f bs))"

definition ns_nsze :: "u8 list \<Rightarrow> u64" where "ns_nsze bs = field_word identify_namespace_layout ''nsze'' bs"
definition ns_ncap :: "u8 list \<Rightarrow> u64" where "ns_ncap bs = field_word identify_namespace_layout ''ncap'' bs"
definition ns_flbas :: "u8 list \<Rightarrow> u8" where "ns_flbas bs = field_word identify_namespace_layout ''flbas'' bs"

text \<open>\<^verbatim>\<open>self.lbaf[i].lbads\<close>.\<close>

definition ns_lbads :: "u8 list \<Rightarrow> nat \<Rightarrow> u8 rust" where
  "ns_lbads bs i = (case field_bytes identify_namespace_layout ''lbaf'' bs of
     None \<Rightarrow> None
   | Some fs \<Rightarrow> if i < 16 then Some (field_word lba_format_layout ''lbads'' (drop (i * size_of lba_format_layout) fs)) else None)"

definition lba_size :: "u8 list \<Rightarrow> u32 rust" where
  "lba_size bs = (
     let format_index = unat (ns_flbas bs AND 0x0F)
     in if format_index < 16 then do {
          lbads \<leftarrow> ns_lbads bs format_index;
          if unat lbads < 32 then Some (push_bit (unat lbads) 1) else None
        }
        else Some 512)"

definition size_bytes :: "u8 list \<Rightarrow> nat rust" where
  "size_bytes bs = do { n \<leftarrow> lba_size bs; usize_mul (unat (ns_nsze bs)) (unat n) }"

section \<open>Registers\<close>

record nvme_registers =
  nr_cap :: u64
  nr_vs :: u32
  nr_intms :: u32
  nr_intmc :: u32
  nr_cc :: u32
  nr_csts :: u32
  nr_nssr :: u32
  nr_aqa :: u32
  nr_asq :: u64
  nr_acq :: u64
  nr_cmbloc :: u32
  nr_cmbsz :: u32
  nr_doorbells :: "u32 list"

definition max_queue_entries :: "nvme_registers \<Rightarrow> u16" where
  "max_queue_entries r = ucast ((nr_cap r AND 0xFFFF) + 1)"

definition doorbell_stride :: "nvme_registers \<Rightarrow> u32" where
  "doorbell_stride r = push_bit (unat (drop_bit 32 (nr_cap r) AND 0xF)) 4"

definition min_page_size :: "nvme_registers \<Rightarrow> u32" where
  "min_page_size r = push_bit (unat (drop_bit 48 (nr_cap r) AND 0xF)) 4096"

definition max_page_size :: "nvme_registers \<Rightarrow> u32" where
  "max_page_size r = push_bit (unat (drop_bit 52 (nr_cap r) AND 0xF)) 4096"

definition is_ready :: "nvme_registers \<Rightarrow> bool" where
  "is_ready r \<longleftrightarrow> nr_csts r AND push_bit 0 1 \<noteq> 0"

definition is_fatal :: "nvme_registers \<Rightarrow> bool" where
  "is_fatal r \<longleftrightarrow> nr_csts r AND push_bit 1 1 \<noteq> 0"

definition nvme_enable :: "nvme_registers \<Rightarrow> nvme_registers" where
  "nvme_enable r = r\<lparr>nr_cc := nr_cc r OR push_bit 0 1\<rparr>"

definition nvme_disable :: "nvme_registers \<Rightarrow> nvme_registers" where
  "nvme_disable r = r\<lparr>nr_cc := nr_cc r AND NOT (push_bit 0 1)\<rparr>"

definition set_admin_queue_attributes :: "u16 \<Rightarrow> u16 \<Rightarrow> nvme_registers \<Rightarrow> nvme_registers rust" where
  "set_admin_queue_attributes sq_size cq_size r = do {
     c \<leftarrow> u16_pred cq_size;
     s \<leftarrow> u16_pred sq_size;
     Some (r\<lparr>nr_aqa := push_bit 16 (ucast c) OR ucast s\<rparr>)
   }"

definition set_admin_sq_base :: "u64 \<Rightarrow> nvme_registers \<Rightarrow> nvme_registers" where
  "set_admin_sq_base a r = r\<lparr>nr_asq := a\<rparr>"

definition set_admin_cq_base :: "u64 \<Rightarrow> nvme_registers \<Rightarrow> nvme_registers" where
  "set_admin_cq_base a r = r\<lparr>nr_acq := a\<rparr>"

definition nvme_configure :: "nvme_registers \<Rightarrow> nvme_registers" where
  "nvme_configure r = r\<lparr>nr_cc := push_bit 0 1 OR push_bit 4 0 OR push_bit 7 0 OR push_bit 11 0 OR push_bit 16 6 OR push_bit 20 4\<rparr>"

text \<open>The index of the doorbell is a \<^verbatim>\<open>u16\<close>: doubling a queue number of 32768 or more panics.\<close>

definition ring_doorbell :: "u16 \<Rightarrow> bool \<Rightarrow> u16 \<Rightarrow> nvme_registers \<Rightarrow> nvme_registers rust" where
  "ring_doorbell queue_id is_completion v r =
     (if unat queue_id * 2 + (if is_completion then 1 else 0) < 2 ^ 16 then
        (let doorbell_index = unat queue_id * 2 + (if is_completion then 1 else 0)
         in if doorbell_index < length (nr_doorbells r)
            then Some (r\<lparr>nr_doorbells := (nr_doorbells r)[doorbell_index := ucast v]\<rparr>) else Some r)
      else None)"

section \<open>Layout facts\<close>

lemma command_roundtrip: "decode_command (encode_command c) = c" "length (encode_command c) = 64"
  by (simp_all add: encode_command_def decode_command_def of_le_to_le)

lemma completion_roundtrip: "decode_completion (encode_completion c) = c" "length (encode_completion c) = 16"
  by (simp_all add: encode_completion_def decode_completion_def of_le_to_le)


lemmas layout_eval = size_of_def offset_of_def round_up_def nvme_command_layout_def nvme_completion_layout_def
  identify_controller_layout_def identify_namespace_layout_def lba_format_layout_def nvme_registers_layout_def

lemma identify_sizes:
  "size_of identify_controller_layout = 3840" "size_of identify_namespace_layout = 4096" "size_of lba_format_layout = 4"
  by (simp_all add: layout_eval flip: numeral_2_eq_2)

lemma identify_offsets:
  "offset_of identify_controller_layout ''oacs'' = Some 256" "offset_of identify_controller_layout ''sqes'' = Some 512"
  "offset_of identify_controller_layout ''nn'' = Some 516" "offset_of identify_controller_layout ''psd'' = Some 2048"
  "offset_of identify_namespace_layout ''lbaf'' = Some 128" "offset_of identify_namespace_layout ''vs'' = Some 384"
  by (simp_all add: layout_eval flip: numeral_2_eq_2)

lemma register_offsets:
  "offset_of nvme_registers_layout ''cc'' = Some 0x14" "offset_of nvme_registers_layout ''csts'' = Some 0x1C"
  "offset_of nvme_registers_layout ''aqa'' = Some 0x24" "offset_of nvme_registers_layout ''asq'' = Some 0x28"
  "offset_of nvme_registers_layout ''acq'' = Some 0x30" "offset_of nvme_registers_layout ''doorbells'' = Some 0x1000"
  by (simp_all add: layout_eval flip: numeral_2_eq_2)

lemma command_field_bytes:
  "field_bytes nvme_command_layout ''cdw0'' (encode_command c) = Some (to_le 4 (nc_cdw0 c))"
  "field_bytes nvme_command_layout ''nsid'' (encode_command c) = Some (to_le 4 (nc_nsid c))"
  "field_bytes nvme_command_layout ''cdw2'' (encode_command c) = Some (to_le 4 (nc_cdw2 c))"
  "field_bytes nvme_command_layout ''cdw3'' (encode_command c) = Some (to_le 4 (nc_cdw3 c))"
  "field_bytes nvme_command_layout ''mptr'' (encode_command c) = Some (to_le 8 (nc_mptr c))"
  "field_bytes nvme_command_layout ''prp1'' (encode_command c) = Some (to_le 8 (nc_prp1 c))"
  "field_bytes nvme_command_layout ''prp2'' (encode_command c) = Some (to_le 8 (nc_prp2 c))"
  "field_bytes nvme_command_layout ''cdw10'' (encode_command c) = Some (to_le 4 (nc_cdw10 c))"
  "field_bytes nvme_command_layout ''cdw11'' (encode_command c) = Some (to_le 4 (nc_cdw11 c))"
  "field_bytes nvme_command_layout ''cdw12'' (encode_command c) = Some (to_le 4 (nc_cdw12 c))"
  "field_bytes nvme_command_layout ''cdw13'' (encode_command c) = Some (to_le 4 (nc_cdw13 c))"
  "field_bytes nvme_command_layout ''cdw14'' (encode_command c) = Some (to_le 4 (nc_cdw14 c))"
  "field_bytes nvme_command_layout ''cdw15'' (encode_command c) = Some (to_le 4 (nc_cdw15 c))"
  by (simp_all add: field_bytes_def encode_command_def layout_eval)

lemma completion_field_bytes:
  "field_bytes nvme_completion_layout ''dw0'' (encode_completion e) = Some (to_le 4 (cq_dw0 e))"
  "field_bytes nvme_completion_layout ''dw1'' (encode_completion e) = Some (to_le 4 (cq_dw1 e))"
  "field_bytes nvme_completion_layout ''sq_head'' (encode_completion e) = Some (to_le 2 (cq_sq_head e))"
  "field_bytes nvme_completion_layout ''sq_id'' (encode_completion e) = Some (to_le 2 (cq_sq_id e))"
  "field_bytes nvme_completion_layout ''cid'' (encode_completion e) = Some (to_le 2 (cq_cid e))"
  "field_bytes nvme_completion_layout ''status'' (encode_completion e) = Some (to_le 2 (cq_status e))"
  by (simp_all add: field_bytes_def encode_completion_def layout_eval)

text \<open>
  The structures that the controller reads and writes have the layout of their declarations: a command
  takes 64 bytes and a completion 16, every field of theirs is found at its declared offset, and decoding
  the bytes of a command or completion gives it back.
\<close>

theorem nvme_entry_layout:
  "size_of nvme_command_layout = 64 \<and> length (encode_command c) = 64 \<and> decode_command (encode_command c) = c \<and>
    size_of nvme_completion_layout = 16 \<and> length (encode_completion e) = 16 \<and> decode_completion (encode_completion e) = e \<and>
    field_bytes nvme_command_layout ''cdw0'' (encode_command c) = Some (to_le 4 (nc_cdw0 c)) \<and>
    field_bytes nvme_command_layout ''nsid'' (encode_command c) = Some (to_le 4 (nc_nsid c)) \<and>
    field_bytes nvme_command_layout ''cdw2'' (encode_command c) = Some (to_le 4 (nc_cdw2 c)) \<and>
    field_bytes nvme_command_layout ''cdw3'' (encode_command c) = Some (to_le 4 (nc_cdw3 c)) \<and>
    field_bytes nvme_command_layout ''mptr'' (encode_command c) = Some (to_le 8 (nc_mptr c)) \<and>
    field_bytes nvme_command_layout ''prp1'' (encode_command c) = Some (to_le 8 (nc_prp1 c)) \<and>
    field_bytes nvme_command_layout ''prp2'' (encode_command c) = Some (to_le 8 (nc_prp2 c)) \<and>
    field_bytes nvme_command_layout ''cdw10'' (encode_command c) = Some (to_le 4 (nc_cdw10 c)) \<and>
    field_bytes nvme_command_layout ''cdw11'' (encode_command c) = Some (to_le 4 (nc_cdw11 c)) \<and>
    field_bytes nvme_command_layout ''cdw12'' (encode_command c) = Some (to_le 4 (nc_cdw12 c)) \<and>
    field_bytes nvme_command_layout ''cdw13'' (encode_command c) = Some (to_le 4 (nc_cdw13 c)) \<and>
    field_bytes nvme_command_layout ''cdw14'' (encode_command c) = Some (to_le 4 (nc_cdw14 c)) \<and>
    field_bytes nvme_command_layout ''cdw15'' (encode_command c) = Some (to_le 4 (nc_cdw15 c)) \<and>
    field_bytes nvme_completion_layout ''dw0'' (encode_completion e) = Some (to_le 4 (cq_dw0 e)) \<and>
    field_bytes nvme_completion_layout ''dw1'' (encode_completion e) = Some (to_le 4 (cq_dw1 e)) \<and>
    field_bytes nvme_completion_layout ''sq_head'' (encode_completion e) = Some (to_le 2 (cq_sq_head e)) \<and>
    field_bytes nvme_completion_layout ''sq_id'' (encode_completion e) = Some (to_le 2 (cq_sq_id e)) \<and>
    field_bytes nvme_completion_layout ''cid'' (encode_completion e) = Some (to_le 2 (cq_cid e)) \<and>
    field_bytes nvme_completion_layout ''status'' (encode_completion e) = Some (to_le 2 (cq_status e))"
proof -
  have "size_of nvme_command_layout = 64" "size_of nvme_completion_layout = 16" by (simp_all add: layout_eval)
  then show ?thesis by (simp only: command_roundtrip completion_roundtrip command_field_bytes completion_field_bytes simp_thms)
qed

text \<open>Setting the identifier of a command keeps its opcode and everything else.\<close>

lemma set_command_id_fields:
  "nc_command_id (set_command_id cid c) = cid" "nc_opcode (set_command_id cid c) = nc_opcode c"
  "nc_prp1 (set_command_id cid c) = nc_prp1 c" "nc_nsid (set_command_id cid c) = nc_nsid c"
proof -
  have m: "0xFFFF = (mask 16 :: u32)" "0xFF = (mask 8 :: u32)" by (simp_all add: mask_eq_exp_minus_1)
  show "nc_command_id (set_command_id cid c) = cid" "nc_opcode (set_command_id cid c) = nc_opcode c"
    by (auto simp: nc_command_id_def nc_opcode_def set_command_id_def bit_simps m intro!: bit_word_eqI)
qed (simp_all add: set_command_id_def)

text \<open>With the largest value of the capability field the number of queue entries wraps to zero.\<close>

lemma max_queue_entries_wraps: "nr_cap r AND 0xFFFF = 0xFFFF \<Longrightarrow> max_queue_entries r = 0"
  by (simp add: max_queue_entries_def)

end
