(* ===== verification/Nvme_Queue.thy ===== *)
theory Nvme_Queue
  imports Dma Nvme_Commands
begin

text \<open>
  \<^verbatim>\<open>NvmeQueue\<close> of \<^verbatim>\<open>kernel/src/pci/nvme/controller.rs\<close>: a pair of rings in memory shared with the controller.  The
  driver writes commands at the tail of the submission ring and reads completions at the head of the
  completion ring, whose entries carry a phase bit that changes with every pass of the controller.
\<close>

section \<open>The queue\<close>

datatype nvme_error =
    ControllerNotFound | ControllerResetTimeout | ControllerEnableTimeout | QueueFull | CommandTimeout
  | CommandNotCompleted | CommandFailed u16 | NvmeAllocationFailed | InvalidNamespace | NvmePciError
  | NoIoQueue | BufferTooSmall

record nvme_queue =
  nq_sq_entries :: addr
  nq_sq_phys :: addr
  nq_cq_entries :: addr
  nq_cq_phys :: addr
  nq_size :: u16
  nq_sq_head :: u16
  nq_sq_tail :: u16
  nq_cq_head :: u16
  nq_cq_phase :: bool
  nq_queue_id :: u16
  nq_interrupt_vector :: "u8 option"

text \<open>
  The buffer is a local variable of \<^verbatim>\<open>new\<close>: it is dropped when the function returns.  The addresses are
  computed before, so a panic in \<^verbatim>\<open>VirtAddr::new\<close> comes first.
\<close>

definition nvme_queue_new :: "u16 \<Rightarrow> u16 \<Rightarrow> dma_state \<Rightarrow> ((nvme_error + nvme_queue) \<times> dma_state) rust" where
  "nvme_queue_new queue_id n d = (
     let sq_size = unat n * 64;
       cq_size = unat n * 16;
       total_size = sq_size + cq_size;
       pages_needed = (total_size + 4095) div 4096
     in do {
       (r, d) \<leftarrow> get_zeroed_dma pages_needed d;
       case r of
         Inl e \<Rightarrow> Some (Inl NvmeAllocationFailed, d)
       | Inr buffer \<Rightarrow> do {
           let sq_virt = db_virt_addr buffer;
           let sq_phys = db_phys_addr buffer;
           cq_virt \<leftarrow> usize_add sq_virt sq_size;
           cq_virt \<leftarrow> virt_addr_new cq_virt;
           cq_phys \<leftarrow> usize_add sq_phys sq_size;
           cq_phys \<leftarrow> phys_addr_new cq_phys;
           d \<leftarrow> drop_dynamic buffer d;
           Some (Inr \<lparr>nq_sq_entries = sq_virt, nq_sq_phys = sq_phys, nq_cq_entries = cq_virt, nq_cq_phys = cq_phys,
             nq_size = n, nq_sq_head = 0, nq_sq_tail = 0, nq_cq_head = 0, nq_cq_phase = True,
             nq_queue_id = queue_id, nq_interrupt_vector = None\<rparr>, d)
         }
     })"

text \<open>\<^verbatim>\<open>(x + 1) % size\<close> on a \<^verbatim>\<open>u16\<close>: the addition may overflow, and the remainder by zero panics.\<close>

definition ring_next :: "u16 \<Rightarrow> u16 \<Rightarrow> u16 rust" where
  "ring_next x n = (if unat x + 1 < 2 ^ 16 \<and> n \<noteq> 0 then Some ((x + 1) mod n) else None)"

definition submit_command :: "nvme_command \<Rightarrow> nvme_queue \<Rightarrow> ram \<Rightarrow> ((nvme_error + u16) \<times> nvme_queue \<times> ram) rust" where
  "submit_command cmd q m = do {
     next_tail \<leftarrow> ring_next (nq_sq_tail q) (nq_size q);
     if next_tail = nq_sq_head q then Some (Inl QueueFull, q, m)
     else do {
       let cid = nq_sq_tail q;
       let cmd = set_command_id cid cmd;
       let m = put_bytes (nq_sq_entries q + 64 * unat (nq_sq_tail q)) (encode_command cmd) m;
       Some (Inr cid, q\<lparr>nq_sq_tail := next_tail\<rparr>, m)
     }
   }"

definition check_completion :: "nvme_queue \<Rightarrow> ram \<Rightarrow> (nvme_completion option \<times> nvme_queue) rust" where
  "check_completion q m = (
     let completion = decode_completion (get_bytes m (nq_cq_entries q + 16 * unat (nq_cq_head q)) 16)
     in if completion_is_valid completion (nq_cq_phase q) then do {
          cq_head \<leftarrow> ring_next (nq_cq_head q) (nq_size q);
          let q = q\<lparr>nq_cq_head := cq_head\<rparr>;
          let q = (if nq_cq_head q = 0 then q\<lparr>nq_cq_phase := \<not> nq_cq_phase q\<rparr> else q);
          Some (Some completion, q)
        }
        else Some (None, q))"

lemma get_bytes2: "get_bytes m a 2 = [m a, m (a + 1)]"
  by (simp add: get_bytes_def upt_rec)

lemma phase_bit_iff: "phase_bit c \<longleftrightarrow> bit (cq_status c) 0"
  by (simp add: phase_bit_def and_one_eq bit_0 mod_2_eq_odd)

section \<open>Ring arithmetic\<close>

lemma ring_next_ok:
  assumes "x < n"
  shows "ring_next x n = Some (if unat x + 1 = unat n then 0 else x + 1)"
    and "unat (if unat x + 1 = unat n then 0 else x + 1) = (unat x + 1) mod unat n"
proof -
  have "unat n < 2 ^ LENGTH(16)" by (rule unsigned_less)
  then have b: "unat x < unat n" "unat n < 2 ^ 16" using assms by (simp_all add: word_less_nat_alt)
  then have s: "unat (x + 1) = unat x + 1" using unat_word_ariths(1) [of x 1] by simp
  have n0: "n \<noteq> 0" using b by auto
  have "(x + 1) mod n = (if unat x + 1 = unat n then 0 else x + 1)"
    using b s by (auto simp: word_unat_eq_iff unat_mod_distrib)
  then show "ring_next x n = Some (if unat x + 1 = unat n then 0 else x + 1)" using b n0 by (simp add: ring_next_def)
  show "unat (if unat x + 1 = unat n then 0 else x + 1) = (unat x + 1) mod unat n" using b s by auto
qed

section \<open>The submission ring\<close>

definition nq_ok :: "nvme_queue \<Rightarrow> bool" where
  "nq_ok q \<longleftrightarrow> nq_sq_head q < nq_size q \<and> nq_sq_tail q < nq_size q \<and> nq_cq_head q < nq_size q"

lemma submit_ok:
  assumes "nq_ok q"
  shows "submit_command cmd q m =
    (if (unat (nq_sq_tail q) + 1) mod unat (nq_size q) = unat (nq_sq_head q) then Some (Inl QueueFull, q, m)
     else Some (Inr (nq_sq_tail q), q\<lparr>nq_sq_tail := (if unat (nq_sq_tail q) + 1 = unat (nq_size q) then 0 else nq_sq_tail q + 1)\<rparr>,
       put_bytes (nq_sq_entries q + 64 * unat (nq_sq_tail q)) (encode_command (set_command_id (nq_sq_tail q) cmd)) m))"
proof -
  have t: "nq_sq_tail q < nq_size q" using assms by (simp add: nq_ok_def)
  show ?thesis unfolding submit_command_def ring_next_ok(1) [OF t] using ring_next_ok(2) [OF t]
    by (auto simp: word_unat_eq_iff Let_def)
qed


text \<open>
  What happens to a queue: commands are submitted and completions polled, with arbitrary contents of the
  memory each time.  The run counts the commands that were accepted.
\<close>

datatype queue_op = Submit nvme_command ram | Poll ram

fun queue_run :: "queue_op list \<Rightarrow> nvme_queue \<Rightarrow> (nat \<times> nvme_queue) rust" where
  "queue_run [] q = Some (0, q)"
| "queue_run (Submit cmd m # ops) q = do {
     (r, q, m') \<leftarrow> submit_command cmd q m;
     (n, q) \<leftarrow> queue_run ops q;
     Some (case r of Inl e \<Rightarrow> n | Inr cid \<Rightarrow> Suc n, q)
   }"
| "queue_run (Poll m # ops) q = do {
     (r, q) \<leftarrow> check_completion q m;
     queue_run ops q
   }"

fun is_submit :: "queue_op \<Rightarrow> bool" where
  "is_submit (Submit cmd m) = True"
| "is_submit (Poll m) = False"

lemma check_completion_frame:
  assumes "nq_ok q"
  shows "\<exists>r q'. check_completion q m = Some (r, q') \<and> nq_ok q' \<and> nq_size q' = nq_size q \<and>
    nq_sq_head q' = nq_sq_head q \<and> nq_sq_tail q' = nq_sq_tail q"
proof -
  have h: "nq_cq_head q < nq_size q" using assms by (simp add: nq_ok_def)
  let ?h = "if unat (nq_cq_head q) + 1 = unat (nq_size q) then 0 else nq_cq_head q + 1"
  have "0 < unat (nq_size q)" using h by (simp add: word_less_nat_alt)
  then have "?h < nq_size q" using ring_next_ok(2) [OF h] by (simp only: word_less_nat_alt) simp
  then show ?thesis unfolding check_completion_def ring_next_ok(1) [OF h]
    using assms by (auto simp: Let_def nq_ok_def)
qed

lemma queue_run_count:
  assumes "nq_ok q" "nq_sq_head q = 0"
  shows "\<exists>q'. queue_run ops q = Some (min (length (filter is_submit ops)) (unat (nq_size q) - 1 - unat (nq_sq_tail q)), q')"
  using assms
proof (induction ops q rule: queue_run.induct)
  case (2 cmd m ops q)
  have t: "nq_sq_tail q < nq_size q" using "2.prems" by (simp add: nq_ok_def)
  then have b: "unat (nq_sq_tail q) < unat (nq_size q)" by (simp add: word_less_nat_alt)
  show ?case
  proof (cases "unat (nq_sq_tail q) + 1 = unat (nq_size q)")
    case True
    then have s: "submit_command cmd q m = Some (Inl QueueFull, q, m)" using submit_ok "2.prems" by simp
    from "2.IH" [OF s refl refl "2.prems"] True show ?thesis using s by auto
  next
    case False
    let ?q = "q\<lparr>nq_sq_tail := nq_sq_tail q + 1\<rparr>"
    have u: "unat (nq_sq_tail q + 1) = unat (nq_sq_tail q) + 1" "(unat (nq_sq_tail q) + 1) mod unat (nq_size q) = unat (nq_sq_tail q) + 1"
      using ring_next_ok(2) [OF t] False b by simp_all
    then obtain m' where s: "submit_command cmd q m = Some (Inr (nq_sq_tail q), ?q, m')"
      using submit_ok [OF "2.prems"(1), of cmd m] False "2.prems"(2) by simp
    have "nq_ok ?q" using "2.prems" u(1) False b by (simp add: nq_ok_def word_less_nat_alt)
    from "2.IH" [OF s refl refl this] "2.prems"(2) obtain q' where
      "queue_run ops ?q = Some (min (length (filter is_submit ops)) (unat (nq_size q) - 1 - unat (nq_sq_tail q + 1)), q')" by auto
    then show ?thesis using s u(1) False b by auto
  qed
next
  case (3 m ops q)
  from check_completion_frame [OF "3.prems"(1), of m] obtain r q1 where
    c: "check_completion q m = Some (r, q1)" "nq_ok q1" "nq_size q1 = nq_size q" "nq_sq_head q1 = nq_sq_head q" "nq_sq_tail q1 = nq_sq_tail q"
    by blast
  from "3.IH" [OF c(1) refl c(2)] "3.prems"(2) show ?case using c by simp
qed simp

text \<open>
  C28: a queue never accepts more than one command less than its size in its whole life, however many
  completions are read in between: the head of the submission ring is never moved, so the driver stops
  for good with \<^verbatim>\<open>QueueFull\<close>.
\<close>

theorem queue_exhausts:
  assumes "0 < nq_size q" and "nq_sq_head q = 0" and "nq_sq_tail q = 0" and "nq_cq_head q = 0"
  shows "\<exists>q'. queue_run ops q = Some (min (length (filter is_submit ops)) (unat (nq_size q) - 1), q')"
proof -
  have "nq_ok q" using assms by (simp add: nq_ok_def)
  from queue_run_count [OF this assms(2), of ops] show ?thesis using assms(3) by simp
qed

section \<open>The completion ring\<close>

definition cq_slot :: "nvme_queue \<Rightarrow> ram \<Rightarrow> nat \<Rightarrow> nvme_completion" where
  "cq_slot q m j = decode_completion (get_bytes m (nq_cq_entries q + 16 * j) 16)"

text \<open>
  The ring after the controller has written the completions \<open>cs\<close> and the driver has read \<open>k\<close> of them: the
  latest entries are in their slots, entry \<open>i\<close> has the phase of its pass, and a slot that was never written
  has the phase bit clear.
\<close>

definition cq_view :: "nvme_queue \<Rightarrow> ram \<Rightarrow> nvme_completion list \<Rightarrow> nat \<Rightarrow> bool" where
  "cq_view q m cs k \<longleftrightarrow> (let N = unat (nq_size q) in
     0 < N \<and> k \<le> length cs \<and> length cs \<le> k + N \<and> unat (nq_cq_head q) = k mod N \<and> nq_cq_phase q = even (k div N) \<and>
     (\<forall>i < length cs. phase_bit (cs ! i) = even (i div N) \<and> (length cs \<le> i + N \<longrightarrow> cq_slot q m (i mod N) = cs ! i)) \<and>
     (\<forall>j. length cs \<le> j \<and> j < N \<longrightarrow> \<not> phase_bit (cq_slot q m j)))"

lemma cq_view_read:
  assumes "cq_view q m cs k" "k < length cs"
  shows "\<exists>q'. check_completion q m = Some (Some (cs ! k), q') \<and> cq_view q' m cs (k + 1)"
proof -
  define N where "N = unat (nq_size q)"
  have v: "0 < N" "length cs \<le> k + N" "unat (nq_cq_head q) = k mod N" "nq_cq_phase q = even (k div N)"
    "\<And>i. i < length cs \<Longrightarrow> phase_bit (cs ! i) = even (i div N) \<and> (length cs \<le> i + N \<longrightarrow> cq_slot q m (i mod N) = cs ! i)"
    "\<And>j. length cs \<le> j \<Longrightarrow> j < N \<Longrightarrow> \<not> phase_bit (cq_slot q m j)"
    using assms(1) by (auto simp: cq_view_def Let_def N_def)
  have h: "nq_cq_head q < nq_size q" using v(1,3) by (simp add: word_less_nat_alt flip: N_def)
  let ?h = "if unat (nq_cq_head q) + 1 = unat (nq_size q) then 0 else nq_cq_head q + 1"
  let ?q = "q\<lparr>nq_cq_head := ?h, nq_cq_phase := (if ?h = 0 then \<not> nq_cq_phase q else nq_cq_phase q)\<rparr>"
  have hd': "unat ?h = (k + 1) mod N" using ring_next_ok(2) [OF h] v(3) by (simp add: mod_Suc_eq flip: N_def)
  have slot: "decode_completion (get_bytes m (nq_cq_entries q + 16 * unat (nq_cq_head q)) 16) = cs ! k"
    using v(2,3) v(5) [OF assms(2)] by (simp add: cq_slot_def)
  have "completion_is_valid (cs ! k) (nq_cq_phase q)" using v(4) v(5) [OF assms(2)] by (simp add: completion_is_valid_def)
  then have run: "check_completion q m = Some (Some (cs ! k), ?q)"
    unfolding check_completion_def slot ring_next_ok(1) [OF h] by (simp add: Let_def)
  have z: "?h = 0 \<longleftrightarrow> (k + 1) mod N = 0" unfolding hd' [symmetric] by (rule unat_eq_0 [symmetric])
  have p: "(if ?h = 0 then \<not> nq_cq_phase q else nq_cq_phase q) = even ((k + 1) div N)"
    unfolding z v(4) using div_Suc [of k N] by (metis Suc_eq_plus1 even_Suc)
  have "cq_view (q\<lparr>nq_cq_head := h', nq_cq_phase := p'\<rparr>) m cs (k + 1)"
    if "unat h' = (k + 1) mod N" "p' = even ((k + 1) div N)" for h' p'
    unfolding cq_view_def Let_def using that v assms(2) by (simp add: cq_slot_def flip: N_def)
  from this [OF hd' p] show ?thesis using run by blast
qed

lemma cq_view_empty:
  assumes "cq_view q m cs (length cs)"
  shows "check_completion q m = Some (None, q)"
proof -
  define N where "N = unat (nq_size q)"
  let ?k = "length cs"
  have v: "0 < N" "unat (nq_cq_head q) = ?k mod N" "nq_cq_phase q = even (?k div N)"
    "\<And>i. i < ?k \<Longrightarrow> phase_bit (cs ! i) = even (i div N) \<and> (?k \<le> i + N \<longrightarrow> cq_slot q m (i mod N) = cs ! i)"
    "\<And>j. ?k \<le> j \<Longrightarrow> j < N \<Longrightarrow> \<not> phase_bit (cq_slot q m j)"
    using assms by (auto simp: cq_view_def Let_def N_def)
  have "phase_bit (cq_slot q m (?k mod N)) \<noteq> even (?k div N)"
  proof (cases "?k < N")
    case True
    then show ?thesis using v(5) [of ?k] by simp
  next
    case False
    then have "?k - N < ?k" "?k \<le> ?k - N + N" "(?k - N) mod N = ?k mod N" "?k div N = Suc ((?k - N) div N)"
      using v(1) by (simp_all add: le_mod_geq le_div_geq)
    then show ?thesis using v(4) [of "?k - N"] by simp
  qed
  then have "\<not> completion_is_valid (decode_completion (get_bytes m (nq_cq_entries q + 16 * unat (nq_cq_head q)) 16)) (nq_cq_phase q)"
    using v(2,3) by (simp add: completion_is_valid_def cq_slot_def)
  then show ?thesis by (simp add: check_completion_def Let_def)
qed

text \<open>The controller writes the next completion with the phase of its pass while the ring has room.\<close>

lemma cq_view_write:
  assumes "cq_view q m cs k" "length cs < k + unat (nq_size q)" "phase_bit c = even (length cs div unat (nq_size q))"
  shows "cq_view q (put_bytes (nq_cq_entries q + 16 * (length cs mod unat (nq_size q))) (encode_completion c) m) (cs @ [c]) k"
proof -
  define N where "N = unat (nq_size q)"
  define m' where "m' = put_bytes (nq_cq_entries q + 16 * (length cs mod N)) (encode_completion c) m"
  have v: "0 < N" "k \<le> length cs" "unat (nq_cq_head q) = k mod N" "nq_cq_phase q = even (k div N)"
    "\<And>i. i < length cs \<Longrightarrow> phase_bit (cs ! i) = even (i div N) \<and> (length cs \<le> i + N \<longrightarrow> cq_slot q m (i mod N) = cs ! i)"
    "\<And>j. length cs \<le> j \<Longrightarrow> j < N \<Longrightarrow> \<not> phase_bit (cq_slot q m j)"
    using assms(1) by (auto simp: cq_view_def Let_def N_def)
  have same: "cq_slot q m' (length cs mod N) = c"
    by (simp add: cq_slot_def m'_def get_put_same completion_roundtrip)
  have other: "cq_slot q m' j = cq_slot q m j" if "j \<noteq> length cs mod N" for j
  proof -
    have "j + 1 \<le> length cs mod N \<or> length cs mod N + 1 \<le> j" using that by linarith
    then show ?thesis
      unfolding cq_slot_def m'_def by (subst get_put_other) (auto simp: completion_roundtrip)
  qed
  have ne: "i mod N \<noteq> length cs mod N" if "i < length cs" "length cs < i + N" for i
    using that mod_eq_dvd_iff_nat [of i "length cs" N] nat_dvd_not_less [of "length cs - i" N] by fastforce
  show ?thesis
    unfolding cq_view_def Let_def m'_def [symmetric] N_def [symmetric]
    using v assms(2,3) same other ne by (auto simp: nth_append less_Suc_eq N_def)
qed

text \<open>A fresh queue over cleared memory is an empty ring.\<close>

lemma cq_view_fresh:
  assumes "0 < nq_size q" "nq_cq_head q = 0" "nq_cq_phase q" "\<forall>j < unat (nq_size q). m (nq_cq_entries q + 16 * j + 14) = 0"
  shows "cq_view q m [] 0"
proof -
  have "\<not> phase_bit (cq_slot q m j)" if "j < unat (nq_size q)" for j
  proof -
    have "cq_status (cq_slot q m j) = of_le [m (nq_cq_entries q + 16 * j + 14), m (nq_cq_entries q + 16 * j + 15)]"
      by (simp add: cq_slot_def decode_completion_def drop_get_bytes get_bytes2 add.commute [of 15])
    moreover have "\<not> bit (of_le [0, b] :: u16) 0" for b by (simp add: bit_of_le)
    ultimately show ?thesis using assms(4) that by (simp add: phase_bit_iff del: bit_0)
  qed
  moreover have "0 < unat (nq_size q)" using assms(1) by (simp add: word_less_nat_alt)
  ultimately show ?thesis using assms(2,3) by (simp add: cq_view_def Let_def)
qed


section \<open>The ring as a queue\<close>

text \<open>
  The contract of a completion ring with its reader: \<open>view q m cs k\<close> relates the reader's state and the memory
  to the completions written so far and the number of those already read.
\<close>

fun drain :: "('q \<Rightarrow> 'm \<Rightarrow> ('c option \<times> 'q) option) \<Rightarrow> nat \<Rightarrow> 'q \<Rightarrow> 'm \<Rightarrow> ('c list \<times> 'q) option" where
  "drain rd 0 q m = Some ([], q)"
| "drain rd (Suc n) q m = do {
     (c, q) \<leftarrow> rd q m;
     case c of
       None \<Rightarrow> Some ([], q)
     | Some c \<Rightarrow> do { (cs, q) \<leftarrow> drain rd n q m; Some (c # cs, q) }
   }"

locale completion_ring =
  fixes view :: "'q \<Rightarrow> 'm \<Rightarrow> 'c list \<Rightarrow> nat \<Rightarrow> bool" and rd :: "'q \<Rightarrow> 'm \<Rightarrow> ('c option \<times> 'q) option"
  assumes read_next: "view q m cs k \<Longrightarrow> k < length cs \<Longrightarrow> \<exists>q'. rd q m = Some (Some (cs ! k), q') \<and> view q' m cs (k + 1)"
    and read_empty: "view q m cs (length cs) \<Longrightarrow> rd q m = Some (None, q)"
    and view_bound: "view q m cs k \<Longrightarrow> k \<le> length cs"
begin

lemma drain_all:
  assumes "view q m cs k" "length cs - k < n"
  shows "\<exists>q'. drain rd n q m = Some (drop k cs, q') \<and> view q' m cs (length cs)"
  using assms
proof (induction n arbitrary: q k)
  case (Suc n)
  have "k \<le> length cs" using view_bound [OF Suc.prems(1)] .
  show ?case
  proof (cases "k = length cs")
    case True
    then show ?thesis using read_empty [of q m cs] Suc.prems(1) by simp
  next
    case False
    with \<open>k \<le> length cs\<close> have k: "k < length cs" by simp
    from read_next [OF Suc.prems(1) k] obtain q' where q': "rd q m = Some (Some (cs ! k), q')" "view q' m cs (k + 1)" by blast
    have "length cs - (k + 1) < n" using Suc.prems(2) k by linarith
    from Suc.IH [OF q'(2) this] obtain q'' where "drain rd n q' m = Some (drop (k + 1) cs, q'')" "view q'' m cs (length cs)"
      by auto
    then show ?thesis using q'(1) k by (simp add: Cons_nth_drop_Suc)
  qed
qed simp

end

interpretation nvme_cq: completion_ring cq_view check_completion
proof
  show "cq_view q m cs k \<Longrightarrow> k < length cs \<Longrightarrow> \<exists>q'. check_completion q m = Some (Some (cs ! k), q') \<and> cq_view q' m cs (k + 1)"
    for q m cs k by (rule cq_view_read)
  show "cq_view q m cs (length cs) \<Longrightarrow> check_completion q m = Some (None, q)" for q m cs by (rule cq_view_empty)
  show "cq_view q m cs k \<Longrightarrow> k \<le> length cs" for q m cs k by (simp add: cq_view_def Let_def)
qed

text \<open>
  C27: polling the completion ring returns exactly the completions that the controller has written and the
  driver has not yet read, in their order, over any number of passes of the ring; then the ring is empty.
\<close>

theorem completions_in_order:
  assumes "cq_view q m cs k"
  shows "\<exists>q'. drain check_completion (length cs - k + 1) q m = Some (drop k cs, q') \<and> check_completion q' m = Some (None, q')"
  using nvme_cq.drain_all [OF assms, of "length cs - k + 1"] cq_view_empty by auto

section \<open>The memory of a queue\<close>

lemma queue_new_cases:
  assumes "nvme_queue_new queue_id n d = Some (Inr q, d')"
  shows "\<exists>buffer d1. get_zeroed_dma ((unat n * 80 + 4095) div 4096) d = Some (Inr buffer, d1) \<and> drop_dynamic buffer d1 = Some d' \<and>
    nq_sq_entries q = db_virt_addr buffer \<and> nq_cq_entries q = db_virt_addr buffer + unat n * 64 \<and> nq_size q = n \<and>
    nq_sq_head q = 0 \<and> nq_sq_tail q = 0 \<and> nq_cq_head q = 0 \<and> nq_cq_phase q"
proof -
  have t: "unat n * 64 + unat n * 16 = unat n * 80" by simp
  have va: "virt_addr_new a = Some v \<Longrightarrow> v = a" "phys_addr_new a = Some v \<Longrightarrow> v = a" for a v
    by (auto simp: virt_addr_new_def phys_addr_new_def split: if_splits)
  let ?g = "get_zeroed_dma ((unat n * 80 + 4095) div 4096) d"
  consider "?g = None" | e d1 where "?g = Some (Inl e, d1)" | buffer d1 where "?g = Some (Inr buffer, d1)"
    by (metis option.exhaust prod.collapse sum.exhaust)
  then show ?thesis
  proof cases
    case 3
    with assms show ?thesis
      unfolding nvme_queue_new_def Let_def t by (auto simp: bind_eq_Some_conv usize_add_Some_iff dest!: va)
  qed (use assms in \<open>simp_all add: nvme_queue_new_def Let_def t\<close>)
qed

text \<open>
  C29: the rings of a new queue lie in memory that the frame allocator regards as free: \<^verbatim>\<open>new\<close> drops the buffer
  it has allocated for them, so the set of allocated blocks is the same as before and no allocated run
  covers the rings.
\<close>

theorem queue_memory_freed:
  assumes ok: "forest_ok s As" and new: "nvme_queue_new queue_id n (Some s, m) = Some (Inr q, d')"
    and i: "(unat n * 80 + 4095) div 4096 = 2 ^ i"
  shows "\<exists>s'. d' = (Some s', m) \<and> forest_ok s' As \<and>
    (\<forall>k < length As. \<forall>c \<in> As ! k. {nq_sq_entries q ..< nq_sq_entries q + unat n * 80} \<inter> run_pages s k c = {})"
proof -
  have "unat n < 2 ^ LENGTH(16)" by (rule unsigned_less)
  then have "(unat n * 80 + 4095) div 4096 < 2 ^ 16" by simp
  then have b: "4096 * 2 ^ i < usize_bound" unfolding i usize_bound_def by simp
  from queue_new_cases [OF new] obtain buffer d1 where
    g: "get_zeroed_dma (2 ^ i) (Some s, m) = Some (Inr buffer, d1)" "drop_dynamic buffer d1 = Some d'" "nq_sq_entries q = db_virt_addr buffer"
    unfolding i by blast
  from dma_take_drop [OF ok b g(1)] g(2) obtain s' where s': "d' = (Some s', m)" "forest_ok s' As" by auto
  from get_dma_run [OF ok b, of m] obtain r s1 where r: "get_zeroed_dma_internal (2 ^ i) (Some s, m) = Some (r, Some s1, m)" and
    rp: "\<forall>k < length As. \<forall>b. run_pages s1 k b = run_pages s k b" and
    c: "case r of Inl e \<Rightarrow> forest_ok s1 As | Inr buf \<Rightarrow>
      \<exists>k b. k < length As \<and> b \<notin> As ! k \<and> forest_ok s1 (As[k := insert b (As ! k)]) \<and> run_pages s k b = buffer_range buf \<and>
        db_size buf = 2 ^ i \<and> db_phys_addr buf + fo_hddm_offset (fst s) = db_virt_addr buf"
    by (elim exE conjE)
  have e: "r = Inr buffer" using r g(1) by (simp add: get_zeroed_dma_def)
  from c [unfolded e sum.case] obtain k b where k: "k < length As" "b \<notin> As ! k" "forest_ok s1 (As[k := insert b (As ! k)])"
    "run_pages s k b = buffer_range buffer" "db_size buffer = 2 ^ i" by (elim exE conjE)
  have "run_pages s k b \<inter> run_pages s j c = {}" if "j < length As" "c \<in> As ! j" for j c
  proof -
    have "c \<in> As[k := insert b (As ! k)] ! j" "k = j \<longrightarrow> b \<noteq> c" using that k(1,2) by (auto simp: nth_list_update)
    then have "run_pages s1 k b \<inter> run_pages s1 j c = {}"
      using forest_runs_disjoint [OF k(3), of k b j c] that k(1) by simp
    then show ?thesis using rp [rule_format, OF k(1), of b] rp [rule_format, OF that(1), of c] by simp
  qed
  moreover have "unat n * 80 \<le> 2 ^ i * 4096" unfolding i [symmetric] by linarith
  then have "{nq_sq_entries q ..< nq_sq_entries q + unat n * 80} \<subseteq> run_pages s k b"
    using g(3) k(4,5) by (auto simp: buffer_range_def)
  ultimately have "{nq_sq_entries q ..< nq_sq_entries q + unat n * 80} \<inter> run_pages s j c = {}" if "j < length As" "c \<in> As ! j" for j c
    using that by blast
  then show ?thesis using s' by blast
qed

text \<open>
  The memory of a new queue is not cleared, so a byte left there by an earlier user can pass for a
  completion: if the phase bit of the first entry is set, the first poll returns it although the controller
  has written nothing.
\<close>

theorem stale_completion:
  assumes "nvme_queue_new queue_id n (fa, m) = Some (Inr q, d')" and "0 < n" and "bit (m (nq_cq_entries q + 14)) 0"
  shows "\<exists>c q'. check_completion q (snd d') = Some (Some c, q')"
proof -
  from queue_new_cases [OF assms(1)] obtain buffer d1 where
    g: "get_zeroed_dma ((unat n * 80 + 4095) div 4096) (fa, m) = Some (Inr buffer, d1)" "drop_dynamic buffer d1 = Some d'"
      "nq_size q = n" "nq_cq_head q = 0" "nq_cq_phase q" by blast
  have "snd d1 = m" using get_dma_memory g(1) unfolding get_zeroed_dma_def .
  moreover have "snd d' = snd d1" using drop_dma_memory g(2) by (cases d1) auto
  ultimately have m: "snd d' = m" by simp
  let ?c = "decode_completion (get_bytes m (nq_cq_entries q + 16 * unat (nq_cq_head q)) 16)"
  have "cq_status ?c = of_le [m (nq_cq_entries q + 14), m (nq_cq_entries q + 15)]"
    using g(4) by (simp add: decode_completion_def drop_get_bytes get_bytes2 add.commute [of 15])
  then have "bit (cq_status ?c) 0" using assms(3) by (simp add: bit_of_le del: bit_0)
  then have "completion_is_valid ?c (nq_cq_phase q)" using g(5) by (simp add: completion_is_valid_def phase_bit_iff del: bit_0)
  moreover have "ring_next (nq_cq_head q) (nq_size q) = Some (if unat (nq_cq_head q) + 1 = unat (nq_size q) then 0 else nq_cq_head q + 1)"
    by (rule ring_next_ok(1)) (use assms(2) g(3,4) in simp)
  ultimately show ?thesis unfolding m check_completion_def by (simp add: Let_def)
qed


section \<open>Witnesses\<close>

definition demo_queue :: nvme_queue where
  "demo_queue = \<lparr>nq_sq_entries = 0, nq_sq_phys = 0, nq_cq_entries = 128, nq_cq_phys = 128, nq_size = 2, nq_sq_head = 0,
     nq_sq_tail = 0, nq_cq_head = 0, nq_cq_phase = True, nq_queue_id = 0, nq_interrupt_vector = None\<rparr>"

theorem queue_exhausts_witness:
  "\<exists>q'. queue_run [Submit nvme_command_new (\<lambda>_. 0), Poll (\<lambda>_. 1), Submit nvme_command_new (\<lambda>_. 0)] demo_queue = Some (1, q')"
  using queue_exhausts [of demo_queue "[Submit nvme_command_new (\<lambda>_. 0), Poll (\<lambda>_. 1), Submit nvme_command_new (\<lambda>_. 0)]"]
  by (simp add: demo_queue_def)

theorem completions_in_order_witness:
  "\<exists>q'. drain check_completion 1 demo_queue (\<lambda>_. 0) = Some ([], q') \<and> check_completion q' (\<lambda>_. 0) = Some (None, q')"
proof -
  have "cq_view demo_queue (\<lambda>_. 0) [] 0" by (rule cq_view_fresh) (simp_all add: demo_queue_def)
  from completions_in_order [OF this] show ?thesis by simp
qed

lemma demo_queue_new: "\<exists>q d. nvme_queue_new 0 2 (Some one_forest, m) = Some (Inr q, d)"
proof -
  from one_forest_get obtain buf d where g: "get_zeroed_dma 1 (Some one_forest, m) = Some (Inr buf, d)"
    "db_virt_addr buf < 0x6000" "db_phys_addr buf < 0x6000" by blast
  have "4096 * 2 ^ 0 < usize_bound" by (simp add: usize_bound_def)
  from dma_take_drop [OF one_forest_ok this, of m buf d] g(1) obtain s' where "drop_dynamic buf d = Some (Some s', m)" by auto
  then show ?thesis using g by (simp add: nvme_queue_new_def Let_def usize_bound_def virt_addr_new_def phys_addr_new_def)
qed

theorem queue_memory_freed_witness:
  "\<exists>q s'. nvme_queue_new 0 2 (Some one_forest, \<lambda>_. 0) = Some (Inr q, Some s', \<lambda>_. 0) \<and> forest_ok s' [{}]"
proof -
  from demo_queue_new obtain q d where q: "nvme_queue_new 0 2 (Some one_forest, \<lambda>_. 0) = Some (Inr q, d)" by blast
  have "(unat (2 :: u16) * 80 + 4095) div 4096 = 2 ^ 0" by simp
  from queue_memory_freed [OF one_forest_ok q this] show ?thesis using q by auto
qed

end
