(* ===== verification/Ecam.thy ===== *)
theory Ecam
  imports Vmm
begin

text \<open>
  \<^verbatim>\<open>kernel/src/pci/mcfg.rs\<close>: the regions of memory-mapped PCIe configuration space (ECAM), their mapping, and
  the accessors of configuration registers.  The ACPI tables come from the \<^verbatim>\<open>acpi\<close> crate, so \<^verbatim>\<open>parse_mcfg_table\<close>
  takes the function that looks up the entries as a parameter.  A volatile access of configuration space
  reaches the devices: \<open>cfg_io\<close> holds what a read returns and what a write does, over an abstract state \<open>'d\<close> of the
  devices.  Reads of configuration registers have no side effects.
\<close>

section \<open>The code\<close>

definition ECAM_VIRTUAL_START :: addr where
  "ECAM_VIRTUAL_START = 0xFFFFF40000000000"

record ecam_region =
  er_base_address :: addr
  er_virtual_address :: addr
  er_segment_group :: u16
  er_start_bus :: u8
  er_end_bus :: u8

text \<open>The shifts of \<^verbatim>\<open>get_device_address\<close> lose no bits, because the three numbers are below 256, 32 and 8.\<close>

definition get_device_address :: "ecam_region \<Rightarrow> u8 \<Rightarrow> u8 \<Rightarrow> u8 \<Rightarrow> addr rust" where
  "get_device_address r bus device function = do {
     rust_assert (bus \<ge> er_start_bus r \<and> bus \<le> er_end_bus r);
     rust_assert (device < 32);
     rust_assert (function < 8);
     let bus_offset = unat (bus - er_start_bus r);
     let offset = bus_offset * 2 ^ 20 + unat device * 2 ^ 15 + unat function * 2 ^ 12;
     a \<leftarrow> usize_add (er_virtual_address r) offset;
     virt_addr_new a
   }"

text \<open>A count of buses is at most 256, so neither the saturation nor the test before the shift can matter.\<close>

definition mapping_size :: "ecam_region \<Rightarrow> nat" where
  "mapping_size r =
     (if er_end_bus r < er_start_bus r then 0
      else let bus_count = unat (er_end_bus r) - unat (er_start_bus r) + 1 in
        if bus_count > (2 ^ 64 - 1) div 2 ^ 20 then 2 ^ 64 - 1 else bus_count * 2 ^ 20)"

definition ecam_size :: "ecam_region \<Rightarrow> nat" where
  "ecam_size r = mapping_size r"

text \<open>An entry of the MCFG table, as the \<^verbatim>\<open>acpi\<close> crate presents it.\<close>

record mcfg_entry =
  me_base_address :: addr
  me_pci_segment_group :: u16
  me_bus_number_start :: u8
  me_bus_number_end :: u8

fun parse_mcfg_entries :: "mcfg_entry list \<Rightarrow> ecam_region list rust" where
  "parse_mcfg_entries [] = Some []"
| "parse_mcfg_entries (entry # entries) =
     (if me_bus_number_end entry < me_bus_number_start entry then parse_mcfg_entries entries
      else if me_base_address entry = 0 then parse_mcfg_entries entries
      else do {
        base_address \<leftarrow> phys_addr_new (me_base_address entry);
        regions \<leftarrow> parse_mcfg_entries entries;
        Some (\<lparr>er_base_address = base_address, er_virtual_address = 0, er_segment_group = me_pci_segment_group entry,
          er_start_bus = me_bus_number_start entry, er_end_bus = me_bus_number_end entry\<rparr> # regions)
      })"

definition parse_mcfg_table :: "(addr \<Rightarrow> mcfg_entry list option) \<Rightarrow> addr \<Rightarrow> (pci_error + ecam_region list) rust" where
  "parse_mcfg_table tables rsdp_addr =
     (case tables rsdp_addr of
        None \<Rightarrow> Some (Inl McfgNotFound)
      | Some entries \<Rightarrow> do { regions \<leftarrow> parse_mcfg_entries entries; Some (Inr regions) })"

definition find_region_for_bus :: "ecam_region list \<Rightarrow> u8 \<Rightarrow> ecam_region option" where
  "find_region_for_bus regions bus = List.find (\<lambda>r. bus \<ge> er_start_bus r \<and> bus \<le> er_end_bus r) regions"

fun calculate_total_ecam_size :: "ecam_region list \<Rightarrow> nat rust" where
  "calculate_total_ecam_size [] = Some 0"
| "calculate_total_ecam_size (r # rs) = do { n \<leftarrow> calculate_total_ecam_size rs; usize_add (ecam_size r) n }"

definition validate_ecam_region :: "ecam_region \<Rightarrow> string option" where
  "validate_ecam_region r =
     (if er_end_bus r < er_start_bus r then Some ''end_bus < start_bus''
      else if er_base_address r = 0 then Some ''base_address is 0''
      else if er_virtual_address r = 0 then Some ''virtual_address not set''
      else if unat (er_end_bus r) - unat (er_start_bus r) + 1 > 256 then Some ''too many buses (>256)''
      else None)"

definition ecam_flags :: pt_flags where
  "ecam_flags = \<lparr>PRESENT = True, WRITABLE = True, USER_ACCESSIBLE = False, NO_CACHE = True, NO_EXECUTE = True\<rparr>"

fun map_ecam_pages :: "'k mm \<Rightarrow> addr \<Rightarrow> addr \<Rightarrow> nat list \<Rightarrow> 'k \<Rightarrow> (pci_error option \<times> 'k) rust" where
  "map_ecam_pages mm virt_base phys_base [] k = Some (None, k)"
| "map_ecam_pages mm virt_base phys_base (i # is) k = do {
     off \<leftarrow> usize_mul i 0x1000;
     va \<leftarrow> usize_add virt_base off;
     va \<leftarrow> virt_addr_new va;
     pa \<leftarrow> usize_add phys_base off;
     pa \<leftarrow> phys_addr_new pa;
     (r, k) \<leftarrow> mm_map_to mm k (align_down va 4096) (align_down pa 4096) ecam_flags;
     case r of
       Some e \<Rightarrow> Some (Some EcamMappingFailed, k)
     | None \<Rightarrow> map_ecam_pages mm virt_base phys_base is k
   }"

text \<open>
  \<open>next_virt\<close> is the static \<^verbatim>\<open>NEXT_ECAM_VIRT\<close>.  The overflow test compares a saturating sum with one of its terms, so it
  never fires; the addition after it is checked.
\<close>

definition map_ecam_region :: "'k mm \<Rightarrow> ecam_region \<Rightarrow> addr \<Rightarrow> 'k \<Rightarrow> (pci_error option \<times> ecam_region \<times> addr \<times> 'k) rust" where
  "map_ecam_region mm r next_virt k = do {
     let msize = mapping_size r;
     if msize = 0 then Some (Some EcamMappingFailed, r, next_virt, k)
     else do {
       let pages_needed = div_ceil msize 0x1000;
       if pages_needed > 1024 * 1024 then Some (Some EcamMappingFailed, r, next_virt, k)
       else do {
         let virt_base = next_virt;
         bytes \<leftarrow> usize_mul pages_needed 0x1000;
         if min (next_virt + bytes) (2 ^ 64 - 1) < next_virt then Some (Some EcamMappingFailed, r, next_virt, k)
         else do {
           next_virt \<leftarrow> usize_add next_virt bytes;
           va \<leftarrow> virt_addr_new virt_base;
           let r = r\<lparr>er_virtual_address := va\<rparr>;
           (e, k) \<leftarrow> map_ecam_pages mm virt_base (er_base_address r) [0 ..< pages_needed] k;
           Some (e, r, next_virt, k)
         }
       }
     }
   }"

subsection \<open>Configuration registers\<close>

record 'd cfg_io =
  cfg_read8 :: "addr \<Rightarrow> 'd \<Rightarrow> u8"
  cfg_read16 :: "addr \<Rightarrow> 'd \<Rightarrow> u16"
  cfg_read32 :: "addr \<Rightarrow> 'd \<Rightarrow> u32"
  cfg_write8 :: "addr \<Rightarrow> u8 \<Rightarrow> 'd \<Rightarrow> 'd"
  cfg_write16 :: "addr \<Rightarrow> u16 \<Rightarrow> 'd \<Rightarrow> 'd"
  cfg_write32 :: "addr \<Rightarrow> u32 \<Rightarrow> 'd \<Rightarrow> 'd"

definition read_config_u32 :: "'d cfg_io \<Rightarrow> ecam_region \<Rightarrow> u8 \<Rightarrow> u8 \<Rightarrow> u8 \<Rightarrow> nat \<Rightarrow> 'd \<Rightarrow> u32 rust" where
  "read_config_u32 io r bus device function offset d = do {
     rust_assert (offset mod 4 = 0);
     rust_assert (offset < 4096);
     device_base \<leftarrow> get_device_address r bus device function;
     a \<leftarrow> usize_add device_base offset;
     Some (cfg_read32 io a d)
   }"

definition write_config_u32 :: "'d cfg_io \<Rightarrow> ecam_region \<Rightarrow> u8 \<Rightarrow> u8 \<Rightarrow> u8 \<Rightarrow> nat \<Rightarrow> u32 \<Rightarrow> 'd \<Rightarrow> 'd rust" where
  "write_config_u32 io r bus device function offset v d = do {
     rust_assert (offset mod 4 = 0);
     rust_assert (offset < 4096);
     device_base \<leftarrow> get_device_address r bus device function;
     a \<leftarrow> usize_add device_base offset;
     Some (cfg_write32 io a v d)
   }"

definition read_config_u16 :: "'d cfg_io \<Rightarrow> ecam_region \<Rightarrow> u8 \<Rightarrow> u8 \<Rightarrow> u8 \<Rightarrow> nat \<Rightarrow> 'd \<Rightarrow> u16 rust" where
  "read_config_u16 io r bus device function offset d = do {
     rust_assert (offset mod 2 = 0);
     rust_assert (offset < 4096);
     device_base \<leftarrow> get_device_address r bus device function;
     a \<leftarrow> usize_add device_base offset;
     Some (cfg_read16 io a d)
   }"

definition write_config_u16 :: "'d cfg_io \<Rightarrow> ecam_region \<Rightarrow> u8 \<Rightarrow> u8 \<Rightarrow> u8 \<Rightarrow> nat \<Rightarrow> u16 \<Rightarrow> 'd \<Rightarrow> 'd rust" where
  "write_config_u16 io r bus device function offset v d = do {
     rust_assert (offset mod 2 = 0);
     rust_assert (offset < 4096);
     device_base \<leftarrow> get_device_address r bus device function;
     a \<leftarrow> usize_add device_base offset;
     Some (cfg_write16 io a v d)
   }"

definition read_config_u8 :: "'d cfg_io \<Rightarrow> ecam_region \<Rightarrow> u8 \<Rightarrow> u8 \<Rightarrow> u8 \<Rightarrow> nat \<Rightarrow> 'd \<Rightarrow> u8 rust" where
  "read_config_u8 io r bus device function offset d = do {
     rust_assert (offset < 4096);
     device_base \<leftarrow> get_device_address r bus device function;
     a \<leftarrow> usize_add device_base offset;
     Some (cfg_read8 io a d)
   }"

definition write_config_u8 :: "'d cfg_io \<Rightarrow> ecam_region \<Rightarrow> u8 \<Rightarrow> u8 \<Rightarrow> u8 \<Rightarrow> nat \<Rightarrow> u8 \<Rightarrow> 'd \<Rightarrow> 'd rust" where
  "write_config_u8 io r bus device function offset v d = do {
     rust_assert (offset < 4096);
     device_base \<leftarrow> get_device_address r bus device function;
     a \<leftarrow> usize_add device_base offset;
     Some (cfg_write8 io a v d)
   }"

fun device_exists_in_regions :: "'d cfg_io \<Rightarrow> ecam_region list \<Rightarrow> u8 \<Rightarrow> u8 \<Rightarrow> u8 \<Rightarrow> 'd \<Rightarrow> bool rust" where
  "device_exists_in_regions io [] bus device function d = Some False"
| "device_exists_in_regions io (r # rs) bus device function d =
     (if bus \<ge> er_start_bus r \<and> bus \<le> er_end_bus r
      then do { vendor_id \<leftarrow> read_config_u16 io r bus device function 0 d; Some (vendor_id \<noteq> 0xFFFF) }
      else device_exists_in_regions io rs bus device function d)"

section \<open>The windows of the functions\<close>

text \<open>A region that is mapped in the upper half of the address space.\<close>

definition region_ok :: "ecam_region \<Rightarrow> bool" where
  "region_ok r \<longleftrightarrow> er_start_bus r \<le> er_end_bus r \<and> 2 ^ 64 - 2 ^ 47 \<le> er_virtual_address r \<and> er_virtual_address r + mapping_size r \<le> 2 ^ 64"

definition valid_function :: "ecam_region \<Rightarrow> u8 \<times> u8 \<times> u8 \<Rightarrow> bool" where
  "valid_function r = (\<lambda>(bus, device, function). er_start_bus r \<le> bus \<and> bus \<le> er_end_bus r \<and> device < 32 \<and> function < 8)"

text \<open>The number of a function, counted in windows of 4096 bytes.\<close>

definition function_index :: "ecam_region \<Rightarrow> u8 \<times> u8 \<times> u8 \<Rightarrow> nat" where
  "function_index r = (\<lambda>(bus, device, function). (unat bus - unat (er_start_bus r)) * 256 + unat device * 8 + unat function)"

lemma mapping_size_eq: "er_start_bus r \<le> er_end_bus r \<Longrightarrow> mapping_size r = (unat (er_end_bus r) - unat (er_start_bus r) + 1) * 2 ^ 20"
proof -
  assume "er_start_bus r \<le> er_end_bus r"
  moreover have "unat (er_end_bus r) < 2 ^ LENGTH(8)" by (rule unsigned_less)
  ultimately show ?thesis by (simp add: mapping_size_def Let_def not_less)
qed

lemma function_index_less:
  assumes "valid_function r f"
  shows "function_index r f < (unat (er_end_bus r) - unat (er_start_bus r) + 1) * 256"
proof -
  obtain b dv fn where f: "f = (b, dv, fn)" by (cases f)
  have "unat b \<le> unat (er_end_bus r)" "unat dv < 32" "unat fn < 8"
    using assms by (auto simp: f valid_function_def word_le_nat_alt word_less_nat_alt)
  then show ?thesis by (simp add: f function_index_def)
qed

lemma function_index_inj:
  assumes "valid_function r f" and "valid_function r g" and "function_index r f = function_index r g"
  shows "f = g"
proof -
  obtain b dv fn where f: "f = (b, dv, fn)" by (cases f)
  obtain b' dv' fn' where g: "g = (b', dv', fn')" by (cases g)
  have l: "unat dv < 32" "unat fn < 8" "unat dv' < 32" "unat fn' < 8" "unat (er_start_bus r) \<le> unat b" "unat (er_start_bus r) \<le> unat b'"
    using assms(1,2) by (auto simp: f g valid_function_def word_le_nat_alt word_less_nat_alt)
  have e: "(unat b - unat (er_start_bus r)) * 256 + unat dv * 8 + unat fn = (unat b' - unat (er_start_bus r)) * 256 + unat dv' * 8 + unat fn'"
    using assms(3) by (simp add: f g function_index_def)
  from e l have b: "unat b - unat (er_start_bus r) = unat b' - unat (er_start_bus r)" by linarith
  with e l have dv: "unat dv = unat dv'" by linarith
  with e b have "unat fn = unat fn'" by linarith
  moreover have "unat b = unat b'" using b l by linarith
  note this dv calculation
  then show ?thesis by (simp add: f g word_unat_eq_iff)
qed

lemma device_address_ok:
  assumes ok: "region_ok r" and v: "valid_function r (bus, device, function)"
  shows "get_device_address r bus device function = Some (er_virtual_address r + function_index r (bus, device, function) * 4096)"
proof -
  have "unat (bus - er_start_bus r) = unat bus - unat (er_start_bus r)"
    using v by (simp add: valid_function_def unat_sub)
  moreover have "function_index r (bus, device, function) * 4096 < mapping_size r"
    using function_index_less [OF v] ok by (simp add: region_ok_def mapping_size_eq)
  moreover have "er_virtual_address r + function_index r (bus, device, function) * 4096 < 2 ^ 64"
    using calculation(2) ok by (simp add: region_ok_def)
  ultimately show ?thesis using ok v
    by (simp add: get_device_address_def Let_def valid_function_def function_index_def usize_bound_def virt_addr_new_def region_ok_def add_mult_distrib)
qed

text \<open>The address that an access to a register of a function reaches.\<close>

definition reg_addr :: "ecam_region \<Rightarrow> u8 \<times> u8 \<times> u8 \<Rightarrow> nat \<Rightarrow> addr" where
  "reg_addr r f offset = er_virtual_address r + function_index r f * 4096 + offset"

lemma reg_addr_less:
  assumes "region_ok r" and "valid_function r f" and "offset < 4096"
  shows "reg_addr r f offset < er_virtual_address r + mapping_size r"
  using assms function_index_less [OF assms(2)] by (simp add: reg_addr_def region_ok_def mapping_size_eq)

lemma reg_addr_inj:
  assumes "valid_function r f" and "valid_function r g" and "i < 4096" and "j < 4096" and "reg_addr r f i = reg_addr r g j"
  shows "f = g \<and> i = j"
proof -
  have "function_index r f * 4096 + i = function_index r g * 4096 + j" using assms(5) by (simp add: reg_addr_def)
  moreover from this have "function_index r f = function_index r g" using assms(3,4) by linarith
  ultimately have "function_index r f = function_index r g" "i = j" by simp_all
  then show ?thesis using function_index_inj assms(1,2) by blast
qed

lemma config_access_ok:
  assumes ok: "region_ok r" and v: "valid_function r (bus, device, function)" and off: "offset < 4096"
  shows "read_config_u8 io r bus device function offset d = Some (cfg_read8 io (reg_addr r (bus, device, function) offset) d)"
    and "offset mod 2 = 0 \<Longrightarrow> read_config_u16 io r bus device function offset d = Some (cfg_read16 io (reg_addr r (bus, device, function) offset) d)"
    and "offset mod 4 = 0 \<Longrightarrow> read_config_u32 io r bus device function offset d = Some (cfg_read32 io (reg_addr r (bus, device, function) offset) d)"
    and "write_config_u8 io r bus device function offset x d = Some (cfg_write8 io (reg_addr r (bus, device, function) offset) x d)"
    and "offset mod 2 = 0 \<Longrightarrow> write_config_u16 io r bus device function offset y d = Some (cfg_write16 io (reg_addr r (bus, device, function) offset) y d)"
    and "offset mod 4 = 0 \<Longrightarrow> write_config_u32 io r bus device function offset z d = Some (cfg_write32 io (reg_addr r (bus, device, function) offset) z d)"
proof -
  have "reg_addr r (bus, device, function) offset < usize_bound"
    using reg_addr_less [OF ok v off] ok by (simp add: region_ok_def usize_bound_def)
  then have a: "usize_add (er_virtual_address r + function_index r (bus, device, function) * 4096) offset = Some (reg_addr r (bus, device, function) offset)"
    by (simp add: reg_addr_def)
  note [simp] = device_address_ok [OF ok v] a
  show "read_config_u8 io r bus device function offset d = Some (cfg_read8 io (reg_addr r (bus, device, function) offset) d)"
    and "offset mod 2 = 0 \<Longrightarrow> read_config_u16 io r bus device function offset d = Some (cfg_read16 io (reg_addr r (bus, device, function) offset) d)"
    and "offset mod 4 = 0 \<Longrightarrow> read_config_u32 io r bus device function offset d = Some (cfg_read32 io (reg_addr r (bus, device, function) offset) d)"
    and "write_config_u8 io r bus device function offset x d = Some (cfg_write8 io (reg_addr r (bus, device, function) offset) x d)"
    and "offset mod 2 = 0 \<Longrightarrow> write_config_u16 io r bus device function offset y d = Some (cfg_write16 io (reg_addr r (bus, device, function) offset) y d)"
    and "offset mod 4 = 0 \<Longrightarrow> write_config_u32 io r bus device function offset z d = Some (cfg_write32 io (reg_addr r (bus, device, function) offset) z d)"
    using off
    by (simp_all add: read_config_u8_def read_config_u16_def read_config_u32_def write_config_u8_def write_config_u16_def write_config_u32_def)
qed

text \<open>
  C31: every function of a mapped region has a window of 4096 bytes that lies inside the mapping, windows of
  different functions never overlap, and an access outside the region's buses, the 32 devices or the 8
  functions stops the kernel instead of reaching another window.
\<close>

theorem config_windows:
  assumes "region_ok r"
  shows "(\<forall>b dv fn. valid_function r (b, dv, fn) \<longrightarrow>
      (\<exists>a. get_device_address r b dv fn = Some a \<and> a mod 4096 = er_virtual_address r mod 4096 \<and>
        {a ..< a + 4096} \<subseteq> {er_virtual_address r ..< er_virtual_address r + mapping_size r})) \<and>
    (\<forall>b dv fn b' dv' fn' a a'. get_device_address r b dv fn = Some a \<and> get_device_address r b' dv' fn' = Some a' \<and>
      (b, dv, fn) \<noteq> (b', dv', fn') \<longrightarrow> {a ..< a + 4096} \<inter> {a' ..< a' + 4096} = {}) \<and>
    (\<forall>b dv fn. \<not> valid_function r (b, dv, fn) \<longrightarrow> get_device_address r b dv fn = None)"
proof (intro conjI allI impI)
  fix b dv fn assume v: "valid_function r (b, dv, fn)"
  have "(function_index r (b, dv, fn) + 1) * 4096 \<le> mapping_size r"
    using function_index_less [OF v] assms by (simp add: region_ok_def mapping_size_eq)
  then show "\<exists>a. get_device_address r b dv fn = Some a \<and> a mod 4096 = er_virtual_address r mod 4096 \<and>
      {a ..< a + 4096} \<subseteq> {er_virtual_address r ..< er_virtual_address r + mapping_size r}"
    using device_address_ok [OF assms v] by auto
next
  fix b dv fn assume "\<not> valid_function r (b, dv, fn)"
  then show "get_device_address r b dv fn = None"
    by (auto simp: get_device_address_def valid_function_def rust_assert_def)
next
  fix b dv fn b' dv' fn' a a'
  assume h: "get_device_address r b dv fn = Some a \<and> get_device_address r b' dv' fn' = Some a' \<and> (b, dv, fn) \<noteq> (b', dv', fn')"
  then have v: "valid_function r (b, dv, fn)" "valid_function r (b', dv', fn')"
    by (auto simp: get_device_address_def valid_function_def rust_assert_def split: if_splits)
  have "function_index r (b, dv, fn) \<noteq> function_index r (b', dv', fn')" using h function_index_inj [OF v] by blast
  moreover have "a = er_virtual_address r + function_index r (b, dv, fn) * 4096" "a' = er_virtual_address r + function_index r (b', dv', fn') * 4096"
    using h device_address_ok [OF assms v(1)] device_address_ok [OF assms v(2)] by simp_all
  ultimately have "a + 4096 \<le> a' \<or> a' + 4096 \<le> a" by linarith
  then show "{a ..< a + 4096} \<inter> {a' ..< a' + 4096} = {}" by auto
qed


section \<open>Mapping a region\<close>

text \<open>The pages of a region are mapped like those of a BAR that is not prefetchable.\<close>

lemma map_ecam_pages_eq: "map_ecam_pages mm va pa is k = vmm_map_pages mm va pa False is k"
  by (induction "is" arbitrary: k) (simp_all add: ecam_flags_def bar_flags_def PAGE_SIZE_def cong: option.case_cong)

text \<open>Every page of the region reads through to the corresponding frame; \<open>k\<close> and \<open>k'\<close> are the states before and after.\<close>

definition region_mapped :: "('k \<Rightarrow> addr \<Rightarrow> addr option) \<Rightarrow> ecam_region \<Rightarrow> 'k \<Rightarrow> bool" where
  "region_mapped xlate r k \<longleftrightarrow>
     (\<forall>i < mapping_size r div 4096. xlate k (er_virtual_address r + i * 4096) = Some (align_down (er_base_address r) 4096 + i * 4096))"

definition region_pages :: "ecam_region \<Rightarrow> addr set" where
  "region_pages r = {er_virtual_address r ..< er_virtual_address r + mapping_size r}"

lemma mapping_size_pages:
  assumes "er_start_bus r \<le> er_end_bus r"
  shows "mapping_size r = mapping_size r div 4096 * 4096" and "0 < mapping_size r" and "div_ceil (mapping_size r) 0x1000 = mapping_size r div 4096"
    and "mapping_size r div 4096 \<le> 65536"
proof -
  let ?n = "unat (er_end_bus r) - unat (er_start_bus r) + 1"
  have m: "mapping_size r = ?n * 256 * 4096" using mapping_size_eq [OF assms] by simp
  have "unat (er_end_bus r) < 2 ^ LENGTH(8)" by (rule unsigned_less)
  then show "mapping_size r = mapping_size r div 4096 * 4096" "0 < mapping_size r" "div_ceil (mapping_size r) 0x1000 = mapping_size r div 4096"
    "mapping_size r div 4096 \<le> 65536"
    unfolding m by (simp_all add: div_ceil_def)
qed

lemma map_ecam_region_ok:
  assumes sp: "mapper_spec mm xlate" and se: "er_start_bus r \<le> er_end_bus r" and pb: "er_base_address r + mapping_size r \<le> 2 ^ 52"
    and nv: "2 ^ 64 - 2 ^ 47 \<le> nv" "nv mod 4096 = 0" "nv + mapping_size r < 2 ^ 64"
  shows "\<exists>e k'. map_ecam_region mm r nv k = Some (e, r\<lparr>er_virtual_address := nv\<rparr>, nv + mapping_size r, k') \<and>
    (\<forall>q. q \<notin> {nv ..< nv + mapping_size r} \<longrightarrow> xlate k' q = xlate k q) \<and>
    (if e = None then region_mapped xlate (r\<lparr>er_virtual_address := nv\<rparr>) k' else e = Some EcamMappingFailed)"
proof -
  let ?n = "mapping_size r div 4096"
  note ms = mapping_size_pages [OF se]
  have i: "i * 4096 < mapping_size r" if "i < ?n" for i using that ms(1) by (metis mult_less_cancel2 zero_less_numeral)
  have "\<forall>i \<in> set [0 ..< ?n]. nv + i * 4096 < usize_bound \<and> virt_addr_new (nv + i * 4096) = Some (nv + i * 4096) \<and> er_base_address r + i * 4096 < 2 ^ 52"
    using i nv pb by (fastforce simp: usize_bound_def virt_addr_new_def)
  moreover have "align_down nv 4096 = nv" using nv(2) by (auto simp: align_down_def)
  ultimately obtain e k' where m: "vmm_map_pages mm nv (er_base_address r) False [0 ..< ?n] k = Some (e, k')"
    "\<forall>q. q \<notin> (\<lambda>i. nv + i * 4096) ` set [0 ..< ?n] \<longrightarrow> xlate k' q = xlate k q"
    "if e = None
     then \<forall>i \<in> set [0 ..< ?n]. xlate k (nv + i * 4096) = None \<and> xlate k' (nv + i * 4096) = Some (align_down (er_base_address r) 4096 + i * 4096)
     else e = Some EcamMappingFailed \<and> dom (xlate k) \<subseteq> dom (xlate k')"
    using vmm_map_pages_at [OF sp distinct_upt, of 0 ?n nv "er_base_address r" False k] by blast
  have "usize_mul ?n 0x1000 = Some (mapping_size r)" using ms(1) nv(3) by (simp add: usize_mul_def usize_bound_def)
  moreover have "usize_add nv (mapping_size r) = Some (nv + mapping_size r)" using nv(3) by (simp add: usize_bound_def)
  moreover have "virt_addr_new nv = Some nv" using nv by (simp add: virt_addr_new_def)
  ultimately have "map_ecam_region mm r nv k = Some (e, r\<lparr>er_virtual_address := nv\<rparr>, nv + mapping_size r, k')"
    using ms(2,4) nv m(1) by (simp add: map_ecam_region_def Let_def ms(3) map_ecam_pages_eq min_def)
  moreover have "(\<lambda>i. nv + i * 4096) ` set [0 ..< ?n] \<subseteq> {nv ..< nv + mapping_size r}" using i by auto
  then have "\<forall>q. q \<notin> {nv ..< nv + mapping_size r} \<longrightarrow> xlate k' q = xlate k q" using m(2) by blast
  moreover have "mapping_size (r\<lparr>er_virtual_address := nv\<rparr>) = mapping_size r" by (simp add: mapping_size_def)
  ultimately show ?thesis using m(3) by (auto simp: region_mapped_def)
qed

section \<open>Witnesses\<close>

definition demo_region :: ecam_region where
  "demo_region = \<lparr>er_base_address = 0xB0000000, er_virtual_address = ECAM_VIRTUAL_START, er_segment_group = 0, er_start_bus = 0, er_end_bus = 0\<rparr>"

lemma demo_region_ok: "region_ok demo_region"
  by (simp add: region_ok_def demo_region_def mapping_size_def ECAM_VIRTUAL_START_def)

theorem config_windows_witness:
  "\<exists>a. get_device_address demo_region 0 3 1 = Some a \<and> {a ..< a + 4096} \<subseteq> {ECAM_VIRTUAL_START ..< ECAM_VIRTUAL_START + 2 ^ 20}"
proof -
  have "valid_function demo_region (0, 3, 1)" by (simp add: valid_function_def demo_region_def)
  with config_windows [OF demo_region_ok] obtain a where "get_device_address demo_region 0 3 1 = Some a"
    "{a ..< a + 4096} \<subseteq> {er_virtual_address demo_region ..< er_virtual_address demo_region + mapping_size demo_region}" by blast
  then show ?thesis by (simp add: demo_region_def mapping_size_def)
qed

end
