(* ===== verification/Pci_Device.thy ===== *)
theory Pci_Device
  imports Ecam
begin

text \<open>
  \<^verbatim>\<open>kernel/src/pci/device.rs\<close> and the enumeration of \<^verbatim>\<open>kernel/src/pci.rs\<close>: reading the header of a function, sizing its base
  address registers (BARs), walking its capability list, and scanning all buses.
\<close>

section \<open>The code\<close>

definition VENDOR_ID :: nat where "VENDOR_ID = 0x00"
definition DEVICE_ID :: nat where "DEVICE_ID = 0x02"
definition STATUS :: nat where "STATUS = 0x06"
definition REVISION_ID :: nat where "REVISION_ID = 0x08"
definition PROG_IF :: nat where "PROG_IF = 0x09"
definition SUBCLASS :: nat where "SUBCLASS = 0x0A"
definition CLASS_CODE :: nat where "CLASS_CODE = 0x0B"
definition HEADER_TYPE :: nat where "HEADER_TYPE = 0x0E"
definition BAR0 :: nat where "BAR0 = 0x10"
definition SUBSYSTEM_VENDOR_ID :: nat where "SUBSYSTEM_VENDOR_ID = 0x2C"
definition SUBSYSTEM_ID :: nat where "SUBSYSTEM_ID = 0x2E"
definition CAPABILITIES_PTR :: nat where "CAPABILITIES_PTR = 0x34"
definition INTERRUPT_LINE :: nat where "INTERRUPT_LINE = 0x3C"
definition INTERRUPT_PIN :: nat where "INTERRUPT_PIN = 0x3D"

lemmas config_offsets = VENDOR_ID_def DEVICE_ID_def STATUS_def REVISION_ID_def PROG_IF_def SUBCLASS_def CLASS_CODE_def
  HEADER_TYPE_def BAR0_def SUBSYSTEM_VENDOR_ID_def SUBSYSTEM_ID_def CAPABILITIES_PTR_def INTERRUPT_LINE_def INTERRUPT_PIN_def

datatype header_type = Normal | PciToPciBridge | CardBusBridge

record io_bar =
  io_address :: u32
  io_size :: u32

datatype bar_info = Memory memory_bar | Io io_bar | Unused

record pci_device =
  pd_ecam_region :: ecam_region
  pd_bus :: u8
  pd_device :: u8
  pd_function :: u8
  pd_vendor_id :: u16
  pd_device_id :: u16
  pd_class_code :: u8
  pd_subclass :: u8
  pd_prog_if :: u8
  pd_revision_id :: u8
  pd_header_type :: header_type
  pd_subsystem_vendor_id :: u16
  pd_subsystem_id :: u16
  pd_bars :: "bar_info list"
  pd_capabilities :: "u8 \<rightharpoonup> u8"
  pd_interrupt_line :: u8
  pd_interrupt_pin :: u8

text \<open>The description of a class, as a table.\<close>

definition device_descriptions :: "((u8 \<times> u8) \<times> string) list" where
  "device_descriptions = [
     ((0x00, 0x00), ''Legacy Device''),
     ((0x01, 0x00), ''SCSI Bus Controller''),
     ((0x01, 0x01), ''IDE Controller''),
     ((0x01, 0x02), ''Floppy Disk Controller''),
     ((0x01, 0x03), ''IPI Bus Controller''),
     ((0x01, 0x04), ''RAID Controller''),
     ((0x01, 0x05), ''ATA Controller''),
     ((0x01, 0x06), ''SATA Controller''),
     ((0x01, 0x07), ''SAS Controller''),
     ((0x01, 0x08), ''NVM Controller''),
     ((0x02, 0x00), ''Ethernet Controller''),
     ((0x02, 0x01), ''Token Ring Controller''),
     ((0x02, 0x02), ''FDDI Controller''),
     ((0x02, 0x03), ''ATM Controller''),
     ((0x02, 0x04), ''ISDN Controller''),
     ((0x02, 0x05), ''WorldFip Controller''),
     ((0x02, 0x06), ''PICMG 2.14 Multi Computing''),
     ((0x02, 0x07), ''Infiniband Controller''),
     ((0x02, 0x08), ''Fabric Controller''),
     ((0x03, 0x00), ''VGA Compatible Controller''),
     ((0x03, 0x01), ''XGA Controller''),
     ((0x03, 0x02), ''3D Controller''),
     ((0x04, 0x00), ''Multimedia Video Controller''),
     ((0x04, 0x01), ''Multimedia Audio Controller''),
     ((0x04, 0x02), ''Computer Telephony Device''),
     ((0x04, 0x03), ''Audio Device''),
     ((0x05, 0x00), ''RAM Controller''),
     ((0x05, 0x01), ''Flash Controller''),
     ((0x06, 0x00), ''Host Bridge''),
     ((0x06, 0x01), ''ISA Bridge''),
     ((0x06, 0x02), ''EISA Bridge''),
     ((0x06, 0x03), ''MCA Bridge''),
     ((0x06, 0x04), ''PCI-to-PCI Bridge''),
     ((0x06, 0x05), ''PCMCIA Bridge''),
     ((0x06, 0x06), ''NuBus Bridge''),
     ((0x06, 0x07), ''CardBus Bridge''),
     ((0x06, 0x08), ''RACEway Bridge''),
     ((0x06, 0x09), ''PCI-to-PCI Bridge''),
     ((0x06, 0x0A), ''InfiniBand-to-PCI Host Bridge''),
     ((0x0C, 0x00), ''FireWire Controller''),
     ((0x0C, 0x01), ''ACCESS Bus Controller''),
     ((0x0C, 0x02), ''SSA Controller''),
     ((0x0C, 0x03), ''USB Controller''),
     ((0x0C, 0x04), ''Fibre Channel Controller''),
     ((0x0C, 0x05), ''SMBus Controller''),
     ((0x0C, 0x06), ''InfiniBand Controller''),
     ((0x0C, 0x07), ''IPMI Interface''),
     ((0x0C, 0x08), ''SERCOS Interface''),
     ((0x0C, 0x09), ''CANbus Controller'')]"

definition description :: "pci_device \<Rightarrow> string" where
  "description dev = (case map_of device_descriptions (pd_class_code dev, pd_subclass dev) of Some s \<Rightarrow> s | None \<Rightarrow> ''Unknown Device'')"

definition supports_msix :: "pci_device \<Rightarrow> bool" where
  "supports_msix dev \<longleftrightarrow> pd_capabilities dev 0x11 \<noteq> None"

definition supports_msi :: "pci_device \<Rightarrow> bool" where
  "supports_msi dev \<longleftrightarrow> pd_capabilities dev 0x05 \<noteq> None"

definition find_capability :: "pci_device \<Rightarrow> u8 \<Rightarrow> u8 option" where
  "find_capability dev cap_id = pd_capabilities dev cap_id"

text \<open>The sizing functions write all ones to a register, read back the mask and restore the register.\<close>

definition determine_bar_size ::
  "'d cfg_io \<Rightarrow> ecam_region \<Rightarrow> u8 \<Rightarrow> u8 \<Rightarrow> u8 \<Rightarrow> nat \<Rightarrow> bool \<Rightarrow> 'd \<Rightarrow> (nat \<times> 'd) rust" where
  "determine_bar_size io r bus device function bar_offset is_64bit d = do {
     original_low \<leftarrow> read_config_u32 io r bus device function bar_offset d;
     original_high \<leftarrow> (if is_64bit then read_config_u32 io r bus device function (bar_offset + 4) d else Some 0);
     if is_64bit then do {
       d \<leftarrow> write_config_u32 io r bus device function bar_offset 0xFFFFFFFF d;
       d \<leftarrow> write_config_u32 io r bus device function (bar_offset + 4) 0xFFFFFFFF d;
       size_low \<leftarrow> read_config_u32 io r bus device function bar_offset d;
       size_high \<leftarrow> read_config_u32 io r bus device function (bar_offset + 4) d;
       d \<leftarrow> write_config_u32 io r bus device function (bar_offset + 4) original_high d;
       d \<leftarrow> write_config_u32 io r bus device function bar_offset original_low d;
       let size_mask_64 = (push_bit 32 (ucast size_high) OR ucast (size_low AND 0xFFFFFFF0) :: u64);
       Some (if size_mask_64 = 0 then 0 else unat (NOT size_mask_64) + 1, d)
     } else do {
       d \<leftarrow> write_config_u32 io r bus device function bar_offset 0xFFFFFFFF d;
       size_low \<leftarrow> read_config_u32 io r bus device function bar_offset d;
       d \<leftarrow> write_config_u32 io r bus device function bar_offset original_low d;
       let size_mask_32 = size_low AND 0xFFFFFFF0;
       Some (if size_mask_32 = 0 then 0 else unat (NOT size_mask_32) + 1, d)
     }
   }"

definition determine_io_bar_size ::
  "'d cfg_io \<Rightarrow> ecam_region \<Rightarrow> u8 \<Rightarrow> u8 \<Rightarrow> u8 \<Rightarrow> nat \<Rightarrow> 'd \<Rightarrow> (u32 \<times> 'd) rust" where
  "determine_io_bar_size io r bus device function bar_offset d = do {
     original \<leftarrow> read_config_u32 io r bus device function bar_offset d;
     d \<leftarrow> write_config_u32 io r bus device function bar_offset 0xFFFFFFFF d;
     size_mask \<leftarrow> read_config_u32 io r bus device function bar_offset d;
     d \<leftarrow> write_config_u32 io r bus device function bar_offset original d;
     let size_mask = size_mask AND 0xFFFFFFFC;
     Some (if size_mask = 0 then 0 else NOT size_mask + 1, d)
   }"

text \<open>The loop of \<^verbatim>\<open>parse_bars\<close>, from register \<open>i\<close> on.\<close>

function parse_bars_loop ::
  "'d cfg_io \<Rightarrow> ecam_region \<Rightarrow> u8 \<Rightarrow> u8 \<Rightarrow> u8 \<Rightarrow> nat \<Rightarrow> bar_info list \<Rightarrow> 'd \<Rightarrow> (bar_info list \<times> 'd) rust" where
  "parse_bars_loop io r bus device function i bars d = (
     if i < 6 then do {
       let bar_offset = BAR0 + i * 4;
       bar_value \<leftarrow> read_config_u32 io r bus device function bar_offset d;
       if bar_value = 0 then parse_bars_loop io r bus device function (i + 1) bars d
       else if bar_value AND 1 = 0 then do {
         let is_64bit = (bar_value AND 0x6 = 0x4);
         let prefetchable = (bar_value AND 0x8 \<noteq> 0);
         address_raw \<leftarrow> (if is_64bit \<and> i < 5 then do {
             high_bar \<leftarrow> read_config_u32 io r bus device function (bar_offset + 4) d;
             Some (push_bit 32 (ucast high_bar) OR ucast (bar_value AND 0xFFFFFFF0) :: u64)
           } else Some (ucast (bar_value AND 0xFFFFFFF0)));
         (sz, d) \<leftarrow> determine_bar_size io r bus device function bar_offset is_64bit d;
         address \<leftarrow> phys_addr_new (unat address_raw);
         let bars = bars[i := Memory \<lparr>bar_address = address, bar_size = sz, bar_prefetchable = prefetchable, bar_is_64bit = is_64bit\<rparr>];
         parse_bars_loop io r bus device function (if is_64bit then i + 2 else i + 1) bars d
       } else do {
         let address = bar_value AND 0xFFFFFFFC;
         (sz, d) \<leftarrow> determine_io_bar_size io r bus device function bar_offset d;
         parse_bars_loop io r bus device function (i + 1) (bars[i := Io \<lparr>io_address = address, io_size = sz\<rparr>]) d
       }
     } else Some (bars, d))"
  by pat_completeness auto

termination by (relation "measure (\<lambda>(io, r, bus, device, function, i, bars, d). 6 - i)") auto

declare parse_bars_loop.simps [simp del]

definition parse_bars :: "'d cfg_io \<Rightarrow> ecam_region \<Rightarrow> u8 \<Rightarrow> u8 \<Rightarrow> u8 \<Rightarrow> 'd \<Rightarrow> (bar_info list \<times> 'd) rust" where
  "parse_bars io r bus device function d = parse_bars_loop io r bus device function 0 (replicate 6 Unused) d"

text \<open>The walk ends only if the list does, so it is a partial function.\<close>

partial_function (option) capabilities_loop ::
  "'d cfg_io \<Rightarrow> ecam_region \<Rightarrow> u8 \<Rightarrow> u8 \<Rightarrow> u8 \<Rightarrow> 'd \<Rightarrow> u8 \<Rightarrow> (u8 \<rightharpoonup> u8) \<Rightarrow> (u8 \<rightharpoonup> u8) rust" where
  "capabilities_loop io r bus device function d cap_ptr capabilities = (
     if cap_ptr \<noteq> 0 \<and> cap_ptr \<noteq> 0xFF then do {
       cap_id \<leftarrow> read_config_u8 io r bus device function (unat cap_ptr) d;
       next_ptr \<leftarrow> read_config_u8 io r bus device function (unat cap_ptr + 1) d;
       capabilities_loop io r bus device function d next_ptr (capabilities(cap_id \<mapsto> cap_ptr))
     } else Some capabilities)"

definition parse_capabilities :: "'d cfg_io \<Rightarrow> ecam_region \<Rightarrow> u8 \<Rightarrow> u8 \<Rightarrow> u8 \<Rightarrow> 'd \<Rightarrow> (u8 \<rightharpoonup> u8) rust" where
  "parse_capabilities io r bus device function d = do {
     status \<leftarrow> read_config_u16 io r bus device function STATUS d;
     if status AND 0x10 = 0 then Some Map.empty
     else do {
       cap_ptr \<leftarrow> read_config_u8 io r bus device function CAPABILITIES_PTR d;
       capabilities_loop io r bus device function d cap_ptr Map.empty
     }
   }"

definition header_type_of :: "u8 \<Rightarrow> header_type option" where
  "header_type_of b = (if b = 0x00 then Some Normal else if b = 0x01 then Some PciToPciBridge
     else if b = 0x02 then Some CardBusBridge else None)"

definition probe_device ::
  "'d cfg_io \<Rightarrow> ecam_region \<Rightarrow> u8 \<Rightarrow> u8 \<Rightarrow> u8 \<Rightarrow> 'd \<Rightarrow> ((pci_error + pci_device option) \<times> 'd) rust" where
  "probe_device io r bus device function d = do {
     vendor_id \<leftarrow> read_config_u16 io r bus device function VENDOR_ID d;
     if vendor_id = 0xFFFF then Some (Inr None, d)
     else do {
       device_id \<leftarrow> read_config_u16 io r bus device function DEVICE_ID d;
       class_code \<leftarrow> read_config_u8 io r bus device function CLASS_CODE d;
       subclass \<leftarrow> read_config_u8 io r bus device function SUBCLASS d;
       prog_if \<leftarrow> read_config_u8 io r bus device function PROG_IF d;
       revision_id \<leftarrow> read_config_u8 io r bus device function REVISION_ID d;
       header_type_raw \<leftarrow> read_config_u8 io r bus device function HEADER_TYPE d;
       let header_type_raw = header_type_raw AND 0x7F;
       subsystem_vendor_id \<leftarrow> read_config_u16 io r bus device function SUBSYSTEM_VENDOR_ID d;
       subsystem_id \<leftarrow> read_config_u16 io r bus device function SUBSYSTEM_ID d;
       interrupt_line \<leftarrow> read_config_u8 io r bus device function INTERRUPT_LINE d;
       interrupt_pin \<leftarrow> read_config_u8 io r bus device function INTERRUPT_PIN d;
       case header_type_of header_type_raw of
         None \<Rightarrow> Some (Inl InvalidDevice, d)
       | Some ht \<Rightarrow> do {
           (bars, d) \<leftarrow> (if ht = Normal then parse_bars io r bus device function d else Some (replicate 6 Unused, d));
           capabilities \<leftarrow> parse_capabilities io r bus device function d;
           Some (Inr (Some \<lparr>pd_ecam_region = r, pd_bus = bus, pd_device = device, pd_function = function,
             pd_vendor_id = vendor_id, pd_device_id = device_id, pd_class_code = class_code, pd_subclass = subclass,
             pd_prog_if = prog_if, pd_revision_id = revision_id, pd_header_type = ht,
             pd_subsystem_vendor_id = subsystem_vendor_id, pd_subsystem_id = subsystem_id, pd_bars = bars,
             pd_capabilities = capabilities, pd_interrupt_line = interrupt_line, pd_interrupt_pin = interrupt_pin\<rparr>), d)
         }
     }
   }"

definition is_multifunction_device :: "'d cfg_io \<Rightarrow> ecam_region \<Rightarrow> u8 \<Rightarrow> u8 \<Rightarrow> u8 \<Rightarrow> 'd \<Rightarrow> bool rust" where
  "is_multifunction_device io r bus device function d = do {
     b \<leftarrow> read_config_u8 io r bus device function HEADER_TYPE d;
     Some (b AND 0x80 \<noteq> 0)
   }"

subsection \<open>Enumeration\<close>

text \<open>The two loops of \<^verbatim>\<open>enumerate_bus\<close>; \<^verbatim>\<open>break\<close> leaves the inner one.\<close>

fun enumerate_functions ::
  "'d cfg_io \<Rightarrow> ecam_region \<Rightarrow> u8 \<Rightarrow> u8 \<Rightarrow> u8 list \<Rightarrow> pci_device list \<Rightarrow> 'd \<Rightarrow> ((pci_error + pci_device list) \<times> 'd) rust" where
  "enumerate_functions io r bus device [] devices d = Some (Inr devices, d)"
| "enumerate_functions io r bus device (function # functions) devices d = do {
     (p, d) \<leftarrow> probe_device io r bus device function d;
     case p of
       Inl e \<Rightarrow> Some (Inl e, d)
     | Inr None \<Rightarrow> enumerate_functions io r bus device functions devices d
     | Inr (Some dev) \<Rightarrow> do {
         let devices = devices @ [dev];
         stop \<leftarrow> (if function = 0 then do { m \<leftarrow> is_multifunction_device io r bus device 0 d; Some (\<not> m) } else Some False);
         if stop then Some (Inr devices, d) else enumerate_functions io r bus device functions devices d
       }
   }"

fun enumerate_slots ::
  "'d cfg_io \<Rightarrow> ecam_region \<Rightarrow> u8 \<Rightarrow> u8 list \<Rightarrow> pci_device list \<Rightarrow> 'd \<Rightarrow> ((pci_error + pci_device list) \<times> 'd) rust" where
  "enumerate_slots io r bus [] devices d = Some (Inr devices, d)"
| "enumerate_slots io r bus (device # slots) devices d = do {
     (p, d) \<leftarrow> enumerate_functions io r bus device (map of_nat [0 ..< 8]) devices d;
     case p of Inl e \<Rightarrow> Some (Inl e, d) | Inr devices \<Rightarrow> enumerate_slots io r bus slots devices d
   }"

definition enumerate_bus ::
  "'d cfg_io \<Rightarrow> ecam_region \<Rightarrow> u8 \<Rightarrow> pci_device list \<Rightarrow> 'd \<Rightarrow> ((pci_error + pci_device list) \<times> 'd) rust" where
  "enumerate_bus io r bus devices d = enumerate_slots io r bus (map of_nat [0 ..< 32]) devices d"

fun enumerate_buses ::
  "'d cfg_io \<Rightarrow> ecam_region \<Rightarrow> u8 list \<Rightarrow> pci_device list \<Rightarrow> 'd \<Rightarrow> ((pci_error + pci_device list) \<times> 'd) rust" where
  "enumerate_buses io r [] devices d = Some (Inr devices, d)"
| "enumerate_buses io r (bus # buses) devices d = do {
     (p, d) \<leftarrow> enumerate_bus io r bus devices d;
     case p of Inl e \<Rightarrow> Some (Inl e, d) | Inr devices \<Rightarrow> enumerate_buses io r buses devices d
   }"

fun enumerate_devices ::
  "'d cfg_io \<Rightarrow> ecam_region list \<Rightarrow> pci_device list \<Rightarrow> 'd \<Rightarrow> ((pci_error + pci_device list) \<times> 'd) rust" where
  "enumerate_devices io [] devices d = Some (Inr devices, d)"
| "enumerate_devices io (r # rs) devices d = do {
     (p, d) \<leftarrow> enumerate_buses io r (map of_nat [unat (er_start_bus r) ..< unat (er_end_bus r) + 1]) devices d;
     case p of Inl e \<Rightarrow> Some (Inl e, d) | Inr devices \<Rightarrow> enumerate_devices io rs devices d
   }"


section \<open>Sizing\<close>

text \<open>
  Base address registers according to the PCI specification: those at the addresses \<open>B\<close> keep the writable bits \<open>wm\<close> of
  what is written, the bits \<open>fx\<close> are fixed, a later write overrides an earlier one, writing back the value just read
  changes nothing, and no other register is affected.
\<close>

definition bar_spec :: "'d cfg_io \<Rightarrow> ('d \<Rightarrow> bool) \<Rightarrow> addr set \<Rightarrow> (addr \<Rightarrow> u32) \<Rightarrow> (addr \<Rightarrow> u32) \<Rightarrow> bool" where
  "bar_spec io good B wm fx \<longleftrightarrow> (\<forall>d a v. good d \<and> a \<in> B \<longrightarrow>
     good (cfg_write32 io a v d) \<and>
     cfg_read32 io a (cfg_write32 io a v d) = (v AND wm a) OR fx a \<and>
     (\<forall>b. b \<noteq> a \<longrightarrow> cfg_read32 io b (cfg_write32 io a v d) = cfg_read32 io b d) \<and>
     (\<forall>u. cfg_write32 io a u (cfg_write32 io a v d) = cfg_write32 io a u d) \<and>
     cfg_write32 io a (cfg_read32 io a d) d = d)"

lemma bar_specD:
  assumes "bar_spec io good B wm fx" and "good d" and "a \<in> B"
  shows "good (cfg_write32 io a v d)" and "cfg_read32 io a (cfg_write32 io a v d) = (v AND wm a) OR fx a"
    and "b \<noteq> a \<Longrightarrow> cfg_read32 io b (cfg_write32 io a v d) = cfg_read32 io b d"
    and "cfg_write32 io a u (cfg_write32 io a v d) = cfg_write32 io a u d"
    and "cfg_write32 io a (cfg_read32 io a d) d = d"
  using assms unfolding bar_spec_def by blast+

lemma low_ones: "(0xFFFFFFFF :: u32) = - 1" "(0xFFFFFFF0 :: u32) = NOT (mask 4)" "(0xFFFFFFFC :: u32) = NOT (mask 2)"
  by (simp_all add: mask_eq_exp_minus_1)

lemma size_of_mask:
  assumes "k < LENGTH('a)"
  shows "unat (NOT (NOT (mask k)) :: 'a::len word) + 1 = 2 ^ k"
proof -
  have "uint (mask k :: 'a word) = 2 ^ k - 1" unfolding uint_mask_eq using assms by (simp add: mask_eq_exp_minus_1)
  then have "unat (mask k :: 'a word) = nat (2 ^ k - 1)" by (simp flip: nat_uint_eq)
  then show ?thesis by (simp add: nat_diff_distrib nat_power_eq)
qed

lemma not_mask_nonzero: "k < LENGTH('a) \<Longrightarrow> NOT (mask k) \<noteq> (0 :: 'a::len word)"
  by (auto simp: bit_eq_iff bit_simps)

lemma masked_low:
  assumes "(w :: u32) AND mask m = 0" and "fx AND NOT (mask m) = 0"
  shows "(- 1 AND w OR fx) AND NOT (mask m) = w"
proof (rule bit_word_eqI)
  fix n assume n: "n < LENGTH(32)"
  have "\<not> bit fx n \<or> n < m" using assms(2) n by (auto simp: bit_eq_iff bit_simps)
  moreover have "\<not> bit w n \<or> \<not> n < m" using assms(1) n by (auto simp: bit_eq_iff bit_simps)
  ultimately show "bit ((- 1 AND w OR fx) AND NOT (mask m)) n = bit w n"
    using n by (auto simp: bit_simps)
qed

lemma not_mask_low: "m \<le> k \<Longrightarrow> NOT (mask k) AND mask m = (0 :: 'a::len word)"
  by (auto simp: bit_eq_iff bit_simps)

lemma size32_ok:
  assumes ok: "region_ok r" and v: "valid_function r (bus, device, function)" and o: "bo + 4 \<le> 4096" "bo mod 4 = 0"
    and sp: "bar_spec io good B wm fx" "good d" and a: "reg_addr r (bus, device, function) bo \<in> B"
    and k: "4 \<le> k" "k < 32" and w: "wm (reg_addr r (bus, device, function) bo) = NOT (mask k)"
    and f: "fx (reg_addr r (bus, device, function) bo) AND NOT (mask 4) = 0"
  shows "determine_bar_size io r bus device function bo False d = Some (2 ^ k, d)"
proof -
  let ?a = "reg_addr r (bus, device, function) bo"
  have "bo < 4096" using o by simp
  note [simp] = config_access_ok(3,6) [OF ok v this o(2)] bar_specD [OF sp a]
  show ?thesis using masked_low [OF not_mask_low [OF k(1)] f] not_mask_nonzero [of k, where 'a = 32] size_of_mask [of k, where 'a = 32] k(2)
    by (simp add: determine_bar_size_def Let_def w low_ones del: bit.double_compl)
qed

lemma io_size_ok:
  assumes ok: "region_ok r" and v: "valid_function r (bus, device, function)" and o: "bo + 4 \<le> 4096" "bo mod 4 = 0"
    and sp: "bar_spec io good B wm fx" "good d" and a: "reg_addr r (bus, device, function) bo \<in> B"
    and k: "2 \<le> k" "k < 32" and w: "wm (reg_addr r (bus, device, function) bo) = NOT (mask k)"
    and f: "fx (reg_addr r (bus, device, function) bo) AND NOT (mask 2) = 0"
  shows "determine_io_bar_size io r bus device function bo d = Some (2 ^ k, d)"
proof -
  have "bo < 4096" using o by simp
  note [simp] = config_access_ok(3,6) [OF ok v this o(2)] bar_specD [OF sp a]
  show ?thesis using masked_low [OF not_mask_low [OF k(1)] f] not_mask_nonzero [of k, where 'a = 32] k(2)
    by (simp add: determine_io_bar_size_def Let_def w low_ones mask_eq_exp_minus_1 [symmetric]) (simp add: mask_eq_exp_minus_1)
qed


lemma size64_ok:
  assumes ok: "region_ok r" and v: "valid_function r (bus, device, function)" and o: "bo + 8 \<le> 4096" "bo mod 4 = 0"
    and sp: "bar_spec io good B wm fx" "good d" and a: "reg_addr r (bus, device, function) bo \<in> B" "reg_addr r (bus, device, function) bo + 4 \<in> B"
    and k: "4 \<le> k" "k < 64"
    and w: "push_bit 32 (ucast (wm (reg_addr r (bus, device, function) bo + 4))) OR ucast (wm (reg_addr r (bus, device, function) bo)) = (NOT (mask k) :: u64)"
    and f: "fx (reg_addr r (bus, device, function) bo) AND NOT (mask 4) = 0" "fx (reg_addr r (bus, device, function) bo + 4) = 0"
  shows "determine_bar_size io r bus device function bo True d = Some (2 ^ k, d)"
proof -
  let ?a = "reg_addr r (bus, device, function) bo"
  have o4: "bo < 4096" "bo + 4 < 4096" "(bo + 4) mod 4 = 0" using o by presburger+
  have hi: "reg_addr r (bus, device, function) (bo + 4) = ?a + 4" by (simp add: reg_addr_def)
  note [simp] = config_access_ok(3,6) [OF ok v o4(1) o(2)] config_access_ok(3,6) [OF ok v o4(2,3), unfolded hi]
  have low: "wm ?a AND mask 4 = 0"
  proof (rule bit_word_eqI)
    fix n assume n: "n < LENGTH(32)"
    have "bit (wm ?a) n \<longleftrightarrow> k \<le> n" if "n < 32"
      using arg_cong [OF w, of "\<lambda>x. bit x n"] that by (simp add: bit_simps not_less)
    then show "bit (wm ?a AND mask 4) n = bit (0 :: u32) n" using n k(1) by (auto simp: bit_simps)
  qed
  let ?d1 = "cfg_write32 io ?a (- 1) d"
  have good: "good ?d1" using bar_specD(1) [OF sp a(1)] .
  have "cfg_read32 io (?a + 4) ?d1 = cfg_read32 io (?a + 4) d" using bar_specD(3) [OF sp a(1)] by simp
  then have "cfg_write32 io (?a + 4) (cfg_read32 io (?a + 4) d) ?d1 = ?d1" using bar_specD(5) [OF sp(1) good a(2)] by simp
  then have r: "cfg_write32 io ?a (cfg_read32 io ?a d) (cfg_write32 io (?a + 4) (cfg_read32 io (?a + 4) d) (cfg_write32 io (?a + 4) (- 1) ?d1)) = d"
    using bar_specD(4) [OF sp(1) good a(2)] bar_specD(4,5) [OF sp a(1)] by simp
  show ?thesis
    using masked_low [OF low f(1)] not_mask_nonzero [of k, where 'a = 64] size_of_mask [of k, where 'a = 64] k(2) r
      bar_specD(2) [OF sp(1) good a(2)] bar_specD(3) [OF sp(1) good a(2), of ?a] bar_specD(2) [OF sp a(1)] w f(2)
    by (simp add: determine_bar_size_def Let_def low_ones del: bit.double_compl)
qed

section \<open>The base address registers of a function\<close>

text \<open>What a function implements in its six registers; a 64-bit BAR takes two.\<close>

datatype bar_desc = No_Bar | Mem32 u32 nat bool | Mem64 u64 nat bool | Ports u32 nat

fun desc_slots :: "bar_desc \<Rightarrow> nat" where
  "desc_slots (Mem64 _ _ _) = 2"
| "desc_slots _ = 1"

fun desc_bars :: "bar_desc \<Rightarrow> bar_info list" where
  "desc_bars No_Bar = [Unused]"
| "desc_bars (Mem32 base k pf) = [Memory \<lparr>bar_address = unat base, bar_size = 2 ^ k, bar_prefetchable = pf, bar_is_64bit = False\<rparr>]"
| "desc_bars (Mem64 base k pf) = [Memory \<lparr>bar_address = unat base, bar_size = 2 ^ k, bar_prefetchable = pf, bar_is_64bit = True\<rparr>, Unused]"
| "desc_bars (Ports base k) = [Io \<lparr>io_address = base, io_size = 2 ^ k\<rparr>]"

text \<open>
  The register at \<open>a\<close> implements the description: an aligned base, the type and prefetch bits fixed, the address bits above
  the size writable.  A register that reads zero counts as not implemented.
\<close>

definition mem_flags :: "bool \<Rightarrow> bool \<Rightarrow> u32" where
  "mem_flags is64 pf = (if is64 then 4 else 0) OR (if pf then 8 else 0)"

fun desc_at :: "'d cfg_io \<Rightarrow> addr set \<Rightarrow> (addr \<Rightarrow> u32) \<Rightarrow> (addr \<Rightarrow> u32) \<Rightarrow> 'd \<Rightarrow> addr \<Rightarrow> bar_desc \<Rightarrow> bool" where
  "desc_at io B wm fx d a No_Bar \<longleftrightarrow> cfg_read32 io a d = 0"
| "desc_at io B wm fx d a (Mem32 base k pf) \<longleftrightarrow> a \<in> B \<and> 4 \<le> k \<and> k < 32 \<and> base AND mask k = 0 \<and>
     cfg_read32 io a d = base OR mem_flags False pf \<and> base OR mem_flags False pf \<noteq> 0 \<and> wm a = NOT (mask k) \<and> fx a = mem_flags False pf"
| "desc_at io B wm fx d a (Mem64 base k pf) \<longleftrightarrow> a \<in> B \<and> a + 4 \<in> B \<and> 4 \<le> k \<and> k < 64 \<and> base AND mask k = 0 \<and> unat base < 2 ^ 52 \<and>
     cfg_read32 io a d = ucast base OR mem_flags True pf \<and> cfg_read32 io (a + 4) d = ucast (drop_bit 32 base) \<and>
     push_bit 32 (ucast (wm (a + 4))) OR ucast (wm a) = (NOT (mask k) :: u64) \<and> fx a = mem_flags True pf \<and> fx (a + 4) = 0"
| "desc_at io B wm fx d a (Ports base k) \<longleftrightarrow> a \<in> B \<and> 2 \<le> k \<and> k < 32 \<and> base AND mask k = 0 \<and>
     cfg_read32 io a d = base OR 1 \<and> wm a = NOT (mask k) \<and> fx a = 1"

fun descs_at :: "'d cfg_io \<Rightarrow> addr set \<Rightarrow> (addr \<Rightarrow> u32) \<Rightarrow> (addr \<Rightarrow> u32) \<Rightarrow> 'd \<Rightarrow> addr \<Rightarrow> bar_desc list \<Rightarrow> bool" where
  "descs_at io B wm fx d a [] \<longleftrightarrow> True"
| "descs_at io B wm fx d a (x # xs) \<longleftrightarrow> desc_at io B wm fx d a x \<and> descs_at io B wm fx d (a + desc_slots x * 4) xs"

lemma mem_flags_bits:
  "mem_flags is64 pf AND 1 = 0" "mem_flags is64 pf AND 6 = 4 \<longleftrightarrow> is64" "mem_flags is64 pf AND 8 \<noteq> 0 \<longleftrightarrow> pf"
  "mem_flags is64 pf AND NOT (mask 4) = 0"
  by (simp_all add: mem_flags_def mask_eq_exp_minus_1)

lemma aligned_flags:
  assumes "(base :: u32) AND mask m = 0" and "c AND mask m = c"
  shows "(base OR fl) AND c = fl AND c"
proof -
  have "base AND c = base AND (c AND mask m)" unfolding assms(2) ..
  also have "\<dots> = (base AND mask m) AND c" by (simp add: ac_simps)
  also have "\<dots> = 0" unfolding assms(1) by simp
  finally have "base AND c = 0" .
  then show ?thesis by (simp add: bit.conj_disj_distrib2)
qed

lemma aligned_base:
  assumes "(base :: u32) AND mask m = 0" and "fl AND NOT (mask m) = 0"
  shows "(base OR fl) AND NOT (mask m) = base"
proof (rule bit_word_eqI)
  fix n assume n: "n < LENGTH(32)"
  have "\<not> (bit base n \<and> n < m)" using arg_cong [OF assms(1), of "\<lambda>x. bit x n"] n by (simp add: bit_simps)
  moreover have "\<not> (bit fl n \<and> \<not> n < m)" using arg_cong [OF assms(2), of "\<lambda>x. bit x n"] n by (simp add: bit_simps)
  ultimately show "bit ((base OR fl) AND NOT (mask m)) n = bit base n" using n by (auto simp: bit_simps)
qed

lemma aligned_less: "(base :: 'a::len word) AND mask k = 0 \<Longrightarrow> m \<le> k \<Longrightarrow> base AND mask m = 0"
proof (rule bit_word_eqI)
  fix n assume a: "base AND mask k = 0" "m \<le> k" "n < LENGTH('a)"
  show "bit (base AND mask m) n = bit (0 :: 'a word) n"
    using arg_cong [OF a(1), of "\<lambda>x. bit x n"] a(2,3) by (auto simp: bit_simps)
qed


lemma ucast_aligned: "(base :: u64) AND mask m = 0 \<Longrightarrow> m \<le> 32 \<Longrightarrow> (ucast base :: u32) AND mask m = 0"
proof (rule bit_word_eqI)
  fix n assume a: "base AND mask m = 0" "n < LENGTH(32)"
  show "bit ((ucast base :: u32) AND mask m) n = bit (0 :: u32) n"
    using arg_cong [OF a(1), of "\<lambda>x. bit x n"] a(2) by (auto simp: bit_simps)
qed

lemma join_halves: "push_bit 32 (ucast (ucast (drop_bit 32 w) :: u32)) OR ucast (ucast w :: u32) = (w :: u64)"
  by (rule bit_word_eqI) (auto simp: bit_simps not_less)

text \<open>Entering a BAR in the array of results.\<close>

lemma unused_split: "i < 6 \<Longrightarrow> replicate (6 - i) Unused = Unused # replicate (6 - (i + 1)) Unused"
  by (cases "6 - i") auto

lemma enter_bar:
  "length done = i \<Longrightarrow> i < 6 \<Longrightarrow> (done @ replicate (6 - i) Unused)[i := b] = (done @ [b]) @ replicate (6 - (i + 1)) Unused"
  "length done = i \<Longrightarrow> i + 2 \<le> 6 \<Longrightarrow> (done @ replicate (6 - i) Unused)[i := b] = (done @ [b, Unused]) @ replicate (6 - (i + 2)) Unused"
proof -
  note r = unused_split
  show "length done = i \<Longrightarrow> i < 6 \<Longrightarrow> (done @ replicate (6 - i) Unused)[i := b] = (done @ [b]) @ replicate (6 - (i + 1)) Unused"
    using r [of i] by (simp add: list_update_append)
  show "length done = i \<Longrightarrow> i + 2 \<le> 6 \<Longrightarrow> (done @ replicate (6 - i) Unused)[i := b] = (done @ [b, Unused]) @ replicate (6 - (i + 2)) Unused"
    using r [of i] r [of "i + 1"] by (simp add: list_update_append)
qed

lemma parse_bars_step:
  assumes ok: "region_ok r" and v: "valid_function r (bus, device, function)" and sp: "bar_spec io good B wm fx" "good d"
    and at: "desc_at io B wm fx d (reg_addr r (bus, device, function) (BAR0 + i * 4)) x"
    and i: "i + desc_slots x \<le> 6" and len: "length done = i"
  shows "parse_bars_loop io r bus device function i (done @ replicate (6 - i) Unused) d =
    parse_bars_loop io r bus device function (i + desc_slots x) ((done @ desc_bars x) @ replicate (6 - (i + desc_slots x)) Unused) d"
proof -
  let ?a = "reg_addr r (bus, device, function) (BAR0 + i * 4)"
  have i6: "i < 6" using i by (cases x) auto
  have o: "BAR0 + i * 4 < 4096" "(BAR0 + i * 4) mod 4 = 0" "BAR0 + i * 4 + 4 < 4096" "(BAR0 + i * 4 + 4) mod 4 = 0"
    "BAR0 + i * 4 + 8 \<le> 4096" "BAR0 + i * 4 + 4 \<le> 4096"
    using i6 by (simp_all add: BAR0_def)
  have hi: "reg_addr r (bus, device, function) (BAR0 + i * 4 + 4) = ?a + 4" by (simp add: reg_addr_def)
  note rd = config_access_ok(3) [OF ok v o(1,2)] config_access_ok(3) [OF ok v o(3,4), unfolded hi]
  note unf = parse_bars_loop.simps [of io r bus device "function" i] Let_def rd
  show ?thesis
  proof (cases x)
    case No_Bar
    then show ?thesis using at i6 unused_split [OF i6] by (simp add: unf)
  next
    case (Mem32 base k pf)
    then have h: "?a \<in> B" "4 \<le> k" "k < 32" "base AND mask k = 0" "cfg_read32 io ?a d = base OR mem_flags False pf"
      "base OR mem_flags False pf \<noteq> 0" "wm ?a = NOT (mask k)" "fx ?a = mem_flags False pf" using at by auto
    have al: "base AND mask 4 = 0" using aligned_less [OF h(4,2)] .
    have sz: "determine_bar_size io r bus device function (BAR0 + i * 4) False d = Some (2 ^ k, d)"
      using size32_ok [OF ok v o(6,2) sp h(1-3,7)] h(8) mem_flags_bits(4) by simp
    have b: "(base OR mem_flags False pf) AND 1 = 0" "(base OR mem_flags False pf) AND 6 \<noteq> 4"
      "(base OR mem_flags False pf) AND 8 \<noteq> 0 \<longleftrightarrow> pf" "(base OR mem_flags False pf) AND 0xFFFFFFF0 = base"
      using aligned_flags [OF al, of 1] aligned_flags [OF al, of 6] aligned_flags [OF al, of 8] mem_flags_bits [of False pf]
        aligned_base [OF al mem_flags_bits(4)]
      by (simp_all add: mask_eq_exp_minus_1 low_ones)
    have u: "unat base < 2 ^ LENGTH(32)" by (rule unsigned_less)
    then have "unat (ucast base :: u64) = unat base" by (simp add: unsigned_ucast_eq take_bit_nat_eq_self_iff)
    moreover have "unat base < 2 ^ 52" using u by simp
    ultimately show ?thesis using sz b i6 h(5,6) enter_bar(1) [OF len i6]
      by (simp add: Mem32 unf phys_addr_new_def)
  next
    case (Ports base k)
    then have h: "?a \<in> B" "2 \<le> k" "k < 32" "base AND mask k = 0" "cfg_read32 io ?a d = base OR 1" "wm ?a = NOT (mask k)" "fx ?a = 1"
      using at by auto
    have al: "base AND mask 2 = 0" using aligned_less [OF h(4,2)] .
    have m: "(1 :: u32) AND NOT (mask 2) = 0" "(1 :: u32) AND mask 2 = 1" by (simp_all add: mask_eq_exp_minus_1)
    have sz: "determine_io_bar_size io r bus device function (BAR0 + i * 4) d = Some (2 ^ k, d)"
      using io_size_ok [OF ok v o(6,2) sp h(1-3,6)] h(7) m(1) by simp
    have b: "(base OR 1) AND 1 = 1" "(base OR 1) AND 0xFFFFFFFC = base"
      using aligned_flags [OF al m(2), of 1] aligned_base [OF al m(1)] by (simp_all add: low_ones)
    have "base OR 1 \<noteq> 0" by (simp add: or_eq_0_iff)
    then show ?thesis using sz b i6 h(5) enter_bar(1) [OF len i6] by (simp add: Ports unf)
  next
    case (Mem64 base k pf)
    then have h: "?a \<in> B" "?a + 4 \<in> B" "4 \<le> k" "k < 64" "base AND mask k = 0" "unat base < 2 ^ 52" "cfg_read32 io ?a d = ucast base OR mem_flags True pf"
      "cfg_read32 io (?a + 4) d = ucast (drop_bit 32 base)" "push_bit 32 (ucast (wm (?a + 4))) OR ucast (wm ?a) = (NOT (mask k) :: u64)"
      "fx ?a = mem_flags True pf" "fx (?a + 4) = 0" using at by auto
    have al: "(ucast base :: u32) AND mask 4 = 0" using aligned_less [OF h(5,3)] by (rule ucast_aligned) simp
    have sz: "determine_bar_size io r bus device function (BAR0 + i * 4) True d = Some (2 ^ k, d)"
      using size64_ok [OF ok v o(5,2) sp h(1-4,9)] h(10,11) mem_flags_bits(4) by simp
    let ?v = "ucast base OR mem_flags True pf"
    have b: "?v AND 1 = 0" "?v AND 6 = 4" "?v AND 8 \<noteq> 0 \<longleftrightarrow> pf" "?v AND 0xFFFFFFF0 = ucast base"
      using aligned_flags [OF al, of 1] aligned_flags [OF al, of 6] aligned_flags [OF al, of 8] mem_flags_bits [of True pf]
        aligned_base [OF al mem_flags_bits(4)]
      by (simp_all add: mask_eq_exp_minus_1 low_ones)
    have "?v \<noteq> 0" using b(2) by auto
    moreover have "i + 2 \<le> 6" "i < 5" using i Mem64 by simp_all
    ultimately show ?thesis using sz b i6 h(6-8) enter_bar(2) [OF len, of "Memory \<lparr>bar_address = unat base, bar_size = 2 ^ k, bar_prefetchable = pf, bar_is_64bit = True\<rparr>"]
      by (simp add: Mem64 unf phys_addr_new_def join_halves)
  qed
qed


lemma parse_bars_descs:
  assumes ok: "region_ok r" and v: "valid_function r (bus, device, function)" and sp: "bar_spec io good B wm fx" "good d"
  shows "descs_at io B wm fx d (reg_addr r (bus, device, function) (BAR0 + i * 4)) ds \<Longrightarrow> length done = i \<Longrightarrow> i + sum_list (map desc_slots ds) = 6 \<Longrightarrow>
    parse_bars_loop io r bus device function i (done @ replicate (6 - i) Unused) d = Some (done @ concat (map desc_bars ds), d)"
proof (induction ds arbitrary: i "done")
  case Nil
  then show ?case by (simp add: parse_bars_loop.simps)
next
  case (Cons x xs)
  have l: "length (done @ desc_bars x) = i + desc_slots x" using Cons.prems(2) by (cases x) simp_all
  have "reg_addr r (bus, device, function) (BAR0 + i * 4) + desc_slots x * 4 = reg_addr r (bus, device, function) (BAR0 + (i + desc_slots x) * 4)"
    by (simp add: reg_addr_def add_mult_distrib)
  then have "descs_at io B wm fx d (reg_addr r (bus, device, function) (BAR0 + (i + desc_slots x) * 4)) xs" using Cons.prems(1) by simp
  from Cons.IH [OF this l] Cons.prems(3) show ?case
    using parse_bars_step [OF ok v sp _ _ Cons.prems(2), of x] Cons.prems(1,3) by (simp add: add.assoc)
qed

lemma parse_bars_descs6:
  assumes "region_ok r" and "valid_function r (b, dv, fn)" and "bar_spec io good B wm fx" and "good d"
    and "descs_at io B wm fx d (reg_addr r (b, dv, fn) BAR0) ds" and "sum_list (map desc_slots ds) = 6"
  shows "parse_bars io r b dv fn d = Some (concat (map desc_bars ds), d)"
  using parse_bars_descs [OF assms(1-4), of 0 ds "[]"] assms(5,6) by (simp add: parse_bars_def)

text \<open>
  C34: reading the base address registers of a function recovers exactly what the function implements: kind, base, size and
  prefetchability of every BAR, with a 64-bit BAR in two registers; the sizing leaves the device as it was.
\<close>

theorem parse_bars_correct:
  assumes "region_ok r" and "valid_function r (bus, device, function)" and "bar_spec io good B wm fx" and "good d"
    and "descs_at io B wm fx d (reg_addr r (bus, device, function) BAR0) ds" and "sum_list (map desc_slots ds) = 6"
  shows "parse_bars io r bus device function d = Some (concat (map desc_bars ds), d)"
  using assms by (rule parse_bars_descs6)

section \<open>The capability list\<close>

text \<open>The pointers that the walk from \<open>p\<close> visits before it meets an end marker, and the map it builds.\<close>

fun cap_chain :: "'d cfg_io \<Rightarrow> ecam_region \<Rightarrow> u8 \<times> u8 \<times> u8 \<Rightarrow> 'd \<Rightarrow> u8 \<Rightarrow> u8 list \<Rightarrow> bool" where
  "cap_chain io r f d p [] \<longleftrightarrow> p = 0 \<or> p = 0xFF"
| "cap_chain io r f d p (q # qs) \<longleftrightarrow> p = q \<and> p \<noteq> 0 \<and> p \<noteq> 0xFF \<and> cap_chain io r f d (cfg_read8 io (reg_addr r f (unat q + 1)) d) qs"

definition cap_map :: "'d cfg_io \<Rightarrow> ecam_region \<Rightarrow> u8 \<times> u8 \<times> u8 \<Rightarrow> 'd \<Rightarrow> u8 list \<Rightarrow> (u8 \<rightharpoonup> u8) \<Rightarrow> (u8 \<rightharpoonup> u8)" where
  "cap_map io r f d ps m = fold (\<lambda>p m. m(cfg_read8 io (reg_addr r f (unat p)) d \<mapsto> p)) ps m"

lemma cap_access:
  assumes "region_ok r" and "valid_function r (bus, device, function)"
  shows "read_config_u8 io r bus device function (unat (p :: u8)) d = Some (cfg_read8 io (reg_addr r (bus, device, function) (unat p)) d)"
    and "read_config_u8 io r bus device function (unat (p :: u8) + 1) d = Some (cfg_read8 io (reg_addr r (bus, device, function) (unat p + 1)) d)"
proof -
  have "unat p < 2 ^ LENGTH(8)" by (rule unsigned_less)
  then show "read_config_u8 io r bus device function (unat p) d = Some (cfg_read8 io (reg_addr r (bus, device, function) (unat p)) d)"
    "read_config_u8 io r bus device function (unat p + 1) d = Some (cfg_read8 io (reg_addr r (bus, device, function) (unat p + 1)) d)"
    by (simp_all add: config_access_ok(1) [OF assms])
qed

lemma capabilities_loop_chain:
  assumes "region_ok r" and "valid_function r (bus, device, function)"
  shows "cap_chain io r (bus, device, function) d p ps \<Longrightarrow>
    capabilities_loop io r bus device function d p m = Some (cap_map io r (bus, device, function) d ps m)"
proof (induction ps arbitrary: p m)
  case Nil
  then show ?case by (auto simp: capabilities_loop.simps [of io r bus device "function" d p] cap_map_def)
next
  case (Cons q qs)
  then have q: "p = q" "q \<noteq> 0" "q \<noteq> 0xFF" "cap_chain io r (bus, device, function) d (cfg_read8 io (reg_addr r (bus, device, function) (Suc (unat q))) d) qs"
    by auto
  show ?case unfolding q(1) using q(2,3) Cons.IH [OF q(4)]
    by (simp add: capabilities_loop.simps [of io r bus device "function" d q] cap_map_def cap_access [OF assms, unfolded Suc_eq_plus1 [symmetric]])
qed

lemma capabilities_loop_ends:
  assumes "region_ok r" and "valid_function r (bus, device, function)"
    and "capabilities_loop io r bus device function d p m = Some caps"
  shows "\<exists>ps. cap_chain io r (bus, device, function) d p ps"
proof -
  define P where "P io r bus device fn d p (m :: u8 \<rightharpoonup> u8) (caps :: u8 \<rightharpoonup> u8) \<longleftrightarrow>
    (region_ok r \<longrightarrow> valid_function r (bus, device, fn) \<longrightarrow> (\<exists>ps. cap_chain io r (bus, device, fn) d p ps))" for io :: "'a cfg_io" and r bus device fn d p m caps
  have "P io r bus device function d p m caps"
  proof (rule capabilities_loop.raw_induct [of P, OF _ assms(3)])
    fix loop and io :: "'a cfg_io" and r bus device fn d p and m caps :: "u8 \<rightharpoonup> u8"
    assume ih: "\<And>io r bus device fn d p m caps. loop io r bus device fn d p m = Some caps \<Longrightarrow> P io r bus device fn d p m caps"
      and e: "(if p \<noteq> 0 \<and> p \<noteq> 0xFF
         then read_config_u8 io r bus device fn (unat p) d \<bind> (\<lambda>cap_id. read_config_u8 io r bus device fn (unat p + 1) d \<bind>
           (\<lambda>next_ptr. loop io r bus device fn d next_ptr (m(cap_id \<mapsto> p)))) else Some m) = Some caps"
    show "P io r bus device fn d p m caps"
      unfolding P_def
    proof (intro impI)
      assume v: "region_ok r" "valid_function r (bus, device, fn)"
      show "\<exists>ps. cap_chain io r (bus, device, fn) d p ps"
      proof (cases "p \<noteq> 0 \<and> p \<noteq> 0xFF")
        case True
        then have "P io r bus device fn d (cfg_read8 io (reg_addr r (bus, device, fn) (unat p + 1)) d) (m(cfg_read8 io (reg_addr r (bus, device, fn) (unat p)) d \<mapsto> p)) caps"
          using e ih by (simp add: cap_access [OF v] cap_access [OF v, unfolded Suc_eq_plus1 [symmetric]])
        then obtain ps where "cap_chain io r (bus, device, fn) d (cfg_read8 io (reg_addr r (bus, device, fn) (unat p + 1)) d) ps"
          using v by (auto simp: P_def)
        then have "cap_chain io r (bus, device, fn) d p (p # ps)" using True by simp
        then show ?thesis by blast
      next
        case False
        then have "cap_chain io r (bus, device, fn) d p []" by auto
        then show ?thesis by blast
      qed
    qed
  qed
  then show ?thesis using assms(1,2) by (simp add: P_def)
qed

lemma parse_capabilities_iff:
  assumes "region_ok r" and "valid_function r (bus, device, function)"
  shows "parse_capabilities io r bus device function d = Some caps \<longleftrightarrow>
    (if cfg_read16 io (reg_addr r (bus, device, function) STATUS) d AND 0x10 = 0 then caps = Map.empty
     else \<exists>ps. cap_chain io r (bus, device, function) d (cfg_read8 io (reg_addr r (bus, device, function) CAPABILITIES_PTR) d) ps \<and>
       caps = cap_map io r (bus, device, function) d ps Map.empty)"
proof -
  have "STATUS < 4096" "STATUS mod 2 = 0" "CAPABILITIES_PTR < 4096" by (simp_all add: config_offsets)
  then have "parse_capabilities io r bus device function d = (if cfg_read16 io (reg_addr r (bus, device, function) STATUS) d AND 0x10 = 0 then Some Map.empty
      else capabilities_loop io r bus device function d (cfg_read8 io (reg_addr r (bus, device, function) CAPABILITIES_PTR) d) Map.empty)"
    by (simp add: parse_capabilities_def config_access_ok [OF assms])
  moreover have "capabilities_loop io r bus device function d p Map.empty = Some caps \<longleftrightarrow>
      (\<exists>ps. cap_chain io r (bus, device, function) d p ps \<and> caps = cap_map io r (bus, device, function) d ps Map.empty)" for p
    using capabilities_loop_ends [OF assms, of io d p Map.empty caps] capabilities_loop_chain [OF assms, of io d p _ Map.empty]
    by (metis option.inject)
  ultimately show ?thesis by auto
qed

text \<open>
  C35: the walk of a capability list returns exactly when the list reaches an end marker, and then every capability that was
  met is found under its identifier; on a list that never ends, such as a cyclic one, the kernel does not return.
\<close>

theorem parse_capabilities_correct:
  assumes "region_ok r" and "valid_function r (bus, device, function)"
  shows "parse_capabilities io r bus device function d = Some caps \<longleftrightarrow>
    (if cfg_read16 io (reg_addr r (bus, device, function) STATUS) d AND 0x10 = 0 then caps = Map.empty
     else \<exists>ps. cap_chain io r (bus, device, function) d (cfg_read8 io (reg_addr r (bus, device, function) CAPABILITIES_PTR) d) ps \<and>
       caps = cap_map io r (bus, device, function) d ps Map.empty)"
  using assms by (rule parse_capabilities_iff)

section \<open>Witnesses\<close>

text \<open>
  A machine with a single function on bus 0: a USB controller with one 64-bit BAR of 16 KiB and a capability list of two entries.
  Its state is the contents of the two words of the BAR.
\<close>

definition demo_byte :: "nat \<Rightarrow> u8" where
  "demo_byte off = (if off = 0x00 then 0x36 else if off = 0x01 then 0x1B else if off = 0x06 then 0x10 else if off = 0x0B then 0x0C
     else if off = 0x0A then 0x03 else if off = 0x34 then 0x40 else if off = 0x40 then 0x11 else if off = 0x41 then 0x50
     else if off = 0x50 then 0x10 else 0)"

definition demo_io :: "(addr \<Rightarrow> u32) cfg_io" where
  "demo_io = \<lparr>
     cfg_read8 = (\<lambda>a d. if a < ECAM_VIRTUAL_START + 4096 then demo_byte (a - ECAM_VIRTUAL_START) else 0xFF),
     cfg_read16 = (\<lambda>a d. if a < ECAM_VIRTUAL_START + 4096 then ucast (demo_byte (a - ECAM_VIRTUAL_START)) OR push_bit 8 (ucast (demo_byte (a - ECAM_VIRTUAL_START + 1))) else 0xFFFF),
     cfg_read32 = (\<lambda>a d. if a \<in> {ECAM_VIRTUAL_START + 0x10, ECAM_VIRTUAL_START + 0x14} then d a else 0),
     cfg_write8 = (\<lambda>a v d. d),
     cfg_write16 = (\<lambda>a v d. d),
     cfg_write32 = (\<lambda>a v d. if a = ECAM_VIRTUAL_START + 0x10 then d(a := (v AND NOT (mask 14)) OR 4) else if a = ECAM_VIRTUAL_START + 0x14 then d(a := v) else d)\<rparr>"

definition demo_good :: "(addr \<Rightarrow> u32) \<Rightarrow> bool" where
  "demo_good d \<longleftrightarrow> d (ECAM_VIRTUAL_START + 0x10) AND mask 14 = 4"

definition demo_bars :: "addr \<Rightarrow> u32" where
  "demo_bars = (\<lambda>_. 0)(ECAM_VIRTUAL_START + 0x10 := 0xFEBC0004, ECAM_VIRTUAL_START + 0x14 := 0x8)"

lemma demo_valid: "valid_function demo_region f \<longleftrightarrow> (\<exists>dv fn. f = (0, dv, fn) \<and> dv < 32 \<and> fn < 8)"
  by (cases f) (auto simp: valid_function_def demo_region_def)

lemma demo_spec: "bar_spec demo_io demo_good {ECAM_VIRTUAL_START + 0x10, ECAM_VIRTUAL_START + 0x14}
    (\<lambda>a. if a = ECAM_VIRTUAL_START + 0x10 then NOT (mask 14) else - 1) (\<lambda>a. if a = ECAM_VIRTUAL_START + 0x10 then 4 else 0)"
proof -
  have low: "(v AND NOT (mask 14) OR 4) AND mask 14 = (4 :: u32)" for v
  proof -
    have "(4 :: u32) AND mask 14 = 4" by (simp add: mask_eq_exp_minus_1)
    then show ?thesis by (simp add: bit.conj_disj_distrib2 and.assoc bit.conj_cancel_left)
  qed
  have wb: "(w AND NOT (mask 14)) OR 4 = w" if "w AND mask 14 = 4" for w :: u32
  proof -
    have "(w AND NOT (mask 14)) OR (w AND mask 14) = w" by (rule bit_word_eqI) (auto simp: bit_simps)
    then show ?thesis unfolding that .
  qed
  show ?thesis
    unfolding bar_spec_def demo_good_def demo_io_def using low wb by (auto simp: fun_eq_iff)
qed


lemma demo_reg: "reg_addr demo_region (0, 0, 0) off = ECAM_VIRTUAL_START + off"
  by (simp add: reg_addr_def demo_region_def function_index_def)

lemma demo_descs: "descs_at demo_io {ECAM_VIRTUAL_START + 0x10, ECAM_VIRTUAL_START + 0x14}
    (\<lambda>a. if a = ECAM_VIRTUAL_START + 0x10 then NOT (mask 14) else - 1) (\<lambda>a. if a = ECAM_VIRTUAL_START + 0x10 then 4 else 0) demo_bars
    (reg_addr demo_region (0, 0, 0) BAR0) [Mem64 0x8FEBC0000 14 False, No_Bar, No_Bar, No_Bar, No_Bar]"
proof -
  have "push_bit 32 (ucast (- 1 :: u32)) OR ucast (NOT (mask 14) :: u32) = (NOT (mask 14) :: u64)"
    by (rule bit_word_eqI) (auto simp: bit_simps)
  then show ?thesis unfolding demo_reg
    by (simp add: demo_io_def demo_bars_def BAR0_def ECAM_VIRTUAL_START_def mem_flags_def mask_eq_exp_minus_1)
qed

lemma demo_valid0: "valid_function demo_region (0, 0, 0)"
  by (simp add: demo_valid)

lemma demo_bars_good: "demo_good demo_bars"
  by (simp add: demo_good_def demo_bars_def mask_eq_exp_minus_1)

theorem parse_bars_correct_witness:
  "parse_bars demo_io demo_region 0 0 0 demo_bars =
    Some ([Memory \<lparr>bar_address = 0x8FEBC0000, bar_size = 0x4000, bar_prefetchable = False, bar_is_64bit = True\<rparr>, Unused, Unused, Unused, Unused, Unused], demo_bars)"
  using parse_bars_correct [OF demo_region_ok demo_valid0 demo_spec demo_bars_good demo_descs] by simp

lemma demo_chain: "cap_chain demo_io demo_region (0, 0, 0) demo_bars (cfg_read8 demo_io (reg_addr demo_region (0, 0, 0) CAPABILITIES_PTR) demo_bars) [0x40, 0x50]"
  by (simp add: demo_reg demo_io_def demo_byte_def config_offsets)

theorem parse_capabilities_correct_witness:
  "parse_capabilities demo_io demo_region 0 0 0 demo_bars = Some [0x11 \<mapsto> 0x40, 0x10 \<mapsto> 0x50]"
proof -
  have st: "cfg_read16 demo_io (reg_addr demo_region (0, 0, 0) STATUS) demo_bars AND 0x10 \<noteq> 0"
    unfolding demo_reg by (simp add: demo_io_def demo_byte_def config_offsets)
  have "cap_map demo_io demo_region (0, 0, 0) demo_bars [0x40, 0x50] Map.empty = [0x11 \<mapsto> 0x40, 0x10 \<mapsto> 0x50]"
    unfolding cap_map_def demo_reg by (simp add: demo_io_def demo_byte_def)
  then have "\<exists>ps. cap_chain demo_io demo_region (0, 0, 0) demo_bars (cfg_read8 demo_io (reg_addr demo_region (0, 0, 0) CAPABILITIES_PTR) demo_bars) ps \<and>
      [0x11 \<mapsto> 0x40, 0x10 \<mapsto> 0x50] = cap_map demo_io demo_region (0, 0, 0) demo_bars ps Map.empty"
    using demo_chain by (intro exI [of _ "[0x40, 0x50]"]) simp_all
  then show ?thesis using st
    unfolding parse_capabilities_correct [OF demo_region_ok demo_valid0] by presburger
qed

end
