(* ===== verification/Pci_Enum.thy ===== *)
theory Pci_Enum
  imports Pci_Device
begin

text \<open>
  The scan of \<^verbatim>\<open>kernel/src/pci.rs\<close> and \<^verbatim>\<open>kernel/src/pci/device.rs\<close> on devices that follow the PCI specification: what the probe of one
  function returns, and which functions the enumeration of all regions finds.
\<close>

section \<open>Probing a function\<close>

definition vendor_of :: "'d cfg_io \<Rightarrow> ecam_region \<Rightarrow> u8 \<times> u8 \<times> u8 \<Rightarrow> 'd \<Rightarrow> u16" where
  "vendor_of io r f d = cfg_read16 io (reg_addr r f VENDOR_ID) d"

definition header_byte :: "'d cfg_io \<Rightarrow> ecam_region \<Rightarrow> u8 \<times> u8 \<times> u8 \<Rightarrow> 'd \<Rightarrow> u8" where
  "header_byte io r f d = cfg_read8 io (reg_addr r f HEADER_TYPE) d"

text \<open>The registers of a function and its capability list are as the specification has them.\<close>

definition has_bars :: "'d cfg_io \<Rightarrow> addr set \<Rightarrow> (addr \<Rightarrow> u32) \<Rightarrow> (addr \<Rightarrow> u32) \<Rightarrow> ecam_region \<Rightarrow> u8 \<times> u8 \<times> u8 \<Rightarrow> 'd \<Rightarrow> bar_info list \<Rightarrow> bool" where
  "has_bars io B wm fx r f d bars \<longleftrightarrow> (case header_type_of (header_byte io r f d AND 0x7F) of
     Some Normal \<Rightarrow> \<exists>ds. descs_at io B wm fx d (reg_addr r f BAR0) ds \<and> sum_list (map desc_slots ds) = 6 \<and> bars = concat (map desc_bars ds)
   | _ \<Rightarrow> bars = replicate 6 Unused)"

definition has_capabilities :: "'d cfg_io \<Rightarrow> ecam_region \<Rightarrow> u8 \<times> u8 \<times> u8 \<Rightarrow> 'd \<Rightarrow> (u8 \<rightharpoonup> u8) \<Rightarrow> bool" where
  "has_capabilities io r f d caps \<longleftrightarrow> (if cfg_read16 io (reg_addr r f STATUS) d AND 0x10 = 0 then caps = Map.empty
     else \<exists>ps. cap_chain io r f d (cfg_read8 io (reg_addr r f CAPABILITIES_PTR) d) ps \<and> caps = cap_map io r f d ps Map.empty)"

definition function_ok :: "'d cfg_io \<Rightarrow> addr set \<Rightarrow> (addr \<Rightarrow> u32) \<Rightarrow> (addr \<Rightarrow> u32) \<Rightarrow> 'd \<Rightarrow> ecam_region \<Rightarrow> u8 \<times> u8 \<times> u8 \<Rightarrow> bool" where
  "function_ok io B wm fx d r f \<longleftrightarrow> vendor_of io r f d = 0xFFFF \<or>
     (header_type_of (header_byte io r f d AND 0x7F) \<noteq> None \<and> (\<exists>bars. has_bars io B wm fx r f d bars) \<and> (\<exists>caps. has_capabilities io r f d caps))"

text \<open>What the record of a device says about the function it was read from.\<close>

definition pd_location :: "pci_device \<Rightarrow> ecam_region \<times> u8 \<times> u8 \<times> u8" where
  "pd_location dev = (pd_ecam_region dev, pd_bus dev, pd_device dev, pd_function dev)"

definition describes :: "'d cfg_io \<Rightarrow> addr set \<Rightarrow> (addr \<Rightarrow> u32) \<Rightarrow> (addr \<Rightarrow> u32) \<Rightarrow> 'd \<Rightarrow> pci_device \<Rightarrow> bool" where
  "describes io B wm fx d dev \<longleftrightarrow> (case pd_location dev of (r, f) \<Rightarrow>
     pd_vendor_id dev = vendor_of io r f d \<and>
     pd_device_id dev = cfg_read16 io (reg_addr r f DEVICE_ID) d \<and>
     pd_class_code dev = cfg_read8 io (reg_addr r f CLASS_CODE) d \<and>
     pd_subclass dev = cfg_read8 io (reg_addr r f SUBCLASS) d \<and>
     pd_prog_if dev = cfg_read8 io (reg_addr r f PROG_IF) d \<and>
     pd_revision_id dev = cfg_read8 io (reg_addr r f REVISION_ID) d \<and>
     header_type_of (header_byte io r f d AND 0x7F) = Some (pd_header_type dev) \<and>
     pd_subsystem_vendor_id dev = cfg_read16 io (reg_addr r f SUBSYSTEM_VENDOR_ID) d \<and>
     pd_subsystem_id dev = cfg_read16 io (reg_addr r f SUBSYSTEM_ID) d \<and>
     pd_interrupt_line dev = cfg_read8 io (reg_addr r f INTERRUPT_LINE) d \<and>
     pd_interrupt_pin dev = cfg_read8 io (reg_addr r f INTERRUPT_PIN) d \<and>
     has_bars io B wm fx r f d (pd_bars dev) \<and> has_capabilities io r f d (pd_capabilities dev))"

lemma header_bars:
  assumes "region_ok r" and "valid_function r (b, dv, fn)" and "bar_spec io good B wm fx" and "good d"
    and "has_bars io B wm fx r (b, dv, fn) d bars" and "header_type_of (header_byte io r (b, dv, fn) d AND 0x7F) = Some ht"
  shows "(if ht = Normal then parse_bars io r b dv fn d else Some (replicate 6 Unused, d)) = Some (bars, d)"
  using assms(5,6) parse_bars_descs6 [OF assms(1-4)] by (cases ht) (auto simp: has_bars_def)

lemma capabilities_of:
  assumes "region_ok r" and "valid_function r (b, dv, fn)" and "has_capabilities io r (b, dv, fn) d caps"
  shows "parse_capabilities io r b dv fn d = Some caps"
  using assms(3) unfolding parse_capabilities_iff [OF assms(1,2)] has_capabilities_def .

lemma probe_ok:
  assumes ok: "region_ok r" "valid_function r (b, dv, fn)" and sp: "bar_spec io good B wm fx" "good d"
    and f: "function_ok io B wm fx d r (b, dv, fn)"
  shows "\<exists>x. probe_device io r b dv fn d = Some (Inr x, d) \<and> (x = None \<longleftrightarrow> vendor_of io r (b, dv, fn) d = 0xFFFF) \<and>
    (\<forall>dev. x = Some dev \<longrightarrow> pd_location dev = (r, b, dv, fn) \<and> describes io B wm fx d dev)"
proof (cases "vendor_of io r (b, dv, fn) d = 0xFFFF")
  case True
  then show ?thesis by (simp add: probe_device_def config_access_ok [OF ok] config_offsets vendor_of_def)
next
  case False
  then obtain ht bars caps where h: "header_type_of (header_byte io r (b, dv, fn) d AND 0x7F) = Some ht" "has_bars io B wm fx r (b, dv, fn) d bars"
    "has_capabilities io r (b, dv, fn) d caps" using f by (auto simp: function_ok_def)
  have o: "HEADER_TYPE < 4096" "VENDOR_ID < 4096" "VENDOR_ID mod 2 = 0" "DEVICE_ID < 4096" "DEVICE_ID mod 2 = 0"
    "CLASS_CODE < 4096" "SUBCLASS < 4096" "PROG_IF < 4096" "REVISION_ID < 4096" "SUBSYSTEM_VENDOR_ID < 4096" "SUBSYSTEM_VENDOR_ID mod 2 = 0"
    "SUBSYSTEM_ID < 4096" "SUBSYSTEM_ID mod 2 = 0" "INTERRUPT_LINE < 4096" "INTERRUPT_PIN < 4096"
    by (simp_all add: config_offsets)
  have "\<exists>dev. probe_device io r b dv fn d = Some (Inr (Some dev), d) \<and> pd_location dev = (r, b, dv, fn) \<and> describes io B wm fx d dev"
    using False header_bars [OF ok sp h(2,1)] capabilities_of [OF ok h(3)] h
    by (simp add: probe_device_def config_access_ok [OF ok] o vendor_of_def [symmetric] header_byte_def [symmetric] Let_def describes_def pd_location_def)
  then show ?thesis using False by auto
qed

section \<open>Enumeration\<close>

text \<open>
  The functions that respond in one slot: those that are present, except that the others are not looked at when function 0
  is present and says that it is the only one.
\<close>

definition slot_functions :: "'d cfg_io \<Rightarrow> ecam_region \<Rightarrow> 'd \<Rightarrow> u8 \<Rightarrow> u8 \<Rightarrow> u8 list" where
  "slot_functions io r d b dv =
     (if vendor_of io r (b, dv, 0) d \<noteq> 0xFFFF \<and> header_byte io r (b, dv, 0) d AND 0x80 = 0 then [0]
      else filter (\<lambda>fn. vendor_of io r (b, dv, fn) d \<noteq> 0xFFFF) (map of_nat [0 ..< 8]))"

definition bus_functions :: "'d cfg_io \<Rightarrow> ecam_region \<Rightarrow> 'd \<Rightarrow> u8 \<Rightarrow> (ecam_region \<times> u8 \<times> u8 \<times> u8) list" where
  "bus_functions io r d b = concat (map (\<lambda>dv. map (\<lambda>fn. (r, b, dv, fn)) (slot_functions io r d b dv)) (map of_nat [0 ..< 32]))"

definition region_functions :: "'d cfg_io \<Rightarrow> 'd \<Rightarrow> ecam_region \<Rightarrow> (ecam_region \<times> u8 \<times> u8 \<times> u8) list" where
  "region_functions io d r = concat (map (bus_functions io r d) (map of_nat [unat (er_start_bus r) ..< unat (er_end_bus r) + 1]))"

text \<open>A scan step that appends descriptions of the given locations and leaves the devices alone.\<close>

definition finds :: "'d cfg_io \<Rightarrow> addr set \<Rightarrow> (addr \<Rightarrow> u32) \<Rightarrow> (addr \<Rightarrow> u32) \<Rightarrow> 'd \<Rightarrow> (pci_device list \<Rightarrow> ((pci_error + pci_device list) \<times> 'd) rust) \<Rightarrow>
    (ecam_region \<times> u8 \<times> u8 \<times> u8) list \<Rightarrow> bool" where
  "finds io B wm fx d scan locs \<longleftrightarrow> (\<forall>devices. \<exists>new. scan devices = Some (Inr (devices @ new), d) \<and> map pd_location new = locs \<and>
     (\<forall>dev \<in> set new. describes io B wm fx d dev))"

lemma findsI:
  assumes "\<And>devices. \<exists>new. scan devices = Some (Inr (devices @ new), d) \<and> map pd_location new = locs \<and> (\<forall>dev \<in> set new. describes io B wm fx d dev)"
  shows "finds io B wm fx d scan locs"
  using assms by (simp add: finds_def)

lemma finds_nil: "finds io B wm fx d (\<lambda>devices. Some (Inr devices, d)) []"
  by (simp add: finds_def)

text \<open>Two steps one after the other.\<close>

lemma finds_seq:
  assumes "finds io B wm fx d s as" and "finds io B wm fx d t bs"
    and "\<And>devices devices'. s devices = Some (Inr devices', d) \<Longrightarrow> u devices = t devices'"
  shows "finds io B wm fx d u (as @ bs)"
proof (rule findsI)
  fix devices
  from assms(1) obtain n1 where n1: "s devices = Some (Inr (devices @ n1), d)" "map pd_location n1 = as" "\<forall>dev \<in> set n1. describes io B wm fx d dev"
    unfolding finds_def by blast
  from assms(2) obtain n2 where n2: "t (devices @ n1) = Some (Inr ((devices @ n1) @ n2), d)" "map pd_location n2 = bs" "\<forall>dev \<in> set n2. describes io B wm fx d dev"
    unfolding finds_def by blast
  show "\<exists>new. u devices = Some (Inr (devices @ new), d) \<and> map pd_location new = as @ bs \<and> (\<forall>dev \<in> set new. describes io B wm fx d dev)"
    using n1 n2 assms(3) [OF n1(1)] by (intro exI [of _ "n1 @ n2"]) auto
qed

lemma finds_functions:
  assumes ok: "region_ok r" and sp: "bar_spec io good B wm fx" "good d" and z: "0 \<notin> set fns"
    and f: "\<forall>fn \<in> set fns. valid_function r (b, dv, fn) \<and> function_ok io B wm fx d r (b, dv, fn)"
  shows "finds io B wm fx d (\<lambda>devices. enumerate_functions io r b dv fns devices d)
    (map (\<lambda>fn. (r, b, dv, fn)) (filter (\<lambda>fn. vendor_of io r (b, dv, fn) d \<noteq> 0xFFFF) fns))"
  using z f
proof (induction fns)
  case Nil
  then show ?case by (simp add: finds_nil)
next
  case (Cons fn fns)
  from probe_ok [OF ok _ sp, of b dv fn] Cons.prems obtain x where x: "probe_device io r b dv fn d = Some (Inr x, d)"
    "x = None \<longleftrightarrow> vendor_of io r (b, dv, fn) d = 0xFFFF" "\<forall>dev. x = Some dev \<longrightarrow> pd_location dev = (r, b, dv, fn) \<and> describes io B wm fx d dev"
    by auto
  have ih: "finds io B wm fx d (\<lambda>devices. enumerate_functions io r b dv fns devices d)
      (map (\<lambda>fn. (r, b, dv, fn)) (filter (\<lambda>fn. vendor_of io r (b, dv, fn) d \<noteq> 0xFFFF) fns))" using Cons by simp
  show ?case
  proof (cases x)
    case None
    then show ?thesis using x ih by simp
  next
    case (Some dev)
    have "finds io B wm fx d (\<lambda>devices. Some (Inr (devices @ [dev]), d)) [(r, b, dv, fn)]" using x(3) Some by (simp add: finds_def)
    from finds_seq [OF this ih, of "\<lambda>devices. enumerate_functions io r b dv (fn # fns) devices d"] show ?thesis
      using x Some Cons.prems(1) by auto
  qed
qed

lemma finds_slot:
  assumes ok: "region_ok r" and sp: "bar_spec io good B wm fx" "good d"
    and f: "\<forall>fn < 8. valid_function r (b, dv, fn) \<and> function_ok io B wm fx d r (b, dv, fn)"
  shows "finds io B wm fx d (\<lambda>devices. enumerate_functions io r b dv (map of_nat [0 ..< 8]) devices d)
    (map (\<lambda>fn. (r, b, dv, fn)) (slot_functions io r d b dv))"
proof -
  let ?fs = "[1, 2, 3, 4, 5, 6, 7] :: u8 list"
  have fs: "map of_nat [0 ..< 8] = (0 :: u8) # ?fs" by (simp add: upt_conv_Cons)
  have "\<forall>fn \<in> set ?fs. valid_function r (b, dv, fn) \<and> function_ok io B wm fx d r (b, dv, fn)" using f by (simp add: word_less_nat_alt)
  note rest = finds_functions [OF ok sp _ this, simplified]
  have f0: "valid_function r (b, dv, 0)" "function_ok io B wm fx d r (b, dv, 0)" using f by (auto simp: word_less_nat_alt)
  from probe_ok [OF ok f0(1) sp f0(2)] obtain x where x: "probe_device io r b dv 0 d = Some (Inr x, d)"
    "x = None \<longleftrightarrow> vendor_of io r (b, dv, 0) d = 0xFFFF" "\<forall>dev. x = Some dev \<longrightarrow> pd_location dev = (r, b, dv, 0) \<and> describes io B wm fx d dev"
    by auto
  have m: "is_multifunction_device io r b dv 0 d = Some (header_byte io r (b, dv, 0) d AND 0x80 \<noteq> 0)"
    by (simp add: is_multifunction_device_def config_access_ok [OF ok f0(1)] header_byte_def config_offsets)
  show ?thesis
  proof (cases x)
    case None
    then show ?thesis using x rest unfolding fs slot_functions_def by simp
  next
    case (Some dev)
    have one: "finds io B wm fx d (\<lambda>devices. Some (Inr (devices @ [dev]), d)) [(r, b, dv, 0)]" using x(3) Some by (simp add: finds_def)
    show ?thesis
    proof (cases "header_byte io r (b, dv, 0) d AND 0x80 = 0")
      case True
      then show ?thesis using x Some one m unfolding fs slot_functions_def by simp
    next
      case False
      from finds_seq [OF one rest, of "\<lambda>devices. enumerate_functions io r b dv (0 # ?fs) devices d"] show ?thesis
        using x Some False m unfolding fs slot_functions_def by simp
    qed
  qed
qed


lemma finds_slots:
  assumes ok: "region_ok r" and sp: "bar_spec io good B wm fx" "good d"
    and f: "\<forall>dv \<in> set dvs. \<forall>fn < 8. valid_function r (b, dv, fn) \<and> function_ok io B wm fx d r (b, dv, fn)"
  shows "finds io B wm fx d (\<lambda>devices. enumerate_slots io r b dvs devices d)
    (concat (map (\<lambda>dv. map (\<lambda>fn. (r, b, dv, fn)) (slot_functions io r d b dv)) dvs))"
  using f
proof (induction dvs)
  case Nil
  then show ?case by (simp add: finds_nil)
next
  case (Cons dv dvs)
  from Cons.prems have "\<forall>fn < 8. valid_function r (b, dv, fn) \<and> function_ok io B wm fx d r (b, dv, fn)" by simp
  from finds_seq [OF finds_slot [OF ok sp this] Cons.IH, of "\<lambda>devices. enumerate_slots io r b (dv # dvs) devices d"] show ?case
    using Cons.prems by simp
qed

lemma valid_bus_functions:
  assumes "er_start_bus r \<le> b" "b \<le> er_end_bus r" and "\<forall>f. valid_function r f \<longrightarrow> function_ok io B wm fx d r f"
  shows "\<forall>dv \<in> set (map of_nat [0 ..< 32]). \<forall>fn < 8. valid_function r (b, dv, fn) \<and> function_ok io B wm fx d r (b, dv, fn)"
proof (intro ballI allI impI)
  fix dv fn :: u8 assume "dv \<in> set (map of_nat [0 ..< 32])" "fn < 8"
  then have "valid_function r (b, dv, fn)" using assms(1,2) by (auto simp: valid_function_def word_less_nat_alt unsigned_of_nat take_bit_nat_eq_self)
  then show "valid_function r (b, dv, fn) \<and> function_ok io B wm fx d r (b, dv, fn)" using assms(3) by blast
qed

lemma finds_buses:
  assumes ok: "region_ok r" and sp: "bar_spec io good B wm fx" "good d"
    and f: "\<forall>f. valid_function r f \<longrightarrow> function_ok io B wm fx d r f" and b: "\<forall>b \<in> set bs. er_start_bus r \<le> b \<and> b \<le> er_end_bus r"
  shows "finds io B wm fx d (\<lambda>devices. enumerate_buses io r bs devices d) (concat (map (bus_functions io r d) bs))"
  using b
proof (induction bs)
  case Nil
  then show ?case by (simp add: finds_nil)
next
  case (Cons b bs)
  then have "finds io B wm fx d (\<lambda>devices. enumerate_bus io r b devices d) (bus_functions io r d b)"
    using finds_slots [OF ok sp valid_bus_functions [OF _ _ f]] by (simp add: enumerate_bus_def bus_functions_def)
  from finds_seq [OF this Cons.IH, of "\<lambda>devices. enumerate_buses io r (b # bs) devices d"] show ?case
    using Cons.prems by simp
qed

lemma region_buses: "b \<in> set (map of_nat [unat (er_start_bus r) ..< unat (er_end_bus r) + 1]) \<Longrightarrow> er_start_bus r \<le> b \<and> b \<le> er_end_bus r"
proof -
  assume "b \<in> set (map of_nat [unat (er_start_bus r) ..< unat (er_end_bus r) + 1])"
  then obtain n where n: "b = of_nat n" "unat (er_start_bus r) \<le> n" "n \<le> unat (er_end_bus r)" by auto
  moreover have "unat (er_end_bus r) < 2 ^ LENGTH(8)" by (rule unsigned_less)
  ultimately have "unat b = n" by (simp add: unsigned_of_nat take_bit_nat_eq_self)
  then show ?thesis using n by (simp add: word_le_nat_alt)
qed

lemma finds_regions:
  assumes sp: "bar_spec io good B wm fx" "good d"
    and f: "\<forall>r \<in> set rs. region_ok r \<and> (\<forall>f. valid_function r f \<longrightarrow> function_ok io B wm fx d r f)"
  shows "finds io B wm fx d (\<lambda>devices. enumerate_devices io rs devices d) (concat (map (region_functions io d) rs))"
  using f
proof (induction rs)
  case Nil
  then show ?case by (simp add: finds_nil)
next
  case (Cons r rs)
  have "\<forall>b \<in> set (map of_nat [unat (er_start_bus r) ..< unat (er_end_bus r) + 1]). er_start_bus r \<le> b \<and> b \<le> er_end_bus r"
    using region_buses by blast
  from finds_buses [OF _ sp _ this] Cons.prems
  have "finds io B wm fx d (\<lambda>devices. enumerate_buses io r (map of_nat [unat (er_start_bus r) ..< unat (er_end_bus r) + 1]) devices d) (region_functions io d r)"
    by (simp add: region_functions_def)
  from finds_seq [OF this Cons.IH, of "\<lambda>devices. enumerate_devices io (r # rs) devices d"] show ?case
    using Cons.prems by simp
qed

text \<open>
  C33: on devices that follow the specification the scan neither fails nor disturbs them, and finds each responding function
  exactly once, in the order of bus, device and function: every present function, except that functions 1 to 7 are skipped
  where function 0 is the only one; each record says what the registers of its function say.
\<close>

theorem enumerate_devices_correct:
  assumes "bar_spec io good B wm fx" and "good d"
    and "\<forall>r \<in> set rs. region_ok r \<and> (\<forall>f. valid_function r f \<longrightarrow> function_ok io B wm fx d r f)"
  shows "\<exists>devices. enumerate_devices io rs [] d = Some (Inr devices, d) \<and>
    map pd_location devices = concat (map (region_functions io d) rs) \<and> (\<forall>dev \<in> set devices. describes io B wm fx d dev)"
  using finds_regions [OF assms] unfolding finds_def by (metis append_Nil)


section \<open>Witnesses\<close>

lemma demo_vendor: "valid_function demo_region f \<Longrightarrow> vendor_of demo_io demo_region f demo_bars = (if f = (0, 0, 0) then 0x1B36 else 0xFFFF)"
proof -
  assume "valid_function demo_region f"
  then obtain dv fn where f: "f = (0, dv, fn)" unfolding demo_valid by blast
  have "reg_addr demo_region f 0 = ECAM_VIRTUAL_START + (unat dv * 8 + unat fn) * 4096"
    by (simp add: f reg_addr_def function_index_def demo_region_def)
  moreover have "unat dv * 8 + unat fn = 0 \<longleftrightarrow> f = (0, 0, 0)" by (simp add: f unat_eq_0)
  moreover have "4096 \<le> (unat dv * 8 + unat fn) * 4096" if "unat dv * 8 + unat fn \<noteq> 0" using that by (cases "unat dv * 8 + unat fn") auto
  ultimately show ?thesis by (cases "f = (0, 0, 0)") (auto simp: vendor_of_def demo_io_def demo_byte_def config_offsets)
qed

lemma demo_function_ok:
  assumes "valid_function demo_region f"
  shows "function_ok demo_io {ECAM_VIRTUAL_START + 0x10, ECAM_VIRTUAL_START + 0x14}
    (\<lambda>a. if a = ECAM_VIRTUAL_START + 0x10 then NOT (mask 14) else - 1) (\<lambda>a. if a = ECAM_VIRTUAL_START + 0x10 then 4 else 0) demo_bars demo_region f"
proof (cases "f = (0, 0, 0)")
  case True
  have h: "header_type_of (header_byte demo_io demo_region (0, 0, 0) demo_bars AND 0x7F) = Some Normal"
    by (simp add: header_byte_def demo_reg demo_io_def demo_byte_def config_offsets header_type_of_def)
  have "\<exists>bars. has_bars demo_io {ECAM_VIRTUAL_START + 0x10, ECAM_VIRTUAL_START + 0x14}
    (\<lambda>a. if a = ECAM_VIRTUAL_START + 0x10 then NOT (mask 14) else - 1) (\<lambda>a. if a = ECAM_VIRTUAL_START + 0x10 then 4 else 0) demo_region (0, 0, 0) demo_bars bars"
    unfolding has_bars_def h using demo_descs by (fastforce simp del: descs_at.simps)
  moreover have "\<exists>caps. has_capabilities demo_io demo_region (0, 0, 0) demo_bars caps"
    unfolding has_capabilities_def using demo_chain by (auto simp del: cap_chain.simps)
  ultimately show ?thesis using h True by (simp add: function_ok_def)
qed (simp add: function_ok_def demo_vendor [OF assms])

theorem enumerate_devices_correct_witness:
  "\<exists>dev. enumerate_devices demo_io [demo_region] [] demo_bars = Some (Inr [dev], demo_bars) \<and> pd_location dev = (demo_region, 0, 0, 0)"
proof -
  have slot: "slot_functions demo_io demo_region demo_bars 0 dv = (if dv = 0 then [0] else [])" if "dv < 32" for dv
  proof (cases "dv = 0")
    case True
    then show ?thesis using demo_vendor [of "(0, 0, 0)"]
      by (simp add: slot_functions_def demo_valid header_byte_def demo_reg demo_io_def demo_byte_def config_offsets)
  next
    case False
    have "vendor_of demo_io demo_region (0, dv, fn) demo_bars = 0xFFFF" if "fn \<in> set (map of_nat [0 ..< 8])" for fn
    proof -
      have "fn < 8" using that by (auto simp: word_less_nat_alt unsigned_of_nat take_bit_nat_eq_self)
      then show ?thesis using demo_vendor [of "(0, dv, fn)"] \<open>dv < 32\<close> False by (simp add: demo_valid)
    qed
    moreover have "(0 :: u8) \<in> set (map of_nat [0 ..< 8])" by (simp add: upt_conv_Cons)
    ultimately show ?thesis using False by (auto simp: slot_functions_def filter_empty_conv)
  qed
  have "map of_nat [0 ..< 32] = (0 :: u8) # map of_nat [1 ..< 32]" by (simp add: upt_conv_Cons)
  moreover have "slot_functions demo_io demo_region demo_bars 0 dv = []" if dv: "dv \<in> set (map of_nat [1 ..< 32])" for dv
  proof -
    obtain n where "dv = of_nat n" "1 \<le> n" "n < 32" using dv by auto
    then have "unat dv = n" by (simp add: unsigned_of_nat take_bit_nat_eq_self)
    with \<open>1 \<le> n\<close> \<open>n < 32\<close> have "dv < 32" "dv \<noteq> 0" by (auto simp: word_less_nat_alt)
    then show ?thesis using slot by simp
  qed
  ultimately have "bus_functions demo_io demo_region demo_bars 0 = [(demo_region, 0, 0, 0)]"
    using slot [of 0] by (simp add: bus_functions_def)
  then have "region_functions demo_io demo_bars demo_region = [(demo_region, 0, 0, 0)]"
    by (simp add: region_functions_def demo_region_def)
  then show ?thesis
    using enumerate_devices_correct [OF demo_spec, OF demo_bars_good, of "[demo_region]"] demo_region_ok demo_function_ok
    by (auto simp del: enumerate_devices.simps)
qed

end
