(* ===== verification/Msi.thy ===== *)
theory Msi
  imports Pci_Device Layout
begin

text \<open>
  \<^verbatim>\<open>kernel/src/pci/msi.rs\<close> and the table entry of \<^verbatim>\<open>kernel/src/pci/config.rs\<close>: message-signalled interrupts (MSI-X).  The table and the pending bit array of
  a device lie in a BAR; once that is mapped they are memory, a \<open>ram\<close>.
\<close>

section \<open>The code\<close>

definition MESSAGE_CONTROL :: nat where "MESSAGE_CONTROL = 0x02"
definition TABLE_OFFSET_BIR :: nat where "TABLE_OFFSET_BIR = 0x04"
definition PBA_OFFSET_BIR :: nat where "PBA_OFFSET_BIR = 0x08"
definition TABLE_SIZE_MASK :: u16 where "TABLE_SIZE_MASK = 0x7FF"
definition MSI_X_ENABLE :: u16 where "MSI_X_ENABLE = push_bit 15 1"
definition VECTOR_MASKED :: u32 where "VECTOR_MASKED = push_bit 0 1"
definition MSI_X :: u8 where "MSI_X = 0x11"

subsection \<open>Table entries\<close>

record msix_table_entry =
  message_address_low :: u32
  message_address_high :: u32
  message_data :: u32
  vector_control :: u32

definition msix_entry_new :: msix_table_entry where
  "msix_entry_new = \<lparr>message_address_low = 0, message_address_high = 0, message_data = 0, vector_control = VECTOR_MASKED\<rparr>"

definition set_address :: "u64 \<Rightarrow> msix_table_entry \<Rightarrow> msix_table_entry" where
  "set_address address e = e\<lparr>message_address_low := ucast address, message_address_high := ucast (drop_bit 32 address)\<rparr>"

definition set_data :: "u32 \<Rightarrow> msix_table_entry \<Rightarrow> msix_table_entry" where
  "set_data data e = e\<lparr>message_data := data\<rparr>"

definition entry_mask :: "msix_table_entry \<Rightarrow> msix_table_entry" where
  "entry_mask e = e\<lparr>vector_control := vector_control e OR VECTOR_MASKED\<rparr>"

definition entry_unmask :: "msix_table_entry \<Rightarrow> msix_table_entry" where
  "entry_unmask e = e\<lparr>vector_control := vector_control e AND NOT VECTOR_MASKED\<rparr>"

definition is_masked :: "msix_table_entry \<Rightarrow> bool" where
  "is_masked e \<longleftrightarrow> vector_control e AND VECTOR_MASKED \<noteq> 0"

text \<open>The packed structure in memory, 16 bytes.\<close>

definition encode_entry :: "msix_table_entry \<Rightarrow> u8 list" where
  "encode_entry e = to_le 4 (message_address_low e) @ to_le 4 (message_address_high e) @ to_le 4 (message_data e) @ to_le 4 (vector_control e)"

definition decode_entry :: "u8 list \<Rightarrow> msix_table_entry" where
  "decode_entry bs = \<lparr>message_address_low = of_le (take 4 (drop 0 bs)), message_address_high = of_le (take 4 (drop 4 bs)),
     message_data = of_le (take 4 (drop 8 bs)), vector_control = of_le (take 4 (drop 12 bs))\<rparr>"

definition read_entry :: "ram \<Rightarrow> addr \<Rightarrow> msix_table_entry" where
  "read_entry m a = decode_entry (get_bytes m a 16)"

definition write_entry :: "addr \<Rightarrow> msix_table_entry \<Rightarrow> ram \<Rightarrow> ram" where
  "write_entry a e m = put_bytes a (encode_entry e) m"

subsection \<open>The capability\<close>

record msix_vector =
  mv_index :: u16
  mv_vector :: u8
  mv_enabled :: bool

record msix_info =
  mi_device :: pci_device
  mi_cap_offset :: nat
  mi_table_size :: u16
  mi_table_bar :: u8
  mi_table_offset :: u32
  mi_pba_bar :: u8
  mi_pba_offset :: u32
  mi_table_virtual_addr :: "addr option"
  mi_pba_virtual_addr :: "addr option"
  mi_vectors :: "msix_vector list"
  mi_mapped_bars :: "mapped_bar list"

definition msix_from_device :: "'d cfg_io \<Rightarrow> pci_device \<Rightarrow> nat \<Rightarrow> 'd \<Rightarrow> msix_info rust" where
  "msix_from_device io dev cap_offset d = do {
     control \<leftarrow> read_config_u16 io (pd_ecam_region dev) (pd_bus dev) (pd_device dev) (pd_function dev) (cap_offset + MESSAGE_CONTROL) d;
     table_offset_bir \<leftarrow> read_config_u32 io (pd_ecam_region dev) (pd_bus dev) (pd_device dev) (pd_function dev) (cap_offset + TABLE_OFFSET_BIR) d;
     pba_offset_bir \<leftarrow> read_config_u32 io (pd_ecam_region dev) (pd_bus dev) (pd_device dev) (pd_function dev) (cap_offset + PBA_OFFSET_BIR) d;
     Some \<lparr>mi_device = dev, mi_cap_offset = cap_offset, mi_table_size = (control AND TABLE_SIZE_MASK) + 1,
       mi_table_bar = ucast (table_offset_bir AND 0x7), mi_table_offset = table_offset_bir AND NOT 0x7,
       mi_pba_bar = ucast (pba_offset_bir AND 0x7), mi_pba_offset = pba_offset_bir AND NOT 0x7,
       mi_table_virtual_addr = None, mi_pba_virtual_addr = None, mi_vectors = [], mi_mapped_bars = []\<rparr>
   }"

fun map_device_bars ::
  "'k mm \<Rightarrow> bar_info list \<Rightarrow> mapped_bar list \<Rightarrow> pcie_vmm \<Rightarrow> 'k \<Rightarrow> ((pci_error + mapped_bar list) \<times> pcie_vmm \<times> 'k) rust" where
  "map_device_bars mm [] mapped v k = Some (Inr mapped, v, k)"
| "map_device_bars mm (Memory bar # bars) mapped v k =
     (if bar_address bar = 0 \<or> (\<exists>b \<in> set mapped. mb_physical_address b = bar_address bar) then map_device_bars mm bars mapped v k
      else do {
        (r, v, k) \<leftarrow> map_bar mm v bar k;
        case r of
          Inr b \<Rightarrow> map_device_bars mm bars (mapped @ [b]) v k
        | Inl e \<Rightarrow> (case find_existing_mapping (bar_address bar) of
            Inl e' \<Rightarrow> Some (Inl e', v, k)
          | Inr (Some b) \<Rightarrow> map_device_bars mm bars (mapped @ [b]) v k
          | Inr None \<Rightarrow> Some (Inl e, v, k))
      })"
| "map_device_bars mm (Io _ # bars) mapped v k = map_device_bars mm bars mapped v k"
| "map_device_bars mm (Unused # bars) mapped v k = map_device_bars mm bars mapped v k"

definition find_bar_virtual_address :: "msix_info \<Rightarrow> u8 \<Rightarrow> pci_error + addr" where
  "find_bar_virtual_address info bar_index =
     (if unat bar_index < length (pd_bars (mi_device info)) then
        (case pd_bars (mi_device info) ! unat bar_index of
           Memory bar \<Rightarrow> (case List.find (\<lambda>b. mb_physical_address b = bar_address bar) (mi_mapped_bars info) of
             Some b \<Rightarrow> Inr (mb_virtual_address b)
           | None \<Rightarrow> Inl MsiXSetupFailed)
         | _ \<Rightarrow> Inl InvalidDevice)
      else Inl InvalidDevice)"

text \<open>The part of \<^verbatim>\<open>map_structures\<close> that is written out twice, for the table and for the pending bit array.\<close>

definition locate_structure :: "msix_info \<Rightarrow> u8 \<Rightarrow> u32 \<Rightarrow> (pci_error + addr) rust" where
  "locate_structure info bar_index offset =
     (if unat bar_index < length (pd_bars (mi_device info)) then
        (case pd_bars (mi_device info) ! unat bar_index of
           Memory bar \<Rightarrow>
             if bar_address bar = 0 then Some (Inl MsiXSetupFailed)
             else (case find_bar_virtual_address info bar_index of
               Inl e \<Rightarrow> Some (Inl e)
             | Inr virtual_base \<Rightarrow> do { a \<leftarrow> usize_add virtual_base (unat offset); Some (Inr a) })
         | _ \<Rightarrow> Some (Inl MsiXSetupFailed))
      else Some (Inl MsiXSetupFailed))"

definition map_structures :: "'k mm \<Rightarrow> msix_info \<Rightarrow> pcie_vmm \<Rightarrow> 'k \<Rightarrow> ((pci_error + msix_info) \<times> pcie_vmm \<times> 'k) rust" where
  "map_structures mm info v k = do {
     (r, v, k) \<leftarrow> map_device_bars mm (pd_bars (mi_device info)) (mi_mapped_bars info) v k;
     case r of
       Inl e \<Rightarrow> Some (Inl e, v, k)
     | Inr mapped \<Rightarrow> do {
         let info = info\<lparr>mi_mapped_bars := mapped\<rparr>;
         r \<leftarrow> locate_structure info (mi_table_bar info) (mi_table_offset info);
         case r of
           Inl e \<Rightarrow> Some (Inl e, v, k)
         | Inr table \<Rightarrow> do {
             let info = info\<lparr>mi_table_virtual_addr := Some table\<rparr>;
             r \<leftarrow> locate_structure info (mi_pba_bar info) (mi_pba_offset info);
             case r of
               Inl e \<Rightarrow> Some (Inl e, v, k)
             | Inr pba \<Rightarrow> Some (Inr (info\<lparr>mi_pba_virtual_addr := Some pba\<rparr>), v, k)
           }
       }
   }"

definition zero_pba :: "msix_info \<Rightarrow> ram \<Rightarrow> ram" where
  "zero_pba info m = (case mi_pba_virtual_addr info of
     Some pba_addr \<Rightarrow> write_bytes 1 pba_addr 0 (div_ceil (unat (mi_table_size info)) 8) m
   | None \<Rightarrow> m)"

definition calculate_msi_address :: "u8 \<Rightarrow> u64" where
  "calculate_msi_address cpu_id = 0xFEE00000 OR push_bit 12 (ucast cpu_id)"

definition calculate_msi_data :: "u8 \<Rightarrow> u32" where
  "calculate_msi_data vec = ucast vec"

text \<open>\<^verbatim>\<open>base_vector + i as u8\<close> is checked.\<close>

fun make_vectors :: "u8 \<Rightarrow> nat list \<Rightarrow> msix_vector list rust" where
  "make_vectors base_vector [] = Some []"
| "make_vectors base_vector (i # is) = do {
     rust_assert (unat base_vector + unat (of_nat i :: u8) < 256);
     vs \<leftarrow> make_vectors base_vector is;
     Some (\<lparr>mv_index = of_nat i, mv_vector = base_vector + of_nat i, mv_enabled = False\<rparr> # vs)
   }"

definition entry_addr :: "addr \<Rightarrow> u16 \<Rightarrow> addr rust" where
  "entry_addr table_addr i = usize_add table_addr (unat i * 16)"

fun write_vectors :: "addr \<Rightarrow> msix_vector list \<Rightarrow> ram \<Rightarrow> ram rust" where
  "write_vectors table_addr [] m = Some m"
| "write_vectors table_addr (vec # vs) m = do {
     a \<leftarrow> entry_addr table_addr (mv_index vec);
     let e = entry_mask (set_data (calculate_msi_data (mv_vector vec)) (set_address (calculate_msi_address 0) msix_entry_new));
     write_vectors table_addr vs (write_entry a e m)
   }"

definition allocate_vectors :: "u16 \<Rightarrow> u8 \<Rightarrow> msix_info \<Rightarrow> ram \<Rightarrow> ((pci_error + msix_info) \<times> ram) rust" where
  "allocate_vectors num_vectors base_vector info m =
     (if num_vectors > mi_table_size info then Some (Inl MsiXSetupFailed, m)
      else do {
        vs \<leftarrow> make_vectors base_vector [0 ..< unat num_vectors];
        let info = info\<lparr>mi_vectors := vs\<rparr>;
        case mi_table_virtual_addr info of
          None \<Rightarrow> Some (Inl MsiXSetupFailed, m)
        | Some table_addr \<Rightarrow> do { m \<leftarrow> write_vectors table_addr vs m; Some (Inr info, m) }
      })"

definition update_control :: "(u16 \<Rightarrow> u16) \<Rightarrow> 'd cfg_io \<Rightarrow> msix_info \<Rightarrow> 'd \<Rightarrow> 'd rust" where
  "update_control f io info d = (let dev = mi_device info in do {
     control \<leftarrow> read_config_u16 io (pd_ecam_region dev) (pd_bus dev) (pd_device dev) (pd_function dev) (mi_cap_offset info + MESSAGE_CONTROL) d;
     write_config_u16 io (pd_ecam_region dev) (pd_bus dev) (pd_device dev) (pd_function dev) (mi_cap_offset info + MESSAGE_CONTROL) (f control) d
   })"

definition msix_enable :: "'d cfg_io \<Rightarrow> msix_info \<Rightarrow> 'd \<Rightarrow> 'd rust" where
  "msix_enable io info d = update_control (\<lambda>control. control OR MSI_X_ENABLE) io info d"

definition msix_disable :: "'d cfg_io \<Rightarrow> msix_info \<Rightarrow> 'd \<Rightarrow> 'd rust" where
  "msix_disable io info d = update_control (\<lambda>control. control AND NOT MSI_X_ENABLE) io info d"

subsection \<open>Vectors\<close>

text \<open>\<^verbatim>\<open>iter_mut().find\<close> updates the first vector with the index.\<close>

fun set_enabled :: "u16 \<Rightarrow> bool \<Rightarrow> msix_vector list \<Rightarrow> msix_vector list option" where
  "set_enabled i b [] = None"
| "set_enabled i b (vec # vs) =
     (if mv_index vec = i then Some (vec\<lparr>mv_enabled := b\<rparr> # vs) else map_option ((#) vec) (set_enabled i b vs))"

definition set_vector :: "bool \<Rightarrow> (msix_table_entry \<Rightarrow> msix_table_entry) \<Rightarrow> u16 \<Rightarrow> msix_info \<Rightarrow> ram \<Rightarrow> (pci_error option \<times> msix_info \<times> ram) rust" where
  "set_vector b f i info m = (case set_enabled i b (mi_vectors info) of
     None \<Rightarrow> Some (Some InvalidDevice, info, m)
   | Some vs \<Rightarrow> (let info = info\<lparr>mi_vectors := vs\<rparr> in
       case mi_table_virtual_addr info of
         None \<Rightarrow> Some (None, info, m)
       | Some table_addr \<Rightarrow> do {
           a \<leftarrow> entry_addr table_addr i;
           Some (None, info, write_entry a (f (read_entry m a)) m)
         }))"

definition enable_vector :: "u16 \<Rightarrow> msix_info \<Rightarrow> ram \<Rightarrow> (pci_error option \<times> msix_info \<times> ram) rust" where
  "enable_vector = set_vector True entry_unmask"

definition disable_vector :: "u16 \<Rightarrow> msix_info \<Rightarrow> ram \<Rightarrow> (pci_error option \<times> msix_info \<times> ram) rust" where
  "disable_vector = set_vector False entry_mask"

text \<open>The loops over all vectors read, change and write back the entry of each.\<close>

fun update_entries :: "(msix_vector \<Rightarrow> msix_table_entry \<Rightarrow> msix_table_entry) \<Rightarrow> addr \<Rightarrow> msix_vector list \<Rightarrow> ram \<Rightarrow> ram rust" where
  "update_entries f table_addr [] m = Some m"
| "update_entries f table_addr (vec # vs) m = do {
     a \<leftarrow> entry_addr table_addr (mv_index vec);
     update_entries f table_addr vs (write_entry a (f vec (read_entry m a)) m)
   }"

definition set_all_vectors :: "bool \<Rightarrow> (msix_table_entry \<Rightarrow> msix_table_entry) \<Rightarrow> msix_info \<Rightarrow> ram \<Rightarrow> (pci_error option \<times> msix_info \<times> ram) rust" where
  "set_all_vectors b f info m = (case mi_table_virtual_addr info of
     None \<Rightarrow> Some (Some MsiXSetupFailed, info, m)
   | Some table_addr \<Rightarrow> do {
       m \<leftarrow> update_entries (\<lambda>_. f) table_addr (mi_vectors info) m;
       Some (None, info\<lparr>mi_vectors := map (\<lambda>vec. vec\<lparr>mv_enabled := b\<rparr>) (mi_vectors info)\<rparr>, m)
     })"

definition mask_all_vectors :: "msix_info \<Rightarrow> ram \<Rightarrow> (pci_error option \<times> msix_info \<times> ram) rust" where
  "mask_all_vectors = set_all_vectors False entry_mask"

definition unmask_all_vectors :: "msix_info \<Rightarrow> ram \<Rightarrow> (pci_error option \<times> msix_info \<times> ram) rust" where
  "unmask_all_vectors = set_all_vectors True entry_unmask"

subsection \<open>Pending interrupts\<close>

definition read_qword :: "ram \<Rightarrow> addr \<Rightarrow> u64" where
  "read_qword m a = of_le (get_bytes m a 8)"

text \<open>The two loops of \<^verbatim>\<open>read_pending_vectors\<close>; the inner one stops at the last vector.\<close>

fun pending_in_qword :: "u64 \<Rightarrow> nat \<Rightarrow> nat \<Rightarrow> nat list \<Rightarrow> nat list" where
  "pending_in_qword pending_bits qword_index num_vectors [] = []"
| "pending_in_qword pending_bits qword_index num_vectors (bit_index # rest) =
     (let vector_index = qword_index * 64 + bit_index in
      if vector_index \<ge> num_vectors then []
      else if pending_bits AND push_bit bit_index 1 \<noteq> 0 then vector_index # pending_in_qword pending_bits qword_index num_vectors rest
      else pending_in_qword pending_bits qword_index num_vectors rest)"

fun pending_loop :: "ram \<Rightarrow> addr \<Rightarrow> nat \<Rightarrow> nat list \<Rightarrow> nat list rust" where
  "pending_loop m pba_addr num_vectors [] = Some []"
| "pending_loop m pba_addr num_vectors (qword_index # rest) = do {
     a \<leftarrow> usize_add pba_addr (qword_index * 8);
     let vs = pending_in_qword (read_qword m a) qword_index num_vectors [0 ..< 64];
     ws \<leftarrow> pending_loop m pba_addr num_vectors rest;
     Some (vs @ ws)
   }"

definition read_pending_vectors :: "msix_info \<Rightarrow> ram \<Rightarrow> (pci_error + nat list) rust" where
  "read_pending_vectors info m = (case mi_pba_virtual_addr info of
     None \<Rightarrow> Some (Inl MsiXSetupFailed)
   | Some pba_addr \<Rightarrow> (let n = unat (mi_table_size info) in do {
       vs \<leftarrow> pending_loop m pba_addr n [0 ..< div_ceil n 64];
       Some (Inr vs)
     }))"

definition is_vector_pending :: "u16 \<Rightarrow> msix_info \<Rightarrow> ram \<Rightarrow> (pci_error + bool) rust" where
  "is_vector_pending i info m =
     (if i \<ge> mi_table_size info then Some (Inl InvalidDevice)
      else case mi_pba_virtual_addr info of
        None \<Rightarrow> Some (Inl MsiXSetupFailed)
      | Some pba_addr \<Rightarrow> do {
          a \<leftarrow> usize_add pba_addr (unat i div 64 * 8);
          Some (Inr (read_qword m a AND push_bit (unat i mod 64) 1 \<noteq> 0))
        })"

definition count_ones64 :: "u64 \<Rightarrow> nat" where
  "count_ones64 w = length (filter (bit w) [0 ..< 64])"

text \<open>The counter is a \<^verbatim>\<open>u16\<close>, so the sum is checked.\<close>

fun count_loop :: "ram \<Rightarrow> addr \<Rightarrow> nat \<Rightarrow> nat list \<Rightarrow> nat \<Rightarrow> nat rust" where
  "count_loop m pba_addr num_vectors [] count = Some count"
| "count_loop m pba_addr num_vectors (qword_index # rest) count = do {
     a \<leftarrow> usize_add pba_addr (qword_index * 8);
     left \<leftarrow> usize_sub num_vectors (qword_index * 64);
     let vectors_in_this_qword = min 64 left;
     let msk = (if vectors_in_this_qword = 64 then - 1 else push_bit vectors_in_this_qword 1 - 1);
     let count = count + count_ones64 (read_qword m a AND msk);
     rust_assert (count < 2 ^ 16);
     count_loop m pba_addr num_vectors rest count
   }"

definition get_pending_count :: "msix_info \<Rightarrow> ram \<Rightarrow> (pci_error + nat) rust" where
  "get_pending_count info m = (case mi_pba_virtual_addr info of
     None \<Rightarrow> Some (Inl MsiXSetupFailed)
   | Some pba_addr \<Rightarrow> (let n = unat (mi_table_size info) in do {
       c \<leftarrow> count_loop m pba_addr n [0 ..< div_ceil n 64] 0;
       Some (Inr c)
     }))"

definition has_pending_interrupts :: "msix_info \<Rightarrow> ram \<Rightarrow> (pci_error + bool) rust" where
  "has_pending_interrupts info m = do {
     r \<leftarrow> get_pending_count info m;
     Some (case r of Inl e \<Rightarrow> Inl e | Inr c \<Rightarrow> Inr (c > 0))
   }"

subsection \<open>Setting up a device\<close>

definition setup_msix ::
  "'d cfg_io \<Rightarrow> 'k mm \<Rightarrow> pci_device \<Rightarrow> u16 \<Rightarrow> u8 \<Rightarrow> 'd \<Rightarrow> pcie_vmm \<Rightarrow> 'k \<Rightarrow> ram \<Rightarrow> ((pci_error + msix_info) \<times> 'd \<times> pcie_vmm \<times> 'k \<times> ram) rust" where
  "setup_msix io mm dev num_vectors base_vector d v k m = (case find_capability dev MSI_X of
     None \<Rightarrow> Some (Inl MsiXSetupFailed, d, v, k, m)
   | Some cap \<Rightarrow> do {
       info \<leftarrow> msix_from_device io dev (unat cap) d;
       (r, v, k) \<leftarrow> map_structures mm info v k;
       case r of
         Inl e \<Rightarrow> Some (Inl e, d, v, k, m)
       | Inr info \<Rightarrow> do {
           let m = zero_pba info m;
           (r, m) \<leftarrow> allocate_vectors num_vectors base_vector info m;
           case r of
             Inl e \<Rightarrow> Some (Inl e, d, v, k, m)
           | Inr info \<Rightarrow> do { d \<leftarrow> msix_enable io info d; Some (Inr info, d, v, k, m) }
         }
     })"


section \<open>Table entries in memory\<close>

lemma length_encode_entry [simp]: "length (encode_entry e) = 16"
  by (simp add: encode_entry_def)

lemma decode_encode_entry: "decode_entry (encode_entry e) = e"
  by (cases e) (simp add: encode_entry_def decode_entry_def of_le_to_le)

lemma read_write_entry: "read_entry (write_entry a e m) a = e"
  by (simp add: read_entry_def write_entry_def get_put_same decode_encode_entry)

lemma read_write_other: "b + 16 \<le> a \<or> a + 16 \<le> b \<Longrightarrow> read_entry (write_entry a e m) b = read_entry m b"
  by (simp add: read_entry_def write_entry_def get_put_other)

lemma masked_bit: "is_masked e \<longleftrightarrow> bit (vector_control e) 0"
  by (simp add: is_masked_def VECTOR_MASKED_def and_one_eq mod_2_eq_odd bit_0)

lemma is_masked_update: "is_masked (entry_mask e)" "\<not> is_masked (entry_unmask e)"
  by (simp_all add: masked_bit entry_mask_def entry_unmask_def VECTOR_MASKED_def bit_simps del: bit_0)

section \<open>Pending interrupts\<close>

definition pending :: "ram \<Rightarrow> addr \<Rightarrow> nat \<Rightarrow> bool" where
  "pending m pba i \<longleftrightarrow> bit (read_qword m (pba + i div 64 * 8)) (i mod 64)"

lemma test_bit64: "b < 64 \<Longrightarrow> w AND push_bit b 1 \<noteq> (0 :: u64) \<longleftrightarrow> bit w b"
  by (simp add: and_exp_eq_0_iff_not_bit push_bit_of_1)

lemma pending_in_qword_eq:
  "pending_in_qword w q n [k ..< 64] = map ((+) (q * 64)) (filter (bit w) [k ..< min 64 (n - q * 64)])"
proof (induction "64 - k" arbitrary: k)
  case 0
  then show ?case by simp
next
  case (Suc x)
  then have k: "k < 64" "x = 64 - Suc k" by simp_all
  note ih = Suc.hyps(1) [OF k(2)]
  show ?case
  proof (cases "n \<le> q * 64 + k")
    case True
    then show ?thesis using k(1) by (simp add: upt_conv_Cons Let_def)
  next
    case False
    then have "[k ..< min 64 (n - q * 64)] = k # [Suc k ..< min 64 (n - q * 64)]" using k(1) by (intro upt_conv_Cons) simp
    then show ?thesis using False k(1) ih test_bit64 [OF k(1), of w] by (simp add: upt_conv_Cons [of k 64] Let_def)
  qed
qed

text \<open>The vectors of one word, in terms of the whole array.\<close>

lemma filter_qword:
  "map ((+) (q * 64)) (filter (bit (read_qword m (pba + q * 8))) [0 ..< min 64 (n - q * 64)]) = filter (pending m pba) [q * 64 ..< min (q * 64 + 64) n]"
proof -
  have up: "map ((+) (q * 64)) [0 ..< min 64 (n - q * 64)] = [q * 64 ..< min (q * 64 + 64) n]"
    by (rule nth_equalityI) (auto simp: min_def split: if_splits)
  have "pending m pba (q * 64 + i) \<longleftrightarrow> bit (read_qword m (pba + q * 8)) i" if "i < 64" for i
    using that by (simp add: pending_def)
  then have "filter (bit (read_qword m (pba + q * 8))) [0 ..< min 64 (n - q * 64)] = filter (\<lambda>i. pending m pba (q * 64 + i)) [0 ..< min 64 (n - q * 64)]"
    by (intro filter_cong) simp_all
  then show ?thesis unfolding up [symmetric] by (simp add: filter_map o_def)
qed

lemma count_masked:
  assumes "v \<le> 64"
  shows "count_ones64 (w AND (if v = 64 then - 1 else push_bit v 1 - 1)) = length (filter (bit w) [0 ..< v])"
proof -
  have m: "(if v = 64 then - 1 else push_bit v 1 - 1) = (mask v :: u64)"
    using mask_full [where 'a = 64] by (simp add: mask_eq_exp_minus_1 push_bit_of_1)
  have "[0 ..< 64] = [0 ..< v] @ [v ..< 64]" using assms upt_add_eq_append [of 0 v "64 - v"] by simp
  moreover have "filter (bit (w AND mask v)) [v ..< 64] = []" by (auto simp: filter_empty_conv bit_simps)
  moreover have "filter (bit (w AND mask v)) [0 ..< v] = filter (bit w) [0 ..< v]"
    using assms by (intro filter_cong) (auto simp: bit_simps)
  ultimately show ?thesis unfolding m count_ones64_def by simp
qed


lemma qwords_split:
  assumes "q < div_ceil n 64"
  shows "q * 64 < n" and "[q * 64 ..< n] = [q * 64 ..< min (q * 64 + 64) n] @ [(q + 1) * 64 ..< n]"
proof -
  define k r where "k = n div 64" and "r = n mod 64"
  have n: "n = k * 64 + r" by (simp add: k_def r_def)
  have "q < k + (if r > 0 then 1 else 0)" using assms by (simp add: div_ceil_def k_def r_def)
  then show "q * 64 < n" unfolding n by (auto split: if_splits)
  then show "[q * 64 ..< n] = [q * 64 ..< min (q * 64 + 64) n] @ [(q + 1) * 64 ..< n]"
  proof (cases "q * 64 + 64 \<le> n")
    case True
    then show ?thesis using upt_add_eq_append [of "q * 64" "q * 64 + 64" "n - (q * 64 + 64)"] by (simp add: add.commute)
  qed (simp add: min_def)
qed

lemma qwords_end: "n \<le> div_ceil n 64 * 64"
  by (simp add: div_ceil_def) presburger

lemma pending_loop_ok:
  assumes "pba + div_ceil n 64 * 8 < usize_bound" and "q \<le> div_ceil n 64"
  shows "pending_loop m pba n [q ..< div_ceil n 64] = Some (filter (pending m pba) [q * 64 ..< n])"
  using assms(2)
proof (induction "div_ceil n 64 - q" arbitrary: q)
  case 0
  then show ?case using qwords_end [of n] by simp
next
  case (Suc x)
  then have q: "q < div_ceil n 64" "x = div_ceil n 64 - Suc q" by simp_all
  have "usize_add pba (q * 8) = Some (pba + q * 8)" using assms(1) q(1) by simp
  moreover have "[q ..< div_ceil n 64] = q # [Suc q ..< div_ceil n 64]" using q(1) by (rule upt_conv_Cons)
  ultimately show ?case using Suc.hyps(1) [OF q(2)] q(1) qwords_split(2) [OF q(1)]
    by (simp add: pending_in_qword_eq filter_qword)
qed

lemma count_loop_ok:
  assumes "pba + div_ceil n 64 * 8 < usize_bound" and "q \<le> div_ceil n 64" and "c + (n - q * 64) < 2 ^ 16"
  shows "count_loop m pba n [q ..< div_ceil n 64] c = Some (c + length (filter (pending m pba) [q * 64 ..< n]))"
  using assms(2,3)
proof (induction "div_ceil n 64 - q" arbitrary: q c)
  case 0
  then show ?case using qwords_end [of n] by simp
next
  case (Suc x)
  then have q: "q < div_ceil n 64" "x = div_ceil n 64 - Suc q" by simp_all
  note sp = qwords_split [OF q(1)]
  have "usize_add pba (q * 8) = Some (pba + q * 8)" using assms(1) q(1) by simp
  moreover have "[q ..< div_ceil n 64] = q # [Suc q ..< div_ceil n 64]" using q(1) by (rule upt_conv_Cons)
  moreover let ?k = "length (filter (pending m pba) [q * 64 ..< min (q * 64 + 64) n])"
  have "count_ones64 (read_qword m (pba + q * 8) AND (if min 64 (n - q * 64) = 64 then - 1 else push_bit (min 64 (n - q * 64)) 1 - 1)) = ?k"
    by (subst count_masked) (simp_all add: filter_qword [symmetric])
  moreover have k: "?k \<le> min 64 (n - q * 64)" using length_filter_le [of "pending m pba" "[q * 64 ..< min (q * 64 + 64) n]"] by auto
  moreover have "c + ?k < 2 ^ 16" "c + ?k + (n - Suc q * 64) < 2 ^ 16" using k Suc.prems(2) sp(1) by auto
  ultimately show ?case using Suc.hyps(1) [OF q(2), of "c + ?k"] q(1) sp by (simp add: Let_def)
qed

text \<open>
  The three ways of asking for pending interrupts agree: the list holds exactly the vectors whose bit is set, in order,
  the word-wise count is its length, the single query is membership, and bits beyond the table are never counted.
\<close>

theorem pending_agree:
  assumes "mi_pba_virtual_addr info = Some pba" and "pba + 8192 < 2 ^ 64"
  shows "\<exists>vs. read_pending_vectors info m = Some (Inr vs) \<and> vs = filter (pending m pba) [0 ..< unat (mi_table_size info)] \<and>
    get_pending_count info m = Some (Inr (length vs)) \<and> has_pending_interrupts info m = Some (Inr (vs \<noteq> [])) \<and>
    (\<forall>i. is_vector_pending i info m = Some (if i < mi_table_size info then Inr (unat i \<in> set vs) else Inl InvalidDevice))"
proof -
  let ?n = "unat (mi_table_size info)" and ?vs = "filter (pending m pba) [0 ..< unat (mi_table_size info)]"
  have n: "?n < 2 ^ LENGTH(16)" by (rule unsigned_less)
  then have "div_ceil ?n 64 \<le> 1024" by (auto simp: div_ceil_def)
  then have b: "pba + div_ceil ?n 64 * 8 < usize_bound" using assms(2) by (simp add: usize_bound_def)
  have r: "read_pending_vectors info m = Some (Inr ?vs)"
    using pending_loop_ok [OF b, of 0 m] assms(1) by (simp add: read_pending_vectors_def Let_def)
  have c: "get_pending_count info m = Some (Inr (length ?vs))"
    using count_loop_ok [OF b, of 0 0 m] n assms(1) by (simp add: get_pending_count_def Let_def)
  then have h: "has_pending_interrupts info m = Some (Inr (?vs \<noteq> []))" by (simp add: has_pending_interrupts_def)
  have "is_vector_pending i info m = Some (if i < mi_table_size info then Inr (unat i \<in> set ?vs) else Inl InvalidDevice)" for i
  proof (cases "i < mi_table_size info")
    case True
    then have i: "unat i < ?n" by (simp add: word_less_nat_alt)
    then have "pba + unat i div 64 * 8 < usize_bound" using n assms(2) by (simp add: usize_bound_def)
    then show ?thesis using True i assms(1) test_bit64 [of "unat i mod 64"]
      by (auto simp: is_vector_pending_def pending_def not_le)
  qed (simp add: is_vector_pending_def not_less)
  then show ?thesis using r c h by blast
qed


section \<open>Vectors\<close>

text \<open>The flags that the driver keeps mirror the mask bits in the table of the device.\<close>

definition vector_addr :: "addr \<Rightarrow> msix_vector \<Rightarrow> addr" where
  "vector_addr t vec = t + unat (mv_index vec) * 16"

definition msix_consistent :: "msix_info \<Rightarrow> ram \<Rightarrow> bool" where
  "msix_consistent info m \<longleftrightarrow> distinct (map mv_index (mi_vectors info)) \<and> (case mi_table_virtual_addr info of
     None \<Rightarrow> False
   | Some t \<Rightarrow> \<forall>vec \<in> set (mi_vectors info). vector_addr t vec < usize_bound \<and> is_masked (read_entry m (vector_addr t vec)) = (\<not> mv_enabled vec))"

definition enabled_set :: "msix_info \<Rightarrow> u16 set" where
  "enabled_set info = mv_index ` {vec \<in> set (mi_vectors info). mv_enabled vec}"

lemma enabled_map:
  "enabled_set (info\<lparr>mi_vectors := map g (mi_vectors info)\<rparr>) = {j. \<exists>y \<in> set (mi_vectors info). mv_enabled (g y) \<and> mv_index (g y) = j}"
  by (auto simp: enabled_set_def)

lemma vector_addr_disjoint:
  "mv_index x \<noteq> mv_index y \<Longrightarrow> vector_addr t x + 16 \<le> vector_addr t y \<or> vector_addr t y + 16 \<le> vector_addr t x"
proof -
  assume "mv_index x \<noteq> mv_index y"
  then have "unat (mv_index x) \<noteq> unat (mv_index y)" by (simp add: word_unat_eq_iff)
  then show ?thesis by (simp add: vector_addr_def) linarith
qed

lemma set_enabled_eq:
  "distinct (map mv_index vs) \<Longrightarrow> set_enabled i b vs = (if i \<in> mv_index ` set vs
     then Some (map (\<lambda>vec. if mv_index vec = i then vec\<lparr>mv_enabled := b\<rparr> else vec) vs) else None)"
proof (induction vs)
  case (Cons x vs)
  have "map (\<lambda>vec. if mv_index vec = mv_index x then vec\<lparr>mv_enabled := b\<rparr> else vec) vs = vs"
    using Cons.prems by (intro map_idI) (auto simp: image_iff)
  then show ?case using Cons by auto
qed simp

lemma set_vector_ok:
  assumes c: "msix_consistent info m" and f: "\<And>e. is_masked (f e) = (\<not> b)"
  shows "\<exists>r info' m'. set_vector b f i info m = Some (r, info', m') \<and> msix_consistent info' m' \<and>
    map mv_index (mi_vectors info') = map mv_index (mi_vectors info) \<and>
    (if i \<in> mv_index ` set (mi_vectors info) then r = None \<and> enabled_set info' = (if b then insert i (enabled_set info) else enabled_set info - {i})
     else r = Some InvalidDevice \<and> info' = info \<and> m' = m)"
proof (cases "i \<in> mv_index ` set (mi_vectors info)")
  case False
  then show ?thesis using c by (auto simp: set_vector_def msix_consistent_def set_enabled_eq)
next
  case True
  obtain t where t: "mi_table_virtual_addr info = Some t" and d: "distinct (map mv_index (mi_vectors info))"
    and h: "\<forall>vec \<in> set (mi_vectors info). vector_addr t vec < usize_bound \<and> is_masked (read_entry m (vector_addr t vec)) = (\<not> mv_enabled vec)"
    using c by (auto simp: msix_consistent_def split: option.splits)
  obtain x where x: "x \<in> set (mi_vectors info)" "mv_index x = i" using True by auto
  let ?g = "\<lambda>vec. if mv_index vec = i then vec\<lparr>mv_enabled := b\<rparr> else vec"
  let ?info = "info\<lparr>mi_vectors := map ?g (mi_vectors info)\<rparr>" and ?m = "write_entry (vector_addr t x) (f (read_entry m (vector_addr t x))) m"
  have "entry_addr t i = Some (vector_addr t x)" using h x by (auto simp: entry_addr_def vector_addr_def)
  then have s: "set_vector b f i info m = Some (None, ?info, ?m)" using True d t by (simp add: set_vector_def set_enabled_eq Let_def)
  have idx: "map mv_index (map ?g (mi_vectors info)) = map mv_index (mi_vectors info)" by simp
  have "vector_addr t (?g y) < usize_bound \<and> is_masked (read_entry ?m (vector_addr t (?g y))) = (\<not> mv_enabled (?g y))" if y: "y \<in> set (mi_vectors info)" for y
  proof (cases "mv_index y = i")
    case True
    then have "vector_addr t (?g y) = vector_addr t x" using x(2) by (simp add: vector_addr_def)
    then show ?thesis using True h x(1) by (auto simp: read_write_entry f)
  next
    case False
    then show ?thesis using h y x(2) vector_addr_disjoint [of y x t] by (simp add: read_write_other)
  qed
  then have "\<forall>vec \<in> set (map ?g (mi_vectors info)). vector_addr t vec < usize_bound \<and> is_masked (read_entry ?m (vector_addr t vec)) = (\<not> mv_enabled vec)"
    unfolding set_map by blast
  then have "msix_consistent ?info ?m" using d t idx by (simp add: msix_consistent_def del: map_map set_map)
  moreover have "enabled_set ?info = (if b then insert i (enabled_set info) else enabled_set info - {i})"
  proof -
    have "j \<in> enabled_set ?info \<longleftrightarrow> (j = i \<and> b) \<or> (j \<noteq> i \<and> j \<in> enabled_set info)" for j
      unfolding enabled_map using x by (cases "j = i") (auto simp: enabled_set_def)
    then show ?thesis by auto
  qed
  ultimately show ?thesis using s True idx by auto
qed

lemma update_entries_ok:
  assumes "distinct (map mv_index vs)" and "\<forall>vec \<in> set vs. vector_addr t vec < usize_bound"
  shows "\<exists>m'. update_entries f t vs m = Some m' \<and> (\<forall>vec \<in> set vs. read_entry m' (vector_addr t vec) = f vec (read_entry m (vector_addr t vec))) \<and>
    (\<forall>y. mv_index y \<notin> mv_index ` set vs \<longrightarrow> read_entry m' (vector_addr t y) = read_entry m (vector_addr t y))"
  using assms
proof (induction vs arbitrary: m)
  case (Cons x vs)
  let ?m = "write_entry (vector_addr t x) (f x (read_entry m (vector_addr t x))) m"
  have "entry_addr t (mv_index x) = Some (vector_addr t x)" using Cons.prems(2) by (simp add: entry_addr_def vector_addr_def)
  then have s: "update_entries f t (x # vs) m = update_entries f t vs ?m" by simp
  from Cons.IH [of ?m] Cons.prems obtain m' where m': "update_entries f t vs ?m = Some m'"
    "\<forall>vec \<in> set vs. read_entry m' (vector_addr t vec) = f vec (read_entry ?m (vector_addr t vec))"
    "\<forall>y. mv_index y \<notin> mv_index ` set vs \<longrightarrow> read_entry m' (vector_addr t y) = read_entry ?m (vector_addr t y)" by auto
  have o: "read_entry ?m (vector_addr t y) = read_entry m (vector_addr t y)" if "mv_index y \<noteq> mv_index x" for y
    using vector_addr_disjoint [OF that] by (intro read_write_other) auto
  have "mv_index x \<notin> mv_index ` set vs" using Cons.prems(1) by simp
  then have "read_entry m' (vector_addr t x) = f x (read_entry m (vector_addr t x))" using m'(3) by (simp add: read_write_entry)
  moreover have "read_entry m' (vector_addr t y) = f y (read_entry m (vector_addr t y))" if y: "y \<in> set vs" for y
  proof -
    have "mv_index y \<noteq> mv_index x" using Cons.prems(1) y by (auto simp: image_iff)
    then show ?thesis using m'(2) y o by simp
  qed
  moreover have "read_entry m' (vector_addr t y) = read_entry m (vector_addr t y)" if "mv_index y \<notin> mv_index ` set (x # vs)" for y
    using that m'(3) o by auto
  ultimately show ?case using s m'(1) by auto
qed simp

lemma set_all_vectors_ok:
  assumes c: "msix_consistent info m" and f: "\<And>e. is_masked (f e) = (\<not> b)"
  shows "\<exists>info' m'. set_all_vectors b f info m = Some (None, info', m') \<and> msix_consistent info' m' \<and>
    map mv_index (mi_vectors info') = map mv_index (mi_vectors info) \<and>
    enabled_set info' = (if b then mv_index ` set (mi_vectors info) else {})"
proof -
  obtain t where t: "mi_table_virtual_addr info = Some t" and d: "distinct (map mv_index (mi_vectors info))"
    and h: "\<forall>vec \<in> set (mi_vectors info). vector_addr t vec < usize_bound"
    using c by (auto simp: msix_consistent_def split: option.splits)
  from update_entries_ok [OF d h, of "\<lambda>_. f" m] obtain m' where m': "update_entries (\<lambda>_. f) t (mi_vectors info) m = Some m'"
    "\<forall>vec \<in> set (mi_vectors info). read_entry m' (vector_addr t vec) = f (read_entry m (vector_addr t vec))" by blast
  let ?info = "info\<lparr>mi_vectors := map (\<lambda>vec. vec\<lparr>mv_enabled := b\<rparr>) (mi_vectors info)\<rparr>"
  have "vector_addr t (vec\<lparr>mv_enabled := b\<rparr>) = vector_addr t vec" for vec by (simp add: vector_addr_def)
  then have "msix_consistent ?info m'" using d t h m'(2) f by (simp add: msix_consistent_def o_def)
  moreover have "enabled_set ?info = (if b then mv_index ` set (mi_vectors info) else {})"
    unfolding enabled_map by auto
  ultimately show ?thesis using m'(1) t by (auto simp: set_all_vectors_def o_def)
qed

text \<open>
  C36: enabling, disabling, masking and unmasking keep the driver's flags and the mask bits in the device's table in step, change
  the set of enabled vectors exactly as asked, and reject a vector that was not allocated without any effect.
\<close>

theorem vectors_mirrored:
  assumes "msix_consistent info m"
  shows "(\<exists>r info' m'. enable_vector i info m = Some (r, info', m') \<and> msix_consistent info' m' \<and>
      (if i \<in> mv_index ` set (mi_vectors info) then r = None \<and> enabled_set info' = insert i (enabled_set info)
       else r = Some InvalidDevice \<and> info' = info \<and> m' = m)) \<and>
    (\<exists>r info' m'. disable_vector i info m = Some (r, info', m') \<and> msix_consistent info' m' \<and>
      (if i \<in> mv_index ` set (mi_vectors info) then r = None \<and> enabled_set info' = enabled_set info - {i}
       else r = Some InvalidDevice \<and> info' = info \<and> m' = m)) \<and>
    (\<exists>info' m'. mask_all_vectors info m = Some (None, info', m') \<and> msix_consistent info' m' \<and> enabled_set info' = {}) \<and>
    (\<exists>info' m'. unmask_all_vectors info m = Some (None, info', m') \<and> msix_consistent info' m' \<and>
      enabled_set info' = mv_index ` set (mi_vectors info))"
proof (intro conjI)
  show "\<exists>r info' m'. enable_vector i info m = Some (r, info', m') \<and> msix_consistent info' m' \<and>
      (if i \<in> mv_index ` set (mi_vectors info) then r = None \<and> enabled_set info' = insert i (enabled_set info)
       else r = Some InvalidDevice \<and> info' = info \<and> m' = m)"
    using set_vector_ok [OF assms, of entry_unmask True i, simplified is_masked_update] unfolding enable_vector_def if_True simp_thms by blast
  show "\<exists>r info' m'. disable_vector i info m = Some (r, info', m') \<and> msix_consistent info' m' \<and>
      (if i \<in> mv_index ` set (mi_vectors info) then r = None \<and> enabled_set info' = enabled_set info - {i}
       else r = Some InvalidDevice \<and> info' = info \<and> m' = m)"
    using set_vector_ok [OF assms, of entry_mask False i, simplified is_masked_update] unfolding disable_vector_def if_False simp_thms by blast
  show "\<exists>info' m'. mask_all_vectors info m = Some (None, info', m') \<and> msix_consistent info' m' \<and> enabled_set info' = {}"
    using set_all_vectors_ok [OF assms, of entry_mask False] by (auto simp: mask_all_vectors_def is_masked_update)
  show "\<exists>info' m'. unmask_all_vectors info m = Some (None, info', m') \<and> msix_consistent info' m' \<and> enabled_set info' = mv_index ` set (mi_vectors info)"
    using set_all_vectors_ok [OF assms, of entry_unmask True] by (auto simp: unmask_all_vectors_def is_masked_update)
qed


section \<open>Setting up a device\<close>

lemma make_vectors_Some:
  "make_vectors base is = Some vs \<Longrightarrow>
    vs = map (\<lambda>i. \<lparr>mv_index = of_nat i, mv_vector = base + of_nat i, mv_enabled = False\<rparr>) is"
  by (induction "is" arbitrary: vs) (auto simp: bind_eq_Some_conv)

definition fresh_entry :: "u8 \<Rightarrow> msix_table_entry" where
  "fresh_entry vec = \<lparr>message_address_low = 0xFEE00000, message_address_high = 0, message_data = ucast vec, vector_control = 1\<rparr>"

lemma fresh_entry: "entry_mask (set_data (calculate_msi_data v) (set_address (calculate_msi_address 0) msix_entry_new)) = fresh_entry v"
  by (simp add: entry_mask_def set_data_def calculate_msi_data_def set_address_def calculate_msi_address_def msix_entry_new_def
      fresh_entry_def VECTOR_MASKED_def)

lemma write_vectors_eq: "write_vectors t vs m = update_entries (\<lambda>vec _. fresh_entry (mv_vector vec)) t vs m"
  by (induction vs arbitrary: m) (simp_all add: fresh_entry)

lemma update_entries_addr: "update_entries f t vs m = Some m' \<Longrightarrow> \<forall>vec \<in> set vs. vector_addr t vec < usize_bound"
  by (induction vs arbitrary: m) (auto simp: bind_eq_Some_conv entry_addr_def vector_addr_def usize_add_Some_iff)

lemma allocate_vectors_ok:
  assumes "allocate_vectors n base info m = Some (Inr info', m')"
  shows "\<exists>t. mi_table_virtual_addr info' = Some t \<and>
    info' = info\<lparr>mi_vectors := map (\<lambda>i. \<lparr>mv_index = of_nat i, mv_vector = base + of_nat i, mv_enabled = False\<rparr>) [0 ..< unat n]\<rparr> \<and>
    msix_consistent info' m' \<and> (\<forall>i < unat n. read_entry m' (t + i * 16) = fresh_entry (base + of_nat i))"
proof -
  from assms obtain vs t where a: "make_vectors base [0 ..< unat n] = Some vs" "mi_table_virtual_addr info = Some t"
    "write_vectors t vs m = Some m'" "info' = info\<lparr>mi_vectors := vs\<rparr>"
    by (auto simp: allocate_vectors_def Let_def bind_eq_Some_conv split: if_splits option.splits)
  note vs = make_vectors_Some [OF a(1)]
  have n: "unat n < 2 ^ LENGTH(16)" by (rule unsigned_less)
  then have i: "unat (of_nat i :: u16) = i" if "i < unat n" for i using that by (simp add: unsigned_of_nat take_bit_nat_eq_self)
  have d: "distinct (map mv_index vs)"
    unfolding vs by (auto simp: distinct_map o_def inj_on_def dest: arg_cong [where f = unat] simp: i)
  have w: "update_entries (\<lambda>vec _. fresh_entry (mv_vector vec)) t vs m = Some m'" using a(3) by (simp add: write_vectors_eq)
  note b = update_entries_addr [OF w]
  have e: "\<forall>vec \<in> set vs. read_entry m' (vector_addr t vec) = fresh_entry (mv_vector vec)" using update_entries_ok [OF d b, of "\<lambda>vec _. fresh_entry (mv_vector vec)" m] w by auto
  have "is_masked (fresh_entry v)" for v by (simp add: fresh_entry_def is_masked_def VECTOR_MASKED_def)
  then have "msix_consistent info' m'" using a(2,4) d b e vs by (auto simp: msix_consistent_def)
  moreover have "read_entry m' (t + j * 16) = fresh_entry (base + of_nat j)" if "j < unat n" for j
    using bspec [OF e, of "\<lparr>mv_index = of_nat j, mv_vector = base + of_nat j, mv_enabled = False\<rparr>"] that i [OF that] vs by (simp add: vector_addr_def)
  ultimately show ?thesis using a(2,4) vs by auto
qed

text \<open>
  C37: when a device has been set up, the first vectors of its table are programmed with the interrupt numbers asked for, on the
  first processor, all of them masked and recorded as disabled, and MSI-X is switched on in the control register.
\<close>

theorem setup_msix_correct:
  assumes "setup_msix io mm dev n base d v k m = Some (Inr info, d', v', k', m')"
  shows "mi_device info = dev \<and> msix_consistent info m' \<and> enabled_set info = {} \<and>
    mi_vectors info = map (\<lambda>i. \<lparr>mv_index = of_nat i, mv_vector = base + of_nat i, mv_enabled = False\<rparr>) [0 ..< unat n] \<and>
    (\<exists>t. mi_table_virtual_addr info = Some t \<and> (\<forall>i < unat n. read_entry m' (t + i * 16) = fresh_entry (base + of_nat i))) \<and>
    (\<exists>cap control. pd_capabilities dev 0x11 = Some cap \<and>
      read_config_u16 io (pd_ecam_region dev) (pd_bus dev) (pd_device dev) (pd_function dev) (unat cap + 2) d = Some control \<and>
      write_config_u16 io (pd_ecam_region dev) (pd_bus dev) (pd_device dev) (pd_function dev) (unat cap + 2) (control OR 0x8000) d = Some d')"
proof -
  obtain cap info0 info1 m1 where s: "find_capability dev MSI_X = Some cap" "msix_from_device io dev (unat cap) d = Some info0"
    "map_structures mm info0 v k = Some (Inr info1, v', k')" "allocate_vectors n base info1 m1 = Some (Inr info, m')" "msix_enable io info d = Some d'"
    using assms by (auto simp: setup_msix_def Let_def bind_eq_Some_conv case_sum_Some split: option.split_asm)
  have i0: "mi_device info0 = dev" "mi_cap_offset info0 = unat cap" using s(2) by (auto simp: msix_from_device_def bind_eq_Some_conv)
  have i1: "mi_device info1 = dev" "mi_cap_offset info1 = unat cap"
    using s(3) i0 by (auto simp: map_structures_def Let_def bind_eq_Some_conv case_sum_Some)
  note av = allocate_vectors_ok [OF s(4)]
  then have i2: "mi_device info = dev" "mi_cap_offset info = unat cap" using i1 by auto
  have "enabled_set info = {}" using av by (auto simp: enabled_set_def)
  moreover have "pd_capabilities dev 0x11 = Some cap" using s(1) by (simp add: find_capability_def MSI_X_def)
  ultimately show ?thesis using av i2 s(5)
    by (auto simp: msix_enable_def update_control_def Let_def bind_eq_Some_conv MESSAGE_CONTROL_def MSI_X_ENABLE_def)
qed


section \<open>Witnesses\<close>

definition demo_device :: pci_device where
  "demo_device = \<lparr>pd_ecam_region = demo_region, pd_bus = 0, pd_device = 0, pd_function = 0, pd_vendor_id = 0x1B36, pd_device_id = 0,
     pd_class_code = 0x0C, pd_subclass = 0x03, pd_prog_if = 0, pd_revision_id = 0, pd_header_type = Normal, pd_subsystem_vendor_id = 0,
     pd_subsystem_id = 0,
     pd_bars = [Memory \<lparr>bar_address = 0xFEBC0000, bar_size = 8192, bar_prefetchable = False, bar_is_64bit = False\<rparr>, Unused, Unused, Unused, Unused, Unused],
     pd_capabilities = [0x11 \<mapsto> 0x40], pd_interrupt_line = 0, pd_interrupt_pin = 0\<rparr>"

definition demo_info :: msix_info where
  "demo_info = \<lparr>mi_device = demo_device, mi_cap_offset = 0x40, mi_table_size = 3, mi_table_bar = 0, mi_table_offset = 0, mi_pba_bar = 0, mi_pba_offset = 0,
     mi_table_virtual_addr = Some 0x2000, mi_pba_virtual_addr = Some 0x1000,
     mi_vectors = [\<lparr>mv_index = 0, mv_vector = 0x50, mv_enabled = False\<rparr>, \<lparr>mv_index = 1, mv_vector = 0x51, mv_enabled = False\<rparr>], mi_mapped_bars = []\<rparr>"

theorem vectors_mirrored_witness:
  "\<exists>info' m'. unmask_all_vectors demo_info (\<lambda>_. 1) = Some (None, info', m') \<and> msix_consistent info' m' \<and> enabled_set info' = {0, 1}"
proof -
  have "is_masked (read_entry (\<lambda>_. 1) a)" for a
    by (simp add: masked_bit read_entry_def decode_entry_def drop_get_bytes get_bytes_def upt_conv_Cons of_le_def del: bit_0)
  then have "msix_consistent demo_info (\<lambda>_. 1)"
    by (simp add: msix_consistent_def demo_info_def vector_addr_def usize_bound_def)
  from vectors_mirrored [OF this, of 0] show ?thesis by (simp add: demo_info_def insert_commute)
qed

lemma demo_map_bar:
  "\<exists>st v k. map_bar bump_mm vmm_new \<lparr>bar_address = 0xFEBC0000, bar_size = 8192, bar_prefetchable = False, bar_is_64bit = False\<rparr> (Map.empty, 0) =
     Some (Inr \<lparr>mb_virtual_address = page_addr st, mb_physical_address = 0xFEBC0000, mb_size = 8192, mb_prefetchable = False\<rparr>, v, k) \<and> st < PCIE_VMM_PAGES"
proof -
  from map_empty obtain bar v k where m: "map_memory_bar bump_mm vmm_new 0xFEBC0000 8192 False (Map.empty, 0) = Some (Inr bar, v, k)" by (elim exE)
  obtain st where "bar = \<lparr>mb_virtual_address = page_addr st, mb_physical_address = 0xFEBC0000, mb_size = 8192, mb_prefetchable = False\<rparr>"
    "st + pages_of 8192 \<le> PCIE_VMM_PAGES"
    using map_memory_bar_ok [OF bump_mm_spec vmm_new_ok, of 8192 "0xFEBC0000" False "(Map.empty, 0)"] m by auto
  then show ?thesis using m pages_of_bounds(3) [of 8192] by (auto simp: map_bar_def)
qed

theorem setup_msix_correct_witness:
  "\<exists>info d v k m t. setup_msix demo_io bump_mm demo_device 1 0x50 demo_bars vmm_new (Map.empty, 0) (\<lambda>_. 0) = Some (Inr info, d, v, k, m) \<and>
     mi_table_virtual_addr info = Some t \<and> read_entry m t = fresh_entry 0x50"
proof -
  note rd = config_access_ok [OF demo_region_ok demo_valid0]
  from demo_map_bar obtain st v k where mb: "map_bar bump_mm vmm_new \<lparr>bar_address = 0xFEBC0000, bar_size = 8192, bar_prefetchable = False, bar_is_64bit = False\<rparr> (Map.empty, 0) =
     Some (Inr \<lparr>mb_virtual_address = page_addr st, mb_physical_address = 0xFEBC0000, mb_size = 8192, mb_prefetchable = False\<rparr>, v, k)" "st < PCIE_VMM_PAGES"
    by (elim exE conjE)
  have "page_addr st < usize_bound" using page_addr_ok(2) [OF mb(2)] .
  then have "\<exists>info d m. setup_msix demo_io bump_mm demo_device 1 0x50 demo_bars vmm_new (Map.empty, 0) (\<lambda>_. 0) = Some (Inr info, d, v, k, m)"
    using mb(1)
    by (simp add: setup_msix_def demo_device_def find_capability_def MSI_X_def msix_from_device_def rd MESSAGE_CONTROL_def TABLE_OFFSET_BIR_def
        PBA_OFFSET_BIR_def demo_reg demo_io_def demo_byte_def map_structures_def Let_def locate_structure_def find_bar_virtual_address_def
        TABLE_SIZE_MASK_def allocate_vectors_def entry_addr_def msix_enable_def update_control_def)
  then obtain info d m where s: "setup_msix demo_io bump_mm demo_device 1 0x50 demo_bars vmm_new (Map.empty, 0) (\<lambda>_. 0) = Some (Inr info, d, v, k, m)"
    by (elim exE)
  from setup_msix_correct [OF s] s show ?thesis by fastforce
qed

end
