(* ===== verification/Pci.thy ===== *)
theory Pci
  imports Pci_Enum Msi
begin

text \<open>
  \<^verbatim>\<open>kernel/src/pci.rs\<close>: the manager that owns the regions and the devices, and the start-up of the whole PCIe subsystem, in which
  the table, the mapping of the regions and the enumeration meet.
\<close>

section \<open>The code\<close>

record pci_manager =
  pm_devices :: "pci_device list"
  pm_ecam_regions :: "ecam_region list"
  pm_msix_devices :: "msix_info list"

definition pci_manager_new :: pci_manager where
  "pci_manager_new = \<lparr>pm_devices = [], pm_ecam_regions = [], pm_msix_devices = []\<rparr>"

definition find_device :: "pci_manager \<Rightarrow> u16 \<Rightarrow> u16 \<Rightarrow> pci_device option" where
  "find_device pm vendor_id device_id = List.find (\<lambda>dev. pd_vendor_id dev = vendor_id \<and> pd_device_id dev = device_id) (pm_devices pm)"

definition get_devices_by_class :: "pci_manager \<Rightarrow> u8 \<Rightarrow> pci_device list" where
  "get_devices_by_class pm class_code = filter (\<lambda>dev. pd_class_code dev = class_code) (pm_devices pm)"

definition find_msix_device :: "pci_manager \<Rightarrow> u8 \<Rightarrow> u8 \<Rightarrow> u8 \<Rightarrow> msix_info option" where
  "find_msix_device pm bus device function = List.find (\<lambda>msix. pd_bus (mi_device msix) = bus \<and> pd_device (mi_device msix) = device \<and>
     pd_function (mi_device msix) = function) (pm_msix_devices pm)"

text \<open>The search of the drivers for the first memory BAR of their device.\<close>

definition first_memory_bar :: "bar_info list \<Rightarrow> memory_bar option" where
  "first_memory_bar bars = (case List.find (\<lambda>b. \<exists>mb. b = Memory mb) bars of Some (Memory mb) \<Rightarrow> Some mb | _ \<Rightarrow> None)"

text \<open>
  The two counters of \<^verbatim>\<open>check_bar_assignment\<close> go to the log only; what can affect the caller is the call of \<^verbatim>\<open>get_stats\<close>.
\<close>

definition bar_assigned :: "bar_info \<Rightarrow> nat" where
  "bar_assigned b = (case b of
     Memory mb \<Rightarrow> if bar_address mb = 0 then 0 else if bar_size mb = 0 then 0 else 1
   | Io ib \<Rightarrow> if io_address ib = 0 then 0 else 1
   | Unused \<Rightarrow> 0)"

definition bar_unassigned :: "bar_info \<Rightarrow> nat" where
  "bar_unassigned b = (case b of
     Memory mb \<Rightarrow> if bar_address mb = 0 then 1 else 0
   | Io ib \<Rightarrow> if io_address ib = 0 then 1 else 0
   | Unused \<Rightarrow> 0)"

definition check_bar_assignment :: "pcie_vmm \<Rightarrow> pci_manager \<Rightarrow> (nat \<times> nat) rust" where
  "check_bar_assignment v pm = do {
     let bars = concat (map pd_bars (pm_devices pm));
     let assigned_count = sum_list (map bar_assigned bars);
     let unassigned_count = sum_list (map bar_unassigned bars);
     stats \<leftarrow> get_stats v;
     Some (assigned_count, unassigned_count)
   }"

fun map_ecam_regions :: "'k mm \<Rightarrow> ecam_region list \<Rightarrow> addr \<Rightarrow> 'k \<Rightarrow> ((pci_error + ecam_region list) \<times> addr \<times> 'k) rust" where
  "map_ecam_regions mm [] next_virt k = Some (Inr [], next_virt, k)"
| "map_ecam_regions mm (r # rs) next_virt k = do {
     (e, r, next_virt, k) \<leftarrow> map_ecam_region mm r next_virt k;
     case e of
       Some e \<Rightarrow> Some (Inl e, next_virt, k)
     | None \<Rightarrow> do {
         (x, next_virt, k) \<leftarrow> map_ecam_regions mm rs next_virt k;
         Some (map_sum id ((#) r) x, next_virt, k)
       }
   }"

definition pci_manager_init ::
  "'d cfg_io \<Rightarrow> 'k mm \<Rightarrow> (addr \<Rightarrow> mcfg_entry list option) \<Rightarrow> addr \<Rightarrow> pci_manager \<Rightarrow> pcie_vmm \<Rightarrow> addr \<Rightarrow> 'd \<Rightarrow> 'k \<Rightarrow>
    ((pci_error + pci_manager) \<times> addr \<times> 'd \<times> 'k) rust" where
  "pci_manager_init io mm tables rsdp_addr pm v next_virt d k = do {
     x \<leftarrow> parse_mcfg_table tables rsdp_addr;
     case x of
       Inl e \<Rightarrow> Some (Inl e, next_virt, d, k)
     | Inr regions \<Rightarrow> do {
         total_size \<leftarrow> calculate_total_ecam_size regions;
         (x, next_virt, k) \<leftarrow> map_ecam_regions mm regions next_virt k;
         case x of
           Inl e \<Rightarrow> Some (Inl e, next_virt, d, k)
         | Inr regions \<Rightarrow> do {
             (x, d) \<leftarrow> enumerate_devices io regions (pm_devices pm) d;
             case x of
               Inl e \<Rightarrow> Some (Inl e, next_virt, d, k)
             | Inr devices \<Rightarrow> do {
                 let pm = pm\<lparr>pm_ecam_regions := regions, pm_devices := devices\<rparr>;
                 counts \<leftarrow> check_bar_assignment v pm;
                 Some (Inr pm, next_virt, d, k)
               }
           }
       }
   }"

text \<open>\<open>pci\<close> is the global \<^verbatim>\<open>PCI_MANAGER\<close>.\<close>

definition init_pci ::
  "'d cfg_io \<Rightarrow> 'k mm \<Rightarrow> (addr \<Rightarrow> mcfg_entry list option) \<Rightarrow> addr \<Rightarrow> pcie_vmm \<Rightarrow> pci_manager option \<Rightarrow> addr \<Rightarrow> 'd \<Rightarrow> 'k \<Rightarrow>
    (pci_error option \<times> pci_manager option \<times> addr \<times> 'd \<times> 'k) rust" where
  "init_pci io mm tables rsdp_addr v pci next_virt d k = do {
     (x, next_virt, d, k) \<leftarrow> pci_manager_init io mm tables rsdp_addr pci_manager_new v next_virt d k;
     case x of
       Inl e \<Rightarrow> Some (Some e, pci, next_virt, d, k)
     | Inr pm \<Rightarrow> Some (None, Some pm, next_virt, d, k)
   }"

section \<open>Mapping all regions\<close>

text \<open>Where the regions of the table come to lie.\<close>

fun place :: "addr \<Rightarrow> ecam_region list \<Rightarrow> ecam_region list" where
  "place nv [] = []"
| "place nv (r # rs) = r\<lparr>er_virtual_address := nv\<rparr> # place (nv + mapping_size r) rs"

definition parsed_ok :: "ecam_region \<Rightarrow> bool" where
  "parsed_ok r \<longleftrightarrow> er_start_bus r \<le> er_end_bus r \<and> er_base_address r + mapping_size r \<le> 2 ^ 52"

lemma mapping_size_va [simp]: "mapping_size (r\<lparr>er_virtual_address := va\<rparr>) = mapping_size r"
  by (simp add: mapping_size_def)

lemma mapping_size_le: "mapping_size r \<le> 2 ^ 28"
  using mapping_size_pages [of r] by (cases "er_start_bus r \<le> er_end_bus r") (auto simp: mapping_size_def)

lemma place_bounds:
  assumes "s \<in> set (place nv rs)"
  shows "nv \<le> er_virtual_address s" and "er_virtual_address s + mapping_size s \<le> nv + sum_list (map mapping_size rs)"
  using assms
proof (induction nv rs rule: place.induct)
  case (2 nv r rs)
  { case 1
    then show ?case using 2 by (auto dest: le_trans [rotated] intro: order_trans [OF le_add1])
  next
    case 2
    then show ?case using "2.IH" by auto
  }
qed simp_all

lemma length_place [simp]: "length (place nv rs) = length rs"
  by (induction nv rs rule: place.induct) simp_all

lemma place_buses: "\<forall>r \<in> set rs. parsed_ok r \<Longrightarrow> s \<in> set (place nv rs) \<Longrightarrow> er_start_bus s \<le> er_end_bus s"
  by (induction nv rs rule: place.induct) (auto simp: parsed_ok_def)

lemma place_disjoint:
  "i < j \<Longrightarrow> j < length (place nv rs) \<Longrightarrow> region_pages (place nv rs ! i) \<inter> region_pages (place nv rs ! j) = {}"
proof (induction nv rs arbitrary: i j rule: place.induct)
  case (2 nv r rs)
  show ?case
  proof (cases i)
    case 0
    then have "place nv (r # rs) ! j \<in> set (place (nv + mapping_size r) rs)" using 2 by (cases j) auto
    from place_bounds(1) [OF this] show ?thesis using 0 by (auto simp: region_pages_def)
  next
    case (Suc n)
    then show ?thesis using 2 by (cases j) auto
  qed
qed simp


lemma map_ecam_regions_ok:
  assumes sp: "mapper_spec mm xlate"
  shows "2 ^ 64 - 2 ^ 47 \<le> nv \<Longrightarrow> nv mod 4096 = 0 \<Longrightarrow> nv + sum_list (map mapping_size rs) < 2 ^ 64 \<Longrightarrow> \<forall>r \<in> set rs. parsed_ok r \<Longrightarrow>
    \<exists>x nv' k'. map_ecam_regions mm rs nv k = Some (x, nv', k') \<and> (\<forall>q < nv. xlate k' q = xlate k q) \<and>
      (case x of Inl e \<Rightarrow> e = EcamMappingFailed
       | Inr rs' \<Rightarrow> rs' = place nv rs \<and> nv' = nv + sum_list (map mapping_size rs) \<and> (\<forall>r \<in> set rs'. region_mapped xlate r k'))"
proof (induction rs arbitrary: nv k)
  case (Cons r rs)
  have r: "er_start_bus r \<le> er_end_bus r" "er_base_address r + mapping_size r \<le> 2 ^ 52" using Cons.prems(4) by (auto simp: parsed_ok_def)
  note ms = mapping_size_pages [OF r(1)]
  let ?r = "r\<lparr>er_virtual_address := nv\<rparr>" and ?nv = "nv + mapping_size r"
  from map_ecam_region_ok [OF sp r Cons.prems(1,2), of k] Cons.prems(3) obtain e k1 where
    m: "map_ecam_region mm r nv k = Some (e, ?r, ?nv, k1)" "\<forall>q. q \<notin> {nv ..< ?nv} \<longrightarrow> xlate k1 q = xlate k q"
      "if e = None then region_mapped xlate ?r k1 else e = Some EcamMappingFailed" by auto
  show ?case
  proof (cases e)
    case (Some e')
    then show ?thesis using m by auto
  next
    case None
    have "?nv mod 4096 = 0" using Cons.prems(2) ms(1) by (metis mod_0 mod_add_eq mod_mult_self2_is_0 add_0)
    then obtain x nv' k' where ih: "map_ecam_regions mm rs ?nv k1 = Some (x, nv', k')" "\<forall>q < ?nv. xlate k' q = xlate k1 q"
      "case x of Inl e \<Rightarrow> e = EcamMappingFailed
       | Inr rs' \<Rightarrow> rs' = place ?nv rs \<and> nv' = ?nv + sum_list (map mapping_size rs) \<and> (\<forall>r \<in> set rs'. region_mapped xlate r k')"
      using Cons.IH [of ?nv k1] Cons.prems by auto
    have "nv + i * 4096 < ?nv" if "i < mapping_size r div 4096" for i
      using that ms(1) by (metis add_less_cancel_left mult_less_cancel2 zero_less_numeral)
    then have "region_mapped xlate ?r k'" using m(3) None ih(2) by (auto simp: region_mapped_def)
    then show ?thesis using m None ih by (cases x) (auto simp: add.assoc)
  qed
qed simp

lemma parse_entries_ok:
  assumes "\<forall>e \<in> set es. me_base_address e + 2 ^ 28 \<le> 2 ^ 52"
  shows "\<exists>rs. parse_mcfg_entries es = Some rs \<and> length rs \<le> length es \<and> (\<forall>r \<in> set rs. parsed_ok r \<and> er_base_address r \<noteq> 0)"
  using assms
proof (induction es)
  case (Cons e es)
  then obtain rs where rs: "parse_mcfg_entries es = Some rs" "length rs \<le> length es" "\<forall>r \<in> set rs. parsed_ok r \<and> er_base_address r \<noteq> 0" by auto
  let ?r = "\<lparr>er_base_address = me_base_address e, er_virtual_address = 0, er_segment_group = me_pci_segment_group e,
      er_start_bus = me_bus_number_start e, er_end_bus = me_bus_number_end e\<rparr>"
  have "phys_addr_new (me_base_address e) = Some (me_base_address e)" using Cons.prems by (simp add: phys_addr_new_def)
  moreover have "parsed_ok ?r" if "\<not> me_bus_number_end e < me_bus_number_start e"
    using that Cons.prems mapping_size_le [of ?r] by (simp add: parsed_ok_def not_less)
  ultimately show ?case using rs by (auto simp: not_less)
qed simp

lemma total_size_ok: "sum_list (map mapping_size rs) < usize_bound \<Longrightarrow> calculate_total_ecam_size rs = Some (sum_list (map mapping_size rs))"
  by (induction rs) (auto simp: ecam_size_def)

lemma sizes_le: "sum_list (map mapping_size rs) \<le> length rs * 2 ^ 28"
  using mapping_size_le by (induction rs) (auto intro: add_mono)

text \<open>
  C32: starting the subsystem on a table of usable entries never stops the kernel: it reports that a region cannot be mapped, or every
  region is mapped page by page to its physical range, in windows that do not overlap, and the manager holds exactly the
  functions that respond in them, each described by its registers, while the devices are left as they were.
\<close>

theorem init_pci_correct:
  assumes sp: "mapper_spec mm xlate" and v: "vmm_ok v" and t: "tables rsdp = Some es" "length es \<le> 32768"
    and es: "\<forall>e \<in> set es. me_base_address e + 2 ^ 28 \<le> 2 ^ 52" and rs: "parse_mcfg_entries es = Some rs"
    and io: "bar_spec io good B wm fx" "good d"
    and f: "\<forall>r \<in> set (place ECAM_VIRTUAL_START rs). \<forall>f. valid_function r f \<longrightarrow> function_ok io B wm fx d r f"
  shows "\<exists>e pci' nv k'. init_pci io mm tables rsdp v pci ECAM_VIRTUAL_START d k = Some (e, pci', nv, d, k') \<and>
    (e = Some EcamMappingFailed \<and> pci' = pci \<or>
     e = None \<and> (\<exists>pm. pci' = Some pm \<and> pm_ecam_regions pm = place ECAM_VIRTUAL_START rs \<and> (\<forall>r \<in> set (pm_ecam_regions pm). region_mapped xlate r k') \<and>
       (\<forall>j < length rs. \<forall>i < j. region_pages (pm_ecam_regions pm ! i) \<inter> region_pages (pm_ecam_regions pm ! j) = {}) \<and>
       map pd_location (pm_devices pm) = concat (map (region_functions io d) (pm_ecam_regions pm)) \<and>
       (\<forall>dev \<in> set (pm_devices pm). describes io B wm fx d dev)))"
proof -
  have p: "length rs \<le> length es" "\<forall>r \<in> set rs. parsed_ok r" using parse_entries_ok [OF es] rs by auto
  let ?n = "sum_list (map mapping_size rs)"
  have "length rs * 2 ^ 28 \<le> 32768 * 2 ^ 28" using p(1) t(2) by simp
  then have n: "?n \<le> 2 ^ 43" using sizes_le [of rs] by simp
  then have tot: "calculate_total_ecam_size rs = Some ?n" by (intro total_size_ok) (simp add: usize_bound_def)
  have b: "2 ^ 64 - 2 ^ 47 \<le> ECAM_VIRTUAL_START" "ECAM_VIRTUAL_START mod 4096 = 0" "ECAM_VIRTUAL_START + ?n < 2 ^ 64"
    using n by (simp_all add: ECAM_VIRTUAL_START_def)
  from map_ecam_regions_ok [OF sp b p(2), of k] obtain x nv k' where m: "map_ecam_regions mm rs ECAM_VIRTUAL_START k = Some (x, nv, k')"
    "case x of Inl e \<Rightarrow> e = EcamMappingFailed
     | Inr rs' \<Rightarrow> rs' = place ECAM_VIRTUAL_START rs \<and> nv = ECAM_VIRTUAL_START + ?n \<and> (\<forall>r \<in> set rs'. region_mapped xlate r k')" by blast
  show ?thesis
  proof (cases x)
    case (Inl e)
    then show ?thesis using m t(1) rs tot by (simp add: init_pci_def pci_manager_init_def parse_mcfg_table_def)
  next
    case (Inr rs')
    have "region_ok r" if "r \<in> set (place ECAM_VIRTUAL_START rs)" for r
      using place_buses [OF p(2) that] place_bounds [OF that] b by (simp add: region_ok_def)
    then have "\<forall>r \<in> set (place ECAM_VIRTUAL_START rs). region_ok r \<and> (\<forall>f. valid_function r f \<longrightarrow> function_ok io B wm fx d r f)" using f by blast
    from finds_regions [OF io this] obtain devices where e: "enumerate_devices io (place ECAM_VIRTUAL_START rs) [] d = Some (Inr devices, d)"
      "map pd_location devices = concat (map (region_functions io d) (place ECAM_VIRTUAL_START rs))" "\<forall>dev \<in> set devices. describes io B wm fx d dev"
      unfolding finds_def by (metis append_Nil)
    obtain st where "get_stats v = Some st" using get_stats_correct [OF v] by blast
    then have "init_pci io mm tables rsdp v pci ECAM_VIRTUAL_START d k =
        Some (None, Some (pci_manager_new\<lparr>pm_ecam_regions := place ECAM_VIRTUAL_START rs, pm_devices := devices\<rparr>), nv, d, k')"
      using m Inr t(1) rs tot e(1) by (simp add: init_pci_def pci_manager_init_def parse_mcfg_table_def check_bar_assignment_def pci_manager_new_def Let_def)
    then show ?thesis using m(2) Inr e(2,3) place_disjoint [of _ _ ECAM_VIRTUAL_START rs] by (auto simp: pci_manager_new_def)
  qed
qed


section \<open>Witnesses\<close>

theorem init_pci_correct_witness:
  "\<exists>e pci' nv k'. init_pci demo_io bump_mm (\<lambda>_. Some [\<lparr>me_base_address = 0xB0000000, me_pci_segment_group = 0, me_bus_number_start = 0, me_bus_number_end = 0\<rparr>])
     0 vmm_new None ECAM_VIRTUAL_START demo_bars (Map.empty, 0) = Some (e, pci', nv, demo_bars, k') \<and> (e = None \<longrightarrow> pci' \<noteq> None)"
proof -
  let ?es = "[\<lparr>me_base_address = 0xB0000000, me_pci_segment_group = 0, me_bus_number_start = 0, me_bus_number_end = 0\<rparr>]"
  let ?r = "\<lparr>er_base_address = 0xB0000000, er_virtual_address = 0, er_segment_group = 0, er_start_bus = 0, er_end_bus = 0\<rparr>"
  have p: "parse_mcfg_entries ?es = Some [?r]" by (simp add: phys_addr_new_def)
  have "place ECAM_VIRTUAL_START [?r] = [demo_region]" by (simp add: demo_region_def)
  then show ?thesis
    using init_pci_correct [OF bump_mm_spec vmm_new_ok, of "\<lambda>_. Some ?es" 0 ?es "[?r]", OF _ _ _ p demo_spec, OF _ _ _ demo_bars_good, of None "(Map.empty, 0)"]
      demo_function_ok by auto
qed

end
