(* ===== verification/Nvme_Controller.thy ===== *)
theory Nvme_Controller
  imports Nvme_Queue Pci Scheduler
begin

text \<open>
  \<^verbatim>\<open>NvmeController\<close> of \<^verbatim>\<open>kernel/src/pci/nvme/controller.rs\<close>: bringing up a controller, the admin commands, and reading and
  writing blocks.  The driver works on a machine that other code changes too: what the controller and other tasks do between the call of
  \<^verbatim>\<open>kyield_task\<close> and its return is the parameter \<open>ne_yield\<close> (the switch itself is in \<open>Scheduler\<close>), and what a load or store of a
  register does is \<open>ne_load\<close> and \<open>ne_store\<close>, over an abstract state \<open>'d\<close> of the controller.
\<close>

section \<open>The machine\<close>

datatype nvme_store = StoreCc u32 | StoreAqa u32 | StoreAsq u64 | StoreAcq u64 | StoreDoorbell nat u32

record ('c, 'k, 'd) nvme_machine =
  nm_cfg :: 'c
  nm_vmm :: pcie_vmm
  nm_paging :: 'k
  nm_table :: ram
  nm_pool :: "dma_manager option"
  nm_dma :: dma_state
  nm_dev :: 'd

record ('c, 'k, 'd) nvme_env =
  ne_cfg :: "'c cfg_io"
  ne_mm :: "'k mm"
  ne_load :: "'d \<Rightarrow> nvme_registers \<times> 'd"
  ne_store :: "nvme_store \<Rightarrow> 'd \<Rightarrow> 'd"
  ne_yield :: "u8 \<Rightarrow> ('c, 'k, 'd) nvme_machine \<Rightarrow> ('c, 'k, 'd) nvme_machine"

definition NVME_VECTOR_BASE :: u8 where "NVME_VECTOR_BASE = 0x50"
definition NVME_ADMIN_VECTOR :: u8 where "NVME_ADMIN_VECTOR = NVME_VECTOR_BASE"
definition NVME_IO_VECTOR :: u8 where "NVME_IO_VECTOR = NVME_VECTOR_BASE + 1"
definition NVME_VECTOR_NUM :: u16 where "NVME_VECTOR_NUM = 2"

text \<open>The interrupt handlers wake the tasks that wait for the vector.\<close>

definition handle_admin_interrupt :: "'s kernel \<Rightarrow> 's kernel" where
  "handle_admin_interrupt s = wake_tasks NVME_ADMIN_VECTOR s"

definition handle_io_interrupt :: "'s kernel \<Rightarrow> 's kernel" where
  "handle_io_interrupt s = wake_tasks NVME_IO_VECTOR s"

record nvme_namespace =
  ns_nsid :: u32
  ns_size_blocks :: u64
  ns_block_size :: u32
  ns_capacity_blocks :: u64

record nvme_controller =
  ct_pci_device :: pci_device
  ct_registers :: addr
  ct_admin_queue :: nvme_queue
  ct_io_queue :: "nvme_queue option"
  ct_next_command_id :: u16
  ct_namespaces :: "nvme_namespace list"
  ct_max_queue_entries :: u16
  ct_doorbell_stride :: u32
  ct_msix_info :: "msix_info option"

section \<open>Bringing the controller up\<close>

definition nvme_load :: "('c, 'k, 'd) nvme_env \<Rightarrow> ('c, 'k, 'd) nvme_machine \<Rightarrow> nvme_registers \<times> ('c, 'k, 'd) nvme_machine" where
  "nvme_load env m = (case ne_load env (nm_dev m) of (r, d) \<Rightarrow> (r, m\<lparr>nm_dev := d\<rparr>))"

definition nvme_store :: "('c, 'k, 'd) nvme_env \<Rightarrow> nvme_store \<Rightarrow> ('c, 'k, 'd) nvme_machine \<Rightarrow> ('c, 'k, 'd) nvme_machine" where
  "nvme_store env s m = m\<lparr>nm_dev := ne_store env s (nm_dev m)\<rparr>"

definition nvme_setup_msix ::
  "('c, 'k, 'd) nvme_env \<Rightarrow> nvme_controller \<Rightarrow> ('c, 'k, 'd) nvme_machine \<Rightarrow> (nvme_error option \<times> nvme_controller \<times> ('c, 'k, 'd) nvme_machine) rust" where
  "nvme_setup_msix env c m = do {
     (x, cfg, v, k, t) \<leftarrow> setup_msix (ne_cfg env) (ne_mm env) (ct_pci_device c) NVME_VECTOR_NUM NVME_VECTOR_BASE
       (nm_cfg m) (nm_vmm m) (nm_paging m) (nm_table m);
     let m = m\<lparr>nm_cfg := cfg, nm_vmm := v, nm_paging := k, nm_table := t\<rparr>;
     case x of
       Inl e \<Rightarrow> Some (Some NvmePciError, c, m)
     | Inr info \<Rightarrow> do {
         (e, info, t) \<leftarrow> enable_vector 0 info (nm_table m);
         let m = m\<lparr>nm_table := t\<rparr>;
         case e of
           Some e \<Rightarrow> Some (Some NvmePciError, c, m)
         | None \<Rightarrow> do {
             (e, info, t) \<leftarrow> enable_vector 1 info (nm_table m);
             let m = m\<lparr>nm_table := t\<rparr>;
             case e of
               Some e \<Rightarrow> Some (Some NvmePciError, c, m)
             | None \<Rightarrow> Some (None, c\<lparr>ct_msix_info := Some info\<rparr>, m)
           }
       }
   }"

text \<open>The two busy-waiting loops, with the number of rounds as the first argument.\<close>

fun wait_not_ready :: "nat \<Rightarrow> ('c, 'k, 'd) nvme_env \<Rightarrow> ('c, 'k, 'd) nvme_machine \<Rightarrow> ('c, 'k, 'd) nvme_machine" where
  "wait_not_ready 0 env m = m"
| "wait_not_ready (Suc n) env m = (case nvme_load env m of (r, m) \<Rightarrow> if \<not> is_ready r then m else wait_not_ready n env m)"

fun wait_ready :: "nat \<Rightarrow> ('c, 'k, 'd) nvme_env \<Rightarrow> ('c, 'k, 'd) nvme_machine \<Rightarrow> bool \<times> ('c, 'k, 'd) nvme_machine" where
  "wait_ready 0 env m = (False, m)"
| "wait_ready (Suc n) env m = (case nvme_load env m of (r, m) \<Rightarrow> if is_ready r then (True, m) else wait_ready n env m)"

definition nvme_reset_controller ::
  "('c, 'k, 'd) nvme_env \<Rightarrow> ('c, 'k, 'd) nvme_machine \<Rightarrow> nvme_error option \<times> ('c, 'k, 'd) nvme_machine" where
  "nvme_reset_controller env m = (
     let (r, m) = nvme_load env m;
       m = nvme_store env (StoreCc (nr_cc (nvme_disable r))) m;
       m = wait_not_ready 100000 env m;
       (r, m) = nvme_load env m
     in if is_ready r then (Some ControllerResetTimeout, m) else (None, m))"

text \<open>
  The next two functions store registers without loading any; the operations on the register file are only used for the values
  that they put into their fields, which do not depend on it.
\<close>

definition setup_admin_queues ::
  "('c, 'k, 'd) nvme_env \<Rightarrow> nvme_controller \<Rightarrow> ('c, 'k, 'd) nvme_machine \<Rightarrow> ('c, 'k, 'd) nvme_machine rust" where
  "setup_admin_queues env c m = do {
     allocator \<leftarrow> fst (nm_dma m);
     sq_phys \<leftarrow> usize_sub (nq_sq_entries (ct_admin_queue c)) (fo_hddm_offset (fst allocator));
     sq_phys \<leftarrow> phys_addr_new sq_phys;
     cq_phys \<leftarrow> usize_sub (nq_cq_entries (ct_admin_queue c)) (fo_hddm_offset (fst allocator));
     cq_phys \<leftarrow> phys_addr_new cq_phys;
     r \<leftarrow> set_admin_queue_attributes (nq_size (ct_admin_queue c)) (nq_size (ct_admin_queue c)) (fst (nvme_load env m));
     let m = nvme_store env (StoreAqa (nr_aqa r)) m;
     let m = nvme_store env (StoreAsq (nr_asq (set_admin_sq_base (of_nat sq_phys) r))) m;
     let m = nvme_store env (StoreAcq (nr_acq (set_admin_cq_base (of_nat cq_phys) r))) m;
     Some m
   }"

definition enable_controller ::
  "('c, 'k, 'd) nvme_env \<Rightarrow> ('c, 'k, 'd) nvme_machine \<Rightarrow> nvme_error option \<times> ('c, 'k, 'd) nvme_machine" where
  "enable_controller env m = (
     let m = nvme_store env (StoreCc (nr_cc (nvme_configure (fst (nvme_load env m))))) m;
       (ok, m) = wait_ready 100000 env m
     in if ok then (None, m) else (Some ControllerEnableTimeout, m))"

section \<open>Commands\<close>

text \<open>
  \<^verbatim>\<open>submit_admin_command\<close> and \<^verbatim>\<open>submit_io_command\<close> have the same steps on their queues: \<open>submit_on\<close> takes the queue with the number
  of its doorbell and its interrupt vector.  The index of the doorbell is below 4, so it is always in the array.
\<close>

definition submit_on ::
  "('c, 'k, 'd) nvme_env \<Rightarrow> u16 \<Rightarrow> u8 \<Rightarrow> nvme_command \<Rightarrow> nvme_queue \<Rightarrow> ('c, 'k, 'd) nvme_machine \<Rightarrow>
    ((nvme_error + nvme_completion) \<times> nvme_queue \<times> ('c, 'k, 'd) nvme_machine) rust" where
  "submit_on env queue_id vector cmd q m = do {
     (x, q, ram) \<leftarrow> submit_command cmd q (snd (nm_dma m));
     let m = m\<lparr>nm_dma := (fst (nm_dma m), ram)\<rparr>;
     case x of
       Inl e \<Rightarrow> Some (Inl e, q, m)
     | Inr cid \<Rightarrow> do {
         let m = nvme_store env (StoreDoorbell (unat queue_id * 2) (ucast (nq_sq_tail q))) m;
         let m = ne_yield env vector m;
         (r, q) \<leftarrow> check_completion q (snd (nm_dma m));
         case r of
           None \<Rightarrow> Some (Inl CommandNotCompleted, q, m)
         | Some completion \<Rightarrow>
             if \<not> is_success completion then Some (Inl (CommandFailed (status_code completion)), q, m)
             else Some (Inr completion, q, m)
       }
   }"

definition submit_admin_command ::
  "('c, 'k, 'd) nvme_env \<Rightarrow> nvme_command \<Rightarrow> nvme_controller \<Rightarrow> ('c, 'k, 'd) nvme_machine \<Rightarrow>
    ((nvme_error + nvme_completion) \<times> nvme_controller \<times> ('c, 'k, 'd) nvme_machine) rust" where
  "submit_admin_command env cmd c m = do {
     (x, q, m) \<leftarrow> submit_on env 0 NVME_ADMIN_VECTOR cmd (ct_admin_queue c) m;
     Some (x, c\<lparr>ct_admin_queue := q\<rparr>, m)
   }"

definition submit_io_command ::
  "('c, 'k, 'd) nvme_env \<Rightarrow> nvme_command \<Rightarrow> nvme_controller \<Rightarrow> ('c, 'k, 'd) nvme_machine \<Rightarrow>
    ((nvme_error + nvme_completion) \<times> nvme_controller \<times> ('c, 'k, 'd) nvme_machine) rust" where
  "submit_io_command env cmd c m = (case ct_io_queue c of
     None \<Rightarrow> Some (Inl NoIoQueue, c, m)
   | Some q \<Rightarrow> do {
       (x, q, m) \<leftarrow> submit_on env 1 NVME_IO_VECTOR cmd q m;
       Some (x, c\<lparr>ct_io_queue := Some q\<rparr>, m)
     })"

text \<open>The strings that are read from the structure of the controller go to the log only.\<close>

definition identify_controller ::
  "('c, 'k, 'd) nvme_env \<Rightarrow> nvme_controller \<Rightarrow> ('c, 'k, 'd) nvme_machine \<Rightarrow> (nvme_error option \<times> nvme_controller \<times> ('c, 'k, 'd) nvme_machine) rust" where
  "identify_controller env c m = do {
     (dm, dma) \<leftarrow> dma_manager_lock (nm_pool m) (nm_dma m);
     (b, dm) \<leftarrow> get_pool_4kb dm;
     let m = m\<lparr>nm_pool := Some dm, nm_dma := dma\<rparr>;
     case b of
       None \<Rightarrow> Some (Some NvmeAllocationFailed, c, m)
     | Some buffer \<Rightarrow> do {
         (x, c, m) \<leftarrow> submit_admin_command env (identify_controller_cmd (of_nat (db_phys_addr buffer))) c m;
         case x of
           Inl e \<Rightarrow> Some (Some e, c, m)
         | Inr completion \<Rightarrow> Some (None, c, m)
       }
   }"

text \<open>The end of a function that owns a DMA buffer: the buffer is dropped on every path.\<close>

definition finish_with ::
  "dma_buffer \<Rightarrow> 'r \<Rightarrow> nvme_controller \<Rightarrow> ('c, 'k, 'd) nvme_machine \<Rightarrow> ('r \<times> nvme_controller \<times> ('c, 'k, 'd) nvme_machine) rust" where
  "finish_with buffer r c m = do {
     dma \<leftarrow> drop_dynamic buffer (nm_dma m);
     Some (r, c, m\<lparr>nm_dma := dma\<rparr>)
   }"

definition identify_namespace ::
  "('c, 'k, 'd) nvme_env \<Rightarrow> u32 \<Rightarrow> nvme_controller \<Rightarrow> ('c, 'k, 'd) nvme_machine \<Rightarrow>
    ((nvme_error + nvme_namespace) \<times> nvme_controller \<times> ('c, 'k, 'd) nvme_machine) rust" where
  "identify_namespace env nsid c m = do {
     (b, dma) \<leftarrow> get_zeroed_dma 1 (nm_dma m);
     let m = m\<lparr>nm_dma := dma\<rparr>;
     case b of
       Inl e \<Rightarrow> Some (Inl NvmeAllocationFailed, c, m)
     | Inr buffer \<Rightarrow> do {
         (x, c, m) \<leftarrow> submit_admin_command env (identify_namespace_cmd nsid (of_nat (db_phys_addr buffer))) c m;
         case x of
           Inl e \<Rightarrow> finish_with buffer (Inl e) c m
         | Inr completion \<Rightarrow> do {
             let identify_data = get_bytes (snd (nm_dma m)) (db_virt_addr buffer) 4096;
             if ns_nsze identify_data = 0 then finish_with buffer (Inl InvalidNamespace) c m
             else do {
               block_size \<leftarrow> lba_size identify_data;
               finish_with buffer (Inr \<lparr>ns_nsid = nsid, ns_size_blocks = ns_nsze identify_data, ns_block_size = block_size,
                 ns_capacity_blocks = ns_ncap identify_data\<rparr>) c m
             }
           }
       }
   }"

definition discover_namespaces ::
  "('c, 'k, 'd) nvme_env \<Rightarrow> nvme_controller \<Rightarrow> ('c, 'k, 'd) nvme_machine \<Rightarrow> (nvme_controller \<times> ('c, 'k, 'd) nvme_machine) rust" where
  "discover_namespaces env c m = do {
     (x, c, m) \<leftarrow> identify_namespace env 1 c m;
     case x of
       Inl e \<Rightarrow> Some (c, m)
     | Inr namespace \<Rightarrow> Some (c\<lparr>ct_namespaces := ct_namespaces c @ [namespace]\<rparr>, m)
   }"

definition create_io_queues ::
  "('c, 'k, 'd) nvme_env \<Rightarrow> nvme_controller \<Rightarrow> ('c, 'k, 'd) nvme_machine \<Rightarrow> (nvme_error option \<times> nvme_controller \<times> ('c, 'k, 'd) nvme_machine) rust" where
  "create_io_queues env c m = do {
     let queue_size = min (ct_max_queue_entries c) 64;
     (x, dma) \<leftarrow> nvme_queue_new 1 queue_size (nm_dma m);
     let m = m\<lparr>nm_dma := dma\<rparr>;
     case x of
       Inl e \<Rightarrow> Some (Some e, c, m)
     | Inr io_queue \<Rightarrow> (case ct_msix_info c of
         None \<Rightarrow> Some (Some NvmePciError, c, m)
       | Some info \<Rightarrow>
           if length (mi_vectors info) \<le> 1 then Some (Some NvmePciError, c, m)
           else do {
             let io_vector = mi_vectors info ! 1;
             let io_queue = io_queue\<lparr>nq_interrupt_vector := Some (mv_vector io_vector)\<rparr>;
             cmd \<leftarrow> create_io_cq_with_interrupt 1 queue_size (of_nat (nq_cq_phys io_queue)) (mv_index io_vector);
             (x, c, m) \<leftarrow> submit_admin_command env cmd c m;
             case x of
               Inl e \<Rightarrow> Some (Some e, c, m)
             | Inr completion \<Rightarrow> do {
                 cmd \<leftarrow> create_io_sq 1 1 queue_size (of_nat (nq_sq_phys io_queue));
                 (x, c, m) \<leftarrow> submit_admin_command env cmd c m;
                 case x of
                   Inl e \<Rightarrow> Some (Some e, c, m)
                 | Inr completion \<Rightarrow> Some (None, c\<lparr>ct_io_queue := Some io_queue\<rparr>, m)
               }
           })
   }"

text \<open>\<^verbatim>\<open>initialize\<close>, in its order.\<close>

definition nvme_initialize ::
  "('c, 'k, 'd) nvme_env \<Rightarrow> nvme_controller \<Rightarrow> ('c, 'k, 'd) nvme_machine \<Rightarrow> (nvme_error option \<times> nvme_controller \<times> ('c, 'k, 'd) nvme_machine) rust" where
  "nvme_initialize env c m = do {
     let (r, m) = nvme_load env m;
     let (e, m) = (if is_ready r then nvme_reset_controller env m else (None, m));
     case e of
       Some e \<Rightarrow> Some (Some e, c, m)
     | None \<Rightarrow> do {
         (e, c, m) \<leftarrow> nvme_setup_msix env c m;
         case e of
           Some e \<Rightarrow> Some (Some e, c, m)
         | None \<Rightarrow> do {
             m \<leftarrow> setup_admin_queues env c m;
             let (e, m) = enable_controller env m;
             case e of
               Some e \<Rightarrow> Some (Some e, c, m)
             | None \<Rightarrow> do {
                 (e, c, m) \<leftarrow> identify_controller env c m;
                 case e of
                   Some e \<Rightarrow> Some (Some e, c, m)
                 | None \<Rightarrow> do {
                     (c, m) \<leftarrow> discover_namespaces env c m;
                     if ct_namespaces c \<noteq> [] then create_io_queues env c m else Some (None, c, m)
                   }
               }
           }
       }
   }"

definition nvme_controller_new ::
  "('c, 'k, 'd) nvme_env \<Rightarrow> pci_device \<Rightarrow> ('c, 'k, 'd) nvme_machine \<Rightarrow>
    ((nvme_error + nvme_controller) \<times> ('c, 'k, 'd) nvme_machine) rust" where
  "nvme_controller_new env dev m = (case first_memory_bar (pd_bars dev) of
     None \<Rightarrow> Some (Inl NvmePciError, m)
   | Some bar \<Rightarrow> do {
       (x, v, k) \<leftarrow> map_bar (ne_mm env) (nm_vmm m) bar (nm_paging m);
       let m = m\<lparr>nm_vmm := v, nm_paging := k\<rparr>;
       case x of
         Inl e \<Rightarrow> Some (Inl NvmePciError, m)
       | Inr mapped_bar \<Rightarrow> do {
           let (r, m) = nvme_load env m;
           let entries = max_queue_entries r;
           let (r, m) = nvme_load env m;
           let stride = doorbell_stride r;
           (x, dma) \<leftarrow> nvme_queue_new 0 (min entries 64) (nm_dma m);
           let m = m\<lparr>nm_dma := dma\<rparr>;
           case x of
             Inl e \<Rightarrow> Some (Inl e, m)
           | Inr admin_queue \<Rightarrow> do {
               (e, c, m) \<leftarrow> nvme_initialize env \<lparr>ct_pci_device = dev, ct_registers = mb_virtual_address mapped_bar,
                 ct_admin_queue = admin_queue, ct_io_queue = None, ct_next_command_id = 1, ct_namespaces = [],
                 ct_max_queue_entries = entries, ct_doorbell_stride = stride, ct_msix_info = None\<rparr> m;
               case e of
                 Some e \<Rightarrow> Some (Inl e, m)
               | None \<Rightarrow> Some (Inr c, m)
             }
         }
     })"

definition find_nvme_controllers :: "pci_manager option \<Rightarrow> pci_device list rust" where
  "find_nvme_controllers pci = (case pci of
     None \<Rightarrow> None
   | Some manager \<Rightarrow> Some (filter (\<lambda>d. pd_class_code d = 0x01 \<and> pd_subclass d = 0x08 \<and> pd_prog_if d = 0x02) (pm_devices manager)))"

text \<open>\<open>nvme\<close> is the global \<^verbatim>\<open>NVME_CONTROLLER\<close>.\<close>

definition nvme_init ::
  "('c, 'k, 'd) nvme_env \<Rightarrow> pci_manager option \<Rightarrow> nvme_controller option \<Rightarrow> ('c, 'k, 'd) nvme_machine \<Rightarrow>
    (nvme_controller option \<times> ('c, 'k, 'd) nvme_machine) rust" where
  "nvme_init env pci nvme m = do {
     controllers \<leftarrow> find_nvme_controllers pci;
     case controllers of
       [] \<Rightarrow> Some (nvme, m)
     | dev # _ \<Rightarrow> do {
         (x, m) \<leftarrow> nvme_controller_new env dev m;
         case x of
           Inl e \<Rightarrow> Some (nvme, m)
         | Inr c \<Rightarrow> Some (Some c, m)
       }
   }"

section \<open>Reading and writing blocks\<close>

text \<open>The common beginning of \<^verbatim>\<open>read_blocks\<close> and \<^verbatim>\<open>write_blocks\<close>: the size of the transfer in bytes, which cannot overflow.\<close>

definition required_size :: "u32 \<Rightarrow> u16 \<Rightarrow> nat \<Rightarrow> nvme_controller \<Rightarrow> nvme_error + nat" where
  "required_size nsid blocks len c = (case List.find (\<lambda>ns. ns_nsid ns = nsid) (ct_namespaces c) of
     None \<Rightarrow> Inl InvalidNamespace
   | Some namespace \<Rightarrow>
       let n = unat blocks * unat (ns_block_size namespace)
       in if len < n then Inl BufferTooSmall else Inr n)"

definition nvme_read_blocks ::
  "('c, 'k, 'd) nvme_env \<Rightarrow> u32 \<Rightarrow> u64 \<Rightarrow> u16 \<Rightarrow> u8 list \<Rightarrow> nvme_controller \<Rightarrow> ('c, 'k, 'd) nvme_machine \<Rightarrow>
    ((nvme_error + u8 list) \<times> nvme_controller \<times> ('c, 'k, 'd) nvme_machine) rust" where
  "nvme_read_blocks env nsid lba blocks buffer c m = (case required_size nsid blocks (length buffer) c of
     Inl e \<Rightarrow> Some (Inl e, c, m)
   | Inr n \<Rightarrow> do {
       (b, dma) \<leftarrow> get_zeroed_dma ((n + 4095) div 4096) (nm_dma m);
       let m = m\<lparr>nm_dma := dma\<rparr>;
       case b of
         Inl e \<Rightarrow> Some (Inl NvmeAllocationFailed, c, m)
       | Inr dma_buffer \<Rightarrow> do {
           cmd \<leftarrow> nvme_read_cmd nsid lba blocks (of_nat (db_phys_addr dma_buffer));
           (x, c, m) \<leftarrow> submit_io_command env cmd c m;
           case x of
             Inl e \<Rightarrow> finish_with dma_buffer (Inl e) c m
           | Inr completion \<Rightarrow>
               finish_with dma_buffer (Inr (get_bytes (snd (nm_dma m)) (db_virt_addr dma_buffer) n @ drop n buffer)) c m
         }
     })"

definition nvme_write_blocks ::
  "('c, 'k, 'd) nvme_env \<Rightarrow> u32 \<Rightarrow> u64 \<Rightarrow> u16 \<Rightarrow> u8 list \<Rightarrow> nvme_controller \<Rightarrow> ('c, 'k, 'd) nvme_machine \<Rightarrow>
    (nvme_error option \<times> nvme_controller \<times> ('c, 'k, 'd) nvme_machine) rust" where
  "nvme_write_blocks env nsid lba blocks buffer c m = (case required_size nsid blocks (length buffer) c of
     Inl e \<Rightarrow> Some (Some e, c, m)
   | Inr n \<Rightarrow> do {
       (b, dma) \<leftarrow> get_zeroed_dma ((n + 4095) div 4096) (nm_dma m);
       let m = m\<lparr>nm_dma := dma\<rparr>;
       case b of
         Inl e \<Rightarrow> Some (Some NvmeAllocationFailed, c, m)
       | Inr dma_buffer \<Rightarrow> do {
           let m = m\<lparr>nm_dma := (fst (nm_dma m), put_bytes (db_virt_addr dma_buffer) (take n buffer) (snd (nm_dma m)))\<rparr>;
           cmd \<leftarrow> nvme_write_cmd nsid lba blocks (of_nat (db_phys_addr dma_buffer));
           (x, c, m) \<leftarrow> submit_io_command env cmd c m;
           case x of
             Inl e \<Rightarrow> finish_with dma_buffer (Some e) c m
           | Inr completion \<Rightarrow> finish_with dma_buffer None c m
         }
     })"

text \<open>The functions of the module, on the global controller.\<close>

definition read_blocks ::
  "('c, 'k, 'd) nvme_env \<Rightarrow> u32 \<Rightarrow> u64 \<Rightarrow> u16 \<Rightarrow> u8 list \<Rightarrow> nvme_controller option \<Rightarrow> ('c, 'k, 'd) nvme_machine \<Rightarrow>
    ((nvme_error + u8 list) \<times> nvme_controller option \<times> ('c, 'k, 'd) nvme_machine) rust" where
  "read_blocks env nsid lba blocks buffer nvme m = (case nvme of
     None \<Rightarrow> Some (Inl ControllerNotFound, None, m)
   | Some c \<Rightarrow> do {
       (x, c, m) \<leftarrow> nvme_read_blocks env nsid lba blocks buffer c m;
       Some (x, Some c, m)
     })"

definition write_blocks ::
  "('c, 'k, 'd) nvme_env \<Rightarrow> u32 \<Rightarrow> u64 \<Rightarrow> u16 \<Rightarrow> u8 list \<Rightarrow> nvme_controller option \<Rightarrow> ('c, 'k, 'd) nvme_machine \<Rightarrow>
    (nvme_error option \<times> nvme_controller option \<times> ('c, 'k, 'd) nvme_machine) rust" where
  "write_blocks env nsid lba blocks buffer nvme m = (case nvme of
     None \<Rightarrow> Some (Some ControllerNotFound, None, m)
   | Some c \<Rightarrow> do {
       (x, c, m) \<leftarrow> nvme_write_blocks env nsid lba blocks buffer c m;
       Some (x, Some c, m)
     })"

definition get_namespaces :: "nvme_controller option \<Rightarrow> nvme_namespace list" where
  "get_namespaces nvme = (case nvme of Some c \<Rightarrow> ct_namespaces c | None \<Rightarrow> [])"

text \<open>The self-test of the driver: a block is read, a pattern is written to the next block, read back and compared.\<close>

definition test_nvme_io ::
  "('c, 'k, 'd) nvme_env \<Rightarrow> nvme_controller option \<Rightarrow> ('c, 'k, 'd) nvme_machine \<Rightarrow>
    (nvme_error option \<times> nvme_controller option \<times> ('c, 'k, 'd) nvme_machine) rust" where
  "test_nvme_io env nvme m = (case get_namespaces nvme of
     [] \<Rightarrow> Some (Some InvalidNamespace, nvme, m)
   | ns # _ \<Rightarrow> do {
       let block_size = unat (ns_block_size ns);
       (x, nvme, m) \<leftarrow> read_blocks env (ns_nsid ns) 0 1 (replicate block_size 0) nvme m;
       case x of
         Inl e \<Rightarrow> Some (Some e, nvme, m)
       | Inr read_buffer \<Rightarrow> do {
           let write_buffer = map (\<lambda>i. of_nat (i mod 256)) [0 ..< block_size];
           (e, nvme, m) \<leftarrow> write_blocks env (ns_nsid ns) 1 1 write_buffer nvme m;
           case e of
             Some e \<Rightarrow> Some (Some e, nvme, m)
           | None \<Rightarrow> do {
               (x, nvme, m) \<leftarrow> read_blocks env (ns_nsid ns) 1 1 (replicate block_size 0) nvme m;
               case x of
                 Inl e \<Rightarrow> Some (Some e, nvme, m)
               | Inr verify_buffer \<Rightarrow>
                   if write_buffer = verify_buffer then Some (None, nvme, m) else Some (Some (CommandFailed 0), nvme, m)
             }
         }
     })"

section \<open>Controllers with the largest queues\<close>

lemma setup_msix_keeps_queue:
  assumes "nvme_setup_msix env c m = Some (e, c', m')"
  shows "ct_admin_queue c' = ct_admin_queue c"
  using assms by (auto simp: nvme_setup_msix_def Let_def bind_eq_Some_conv case_sum_Some split: option.splits)

lemma empty_queue_panics: "nq_size (ct_admin_queue c) = 0 \<Longrightarrow> setup_admin_queues env c m = None"
  by (auto simp: setup_admin_queues_def set_admin_queue_attributes_def u16_pred_def)

lemma initialize_fails:
  assumes "nq_size (ct_admin_queue c) = 0"
  shows "nvme_initialize env c m \<noteq> Some (None, c', m')"
proof -
  obtain r m1 where l: "nvme_load env m = (r, m1)" by (cases "nvme_load env m")
  obtain e m2 where e: "(if is_ready r then nvme_reset_controller env m1 else (None, m1)) = (e, m2)" by fastforce
  show ?thesis
  proof (cases e)
    case None
    show ?thesis
    proof (cases "nvme_setup_msix env c m2")
      case (Some x)
      obtain e' c1 m3 where x: "x = (e', c1, m3)" by (cases x)
      have "setup_admin_queues env c1 m = None" for m
        using empty_queue_panics [of c1 env m] setup_msix_keeps_queue [of env c m2 e' c1 m3] assms Some x by simp
      then show ?thesis using l e None Some x by (cases e') (simp_all add: nvme_initialize_def)
    qed (use l e None in \<open>simp add: nvme_initialize_def\<close>)
  qed (use l e in \<open>simp add: nvme_initialize_def\<close>)
qed

text \<open>
  C30: a controller whose queues can have the largest size of the specification, \<^verbatim>\<open>CAP.MQES = 0xFFFF\<close>, is never brought up: the 16-bit
  number of entries wraps to zero, and the start-up fails or panics on the empty admin queue.
\<close>

theorem largest_queues_fail:
  assumes "nr_cap (fst (ne_load env (nm_dev m))) AND 0xFFFF = 0xFFFF"
  shows "nvme_controller_new env dev m \<noteq> Some (Inr c, m')"
proof
  assume a: "nvme_controller_new env dev m = Some (Inr c, m')"
  obtain bar where bar: "first_memory_bar (pd_bars dev) = Some bar" using a by (cases "first_memory_bar (pd_bars dev)") (auto simp: nvme_controller_new_def)
  obtain x v k where mb: "map_bar (ne_mm env) (nm_vmm m) bar (nm_paging m) = Some (x, v, k)"
    using a bar by (cases "map_bar (ne_mm env) (nm_vmm m) bar (nm_paging m)") (auto simp: nvme_controller_new_def)
  obtain b where x: "x = Inr b" using a bar mb by (cases x) (auto simp: nvme_controller_new_def)
  define m1 where "m1 = m\<lparr>nm_vmm := v, nm_paging := k\<rparr>"
  obtain r1 m2 where l1: "nvme_load env m1 = (r1, m2)" by (cases "nvme_load env m1")
  obtain r2 m3 where l2: "nvme_load env m2 = (r2, m3)" by (cases "nvme_load env m2")
  have "r1 = fst (ne_load env (nm_dev m))" using l1 by (simp add: nvme_load_def m1_def split: prod.splits)
  then have z: "max_queue_entries r1 = 0" using assms max_queue_entries_wraps by simp
  obtain y dma where q: "nvme_queue_new 0 0 (nm_dma m3) = Some (y, dma)"
    using a bar mb x l1 l2 z by (cases "nvme_queue_new 0 0 (nm_dma m3)") (auto simp: nvme_controller_new_def m1_def)
  obtain aq where y: "y = Inr aq" using a bar mb x l1 l2 z q by (cases y) (auto simp: nvme_controller_new_def m1_def)
  have n: "nq_size aq = 0" using queue_new_cases [of 0 0 "nm_dma m3" aq dma] q y by blast
  show False
    using a bar mb x l1 l2 z q y initialize_fails [where env = env] n
    by (auto simp: nvme_controller_new_def m1_def bind_eq_Some_conv split: option.splits)
qed

section \<open>A disk\<close>

text \<open>The fields of a read or write command, as a controller decodes them.\<close>

definition lba_of :: "nvme_command \<Rightarrow> nat" where
  "lba_of cmd = unat (ucast (nc_cdw10 cmd) OR push_bit 32 (ucast (nc_cdw11 cmd)) :: u64)"

definition blocks_of :: "nvme_command \<Rightarrow> nat" where
  "blocks_of cmd = unat (ucast (nc_cdw12 cmd) :: u16) + 1"

text \<open>The queue after one command was served: both rings have moved by one.\<close>

definition ring_succ :: "u16 \<Rightarrow> u16 \<Rightarrow> u16" where
  "ring_succ x n = (if unat x + 1 = unat n then 0 else x + 1)"

definition served :: "nvme_queue \<Rightarrow> nvme_queue" where
  "served q = q\<lparr>nq_sq_tail := ring_succ (nq_sq_tail q) (nq_size q), nq_cq_head := ring_succ (nq_cq_head q) (nq_size q),
     nq_cq_phase := (if ring_succ (nq_cq_head q) (nq_size q) = 0 then \<not> nq_cq_phase q else nq_cq_phase q)\<rparr>"

text \<open>
  What the driver relies on: a controller with blocks of \<open>bs\<close> bytes and the contents \<open>disk\<close>, which is in step with the queue.  When the
  doorbell of the queue is rung for a read or write whose data lie in one page, then before the driver is resumed it moves the
  data between that page and the disk and writes a successful completion with the phase of its pass; nothing else changes.
\<close>

definition nvme_disk :: "('c, 'k, 'd) nvme_env \<Rightarrow> nat \<Rightarrow> nat \<Rightarrow> ('d \<Rightarrow> u32 \<Rightarrow> nat \<Rightarrow> u8 list) \<Rightarrow> ('d \<Rightarrow> nvme_queue \<Rightarrow> bool) \<Rightarrow> bool" where
  "nvme_disk env hddm bs disk in_step \<longleftrightarrow>
     (\<forall>d q ns b. in_step d q \<longrightarrow> length (disk d ns b) = bs) \<and>
     (\<forall>m q cmd. in_step (nm_dev m) q \<and> nq_ok q \<and>
        cmd = decode_command (get_bytes (snd (nm_dma m)) (nq_sq_entries q + 64 * unat (nq_sq_tail q)) 64) \<and>
        nc_opcode cmd \<in> {NVM_READ, NVM_WRITE} \<and> unat (nc_prp1 cmd) mod 4096 + blocks_of cmd * bs \<le> 4096 \<longrightarrow>
        (\<exists>d' e. is_success e \<and> phase_bit e = nq_cq_phase q \<and> in_step d' (served q) \<and>
           ne_yield env NVME_IO_VECTOR (nvme_store env (StoreDoorbell 2 (ucast (nq_sq_tail (served q)))) m) =
             m\<lparr>nm_dev := d', nm_dma := (fst (nm_dma m),
               put_bytes (nq_cq_entries q + 16 * unat (nq_cq_head q)) (encode_completion e)
                 (if nc_opcode cmd = NVM_READ
                  then put_bytes (unat (nc_prp1 cmd) + hddm)
                    (concat (map (disk (nm_dev m) (nc_nsid cmd)) [lba_of cmd ..< lba_of cmd + blocks_of cmd])) (snd (nm_dma m))
                  else snd (nm_dma m)))\<rparr> \<and>
           (\<forall>ns b. disk d' ns b =
              (if nc_opcode cmd = NVM_WRITE \<and> ns = nc_nsid cmd \<and> lba_of cmd \<le> b \<and> b < lba_of cmd + blocks_of cmd
               then get_bytes (snd (nm_dma m)) (unat (nc_prp1 cmd) + hddm + (b - lba_of cmd) * bs) bs else disk (nm_dev m) ns b))))"

lemma completion_read:
  assumes "nq_ok q" "decode_completion (get_bytes m (nq_cq_entries q + 16 * unat (nq_cq_head q)) 16) = e" "phase_bit e = nq_cq_phase q"
  shows "check_completion (q\<lparr>nq_sq_tail := ring_succ (nq_sq_tail q) (nq_size q)\<rparr>) m = Some (Some e, served q)"
proof -
  have h: "nq_cq_head q < nq_size q" using assms(1) by (simp add: nq_ok_def)
  show ?thesis using assms(2,3) ring_next_ok(1) [OF h]
    by (simp add: check_completion_def completion_is_valid_def served_def ring_succ_def Let_def)
qed

text \<open>The memory that a queue uses.\<close>

definition ring_memory :: "nvme_queue \<Rightarrow> addr set" where
  "ring_memory q = {nq_sq_entries q ..< nq_sq_entries q + 64 * unat (nq_size q)} \<union>
     {nq_cq_entries q ..< nq_cq_entries q + 16 * unat (nq_size q)}"

lemma ring_memory_served [simp]: "ring_memory (served q) = ring_memory q"
  by (simp add: ring_memory_def served_def)

text \<open>Bytes outside the range that is written.\<close>

lemma get_put_disjoint:
  assumes "{b ..< b + n} \<inter> {a ..< a + length bs} = {}"
  shows "get_bytes (put_bytes a bs m) b n = get_bytes m b n"
  using assms by (auto simp: get_bytes_def put_bytes_def)

lemma slot_in_ring:
  assumes "nq_ok q"
  shows "{nq_sq_entries q + 64 * unat (nq_sq_tail q) ..< nq_sq_entries q + 64 * unat (nq_sq_tail q) + 64} \<subseteq> ring_memory q"
    and "{nq_cq_entries q + 16 * unat (nq_cq_head q) ..< nq_cq_entries q + 16 * unat (nq_cq_head q) + 16} \<subseteq> ring_memory q"
proof -
  have "unat (nq_sq_tail q) + 1 \<le> unat (nq_size q)" "unat (nq_cq_head q) + 1 \<le> unat (nq_size q)"
    using assms by (auto simp: nq_ok_def word_less_nat_alt)
  then have "64 * unat (nq_sq_tail q) + 64 \<le> 64 * unat (nq_size q)" "16 * unat (nq_cq_head q) + 16 \<le> 16 * unat (nq_size q)" by linarith+
  then show "{nq_sq_entries q + 64 * unat (nq_sq_tail q) ..< nq_sq_entries q + 64 * unat (nq_sq_tail q) + 64} \<subseteq> ring_memory q"
    "{nq_cq_entries q + 16 * unat (nq_cq_head q) ..< nq_cq_entries q + 16 * unat (nq_cq_head q) + 16} \<subseteq> ring_memory q"
    by (auto simp: ring_memory_def)
qed

lemma command_id_fields:
  "nc_opcode (set_command_id cid cmd) = nc_opcode cmd" "nc_nsid (set_command_id cid cmd) = nc_nsid cmd"
  "nc_prp1 (set_command_id cid cmd) = nc_prp1 cmd" "lba_of (set_command_id cid cmd) = lba_of cmd" "blocks_of (set_command_id cid cmd) = blocks_of cmd"
proof -
  have m: "(0xFF :: u32) = mask 8" "(0xFFFF :: u32) = mask 16" by (simp_all add: mask_eq_exp_minus_1)
  show "nc_opcode (set_command_id cid cmd) = nc_opcode cmd"
    by (intro bit_word_eqI) (auto simp: nc_opcode_def set_command_id_def m bit_simps)
qed (simp_all add: set_command_id_def lba_of_def blocks_of_def)

text \<open>One command on the I/O queue, against such a controller.\<close>

lemma io_exchange:
  assumes disk: "nvme_disk env hddm bs disk in_step" and q: "ct_io_queue c = Some q" "nq_ok q" "in_step (nm_dev m) q"
    and room: "(unat (nq_sq_tail q) + 1) mod unat (nq_size q) \<noteq> unat (nq_sq_head q)"
    and cmd: "nc_opcode cmd \<in> {NVM_READ, NVM_WRITE}" "unat (nc_prp1 cmd) mod 4096 + blocks_of cmd * bs \<le> 4096"
    and ram1: "ram1 = put_bytes (nq_sq_entries q + 64 * unat (nq_sq_tail q)) (encode_command (set_command_id (nq_sq_tail q) cmd)) (snd (nm_dma m))"
    and data: "data = concat (map (disk (nm_dev m) (nc_nsid cmd)) [lba_of cmd ..< lba_of cmd + blocks_of cmd])"
  shows "\<exists>e d'. submit_io_command env cmd c m =
      Some (Inr e, c\<lparr>ct_io_queue := Some (served q)\<rparr>, m\<lparr>nm_dev := d', nm_dma := (fst (nm_dma m),
        put_bytes (nq_cq_entries q + 16 * unat (nq_cq_head q)) (encode_completion e)
          (if nc_opcode cmd = NVM_READ then put_bytes (unat (nc_prp1 cmd) + hddm) data ram1 else ram1))\<rparr>) \<and> in_step d' (served q) \<and>
      (\<forall>ns b. disk d' ns b = (if nc_opcode cmd = NVM_WRITE \<and> ns = nc_nsid cmd \<and> lba_of cmd \<le> b \<and> b < lba_of cmd + blocks_of cmd
         then get_bytes ram1 (unat (nc_prp1 cmd) + hddm + (b - lba_of cmd) * bs) bs else disk (nm_dev m) ns b))"
proof -
  define m1 where "m1 = m\<lparr>nm_dma := (fst (nm_dma m), ram1)\<rparr>"
  have sub: "submit_command cmd q (snd (nm_dma m)) = Some (Inr (nq_sq_tail q), q\<lparr>nq_sq_tail := ring_succ (nq_sq_tail q) (nq_size q)\<rparr>, ram1)"
    using submit_ok [OF q(2), of cmd "snd (nm_dma m)"] room by (simp add: ram1 ring_succ_def)
  have "set_command_id (nq_sq_tail q) cmd = decode_command (get_bytes (snd (nm_dma m1)) (nq_sq_entries q + 64 * unat (nq_sq_tail q)) 64)"
    by (simp add: m1_def ram1 get_put_same command_roundtrip)
  then have "in_step (nm_dev m1) q \<and> nq_ok q \<and> set_command_id (nq_sq_tail q) cmd =
        decode_command (get_bytes (snd (nm_dma m1)) (nq_sq_entries q + 64 * unat (nq_sq_tail q)) 64) \<and>
      nc_opcode (set_command_id (nq_sq_tail q) cmd) \<in> {NVM_READ, NVM_WRITE} \<and>
      unat (nc_prp1 (set_command_id (nq_sq_tail q) cmd)) mod 4096 + blocks_of (set_command_id (nq_sq_tail q) cmd) * bs \<le> 4096"
    using q(2,3) cmd unfolding command_id_fields by (simp add: m1_def)
  from disk [unfolded nvme_disk_def, THEN conjunct2, rule_format, OF this] obtain d' e where
    e: "is_success e" "phase_bit e = nq_cq_phase q" "in_step d' (served q)" and
    y: "ne_yield env NVME_IO_VECTOR (nvme_store env (StoreDoorbell 2 (ucast (nq_sq_tail (served q)))) m1) =
         m1\<lparr>nm_dev := d', nm_dma := (fst (nm_dma m1), put_bytes (nq_cq_entries q + 16 * unat (nq_cq_head q)) (encode_completion e)
           (if nc_opcode cmd = NVM_READ then put_bytes (unat (nc_prp1 cmd) + hddm)
              (concat (map (disk (nm_dev m1) (nc_nsid cmd)) [lba_of cmd ..< lba_of cmd + blocks_of cmd])) (snd (nm_dma m1)) else snd (nm_dma m1)))\<rparr>" and
    d': "\<forall>ns b. disk d' ns b = (if nc_opcode cmd = NVM_WRITE \<and> ns = nc_nsid cmd \<and> lba_of cmd \<le> b \<and> b < lba_of cmd + blocks_of cmd
       then get_bytes (snd (nm_dma m1)) (unat (nc_prp1 cmd) + hddm + (b - lba_of cmd) * bs) bs else disk (nm_dev m1) ns b)"
    unfolding command_id_fields by (elim exE conjE)
  define ram2 where "ram2 = put_bytes (nq_cq_entries q + 16 * unat (nq_cq_head q)) (encode_completion e)
    (if nc_opcode cmd = NVM_READ then put_bytes (unat (nc_prp1 cmd) + hddm) data ram1 else ram1)"
  let ?m2 = "m\<lparr>nm_dev := d', nm_dma := (fst (nm_dma m), ram2)\<rparr>"
  have y2: "ne_yield env NVME_IO_VECTOR (nvme_store env (StoreDoorbell 2 (ucast (nq_sq_tail (served q)))) m1) = ?m2"
    unfolding y by (simp add: m1_def ram2_def data)
  have "decode_completion (get_bytes ram2 (nq_cq_entries q + 16 * unat (nq_cq_head q)) 16) = e"
    unfolding ram2_def by (simp add: get_put_same completion_roundtrip)
  from completion_read [OF q(2) this e(2)] have
    chk: "check_completion (q\<lparr>nq_sq_tail := ring_succ (nq_sq_tail q) (nq_size q)\<rparr>) ram2 = Some (Some e, served q)" .
  have "submit_io_command env cmd c m = Some (Inr e, c\<lparr>ct_io_queue := Some (served q)\<rparr>, ?m2)"
    using q(1) sub y2 chk e(1) by (simp add: submit_io_command_def submit_on_def Let_def served_def flip: m1_def)
  then show ?thesis using e(3) d' unfolding ram2_def by (intro exI [of _ e] exI [of _ d']) (simp add: m1_def)
qed

lemma io_command:
  assumes disk: "nvme_disk env hddm bs disk in_step" and q: "ct_io_queue c = Some q" "nq_ok q" "in_step (nm_dev m) q"
    and room: "(unat (nq_sq_tail q) + 1) mod unat (nq_size q) \<noteq> unat (nq_sq_head q)"
    and cmd: "nc_opcode cmd \<in> {NVM_READ, NVM_WRITE}" "unat (nc_prp1 cmd) mod 4096 + blocks_of cmd * bs \<le> 4096"
    and page: "{unat (nc_prp1 cmd) + hddm ..< unat (nc_prp1 cmd) + hddm + blocks_of cmd * bs} \<inter> ring_memory q = {}"
  shows "\<exists>e d' ram'. submit_io_command env cmd c m =
      Some (Inr e, c\<lparr>ct_io_queue := Some (served q)\<rparr>, m\<lparr>nm_dev := d', nm_dma := (fst (nm_dma m), ram')\<rparr>) \<and> in_step d' (served q) \<and>
    (nc_opcode cmd = NVM_READ \<longrightarrow> get_bytes ram' (unat (nc_prp1 cmd) + hddm) (blocks_of cmd * bs) =
       concat (map (disk (nm_dev m) (nc_nsid cmd)) [lba_of cmd ..< lba_of cmd + blocks_of cmd])) \<and>
    (nc_opcode cmd = NVM_WRITE \<longrightarrow> (\<forall>b. lba_of cmd \<le> b \<and> b < lba_of cmd + blocks_of cmd \<longrightarrow>
       disk d' (nc_nsid cmd) b = get_bytes (snd (nm_dma m)) (unat (nc_prp1 cmd) + hddm + (b - lba_of cmd) * bs) bs)) \<and>
    (\<forall>ns b. nc_opcode cmd = NVM_WRITE \<and> ns = nc_nsid cmd \<and> lba_of cmd \<le> b \<and> b < lba_of cmd + blocks_of cmd \<or>
       disk d' ns b = disk (nm_dev m) ns b)"
proof -
  define P where "P = unat (nc_prp1 cmd) + hddm"
  define ram1 where "ram1 = put_bytes (nq_sq_entries q + 64 * unat (nq_sq_tail q)) (encode_command (set_command_id (nq_sq_tail q) cmd)) (snd (nm_dma m))"
  define data where "data = concat (map (disk (nm_dev m) (nc_nsid cmd)) [lba_of cmd ..< lba_of cmd + blocks_of cmd])"
  from io_exchange [OF disk q room cmd ram1_def data_def] obtain e d' ram2 where
    r: "submit_io_command env cmd c m = Some (Inr e, c\<lparr>ct_io_queue := Some (served q)\<rparr>, m\<lparr>nm_dev := d', nm_dma := (fst (nm_dma m), ram2)\<rparr>)"
      "in_step d' (served q)" and
    ram2: "ram2 = put_bytes (nq_cq_entries q + 16 * unat (nq_cq_head q)) (encode_completion e) (if nc_opcode cmd = NVM_READ then put_bytes P data ram1 else ram1)" and
    d': "\<forall>ns b. disk d' ns b = (if nc_opcode cmd = NVM_WRITE \<and> ns = nc_nsid cmd \<and> lba_of cmd \<le> b \<and> b < lba_of cmd + blocks_of cmd
         then get_bytes ram1 (P + (b - lba_of cmd) * bs) bs else disk (nm_dev m) ns b)"
    unfolding P_def by blast
  have "length (disk (nm_dev m) ns b) = bs" for ns b using disk q(3) by (auto simp: nvme_disk_def)
  then have ld: "length data = blocks_of cmd * bs" by (simp add: data_def length_concat o_def sum_list_triv)
  have "get_bytes ram2 P (blocks_of cmd * bs) = data" if "nc_opcode cmd = NVM_READ"
  proof -
    have "{P ..< P + blocks_of cmd * bs} \<inter> {nq_cq_entries q + 16 * unat (nq_cq_head q) ..< nq_cq_entries q + 16 * unat (nq_cq_head q) + length (encode_completion e)} = {}"
      using page slot_in_ring(2) [OF q(2)] unfolding P_def completion_roundtrip by blast
    then show ?thesis unfolding ram2 using that ld by (simp add: get_put_disjoint get_put_same)
  qed
  moreover have "disk d' (nc_nsid cmd) b = get_bytes (snd (nm_dma m)) (P + (b - lba_of cmd) * bs) bs"
    if "nc_opcode cmd = NVM_WRITE" "lba_of cmd \<le> b" "b < lba_of cmd + blocks_of cmd" for b
  proof -
    have "b - lba_of cmd + 1 \<le> blocks_of cmd" using that(2,3) by linarith
    then have "(b - lba_of cmd) * bs + bs \<le> blocks_of cmd * bs" using mult_le_mono1 [of "b - lba_of cmd + 1" "blocks_of cmd" bs] by (simp add: add.commute)
    then have "{P + (b - lba_of cmd) * bs ..< P + (b - lba_of cmd) * bs + bs} \<subseteq> {P ..< P + blocks_of cmd * bs}" by auto
    then have "{P + (b - lba_of cmd) * bs ..< P + (b - lba_of cmd) * bs + bs} \<inter> {nq_sq_entries q + 64 * unat (nq_sq_tail q) ..<
        nq_sq_entries q + 64 * unat (nq_sq_tail q) + length (encode_command (set_command_id (nq_sq_tail q) cmd))} = {}"
      using page slot_in_ring(1) [OF q(2)] unfolding P_def command_roundtrip by blast
    then have "get_bytes ram1 (P + (b - lba_of cmd) * bs) bs = get_bytes (snd (nm_dma m)) (P + (b - lba_of cmd) * bs) bs"
      unfolding ram1_def by (rule get_put_disjoint)
    then show ?thesis using d' that by simp
  qed
  moreover have "nc_opcode cmd = NVM_WRITE \<and> ns = nc_nsid cmd \<and> lba_of cmd \<le> b \<and> b < lba_of cmd + blocks_of cmd \<or>
       disk d' ns b = disk (nm_dev m) ns b" for ns b using d' by simp
  ultimately show ?thesis using r unfolding P_def data_def by blast
qed

lemma transfer_command_fields:
  assumes "blocks \<noteq> 0"
  shows "\<exists>cmd. nvme_read_cmd nsid lba blocks a = Some cmd \<and> nc_opcode cmd = NVM_READ \<and> nc_nsid cmd = nsid \<and> nc_prp1 cmd = a \<and>
      lba_of cmd = unat lba \<and> blocks_of cmd = unat blocks"
    and "\<exists>cmd. nvme_write_cmd nsid lba blocks a = Some cmd \<and> nc_opcode cmd = NVM_WRITE \<and> nc_nsid cmd = nsid \<and> nc_prp1 cmd = a \<and>
      lba_of cmd = unat lba \<and> blocks_of cmd = unat blocks"
proof -
  have m: "(0xFF :: u32) = mask 8" by (simp add: mask_eq_exp_minus_1)
  have l: "ucast (ucast lba :: u32) OR push_bit 32 (ucast (ucast (drop_bit 32 lba) :: u32)) = lba"
    by (rule bit_word_eqI) (auto simp: bit_simps dest: bit_imp_le_length)
  have "ucast (ucast (blocks - 1) :: u32) = blocks - 1" by (rule bit_word_eqI) (auto simp: bit_simps dest: bit_imp_le_length)
  moreover have "0 < unat blocks" using assms by (simp add: unat_gt_0)
  ultimately have b: "unat (ucast (ucast (blocks - 1) :: u32) :: u16) + 1 = unat blocks" using assms by (simp add: unat_minus_one)
  have o: "nc_opcode (set_opcode x nvme_command_new) = x" for x
    by (intro bit_word_eqI) (auto simp: nc_opcode_def set_opcode_def nvme_command_new_def m bit_simps dest: bit_imp_le_length)
  have u: "nc_opcode (c\<lparr>nc_nsid := i, nc_prp1 := p, nc_cdw10 := x, nc_cdw11 := y, nc_cdw12 := z\<rparr>) = nc_opcode c" for c i p x y z
    by (simp add: nc_opcode_def)
  show "\<exists>cmd. nvme_read_cmd nsid lba blocks a = Some cmd \<and> nc_opcode cmd = NVM_READ \<and> nc_nsid cmd = nsid \<and> nc_prp1 cmd = a \<and>
      lba_of cmd = unat lba \<and> blocks_of cmd = unat blocks"
    using assms b by (simp add: nvme_read_cmd_def u16_pred_def o u lba_of_def blocks_of_def l)
  show "\<exists>cmd. nvme_write_cmd nsid lba blocks a = Some cmd \<and> nc_opcode cmd = NVM_WRITE \<and> nc_nsid cmd = nsid \<and> nc_prp1 cmd = a \<and>
      lba_of cmd = unat lba \<and> blocks_of cmd = unat blocks"
    using assms b by (simp add: nvme_write_cmd_def u16_pred_def o u lba_of_def blocks_of_def l)
qed

section \<open>Buffers beside the rings\<close>

text \<open>
  The frame allocator is consistent, its runs are page-aligned in physical memory, and the memory of the rings belongs to runs that are
  allocated.
\<close>

definition dma_ready :: "forest_state \<Rightarrow> block set list \<Rightarrow> nat \<Rightarrow> nvme_queue \<Rightarrow> bool" where
  "dma_ready s As hddm q \<longleftrightarrow> forest_ok s As \<and> fo_hddm_offset (fst s) = hddm \<and> 4096 dvd hddm \<and>
     (\<forall>k < length As. \<forall>b a n. run_pages s k b = {a ..< n} \<and> a < n \<longrightarrow> 4096 dvd a) \<and>
     (\<forall>a \<in> ring_memory q. \<exists>k < length As. \<exists>b \<in> As ! k. a \<in> run_pages s k b)"

lemma dma_ready_cong:
  assumes "dma_ready s As hddm q" "forest_ok s' As" "fo_hddm_offset (fst s') = fo_hddm_offset (fst s)" "\<forall>k < length As. \<forall>b. run_pages s' k b = run_pages s k b"
  shows "dma_ready s' As hddm q"
proof -
  have "\<exists>k < length As. \<exists>b \<in> As ! k. a \<in> run_pages s' k b" if "a \<in> ring_memory q" for a
  proof -
    from assms(1) that obtain k b where "k < length As" "b \<in> As ! k" "a \<in> run_pages s k b" unfolding dma_ready_def by blast
    moreover from this(1) assms(4) have "run_pages s' k b = run_pages s k b" by blast
    ultimately show ?thesis by blast
  qed
  then show ?thesis using assms unfolding dma_ready_def by auto
qed

lemma get_dma_phys:
  assumes "get_zeroed_dma_internal frames (Some s, ram) = Some (Inr buf, d)"
  shows "db_phys_addr buf < 2 ^ 52"
proof (cases "forest_allocate_contiguous_pages s frames")
  case (Some p)
  obtain x s' where p: "p = (x, s')" by (cases p)
  with assms Some show ?thesis
    by (cases x) (auto simp: get_zeroed_dma_internal_def bind_eq_Some_conv phys_addr_new_def split: if_splits)
qed (use assms in \<open>simp add: get_zeroed_dma_internal_def\<close>)

lemma one_page:
  assumes ready: "dma_ready s As hddm q"
  shows "\<exists>r s'. get_zeroed_dma 1 (Some s, ram) = Some (r, Some s', ram) \<and>
    (case r of
       Inl e \<Rightarrow> dma_ready s' As hddm q
     | Inr buf \<Rightarrow> db_phys_addr buf + hddm = db_virt_addr buf \<and> unat (of_nat (db_phys_addr buf) :: u64) = db_phys_addr buf \<and> 4096 dvd db_phys_addr buf \<and>
         {db_virt_addr buf ..< db_virt_addr buf + 4096} \<inter> ring_memory q = {} \<and>
         (\<forall>ram'. \<exists>s''. drop_dynamic buf (Some s', ram') = Some (Some s'', ram') \<and> dma_ready s'' As hddm q))"
proof -
  have ok: "forest_ok s As" "fo_hddm_offset (fst s) = hddm" "4096 dvd hddm" using ready by (auto simp: dma_ready_def)
  have "(4096::nat) * 2 ^ 0 < usize_bound" by (simp add: usize_bound_def)
  from get_dma_run [OF ok(1) this, of ram] obtain r s' where
    r: "get_zeroed_dma_internal 1 (Some s, ram) = Some (r, Some s', ram)" "fo_hddm_offset (fst s') = fo_hddm_offset (fst s)"
      "\<forall>k < length As. \<forall>b. run_pages s' k b = run_pages s k b" and
    cs: "case r of Inl e \<Rightarrow> forest_ok s' As
     | Inr buf \<Rightarrow> \<exists>k b. k < length As \<and> b \<notin> As ! k \<and> forest_ok s' (As[k := insert b (As ! k)]) \<and>
         run_pages s k b = buffer_range buf \<and> db_size buf = 1 \<and> db_phys_addr buf + fo_hddm_offset (fst s) = db_virt_addr buf"
    unfolding power_0 by (elim exE conjE)
  have runs: "run_pages s' k b = run_pages s k b" if "k < length As" for k b using r(3) that by blast
  show ?thesis
  proof (cases r)
    case (Inl e)
    then show ?thesis using r cs dma_ready_cong [OF ready _ r(2,3)] by (simp add: get_zeroed_dma_def)
  next
    case (Inr buf)
    from cs Inr obtain k b where k: "k < length As" "b \<notin> As ! k" "forest_ok s' (As[k := insert b (As ! k)])"
      "run_pages s k b = buffer_range buf" "db_size buf = 1" "db_phys_addr buf + hddm = db_virt_addr buf" using ok(2) by auto
    have range: "run_pages s k b = {db_virt_addr buf ..< db_virt_addr buf + 4096}" using k(4,5) by (simp add: buffer_range_def)
    have "\<And>b a n. run_pages s k b = {a ..< n} \<and> a < n \<Longrightarrow> 4096 dvd a" using ready k(1) unfolding dma_ready_def by blast
    from this [of b "db_virt_addr buf" "db_virt_addr buf + 4096"] range have "4096 dvd db_virt_addr buf" by simp
    then have al: "4096 dvd db_phys_addr buf" using k(6) dvd_add_left_iff [OF ok(3), of "db_phys_addr buf"] by simp
    have ph: "db_phys_addr buf < 2 ^ 52" using r(1) unfolding Inr by (rule get_dma_phys)
    have dis: "run_pages s k b \<inter> ring_memory q = {}"
    proof -
      have False if "a \<in> run_pages s k b" "a \<in> ring_memory q" for a
      proof -
        from ready that(2) obtain j c where j: "j < length As" "c \<in> As ! j" "a \<in> run_pages s j c" unfolding dma_ready_def by blast
        have "run_pages s' k b \<inter> run_pages s' j c = {}"
          using forest_runs_disjoint [OF k(3), of k b j c] k(1,2) j(1,2) by (cases "j = k") auto
        then show False using that(1) j k(1) by (auto simp: runs)
      qed
      then show ?thesis by blast
    qed
    have "\<exists>s''. drop_dynamic buf (Some s', ram') = Some (Some s'', ram') \<and> dma_ready s'' As hddm q" for ram'
    proof -
      have "run_pages s' k b = buffer_range buf" "db_phys_addr buf + fo_hddm_offset (fst s') = db_virt_addr buf"
        using k(1,4,6) r(2) ok(2) by (simp_all add: runs)
      note rn = this
      have "k < length (As[k := insert b (As ! k)])" "b \<in> As[k := insert b (As ! k)] ! k" "db_size buf = 2 ^ 0" using k(1,5) by simp_all
      from free_dma_run [OF k(3) this(1,2) rn(1) this(3) rn(2), of ram'] obtain s'' where
        f: "free_zeroed_dma buf (Some s', ram') = Some (None, Some s'', ram')" "forest_ok s'' As"
          "fo_hddm_offset (fst s'') = fo_hddm_offset (fst s')" "\<forall>j < length As. \<forall>c. run_pages s'' j c = run_pages s' j c" using k(1,2) by auto
      from f(3,4) r(2,3) have "dma_ready s'' As hddm q" by (intro dma_ready_cong [OF ready f(2)]) simp_all
      then show ?thesis using f(1) by (simp add: drop_dynamic_def)
    qed
    then show ?thesis using r(1) Inr k(6) al ph dis range
      by (simp add: get_zeroed_dma_def unat_of_nat take_bit_nat_eq_self)
  qed
qed

section \<open>Reading what was written\<close>

lemma get_bytes_append: "get_bytes m a (x + y) = get_bytes m a x @ get_bytes m (a + x) y"
  by (rule nth_equalityI) (auto simp: get_bytes_def nth_append add.assoc)

lemma concat_chunks: "concat (map (\<lambda>b. get_bytes m (a + (b - l) * n) n) [l ..< l + k]) = get_bytes m a (k * n)"
proof (induction k)
  case (Suc k)
  have "concat (map (\<lambda>b. get_bytes m (a + (b - l) * n) n) [l ..< l + Suc k]) = get_bytes m a (k * n) @ get_bytes m (a + k * n) n"
    using Suc.IH by simp
  also have "\<dots> = get_bytes m a (k * n + n)" by (rule get_bytes_append [symmetric])
  finally show ?case by (simp add: add.commute)
qed (simp add: get_bytes_def)

lemma served_ok:
  assumes "nq_ok q"
  shows "nq_ok (served q)"
proof -
  have s: "ring_succ x n < n" if "x < n" for x n
  proof -
    have "0 < unat n" using that by (simp add: word_less_nat_alt)
    then show ?thesis using ring_next_ok(2) [OF that] by (simp only: word_less_nat_alt ring_succ_def) simp
  qed
  show ?thesis using assms s by (simp add: nq_ok_def served_def)
qed

text \<open>What both operations need: a queue with room, in step with the controller, and buffers beside its rings.\<close>

definition io_ready :: "('d \<Rightarrow> nvme_queue \<Rightarrow> bool) \<Rightarrow> nat \<Rightarrow> block set list \<Rightarrow> nvme_queue \<Rightarrow> nvme_controller \<Rightarrow> ('c, 'k, 'd) nvme_machine \<Rightarrow> bool" where
  "io_ready in_step hddm As q c m \<longleftrightarrow> ct_io_queue c = Some q \<and> nq_ok q \<and> in_step (nm_dev m) q \<and>
     (\<exists>s. fst (nm_dma m) = Some s \<and> dma_ready s As hddm q)"

definition has_room :: "nvme_queue \<Rightarrow> bool" where
  "has_room q \<longleftrightarrow> (unat (nq_sq_tail q) + 1) mod unat (nq_size q) \<noteq> unat (nq_sq_head q)"

lemma dma_ready_served [simp]: "dma_ready s As hddm (served q) = dma_ready s As hddm q"
  by (simp add: dma_ready_def)

text \<open>The page that both operations transfer, and the command on it.\<close>

lemma page_command:
  assumes disk: "nvme_disk env hddm bs disk in_step" and q: "ct_io_queue c = Some q" "nq_ok q" "in_step (nm_dev m) q" and room: "has_room q"
    and cmd: "nc_opcode cmd \<in> {NVM_READ, NVM_WRITE}" "nc_prp1 cmd = of_nat (db_phys_addr buf)" "blocks_of cmd * bs \<le> 4096"
    and buf: "db_phys_addr buf + hddm = db_virt_addr buf" "unat (of_nat (db_phys_addr buf) :: u64) = db_phys_addr buf" "4096 dvd db_phys_addr buf"
      "{db_virt_addr buf ..< db_virt_addr buf + 4096} \<inter> ring_memory q = {}"
  shows "\<exists>e d' ram'. submit_io_command env cmd c m =
      Some (Inr e, c\<lparr>ct_io_queue := Some (served q)\<rparr>, m\<lparr>nm_dev := d', nm_dma := (fst (nm_dma m), ram')\<rparr>) \<and> in_step d' (served q) \<and>
    (nc_opcode cmd = NVM_READ \<longrightarrow> get_bytes ram' (db_virt_addr buf) (blocks_of cmd * bs) =
       concat (map (disk (nm_dev m) (nc_nsid cmd)) [lba_of cmd ..< lba_of cmd + blocks_of cmd])) \<and>
    (nc_opcode cmd = NVM_WRITE \<longrightarrow> (\<forall>b. lba_of cmd \<le> b \<and> b < lba_of cmd + blocks_of cmd \<longrightarrow>
       disk d' (nc_nsid cmd) b = get_bytes (snd (nm_dma m)) (db_virt_addr buf + (b - lba_of cmd) * bs) bs)) \<and>
    (\<forall>ns b. nc_opcode cmd = NVM_WRITE \<and> ns = nc_nsid cmd \<and> lba_of cmd \<le> b \<and> b < lba_of cmd + blocks_of cmd \<or>
       disk d' ns b = disk (nm_dev m) ns b)"
proof -
  have P: "unat (nc_prp1 cmd) + hddm = db_virt_addr buf" using buf(1,2) cmd(2) by simp
  have "unat (nc_prp1 cmd) mod 4096 = 0" using buf(2,3) cmd(2) by simp
  then have "unat (nc_prp1 cmd) mod 4096 + blocks_of cmd * bs \<le> 4096" using cmd(3) by simp
  moreover have "{db_virt_addr buf ..< db_virt_addr buf + blocks_of cmd * bs} \<subseteq> {db_virt_addr buf ..< db_virt_addr buf + 4096}" using cmd(3) by auto
  then have "{unat (nc_prp1 cmd) + hddm ..< unat (nc_prp1 cmd) + hddm + blocks_of cmd * bs} \<inter> ring_memory q = {}" unfolding P using buf(4) by blast
  ultimately show ?thesis using io_command [OF disk q room [unfolded has_room_def] cmd(1)] unfolding P by blast
qed

lemma write_ok:
  assumes disk: "nvme_disk env hddm bs disk in_step" and ready: "io_ready in_step hddm As q c m" and room: "has_room q"
    and size: "required_size nsid blocks (length data) c = Inr (length data)" "length data = unat blocks * bs" "0 < length data" "length data \<le> 4096"
  shows "\<exists>x c' m'. nvme_write_blocks env nsid lba blocks data c m = Some (x, c', m') \<and> (x = Some NvmeAllocationFailed \<or> x = None \<and>
    c' = c\<lparr>ct_io_queue := Some (served q)\<rparr> \<and> io_ready in_step hddm As (served q) c' m' \<and>
    concat (map (disk (nm_dev m') nsid) [unat lba ..< unat lba + unat blocks]) = data \<and>
    (\<forall>ns b. ns = nsid \<and> unat lba \<le> b \<and> b < unat lba + unat blocks \<or> disk (nm_dev m') ns b = disk (nm_dev m) ns b))"
proof -
  obtain s ram where r: "ct_io_queue c = Some q" "nq_ok q" "in_step (nm_dev m) q" "nm_dma m = (Some s, ram)" "dma_ready s As hddm q"
    using ready unfolding io_ready_def by (metis prod.collapse)
  have pages: "(length data + 4095) div 4096 = 1" using size(3,4) by linarith
  have b0: "blocks \<noteq> 0" using size(2,3) by auto
  from one_page [OF r(5), of ram] obtain x s' where g: "get_zeroed_dma 1 (Some s, ram) = Some (x, Some s', ram)" and
    cs: "case x of Inl e \<Rightarrow> dma_ready s' As hddm q
     | Inr buf \<Rightarrow> db_phys_addr buf + hddm = db_virt_addr buf \<and> unat (of_nat (db_phys_addr buf) :: u64) = db_phys_addr buf \<and> 4096 dvd db_phys_addr buf \<and>
         {db_virt_addr buf ..< db_virt_addr buf + 4096} \<inter> ring_memory q = {} \<and>
         (\<forall>ram'. \<exists>s''. drop_dynamic buf (Some s', ram') = Some (Some s'', ram') \<and> dma_ready s'' As hddm q)" by blast
  show ?thesis
  proof (cases x)
    case (Inl e)
    then show ?thesis using r(4) g size(1) pages by (simp add: nvme_write_blocks_def)
  next
    case (Inr buf)
    then have buf: "db_phys_addr buf + hddm = db_virt_addr buf" "unat (of_nat (db_phys_addr buf) :: u64) = db_phys_addr buf" "4096 dvd db_phys_addr buf"
      "{db_virt_addr buf ..< db_virt_addr buf + 4096} \<inter> ring_memory q = {}" and
      dr: "\<forall>ram'. \<exists>s''. drop_dynamic buf (Some s', ram') = Some (Some s'', ram') \<and> dma_ready s'' As hddm q" using cs by simp_all
    define m1 where "m1 = m\<lparr>nm_dma := (Some s', put_bytes (db_virt_addr buf) data ram)\<rparr>"
    from transfer_command_fields(2) [OF b0, of nsid lba "of_nat (db_phys_addr buf)"] obtain cmd where
      cmd: "nvme_write_cmd nsid lba blocks (of_nat (db_phys_addr buf)) = Some cmd" and
      f: "nc_opcode cmd = NVM_WRITE" "nc_nsid cmd = nsid" "nc_prp1 cmd = of_nat (db_phys_addr buf)" "lba_of cmd = unat lba" "blocks_of cmd = unat blocks" by blast
    have pre: "in_step (nm_dev m1) q" "nc_opcode cmd \<in> {NVM_READ, NVM_WRITE}" "blocks_of cmd * bs \<le> 4096" using r(3) f size(2,4) by (simp_all add: m1_def)
    from page_command [OF disk r(1,2) pre(1) room pre(2) f(3) pre(3) buf] obtain e d' ram' where
      sub: "submit_io_command env cmd c m1 = Some (Inr e, c\<lparr>ct_io_queue := Some (served q)\<rparr>, m1\<lparr>nm_dev := d', nm_dma := (fst (nm_dma m1), ram')\<rparr>)"
        "in_step d' (served q)" and
      new: "\<forall>b. unat lba \<le> b \<and> b < unat lba + unat blocks \<longrightarrow> disk d' nsid b = get_bytes (snd (nm_dma m1)) (db_virt_addr buf + (b - unat lba) * bs) bs" and
      old: "\<forall>ns b. ns = nsid \<and> unat lba \<le> b \<and> b < unat lba + unat blocks \<or> disk d' ns b = disk (nm_dev m1) ns b"
      unfolding f by blast
    from dr obtain s'' where s'': "drop_dynamic buf (Some s', ram') = Some (Some s'', ram')" "dma_ready s'' As hddm q" by blast
    define m2 where "m2 = m1\<lparr>nm_dev := d', nm_dma := (Some s'', ram')\<rparr>"
    have "nvme_write_blocks env nsid lba blocks data c m = Some (None, c\<lparr>ct_io_queue := Some (served q)\<rparr>, m2)"
      using size(1) pages r(4) g Inr cmd sub(1) s''(1)
      by (simp add: nvme_write_blocks_def finish_with_def m2_def m1_def Let_def)
    moreover have "io_ready in_step hddm As (served q) (c\<lparr>ct_io_queue := Some (served q)\<rparr>) m2"
      using sub(2) s''(2) served_ok [OF r(2)] unfolding io_ready_def m2_def by auto
    moreover have "map (disk d' nsid) [unat lba ..< unat lba + unat blocks] =
        map (\<lambda>b. get_bytes (snd (nm_dma m1)) (db_virt_addr buf + (b - unat lba) * bs) bs) [unat lba ..< unat lba + unat blocks]"
      using new by (intro map_cong) auto
    then have "concat (map (disk d' nsid) [unat lba ..< unat lba + unat blocks]) = get_bytes (snd (nm_dma m1)) (db_virt_addr buf) (unat blocks * bs)"
      by (simp only: concat_chunks)
    then have "concat (map (disk (nm_dev m2) nsid) [unat lba ..< unat lba + unat blocks]) = data"
      using size(2) by (simp add: m2_def m1_def get_put_same)
    moreover have "ns = nsid \<and> unat lba \<le> b \<and> b < unat lba + unat blocks \<or> disk (nm_dev m2) ns b = disk (nm_dev m) ns b" for ns b
      using old by (simp add: m2_def m1_def)
    ultimately show ?thesis by blast
  qed
qed

lemma read_ok:
  assumes disk: "nvme_disk env hddm bs disk in_step" and ready: "io_ready in_step hddm As q c m" and room: "has_room q"
    and size: "required_size nsid blocks (length buffer) c = Inr n" "n = unat blocks * bs" "0 < n" "n \<le> 4096"
  shows "\<exists>x c' m'. nvme_read_blocks env nsid lba blocks buffer c m = Some (x, c', m') \<and> (x = Inl NvmeAllocationFailed \<or>
    x = Inr (concat (map (disk (nm_dev m) nsid) [unat lba ..< unat lba + unat blocks]) @ drop n buffer) \<and>
    c' = c\<lparr>ct_io_queue := Some (served q)\<rparr> \<and> io_ready in_step hddm As (served q) c' m' \<and>
    (\<forall>ns b. disk (nm_dev m') ns b = disk (nm_dev m) ns b))"
proof -
  obtain s ram where r: "ct_io_queue c = Some q" "nq_ok q" "in_step (nm_dev m) q" "nm_dma m = (Some s, ram)" "dma_ready s As hddm q"
    using ready unfolding io_ready_def by (metis prod.collapse)
  have pages: "(n + 4095) div 4096 = 1" using size(3,4) by linarith
  have b0: "blocks \<noteq> 0" using size(2,3) by auto
  from one_page [OF r(5), of ram] obtain x s' where g: "get_zeroed_dma 1 (Some s, ram) = Some (x, Some s', ram)" and
    cs: "case x of Inl e \<Rightarrow> dma_ready s' As hddm q
     | Inr buf \<Rightarrow> db_phys_addr buf + hddm = db_virt_addr buf \<and> unat (of_nat (db_phys_addr buf) :: u64) = db_phys_addr buf \<and> 4096 dvd db_phys_addr buf \<and>
         {db_virt_addr buf ..< db_virt_addr buf + 4096} \<inter> ring_memory q = {} \<and>
         (\<forall>ram'. \<exists>s''. drop_dynamic buf (Some s', ram') = Some (Some s'', ram') \<and> dma_ready s'' As hddm q)" by blast
  show ?thesis
  proof (cases x)
    case (Inl e)
    then show ?thesis using r(4) g size(1) pages by (simp add: nvme_read_blocks_def)
  next
    case (Inr buf)
    then have buf: "db_phys_addr buf + hddm = db_virt_addr buf" "unat (of_nat (db_phys_addr buf) :: u64) = db_phys_addr buf" "4096 dvd db_phys_addr buf"
      "{db_virt_addr buf ..< db_virt_addr buf + 4096} \<inter> ring_memory q = {}" and
      dr: "\<forall>ram'. \<exists>s''. drop_dynamic buf (Some s', ram') = Some (Some s'', ram') \<and> dma_ready s'' As hddm q" using cs by simp_all
    define m1 where "m1 = m\<lparr>nm_dma := (Some s', ram)\<rparr>"
    from transfer_command_fields(1) [OF b0, of nsid lba "of_nat (db_phys_addr buf)"] obtain cmd where
      cmd: "nvme_read_cmd nsid lba blocks (of_nat (db_phys_addr buf)) = Some cmd" and
      f: "nc_opcode cmd = NVM_READ" "nc_nsid cmd = nsid" "nc_prp1 cmd = of_nat (db_phys_addr buf)" "lba_of cmd = unat lba" "blocks_of cmd = unat blocks" by blast
    have pre: "in_step (nm_dev m1) q" "nc_opcode cmd \<in> {NVM_READ, NVM_WRITE}" "blocks_of cmd * bs \<le> 4096" using r(3) f size(2,4) by (simp_all add: m1_def)
    from page_command [OF disk r(1,2) pre(1) room pre(2) f(3) pre(3) buf] obtain e d' ram' where
      sub: "submit_io_command env cmd c m1 = Some (Inr e, c\<lparr>ct_io_queue := Some (served q)\<rparr>, m1\<lparr>nm_dev := d', nm_dma := (fst (nm_dma m1), ram')\<rparr>)"
        "in_step d' (served q)" and
      got: "get_bytes ram' (db_virt_addr buf) n = concat (map (disk (nm_dev m1) nsid) [unat lba ..< unat lba + unat blocks])" and
      old: "\<forall>ns b. disk d' ns b = disk (nm_dev m1) ns b"
      unfolding f size(2) by (auto simp: NVM_READ_def NVM_WRITE_def)
    from dr obtain s'' where s'': "drop_dynamic buf (Some s', ram') = Some (Some s'', ram')" "dma_ready s'' As hddm q" by blast
    define m2 where "m2 = m1\<lparr>nm_dev := d', nm_dma := (Some s'', ram')\<rparr>"
    have "nvme_read_blocks env nsid lba blocks buffer c m =
        Some (Inr (get_bytes ram' (db_virt_addr buf) n @ drop n buffer), c\<lparr>ct_io_queue := Some (served q)\<rparr>, m2)"
      using size(1) pages r(4) g Inr cmd sub(1) s''(1)
      by (simp add: nvme_read_blocks_def finish_with_def m2_def m1_def Let_def)
    moreover have "io_ready in_step hddm As (served q) (c\<lparr>ct_io_queue := Some (served q)\<rparr>) m2"
      using sub(2) s''(2) served_ok [OF r(2)] unfolding io_ready_def m2_def by auto
    ultimately show ?thesis using got old by (simp add: m2_def m1_def)
  qed
qed


section \<open>A simulated disk\<close>

text \<open>
  A controller that follows the queue it was given and keeps 512 bytes for every block of every namespace; its rings are in a page that
  was taken from a forest of four frames.
\<close>

type_synonym demo_ctrl = "nvme_queue \<times> (u32 \<Rightarrow> nat \<Rightarrow> nat \<Rightarrow> u8)"

definition demo_contents :: "demo_ctrl \<Rightarrow> u32 \<Rightarrow> nat \<Rightarrow> u8 list" where
  "demo_contents d ns b = map (snd d ns b) [0 ..< 512]"

definition demo_completion :: "bool \<Rightarrow> nvme_completion" where
  "demo_completion phase = \<lparr>cq_dw0 = 0, cq_dw1 = 0, cq_sq_head = 0, cq_sq_id = 1, cq_cid = 0, cq_status = (if phase then 1 else 0)\<rparr>"

definition demo_serve :: "('c, 'k, demo_ctrl) nvme_machine \<Rightarrow> ('c, 'k, demo_ctrl) nvme_machine" where
  "demo_serve m = (
     let q = fst (nm_dev m); ram = snd (nm_dma m);
       cmd = decode_command (get_bytes ram (nq_sq_entries q + 64 * unat (nq_sq_tail q)) 64)
     in m\<lparr>nm_dev := (served q, \<lambda>ns b i.
            if nc_opcode cmd = NVM_WRITE \<and> ns = nc_nsid cmd \<and> lba_of cmd \<le> b \<and> b < lba_of cmd + blocks_of cmd
            then ram (unat (nc_prp1 cmd) + (b - lba_of cmd) * 512 + i) else snd (nm_dev m) ns b i),
          nm_dma := (fst (nm_dma m), put_bytes (nq_cq_entries q + 16 * unat (nq_cq_head q)) (encode_completion (demo_completion (nq_cq_phase q)))
            (if nc_opcode cmd = NVM_READ
             then put_bytes (unat (nc_prp1 cmd)) (concat (map (demo_contents (nm_dev m) (nc_nsid cmd)) [lba_of cmd ..< lba_of cmd + blocks_of cmd])) ram
             else ram))\<rparr>)"

definition demo_registers :: nvme_registers where
  "demo_registers = \<lparr>nr_cap = 0xFFFF, nr_vs = 0, nr_intms = 0, nr_intmc = 0, nr_cc = 0, nr_csts = 0, nr_nssr = 0, nr_aqa = 0, nr_asq = 0, nr_acq = 0,
     nr_cmbloc = 0, nr_cmbsz = 0, nr_doorbells = []\<rparr>"

definition demo_nvme :: "(addr \<Rightarrow> u32, (addr \<rightharpoonup> addr) \<times> addr, demo_ctrl) nvme_env" where
  "demo_nvme = \<lparr>ne_cfg = demo_io, ne_mm = bump_mm, ne_load = (\<lambda>d. (demo_registers, d)), ne_store = (\<lambda>_ d. d), ne_yield = (\<lambda>_. demo_serve)\<rparr>"

definition demo_io_queue :: "addr \<Rightarrow> nvme_queue" where
  "demo_io_queue a = \<lparr>nq_sq_entries = a, nq_sq_phys = a, nq_cq_entries = a + 256, nq_cq_phys = a + 256, nq_size = 4, nq_sq_head = 0,
     nq_sq_tail = 0, nq_cq_head = 0, nq_cq_phase = True, nq_queue_id = 1, nq_interrupt_vector = Some 0x51\<rparr>"

definition demo_controller :: "addr \<Rightarrow> nvme_controller" where
  "demo_controller a = \<lparr>ct_pci_device = demo_device, ct_registers = 0, ct_admin_queue = demo_queue, ct_io_queue = Some (demo_io_queue a),
     ct_next_command_id = 1, ct_namespaces = [\<lparr>ns_nsid = 1, ns_size_blocks = 2, ns_block_size = 512, ns_capacity_blocks = 2\<rparr>],
     ct_max_queue_entries = 4, ct_doorbell_stride = 4, ct_msix_info = None\<rparr>"

definition demo_machine :: "forest_state \<Rightarrow> addr \<Rightarrow> (addr \<Rightarrow> u32, (addr \<rightharpoonup> addr) \<times> addr, demo_ctrl) nvme_machine" where
  "demo_machine s a = \<lparr>nm_cfg = demo_bars, nm_vmm = vmm_new, nm_paging = (Map.empty, 0), nm_table = (\<lambda>_. 0), nm_pool = None,
     nm_dma = (Some s, \<lambda>_. 0), nm_dev = (demo_io_queue a, \<lambda>_ _ _. 0)\<rparr>"

lemma demo_completion_ok: "is_success (demo_completion p)" "phase_bit (demo_completion p) = p"
  by (cases p; simp add: demo_completion_def is_success_def status_code_def phase_bit_def)+

lemma demo_disk: "nvme_disk demo_nvme 0 512 demo_contents (\<lambda>d q. fst d = q)"
proof -
  have "\<exists>d' e. is_success e \<and> phase_bit e = nq_cq_phase q \<and> fst d' = served q \<and>
           ne_yield demo_nvme NVME_IO_VECTOR (nvme_store demo_nvme (StoreDoorbell 2 (ucast (nq_sq_tail (served q)))) m) =
             m\<lparr>nm_dev := d', nm_dma := (fst (nm_dma m),
               put_bytes (nq_cq_entries q + 16 * unat (nq_cq_head q)) (encode_completion e)
                 (if nc_opcode cmd = NVM_READ
                  then put_bytes (unat (nc_prp1 cmd) + 0)
                    (concat (map (demo_contents (nm_dev m) (nc_nsid cmd)) [lba_of cmd ..< lba_of cmd + blocks_of cmd])) (snd (nm_dma m))
                  else snd (nm_dma m)))\<rparr> \<and>
           (\<forall>ns b. demo_contents d' ns b =
              (if nc_opcode cmd = NVM_WRITE \<and> ns = nc_nsid cmd \<and> lba_of cmd \<le> b \<and> b < lba_of cmd + blocks_of cmd
               then get_bytes (snd (nm_dma m)) (unat (nc_prp1 cmd) + 0 + (b - lba_of cmd) * 512) 512 else demo_contents (nm_dev m) ns b))"
    if q: "fst (nm_dev m) = q" and cmd: "cmd = decode_command (get_bytes (snd (nm_dma m)) (nq_sq_entries q + 64 * unat (nq_sq_tail q)) 64)"
    for m :: "(addr \<Rightarrow> u32, (addr \<rightharpoonup> addr) \<times> addr, demo_ctrl) nvme_machine" and q cmd
  proof -
    have y: "ne_yield demo_nvme NVME_IO_VECTOR (nvme_store demo_nvme (StoreDoorbell 2 (ucast (nq_sq_tail (served q)))) m) = demo_serve m"
      by (simp add: demo_nvme_def nvme_store_def)
    define disk' where "disk' = (\<lambda>ns b i. if nc_opcode cmd = NVM_WRITE \<and> ns = nc_nsid cmd \<and> lba_of cmd \<le> b \<and> b < lba_of cmd + blocks_of cmd
      then snd (nm_dma m) (unat (nc_prp1 cmd) + (b - lba_of cmd) * 512 + i) else snd (nm_dev m) ns b i)"
    have "demo_serve m = m\<lparr>nm_dev := (served q, disk'), nm_dma := (fst (nm_dma m),
        put_bytes (nq_cq_entries q + 16 * unat (nq_cq_head q)) (encode_completion (demo_completion (nq_cq_phase q)))
          (if nc_opcode cmd = NVM_READ then put_bytes (unat (nc_prp1 cmd) + 0)
             (concat (map (demo_contents (nm_dev m) (nc_nsid cmd)) [lba_of cmd ..< lba_of cmd + blocks_of cmd])) (snd (nm_dma m)) else snd (nm_dma m)))\<rparr>"
      unfolding demo_serve_def Let_def q disk'_def cmd [symmetric] add_0_right by (rule refl)
    moreover have "demo_contents (served q, disk') ns b =
        (if nc_opcode cmd = NVM_WRITE \<and> ns = nc_nsid cmd \<and> lba_of cmd \<le> b \<and> b < lba_of cmd + blocks_of cmd
         then get_bytes (snd (nm_dma m)) (unat (nc_prp1 cmd) + 0 + (b - lba_of cmd) * 512) 512 else demo_contents (nm_dev m) ns b)" for ns b
      unfolding demo_contents_def get_bytes_def disk'_def by auto
    ultimately show ?thesis unfolding y
      by (intro exI [of _ "(served q, disk')"] exI [of _ "demo_completion (nq_cq_phase q)"] conjI allI demo_completion_ok) simp_all
  qed
  note serve = this
  show ?thesis unfolding nvme_disk_def
  proof (intro conjI allI impI)
    show "length (demo_contents d ns b) = 512" for d ns b by (simp add: demo_contents_def)
  qed (elim conjE, rule serve)
qed

lemma one_forest_aligned:
  assumes "run_pages one_forest 0 b = {a ..< n}" "a < n"
  shows "4096 dvd a"
proof -
  let ?f = "fst four_frames"
  have r: "run_pages one_forest 0 b = {fb_page_of ?f (snd b) ..< fb_page_of ?f (snd b) + fb_pages ?f (fst b) * 4096}"
    by (simp add: run_pages_def one_forest_def fb_block_pages_def)
  have "a = fb_page_of ?f (snd b)"
    using atLeastLessThan_inj(1) [OF assms(1) [unfolded r] _ assms(2)] by (simp add: fb_pages_def)
  then show ?thesis by (simp add: fb_page_of_def four_frames_def Let_def)
qed

lemma demo_ready: "\<exists>s a As. io_ready (\<lambda>d q. fst d = q) 0 As (demo_io_queue a) (demo_controller a) (demo_machine s a)"
proof -
  from one_forest_get [of "\<lambda>_. 0"] obtain buf d where g: "get_zeroed_dma 1 (Some one_forest, \<lambda>_. 0) = Some (Inr buf, d)" by blast
  have "4096 * 2 ^ 0 < usize_bound" by (simp add: usize_bound_def)
  from get_dma_run [OF one_forest_ok this, of "\<lambda>_. 0"] obtain r s where
    r: "get_zeroed_dma_internal 1 (Some one_forest, \<lambda>_. 0) = Some (r, Some s, \<lambda>_. 0)" "fo_hddm_offset (fst s) = fo_hddm_offset (fst one_forest)"
      "\<forall>k < length [{} :: block set]. \<forall>b. run_pages s k b = run_pages one_forest k b" and
    cs: "case r of Inl e \<Rightarrow> forest_ok s [{}]
     | Inr buf \<Rightarrow> \<exists>k b. k < length [{} :: block set] \<and> b \<notin> [{}] ! k \<and> forest_ok s ([{}][k := insert b ([{}] ! k)]) \<and>
         run_pages one_forest k b = buffer_range buf \<and> db_size buf = 1 \<and> db_phys_addr buf + fo_hddm_offset (fst one_forest) = db_virt_addr buf"
    unfolding power_0 by (elim exE conjE)
  have runs: "run_pages s 0 b = run_pages one_forest 0 b" for b using r(3) [rule_format, of 0 b] by simp
  have "r = Inr buf" using g r(1) by (simp add: get_zeroed_dma_def)
  with cs obtain b where b: "forest_ok s [{b}]" "run_pages one_forest 0 b = {db_virt_addr buf ..< db_virt_addr buf + 4096}"
    by (auto simp: buffer_range_def)
  have "ring_memory (demo_io_queue (db_virt_addr buf)) \<subseteq> run_pages s 0 b"
    unfolding runs b(2) by (auto simp: ring_memory_def demo_io_queue_def)
  moreover have "4096 dvd a" if "run_pages s 0 c = {a ..< n}" "a < n" for c a n using that one_forest_aligned unfolding runs by blast
  ultimately have "dma_ready s [{b}] 0 (demo_io_queue (db_virt_addr buf))"
    using b(1) r(2) unfolding dma_ready_def by (simp add: one_forest_def) blast
  then have "io_ready (\<lambda>d q. fst d = q) 0 [{b}] (demo_io_queue (db_virt_addr buf)) (demo_controller (db_virt_addr buf)) (demo_machine s (db_virt_addr buf))"
    by (simp add: io_ready_def demo_controller_def demo_machine_def) (simp add: nq_ok_def demo_io_queue_def)
  then show ?thesis by blast
qed


theorem largest_queues_fail_witness:
  "nvme_controller_new demo_nvme demo_device (demo_machine one_forest 0) \<noteq> Some (Inr (demo_controller 0), demo_machine one_forest 0)"
  by (rule largest_queues_fail) (simp add: demo_nvme_def demo_registers_def)

end
