(* ===== verification/Xhci_Registers.thy ===== *)
theory Xhci_Registers
  imports Layout
begin

text \<open>
  \<^verbatim>\<open>kernel/src/pci/usb/xhci_registers.rs\<close>: the registers of an xHCI host controller.  A register type of the source wraps
  one integer, and most of its methods test or change one bit; such a type is the datatype of its bits, with one
  constructor per pair of methods, and the mask that each method uses.  The accessors of \<^verbatim>\<open>XhciRegisters\<close> reach the device
  through \<open>xhci_io\<close>, over an abstract state \<open>'d\<close> of the controller; a volatile read may change that state.
\<close>

section \<open>Bits of a register\<close>

text \<open>
  \<open>flag_get\<close> is \<^verbatim>\<open>(self.0 & mask) != 0\<close>, \<open>flag_set\<close> the conditional \<^verbatim>\<open>|=\<close> and \<^verbatim>\<open>&= !mask\<close> of a setter, and \<open>flag_clear\<close> the \<^verbatim>\<open>|=\<close> of a method
  that clears a status bit by writing one.
\<close>

definition flag_get :: "'a::len word \<Rightarrow> 'a word \<Rightarrow> bool" where
  "flag_get msk w \<longleftrightarrow> w AND msk \<noteq> 0"

definition flag_set :: "'a::len word \<Rightarrow> bool \<Rightarrow> 'a word \<Rightarrow> 'a word" where
  "flag_set msk value w = (if value then w OR msk else w AND NOT msk)"

definition flag_clear :: "'a::len word \<Rightarrow> 'a word \<Rightarrow> 'a word" where
  "flag_clear msk w = w OR msk"

datatype hcc_params1_flag = Ac64 | Bnc | Csz | Ppc | Pind | Lhrc | Ltc | Nss | Pae | Spc | Sec | Cfc

fun hcc_params1_mask :: "hcc_params1_flag \<Rightarrow> u32" where
  "hcc_params1_mask Ac64 = 0x1"
| "hcc_params1_mask Bnc = 0x2"
| "hcc_params1_mask Csz = 0x4"
| "hcc_params1_mask Ppc = 0x8"
| "hcc_params1_mask Pind = 0x10"
| "hcc_params1_mask Lhrc = 0x20"
| "hcc_params1_mask Ltc = 0x40"
| "hcc_params1_mask Nss = 0x80"
| "hcc_params1_mask Pae = 0x100"
| "hcc_params1_mask Spc = 0x200"
| "hcc_params1_mask Sec = 0x400"
| "hcc_params1_mask Cfc = 0x800"

datatype hcc_params2_flag = U3c | Cmc | Fsc | Ctc | Lec | Cic | Etc | EtcTsc | Gsc | Vtc

fun hcc_params2_mask :: "hcc_params2_flag \<Rightarrow> u32" where
  "hcc_params2_mask U3c = 0x1"
| "hcc_params2_mask Cmc = 0x2"
| "hcc_params2_mask Fsc = 0x4"
| "hcc_params2_mask Ctc = 0x8"
| "hcc_params2_mask Lec = 0x10"
| "hcc_params2_mask Cic = 0x20"
| "hcc_params2_mask Etc = 0x40"
| "hcc_params2_mask EtcTsc = 0x80"
| "hcc_params2_mask Gsc = 0x100"
| "hcc_params2_mask Vtc = 0x200"

datatype usb_cmd_flag = RunStop | HcReset | InterrupterEnable | HostSystemErrorEnable | LightHcReset | ControllerSaveState
  | ControllerRestoreState | EnableWrapEvent | EnableU3MfindexStop

fun usb_cmd_mask :: "usb_cmd_flag \<Rightarrow> u32" where
  "usb_cmd_mask RunStop = 0x1"
| "usb_cmd_mask HcReset = 0x2"
| "usb_cmd_mask InterrupterEnable = 0x4"
| "usb_cmd_mask HostSystemErrorEnable = 0x8"
| "usb_cmd_mask LightHcReset = 0x80"
| "usb_cmd_mask ControllerSaveState = 0x100"
| "usb_cmd_mask ControllerRestoreState = 0x200"
| "usb_cmd_mask EnableWrapEvent = 0x400"
| "usb_cmd_mask EnableU3MfindexStop = 0x800"

datatype usb_sts_flag = HcHalted | HostSystemError | EventInterrupt | PortChangeDetect | SaveStateStatus | RestoreStateStatus
  | SaveRestoreError | ControllerNotReady | HcError

fun usb_sts_mask :: "usb_sts_flag \<Rightarrow> u32" where
  "usb_sts_mask HcHalted = 0x1"
| "usb_sts_mask HostSystemError = 0x4"
| "usb_sts_mask EventInterrupt = 0x8"
| "usb_sts_mask PortChangeDetect = 0x10"
| "usb_sts_mask SaveStateStatus = 0x100"
| "usb_sts_mask RestoreStateStatus = 0x200"
| "usb_sts_mask SaveRestoreError = 0x400"
| "usb_sts_mask ControllerNotReady = 0x800"
| "usb_sts_mask HcError = 0x1000"

datatype crcr_flag = RingCycleState | CommandStop | CommandAbort | CommandRingRunning

fun crcr_mask :: "crcr_flag \<Rightarrow> u64" where
  "crcr_mask RingCycleState = 0x1"
| "crcr_mask CommandStop = 0x2"
| "crcr_mask CommandAbort = 0x4"
| "crcr_mask CommandRingRunning = 0x8"

datatype config_flag = U3EntryEnable | ConfigInfoEnable

fun config_mask :: "config_flag \<Rightarrow> u32" where
  "config_mask U3EntryEnable = 0x100"
| "config_mask ConfigInfoEnable = 0x200"

datatype port_sc_flag = CurrentConnectStatus | PortEnabled | OverCurrentActive | PortReset | PortPower | PortLinkStateWriteStrobe
  | ConnectStatusChange | PortEnabledChange | WarmPortResetChange | OverCurrentChange | PortResetChange | PortLinkStateChange
  | PortConfigErrorChange | ColdAttachStatus | WakeOnConnectEnable | WakeOnDisconnectEnable | WakeOnOverCurrentEnable
  | DeviceRemovable | WarmPortReset

fun port_sc_mask :: "port_sc_flag \<Rightarrow> u32" where
  "port_sc_mask CurrentConnectStatus = 0x1"
| "port_sc_mask PortEnabled = 0x2"
| "port_sc_mask OverCurrentActive = 0x8"
| "port_sc_mask PortReset = 0x10"
| "port_sc_mask PortPower = 0x200"
| "port_sc_mask PortLinkStateWriteStrobe = 0x10000"
| "port_sc_mask ConnectStatusChange = 0x20000"
| "port_sc_mask PortEnabledChange = 0x40000"
| "port_sc_mask WarmPortResetChange = 0x80000"
| "port_sc_mask OverCurrentChange = 0x100000"
| "port_sc_mask PortResetChange = 0x200000"
| "port_sc_mask PortLinkStateChange = 0x400000"
| "port_sc_mask PortConfigErrorChange = 0x800000"
| "port_sc_mask ColdAttachStatus = 0x1000000"
| "port_sc_mask WakeOnConnectEnable = 0x2000000"
| "port_sc_mask WakeOnDisconnectEnable = 0x4000000"
| "port_sc_mask WakeOnOverCurrentEnable = 0x8000000"
| "port_sc_mask DeviceRemovable = 0x40000000"
| "port_sc_mask WarmPortReset = 0x80000000"

datatype iman_flag = InterruptPending | InterruptEnable

fun iman_mask :: "iman_flag \<Rightarrow> u32" where
  "iman_mask InterruptPending = 0x1"
| "iman_mask InterruptEnable = 0x2"

section \<open>Fields of a register\<close>

text \<open>The fields of the capability registers.\<close>

definition max_device_slots :: "u32 \<Rightarrow> u8" where
  "max_device_slots w = ucast (w AND 0xFF)"

definition max_interrupters :: "u32 \<Rightarrow> u16" where
  "max_interrupters w = ucast (drop_bit 8 w AND 0x7FF)"

definition max_ports :: "u32 \<Rightarrow> u8" where
  "max_ports w = ucast (drop_bit 24 w AND 0xFF)"

definition hcs2_ist :: "u32 \<Rightarrow> u8" where
  "hcs2_ist w = ucast (w AND 0xF)"

definition erst_max :: "u32 \<Rightarrow> u16" where
  "erst_max w = ucast (drop_bit 4 w AND 0xF)"

definition max_scratchpad_buffers :: "u32 \<Rightarrow> u16" where
  "max_scratchpad_buffers w = (
     let hi = ucast (drop_bit 21 w AND 0x1F);
       lo = ucast (drop_bit 27 w AND 0x1F)
     in push_bit 5 hi OR lo)"

definition u1_device_exit_latency :: "u32 \<Rightarrow> u8" where
  "u1_device_exit_latency w = ucast (w AND 0xFF)"

definition u2_device_exit_latency :: "u32 \<Rightarrow> u16" where
  "u2_device_exit_latency w = ucast (drop_bit 16 w AND 0xFFFF)"

definition max_psasize :: "u32 \<Rightarrow> u8" where
  "max_psasize w = ucast (drop_bit 12 w AND 0xF)"

definition xecp :: "u32 \<Rightarrow> u16" where
  "xecp w = ucast (drop_bit 16 w AND 0xFFFF)"

text \<open>The command ring control register; its constructor and its setter assert the alignment.\<close>

definition command_ring_pointer :: "u64 \<Rightarrow> u64" where
  "command_ring_pointer w = w AND NOT 0x3F"

definition set_command_ring_pointer :: "u64 \<Rightarrow> u64 \<Rightarrow> u64 rust" where
  "set_command_ring_pointer a w = do {
     rust_assert (a AND 0x3F = 0);
     Some ((w AND 0x3F) OR (a AND NOT 0x3F))
   }"

definition command_ring_control_new :: "u64 \<Rightarrow> bool \<Rightarrow> u64 rust" where
  "command_ring_control_new ring_pointer cycle_state = do {
     rust_assert (ring_pointer AND 0x3F = 0);
     Some (flag_set (crcr_mask RingCycleState) cycle_state ring_pointer)
   }"

definition max_device_slots_enabled :: "u32 \<Rightarrow> u8" where
  "max_device_slots_enabled w = ucast (w AND 0xFF)"

definition set_max_device_slots_enabled :: "u8 \<Rightarrow> u32 \<Rightarrow> u32" where
  "set_max_device_slots_enabled value w = (w AND NOT 0xFF) OR ucast value"

definition port_link_state :: "u32 \<Rightarrow> u8" where
  "port_link_state w = ucast (drop_bit 5 w AND 0xF)"

definition set_port_link_state :: "u8 \<Rightarrow> u32 \<Rightarrow> u32" where
  "set_port_link_state value w = (w AND NOT (push_bit 5 0xF)) OR push_bit 5 (ucast value AND 0xF)"

definition port_speed :: "u32 \<Rightarrow> u8" where
  "port_speed w = ucast (drop_bit 10 w AND 0xF)"

definition port_indicator :: "u32 \<Rightarrow> u8" where
  "port_indicator w = ucast (drop_bit 14 w AND 0x3)"

definition set_port_indicator :: "u8 \<Rightarrow> u32 \<Rightarrow> u32" where
  "set_port_indicator value w = (w AND NOT (push_bit 14 0x3)) OR push_bit 14 (ucast value AND 0x3)"

definition interrupt_moderation_interval :: "u32 \<Rightarrow> u16" where
  "interrupt_moderation_interval w = ucast (w AND 0xFFFF)"

definition set_interrupt_moderation_interval :: "u16 \<Rightarrow> u32 \<Rightarrow> u32" where
  "set_interrupt_moderation_interval value w = (w AND NOT 0xFFFF) OR ucast value"

definition interrupt_moderation_counter :: "u32 \<Rightarrow> u16" where
  "interrupt_moderation_counter w = ucast (drop_bit 16 w AND 0xFFFF)"

definition set_interrupt_moderation_counter :: "u16 \<Rightarrow> u32 \<Rightarrow> u32" where
  "set_interrupt_moderation_counter value w = (w AND NOT 0xFFFF0000) OR push_bit 16 (ucast value)"

section \<open>The register blocks\<close>

definition capability_layout :: layout where
  "capability_layout = [
     (''cap_length'', U8), (''_reserved1'', U8), (''hci_version'', U16), (''hcs_params1'', U32), (''hcs_params2'', U32),
     (''hcs_params3'', U32), (''hcc_params1'', U32), (''doorbell_offset'', U32), (''runtime_offset'', U32),
     (''hcc_params2'', U32)]"

definition operational_layout :: layout where
  "operational_layout = [
     (''usb_cmd'', U32), (''usb_sts'', U32), (''page_size'', U32), (''_reserved1'', Arr 2 U32),
     (''device_notification_ctrl'', U32), (''command_ring_ctrl'', U64), (''_reserved2'', Arr 4 U32),
     (''device_context_base_addr'', U64), (''config'', U32)]"

definition interrupter_layout :: layout where
  "interrupter_layout = [
     (''iman'', U32), (''imod'', U32), (''erstsz'', U32), (''_reserved'', U32), (''erstba'', U64), (''erdp'', U64)]"

definition runtime_layout :: layout where
  "runtime_layout = [
     (''mfindex'', U32), (''_reserved'', Arr 7 U32), (''interrupters'', Arr 1 (Struct (map snd interrupter_layout)))]"

definition reg :: "layout \<Rightarrow> string \<Rightarrow> addr \<Rightarrow> addr rust" where
  "reg l f base = map_option (\<lambda>off. base + off) (offset_of l f)"

text \<open>
  The capability registers are read through an ordinary reference and have no side effects; all other registers are
  read and written with volatile accesses of their width.
\<close>

record 'd xhci_io =
  x_cap8 :: "addr \<Rightarrow> 'd \<Rightarrow> u8"
  x_cap32 :: "addr \<Rightarrow> 'd \<Rightarrow> u32"
  x_read32 :: "addr \<Rightarrow> 'd \<Rightarrow> u32 \<times> 'd"
  x_read64 :: "addr \<Rightarrow> 'd \<Rightarrow> u64 \<times> 'd"
  x_write32 :: "addr \<Rightarrow> u32 \<Rightarrow> 'd \<Rightarrow> 'd"
  x_write64 :: "addr \<Rightarrow> u64 \<Rightarrow> 'd \<Rightarrow> 'd"

record xhci_registers =
  xr_base_addr :: addr
  xr_capability_regs :: addr
  xr_operational_regs :: addr
  xr_runtime_regs :: addr
  xr_doorbell_base :: addr

definition cap_length :: "'d xhci_io \<Rightarrow> addr \<Rightarrow> 'd \<Rightarrow> u8 rust" where
  "cap_length io c d = do { a \<leftarrow> reg capability_layout ''cap_length'' c; Some (x_cap8 io a d) }"

definition cap_field :: "'d xhci_io \<Rightarrow> string \<Rightarrow> addr \<Rightarrow> 'd \<Rightarrow> u32 rust" where
  "cap_field io f c d = do { a \<leftarrow> reg capability_layout f c; Some (x_cap32 io a d) }"

text \<open>\<^verbatim>\<open>VirtAddr + u64\<close>.\<close>

definition virt_addr_add :: "addr \<Rightarrow> nat \<Rightarrow> addr rust" where
  "virt_addr_add a n = do { s \<leftarrow> usize_add a n; virt_addr_new s }"

definition xhci_registers_new :: "'d xhci_io \<Rightarrow> addr \<Rightarrow> 'd \<Rightarrow> xhci_registers rust" where
  "xhci_registers_new io base_addr d = do {
     let capability_regs = base_addr;
     len \<leftarrow> cap_length io capability_regs d;
     operational_base \<leftarrow> virt_addr_add base_addr (unat len);
     runtime_offset \<leftarrow> cap_field io ''runtime_offset'' capability_regs d;
     runtime_base \<leftarrow> virt_addr_add base_addr (unat runtime_offset);
     doorbell_offset \<leftarrow> cap_field io ''doorbell_offset'' capability_regs d;
     doorbell_base \<leftarrow> virt_addr_add base_addr (unat doorbell_offset);
     Some \<lparr>xr_base_addr = base_addr, xr_capability_regs = capability_regs, xr_operational_regs = operational_base,
       xr_runtime_regs = runtime_base, xr_doorbell_base = doorbell_base\<rparr>
   }"

definition capability :: "xhci_registers \<Rightarrow> addr" where
  "capability r = xr_capability_regs r"

text \<open>Each pair of accessors of an operational register.\<close>

definition op_read32 :: "'d xhci_io \<Rightarrow> string \<Rightarrow> xhci_registers \<Rightarrow> 'd \<Rightarrow> (u32 \<times> 'd) rust" where
  "op_read32 io f r d = do { a \<leftarrow> reg operational_layout f (xr_operational_regs r); Some (x_read32 io a d) }"

definition op_write32 :: "'d xhci_io \<Rightarrow> string \<Rightarrow> u32 \<Rightarrow> xhci_registers \<Rightarrow> 'd \<Rightarrow> 'd rust" where
  "op_write32 io f v r d = do { a \<leftarrow> reg operational_layout f (xr_operational_regs r); Some (x_write32 io a v d) }"

definition op_read64 :: "'d xhci_io \<Rightarrow> string \<Rightarrow> xhci_registers \<Rightarrow> 'd \<Rightarrow> (u64 \<times> 'd) rust" where
  "op_read64 io f r d = do { a \<leftarrow> reg operational_layout f (xr_operational_regs r); Some (x_read64 io a d) }"

definition op_write64 :: "'d xhci_io \<Rightarrow> string \<Rightarrow> u64 \<Rightarrow> xhci_registers \<Rightarrow> 'd \<Rightarrow> 'd rust" where
  "op_write64 io f v r d = do { a \<leftarrow> reg operational_layout f (xr_operational_regs r); Some (x_write64 io a v d) }"

definition usb_cmd :: "'d xhci_io \<Rightarrow> xhci_registers \<Rightarrow> 'd \<Rightarrow> (u32 \<times> 'd) rust" where
  "usb_cmd io r d = op_read32 io ''usb_cmd'' r d"

definition set_usb_cmd :: "'d xhci_io \<Rightarrow> u32 \<Rightarrow> xhci_registers \<Rightarrow> 'd \<Rightarrow> 'd rust" where
  "set_usb_cmd io cmd r d = op_write32 io ''usb_cmd'' cmd r d"

definition usb_sts :: "'d xhci_io \<Rightarrow> xhci_registers \<Rightarrow> 'd \<Rightarrow> (u32 \<times> 'd) rust" where
  "usb_sts io r d = op_read32 io ''usb_sts'' r d"

definition set_usb_sts :: "'d xhci_io \<Rightarrow> u32 \<Rightarrow> xhci_registers \<Rightarrow> 'd \<Rightarrow> 'd rust" where
  "set_usb_sts io sts r d = op_write32 io ''usb_sts'' sts r d"

definition page_size :: "'d xhci_io \<Rightarrow> xhci_registers \<Rightarrow> 'd \<Rightarrow> (u32 \<times> 'd) rust" where
  "page_size io r d = op_read32 io ''page_size'' r d"

definition device_notification_ctrl :: "'d xhci_io \<Rightarrow> xhci_registers \<Rightarrow> 'd \<Rightarrow> (u32 \<times> 'd) rust" where
  "device_notification_ctrl io r d = op_read32 io ''device_notification_ctrl'' r d"

definition set_device_notification_ctrl :: "'d xhci_io \<Rightarrow> u32 \<Rightarrow> xhci_registers \<Rightarrow> 'd \<Rightarrow> 'd rust" where
  "set_device_notification_ctrl io v r d = op_write32 io ''device_notification_ctrl'' v r d"

definition command_ring_ctrl :: "'d xhci_io \<Rightarrow> xhci_registers \<Rightarrow> 'd \<Rightarrow> (u64 \<times> 'd) rust" where
  "command_ring_ctrl io r d = op_read64 io ''command_ring_ctrl'' r d"

definition set_command_ring_ctrl :: "'d xhci_io \<Rightarrow> u64 \<Rightarrow> xhci_registers \<Rightarrow> 'd \<Rightarrow> 'd rust" where
  "set_command_ring_ctrl io v r d = op_write64 io ''command_ring_ctrl'' v r d"

definition device_context_base_addr :: "'d xhci_io \<Rightarrow> xhci_registers \<Rightarrow> 'd \<Rightarrow> (u64 \<times> 'd) rust" where
  "device_context_base_addr io r d = op_read64 io ''device_context_base_addr'' r d"

definition set_device_context_base_addr :: "'d xhci_io \<Rightarrow> u64 \<Rightarrow> xhci_registers \<Rightarrow> 'd \<Rightarrow> 'd rust" where
  "set_device_context_base_addr io v r d = op_write64 io ''device_context_base_addr'' v r d"

definition xhci_config :: "'d xhci_io \<Rightarrow> xhci_registers \<Rightarrow> 'd \<Rightarrow> (u32 \<times> 'd) rust" where
  "xhci_config io r d = op_read32 io ''config'' r d"

definition set_config :: "'d xhci_io \<Rightarrow> u32 \<Rightarrow> xhci_registers \<Rightarrow> 'd \<Rightarrow> 'd rust" where
  "set_config io v r d = op_write32 io ''config'' v r d"

text \<open>The offset of a port register is below \<open>0x1400\<close>, so its 16-bit arithmetic does not overflow.\<close>

definition port_sc_addr :: "'d xhci_io \<Rightarrow> u8 \<Rightarrow> xhci_registers \<Rightarrow> 'd \<Rightarrow> addr rust" where
  "port_sc_addr io port r d = do {
     hcs \<leftarrow> cap_field io ''hcs_params1'' (xr_capability_regs r) d;
     rust_assert (port > 0 \<and> port \<le> max_ports hcs);
     len \<leftarrow> cap_length io (xr_capability_regs r) d;
     operational_base \<leftarrow> virt_addr_add (xr_base_addr r) (unat len);
     usize_add operational_base (0x400 + unat (port - 1) * 0x10)
   }"

definition port_sc :: "'d xhci_io \<Rightarrow> u8 \<Rightarrow> xhci_registers \<Rightarrow> 'd \<Rightarrow> (u32 \<times> 'd) rust" where
  "port_sc io port r d = do { a \<leftarrow> port_sc_addr io port r d; Some (x_read32 io a d) }"

definition set_port_sc :: "'d xhci_io \<Rightarrow> u8 \<Rightarrow> u32 \<Rightarrow> xhci_registers \<Rightarrow> 'd \<Rightarrow> 'd rust" where
  "set_port_sc io port portsc r d = do { a \<leftarrow> port_sc_addr io port r d; Some (x_write32 io a portsc d) }"

definition mfindex :: "'d xhci_io \<Rightarrow> xhci_registers \<Rightarrow> 'd \<Rightarrow> (u32 \<times> 'd) rust" where
  "mfindex io r d = do { a \<leftarrow> reg runtime_layout ''mfindex'' (xr_runtime_regs r); Some (x_read32 io a d) }"

definition interrupter_addr :: "'d xhci_io \<Rightarrow> u16 \<Rightarrow> xhci_registers \<Rightarrow> 'd \<Rightarrow> addr rust" where
  "interrupter_addr io interrupter r d = do {
     hcs \<leftarrow> cap_field io ''hcs_params1'' (xr_capability_regs r) d;
     rust_assert (interrupter < max_interrupters hcs);
     rust_assert (interrupter = 0);
     a \<leftarrow> reg runtime_layout ''interrupters'' (xr_runtime_regs r);
     reg interrupter_layout ''iman'' a
   }"

definition interrupter_management :: "'d xhci_io \<Rightarrow> u16 \<Rightarrow> xhci_registers \<Rightarrow> 'd \<Rightarrow> (u32 \<times> 'd) rust" where
  "interrupter_management io interrupter r d = do { a \<leftarrow> interrupter_addr io interrupter r d; Some (x_read32 io a d) }"

definition set_interrupter_management :: "'d xhci_io \<Rightarrow> u16 \<Rightarrow> u32 \<Rightarrow> xhci_registers \<Rightarrow> 'd \<Rightarrow> 'd rust" where
  "set_interrupter_management io interrupter iman r d = do { a \<leftarrow> interrupter_addr io interrupter r d; Some (x_write32 io a iman d) }"

definition xhci_ring_doorbell :: "'d xhci_io \<Rightarrow> u8 \<Rightarrow> u8 \<Rightarrow> u16 \<Rightarrow> xhci_registers \<Rightarrow> 'd \<Rightarrow> 'd rust" where
  "xhci_ring_doorbell io slot_id endpoint stream_id r d = do {
     let doorbell_offset = unat slot_id * 4;
     let doorbell_value = push_bit 16 (ucast stream_id) OR ucast endpoint;
     a \<leftarrow> usize_add (xr_doorbell_base r) doorbell_offset;
     Some (x_write32 io a doorbell_value d)
   }"

definition ring_hc_doorbell :: "'d xhci_io \<Rightarrow> u8 \<Rightarrow> xhci_registers \<Rightarrow> 'd \<Rightarrow> 'd rust" where
  "ring_hc_doorbell io command r d = xhci_ring_doorbell io 0 command 0 r d"

section \<open>Independent bits\<close>

text \<open>The position of a flag is the number of zeros below its mask.\<close>

definition flag_pos :: "'a::len word \<Rightarrow> nat" where
  "flag_pos msk = trailing_zeros (unat msk)"

text \<open>
  The contract of a register type with its users: each flag is one bit of its own, so a setter decides what its getter
  returns and no other.
\<close>

locale flag_register =
  fixes bit_mask :: "'f \<Rightarrow> 'a::len word"
  assumes pos_bound: "flag_pos (bit_mask f) < LENGTH('a)"
    and single_bit: "bit_mask f = push_bit (flag_pos (bit_mask f)) 1"
    and inj: "bit_mask f = bit_mask g \<Longrightarrow> f = g"
begin

lemma get_iff: "flag_get (bit_mask f) w \<longleftrightarrow> bit w (flag_pos (bit_mask f))"
  by (subst single_bit) (simp add: flag_get_def bit_iff_and_push_bit_not_eq_0)

lemma bit_mask_iff: "bit (bit_mask f) n \<longleftrightarrow> n = flag_pos (bit_mask f)"
  using pos_bound [of f] by (subst single_bit) (auto simp: bit_simps)

lemma bit_set_iff: "bit (flag_set (bit_mask f) v w) n \<longleftrightarrow> (if n = flag_pos (bit_mask f) then v else bit w n)"
  using pos_bound [of f] by (auto simp: flag_set_def bit_mask_iff bit_simps dest: bit_imp_le_length)

lemma bit_clear_iff: "bit (flag_clear (bit_mask f) w) n \<longleftrightarrow> n = flag_pos (bit_mask f) \<or> bit w n"
  by (auto simp: flag_clear_def bit_mask_iff bit_simps)

lemma pos_inj: "flag_pos (bit_mask f) = flag_pos (bit_mask g) \<longleftrightarrow> f = g"
  using single_bit [of f] single_bit [of g] inj [of f g] by auto

lemma get_set: "flag_get (bit_mask f) (flag_set (bit_mask g) v w) \<longleftrightarrow> (if f = g then v else flag_get (bit_mask f) w)"
  by (auto simp: get_iff bit_set_iff pos_inj)

lemma get_clear: "flag_get (bit_mask f) (flag_clear (bit_mask g) w) \<longleftrightarrow> f = g \<or> flag_get (bit_mask f) w"
  by (auto simp: get_iff bit_clear_iff pos_inj)

lemma set_commute:
  assumes "f \<noteq> g"
  shows "flag_set (bit_mask f) v (flag_set (bit_mask g) u w) = flag_set (bit_mask g) u (flag_set (bit_mask f) v w)"
  using assms pos_inj [of f g] by (intro bit_word_eqI) (simp add: bit_set_iff)

end

interpretation hcc_params1_bits: flag_register hcc_params1_mask
proof
  fix f g
  show "flag_pos (hcc_params1_mask f) < LENGTH(32)" by (cases f) (simp_all add: flag_pos_def trailing_zeros.simps)
  show "hcc_params1_mask f = push_bit (flag_pos (hcc_params1_mask f)) 1" by (cases f) (simp_all add: flag_pos_def trailing_zeros.simps push_bit_eq_mult)
  show "hcc_params1_mask f = hcc_params1_mask g \<Longrightarrow> f = g" by (cases f; cases g) simp_all
qed

interpretation hcc_params2_bits: flag_register hcc_params2_mask
proof
  fix f g
  show "flag_pos (hcc_params2_mask f) < LENGTH(32)" by (cases f) (simp_all add: flag_pos_def trailing_zeros.simps)
  show "hcc_params2_mask f = push_bit (flag_pos (hcc_params2_mask f)) 1" by (cases f) (simp_all add: flag_pos_def trailing_zeros.simps push_bit_eq_mult)
  show "hcc_params2_mask f = hcc_params2_mask g \<Longrightarrow> f = g" by (cases f; cases g) simp_all
qed

interpretation usb_cmd_bits: flag_register usb_cmd_mask
proof
  fix f g
  show "flag_pos (usb_cmd_mask f) < LENGTH(32)" by (cases f) (simp_all add: flag_pos_def trailing_zeros.simps)
  show "usb_cmd_mask f = push_bit (flag_pos (usb_cmd_mask f)) 1" by (cases f) (simp_all add: flag_pos_def trailing_zeros.simps push_bit_eq_mult)
  show "usb_cmd_mask f = usb_cmd_mask g \<Longrightarrow> f = g" by (cases f; cases g) simp_all
qed

interpretation usb_sts_bits: flag_register usb_sts_mask
proof
  fix f g
  show "flag_pos (usb_sts_mask f) < LENGTH(32)" by (cases f) (simp_all add: flag_pos_def trailing_zeros.simps)
  show "usb_sts_mask f = push_bit (flag_pos (usb_sts_mask f)) 1" by (cases f) (simp_all add: flag_pos_def trailing_zeros.simps push_bit_eq_mult)
  show "usb_sts_mask f = usb_sts_mask g \<Longrightarrow> f = g" by (cases f; cases g) simp_all
qed

interpretation crcr_bits: flag_register crcr_mask
proof
  fix f g
  show "flag_pos (crcr_mask f) < LENGTH(64)" by (cases f) (simp_all add: flag_pos_def trailing_zeros.simps)
  show "crcr_mask f = push_bit (flag_pos (crcr_mask f)) 1" by (cases f) (simp_all add: flag_pos_def trailing_zeros.simps push_bit_eq_mult)
  show "crcr_mask f = crcr_mask g \<Longrightarrow> f = g" by (cases f; cases g) simp_all
qed

interpretation config_bits: flag_register config_mask
proof
  fix f g
  show "flag_pos (config_mask f) < LENGTH(32)" by (cases f) (simp_all add: flag_pos_def trailing_zeros.simps)
  show "config_mask f = push_bit (flag_pos (config_mask f)) 1" by (cases f) (simp_all add: flag_pos_def trailing_zeros.simps push_bit_eq_mult)
  show "config_mask f = config_mask g \<Longrightarrow> f = g" by (cases f; cases g) simp_all
qed

interpretation port_sc_bits: flag_register port_sc_mask
proof
  fix f g
  show "flag_pos (port_sc_mask f) < LENGTH(32)" by (cases f) (simp_all add: flag_pos_def trailing_zeros.simps)
  show "port_sc_mask f = push_bit (flag_pos (port_sc_mask f)) 1" by (cases f) (simp_all add: flag_pos_def trailing_zeros.simps push_bit_eq_mult)
  show "port_sc_mask f = port_sc_mask g \<Longrightarrow> f = g" by (cases f; cases g) simp_all
qed

interpretation iman_bits: flag_register iman_mask
proof
  fix f g
  show "flag_pos (iman_mask f) < LENGTH(32)" by (cases f) (simp_all add: flag_pos_def trailing_zeros.simps)
  show "iman_mask f = push_bit (flag_pos (iman_mask f)) 1" by (cases f) (simp_all add: flag_pos_def trailing_zeros.simps push_bit_eq_mult)
  show "iman_mask f = iman_mask g \<Longrightarrow> f = g" by (cases f; cases g) simp_all
qed

section \<open>Fields\<close>

text \<open>The masks of the fields as runs of bits, so that a field is compared bit by bit.\<close>

lemma field_masks:
  "0x3 = (mask 2 :: 'a::len word)" "0xF = (mask 4 :: 'a word)" "0x1F = (mask 5 :: 'a word)" "0x3F = (mask 6 :: 'a word)"
  "0xFF = (mask 8 :: 'a word)" "0x7FF = (mask 11 :: 'a word)" "0xFFFF = (mask 16 :: 'a word)" "0x1FFFF = (mask 17 :: 'a word)"
  by (simp_all add: mask_eq_exp_minus_1)

lemma shifted_masks: "0xFFFF0000 = (push_bit 16 (mask 16) :: u32)" "0xFF000000 = (push_bit 24 (mask 8) :: u32)"
  "0xFC00 = (push_bit 10 (mask 6) :: u32)" "0x1F0000 = (push_bit 16 (mask 5) :: u32)"
  by (simp_all add: mask_eq_exp_minus_1 push_bit_eq_mult)

lemmas field_bits = field_masks shifted_masks bit_simps

lemma config_slots: "max_device_slots_enabled (set_max_device_slots_enabled v w) = v"
  by (rule bit_word_eqI) (auto simp: max_device_slots_enabled_def set_max_device_slots_enabled_def field_bits dest: bit_imp_le_length)

lemma link_state: "port_link_state (set_port_link_state v w) = v AND 0xF"
  by (rule bit_word_eqI) (auto simp: port_link_state_def set_port_link_state_def field_bits dest: bit_imp_le_length)

lemma indicator: "port_indicator (set_port_indicator v w) = v AND 0x3"
  by (rule bit_word_eqI) (auto simp: port_indicator_def set_port_indicator_def field_bits dest: bit_imp_le_length)

lemma moderation:
  "interrupt_moderation_interval (set_interrupt_moderation_interval v w) = v"
  "interrupt_moderation_counter (set_interrupt_moderation_counter v w) = v"
  "interrupt_moderation_counter (set_interrupt_moderation_interval v w) = interrupt_moderation_counter w"
  "interrupt_moderation_interval (set_interrupt_moderation_counter v w) = interrupt_moderation_interval w"
  by (rule bit_word_eqI; auto simp: interrupt_moderation_interval_def set_interrupt_moderation_interval_def
        interrupt_moderation_counter_def set_interrupt_moderation_counter_def field_bits dest: bit_imp_le_length)+

lemma flags_outside:
  "flag_get (config_mask cf) (set_max_device_slots_enabled b w) = flag_get (config_mask cf) w"
  "flag_get (port_sc_mask pf) (set_port_link_state b w) = flag_get (port_sc_mask pf) w"
  "flag_get (port_sc_mask pf) (set_port_indicator b w) = flag_get (port_sc_mask pf) w"
proof -
  have c: "flag_pos (config_mask cf) \<in> {8, 9}" by (cases cf) (simp_all add: flag_pos_def trailing_zeros.simps)
  show "flag_get (config_mask cf) (set_max_device_slots_enabled b w) = flag_get (config_mask cf) w"
    unfolding config_bits.get_iff using c by (auto simp: set_max_device_slots_enabled_def field_bits dest: bit_imp_le_length)
  have p: "flag_pos (port_sc_mask pf) \<notin> {5 ..< 9} \<union> {14 ..< 16}" by (cases pf) (simp_all add: flag_pos_def trailing_zeros.simps)
  show "flag_get (port_sc_mask pf) (set_port_link_state b w) = flag_get (port_sc_mask pf) w"
    unfolding port_sc_bits.get_iff using p by (auto simp: set_port_link_state_def field_bits dest: bit_imp_le_length)
  show "flag_get (port_sc_mask pf) (set_port_indicator b w) = flag_get (port_sc_mask pf) w"
    unfolding port_sc_bits.get_iff using p by (auto simp: set_port_indicator_def field_bits dest: bit_imp_le_length)
qed

lemma ring_pointer:
  assumes "a AND 0x3F = (0 :: u64)"
  shows "command_ring_pointer ((x AND 0x3F) OR (a AND NOT 0x3F)) = a"
    and "flag_get (crcr_mask f) ((x AND 0x3F) OR (a AND NOT 0x3F)) = flag_get (crcr_mask f) x"
proof -
  have low: "\<not> bit a n" if "n < 6" for n
    using arg_cong [OF assms, of "\<lambda>x. bit x n"] that by (simp add: field_bits)
  show "command_ring_pointer ((x AND 0x3F) OR (a AND NOT 0x3F)) = a"
    by (rule bit_word_eqI) (use low in \<open>auto simp: command_ring_pointer_def field_bits dest: bit_imp_le_length\<close>)
  have "flag_pos (crcr_mask f) < 4" by (cases f) (simp_all add: flag_pos_def trailing_zeros.simps)
  then show "flag_get (crcr_mask f) ((x AND 0x3F) OR (a AND NOT 0x3F)) = flag_get (crcr_mask f) x"
    unfolding crcr_bits.get_iff using low by (auto simp: field_bits)
qed


section \<open>Where the registers are\<close>

lemma operational_offsets [simp]:
  "reg operational_layout ''usb_cmd'' b = Some b" "reg operational_layout ''usb_sts'' b = Some (b + 4)"
  "reg operational_layout ''page_size'' b = Some (b + 8)" "reg operational_layout ''device_notification_ctrl'' b = Some (b + 0x14)"
  "reg operational_layout ''command_ring_ctrl'' b = Some (b + 0x18)" "reg operational_layout ''device_context_base_addr'' b = Some (b + 0x30)"
  "reg operational_layout ''config'' b = Some (b + 0x38)"
  by (simp_all add: reg_def offset_of_def operational_layout_def round_up_def)

lemma capability_offsets [simp]:
  "reg capability_layout ''cap_length'' b = Some b" "reg capability_layout ''hcs_params1'' b = Some (b + 4)"
  "reg capability_layout ''doorbell_offset'' b = Some (b + 0x14)" "reg capability_layout ''runtime_offset'' b = Some (b + 0x18)"
  by (simp_all add: reg_def offset_of_def capability_layout_def round_up_def)

lemma runtime_offsets [simp]:
  "reg runtime_layout ''mfindex'' b = Some b" "reg runtime_layout ''interrupters'' b = Some (b + 0x20)" "reg interrupter_layout ''iman'' b = Some b"
  by (simp_all add: reg_def offset_of_def runtime_layout_def interrupter_layout_def round_up_def)

end
