(* ===== verification/Xhci_Trb.thy ===== *)
theory Xhci_Trb
  imports Xhci_Registers
begin

text \<open>
  \<^verbatim>\<open>kernel/src/pci/usb/init_helpers.rs\<close>: transfer request blocks (TRBs), the 16-byte entries of the rings of an xHCI
  controller, with their accessors, the constructors of commands and transfers, and the parsing of events.
\<close>

section \<open>The code\<close>

record trb =
  trb_data :: u64
  trb_status :: u32
  trb_control :: u32

definition encode_trb :: "trb \<Rightarrow> u8 list" where
  "encode_trb t = to_le 8 (trb_data t) @ to_le 4 (trb_status t) @ to_le 4 (trb_control t)"

definition decode_trb :: "u8 list \<Rightarrow> trb" where
  "decode_trb bs = \<lparr>trb_data = of_le (take 8 bs), trb_status = of_le (take 4 (drop 8 bs)), trb_control = of_le (take 4 (drop 12 bs))\<rparr>"

datatype trb_type =
    Normal | SetupStage | DataStage | StatusStage | Isoch | Link | EventData | EnableSlot | DisableSlot
    | AddressDevice | ConfigureEndpoint | EvaluateContext | ResetEndpoint | StopEndpoint | SetTrDequeuePointer
    | ResetDevice | ForceEvent | NegotiateBandwidth | SetLatencyToleranceValue | GetPortBandwidth | ForceHeader
    | NoOpCommand | TransferEvent | CommandCompletionEvent | PortStatusChangeEvent | BandwidthRequestEvent
    | DoorbellEvent | HostControllerEvent | DeviceNotificationEvent | MfindexWrapEvent

fun trb_type_code :: "trb_type \<Rightarrow> u8" where
  "trb_type_code Normal = 1"
| "trb_type_code SetupStage = 2"
| "trb_type_code DataStage = 3"
| "trb_type_code StatusStage = 4"
| "trb_type_code Isoch = 5"
| "trb_type_code Link = 6"
| "trb_type_code EventData = 7"
| "trb_type_code EnableSlot = 9"
| "trb_type_code DisableSlot = 10"
| "trb_type_code AddressDevice = 11"
| "trb_type_code ConfigureEndpoint = 12"
| "trb_type_code EvaluateContext = 13"
| "trb_type_code ResetEndpoint = 14"
| "trb_type_code StopEndpoint = 15"
| "trb_type_code SetTrDequeuePointer = 16"
| "trb_type_code ResetDevice = 17"
| "trb_type_code ForceEvent = 18"
| "trb_type_code NegotiateBandwidth = 19"
| "trb_type_code SetLatencyToleranceValue = 20"
| "trb_type_code GetPortBandwidth = 21"
| "trb_type_code ForceHeader = 22"
| "trb_type_code NoOpCommand = 23"
| "trb_type_code TransferEvent = 32"
| "trb_type_code CommandCompletionEvent = 33"
| "trb_type_code PortStatusChangeEvent = 34"
| "trb_type_code BandwidthRequestEvent = 35"
| "trb_type_code DoorbellEvent = 36"
| "trb_type_code HostControllerEvent = 37"
| "trb_type_code DeviceNotificationEvent = 38"
| "trb_type_code MfindexWrapEvent = 39"

datatype completion_code =
    Invalid | Success | DataBufferError | BabbleDetectedError | UsbTransactionError | TrbError | StallError
    | ResourceError | BandwidthError | NoSlotsAvailableError | InvalidStreamTypeError | SlotNotEnabledError
    | EndpointNotEnabledError | ShortPacket | RingUnderrun | RingOverrun | VfEventRingFullError | ParameterError
    | BandwidthOverrunError | ContextStateError | NoPingResponseError | EventRingFullError
    | IncompatibleDeviceError | MissedServiceError | CommandRingStopped | CommandAborted | Stopped
    | StoppedLengthInvalid | StoppedShortPacket | MaxExitLatencyTooLargeError | IsochBufferOverrun | EventLostError
    | UndefinedError | InvalidStreamIdError | SecondaryBandwidthError | SplitTransactionError

fun completion_code_value :: "completion_code \<Rightarrow> u8" where
  "completion_code_value Invalid = 0"
| "completion_code_value Success = 1"
| "completion_code_value DataBufferError = 2"
| "completion_code_value BabbleDetectedError = 3"
| "completion_code_value UsbTransactionError = 4"
| "completion_code_value TrbError = 5"
| "completion_code_value StallError = 6"
| "completion_code_value ResourceError = 7"
| "completion_code_value BandwidthError = 8"
| "completion_code_value NoSlotsAvailableError = 9"
| "completion_code_value InvalidStreamTypeError = 10"
| "completion_code_value SlotNotEnabledError = 11"
| "completion_code_value EndpointNotEnabledError = 12"
| "completion_code_value ShortPacket = 13"
| "completion_code_value RingUnderrun = 14"
| "completion_code_value RingOverrun = 15"
| "completion_code_value VfEventRingFullError = 16"
| "completion_code_value ParameterError = 17"
| "completion_code_value BandwidthOverrunError = 18"
| "completion_code_value ContextStateError = 19"
| "completion_code_value NoPingResponseError = 20"
| "completion_code_value EventRingFullError = 21"
| "completion_code_value IncompatibleDeviceError = 22"
| "completion_code_value MissedServiceError = 23"
| "completion_code_value CommandRingStopped = 24"
| "completion_code_value CommandAborted = 25"
| "completion_code_value Stopped = 26"
| "completion_code_value StoppedLengthInvalid = 27"
| "completion_code_value StoppedShortPacket = 28"
| "completion_code_value MaxExitLatencyTooLargeError = 29"
| "completion_code_value IsochBufferOverrun = 31"
| "completion_code_value EventLostError = 32"
| "completion_code_value UndefinedError = 33"
| "completion_code_value InvalidStreamIdError = 34"
| "completion_code_value SecondaryBandwidthError = 35"
| "completion_code_value SplitTransactionError = 36"

definition trb_new :: trb where
  "trb_new = \<lparr>trb_data = 0, trb_status = 0, trb_control = 0\<rparr>"

definition trb_with_values :: "u64 \<Rightarrow> u32 \<Rightarrow> u32 \<Rightarrow> trb" where
  "trb_with_values data status control = \<lparr>trb_data = data, trb_status = status, trb_control = control\<rparr>"

definition trb_type_of :: "trb \<Rightarrow> u8" where
  "trb_type_of t = ucast (drop_bit 10 (trb_control t) AND 0x3F)"

definition set_trb_type :: "trb_type \<Rightarrow> trb \<Rightarrow> trb" where
  "set_trb_type ty t = t\<lparr>trb_control := (trb_control t AND NOT 0xFC00) OR push_bit 10 (ucast (trb_type_code ty))\<rparr>"

text \<open>The one-bit flags of the control word.\<close>

datatype trb_flag = CycleBit | InterruptOnCompletion | ImmediateData | ChainBit

fun trb_flag_mask :: "trb_flag \<Rightarrow> u32" where
  "trb_flag_mask CycleBit = 0x1"
| "trb_flag_mask InterruptOnCompletion = 0x20"
| "trb_flag_mask ImmediateData = 0x40"
| "trb_flag_mask ChainBit = 0x10"

definition trb_flag_get :: "trb_flag \<Rightarrow> trb \<Rightarrow> bool" where
  "trb_flag_get f t = flag_get (trb_flag_mask f) (trb_control t)"

definition trb_flag_set :: "trb_flag \<Rightarrow> bool \<Rightarrow> trb \<Rightarrow> trb" where
  "trb_flag_set f v t = t\<lparr>trb_control := flag_set (trb_flag_mask f) v (trb_control t)\<rparr>"

definition completion_code_of :: "trb \<Rightarrow> u8" where
  "completion_code_of t = ucast (drop_bit 24 (trb_status t) AND 0xFF)"

definition set_completion_code :: "completion_code \<Rightarrow> trb \<Rightarrow> trb" where
  "set_completion_code code t = t\<lparr>trb_status := (trb_status t AND NOT 0xFF000000) OR push_bit 24 (ucast (completion_code_value code))\<rparr>"

definition transfer_length :: "trb \<Rightarrow> u32" where
  "transfer_length t = trb_status t AND 0x1FFFF"

definition set_transfer_length :: "u32 \<Rightarrow> trb \<Rightarrow> trb" where
  "set_transfer_length len t = t\<lparr>trb_status := (trb_status t AND NOT 0x1FFFF) OR (len AND 0x1FFFF)\<rparr>"

definition trb_slot_id :: "trb \<Rightarrow> u8" where
  "trb_slot_id t = ucast (drop_bit 24 (trb_control t) AND 0xFF)"

definition set_slot_id :: "u8 \<Rightarrow> trb \<Rightarrow> trb" where
  "set_slot_id slot_id t = t\<lparr>trb_control := (trb_control t AND NOT 0xFF000000) OR push_bit 24 (ucast slot_id)\<rparr>"

definition endpoint_id :: "trb \<Rightarrow> u8" where
  "endpoint_id t = ucast (drop_bit 16 (trb_control t) AND 0x1F)"

definition set_endpoint_id :: "u8 \<Rightarrow> trb \<Rightarrow> trb" where
  "set_endpoint_id endpoint t = t\<lparr>trb_control := (trb_control t AND NOT 0x1F0000) OR push_bit 16 (ucast endpoint)\<rparr>"

text \<open>\<^verbatim>\<open>trb.control |= x\<close>.\<close>

definition control_or :: "u32 \<Rightarrow> trb \<Rightarrow> trb" where
  "control_or x t = t\<lparr>trb_control := trb_control t OR x\<rparr>"

subsection \<open>Commands\<close>

definition no_op_command :: "bool \<Rightarrow> trb" where
  "no_op_command cycle = trb_flag_set CycleBit cycle (set_trb_type NoOpCommand trb_new)"

definition enable_slot_command :: "u8 \<Rightarrow> bool \<Rightarrow> trb" where
  "enable_slot_command slot_type cycle = (
     let t = set_trb_type EnableSlot trb_new;
       t = control_or (push_bit 16 (ucast slot_type)) t
     in trb_flag_set CycleBit cycle t)"

definition disable_slot_command :: "u8 \<Rightarrow> bool \<Rightarrow> trb" where
  "disable_slot_command slot_id cycle = (
     let t = set_trb_type DisableSlot trb_new;
       t = set_slot_id slot_id t
     in trb_flag_set CycleBit cycle t)"

definition address_device_command :: "u64 \<Rightarrow> u8 \<Rightarrow> bool \<Rightarrow> bool \<Rightarrow> trb" where
  "address_device_command input_context_ptr slot_id block_set_address cycle = (
     let t = trb_new\<lparr>trb_data := input_context_ptr AND NOT 0x3F\<rparr>;
       t = set_trb_type AddressDevice t;
       t = set_slot_id slot_id t;
       t = (if block_set_address then control_or 0x200 t else t)
     in trb_flag_set CycleBit cycle t)"

definition configure_endpoint_command :: "u64 \<Rightarrow> u8 \<Rightarrow> bool \<Rightarrow> bool \<Rightarrow> trb" where
  "configure_endpoint_command input_context_ptr slot_id deconfigure cycle = (
     let t = trb_new\<lparr>trb_data := input_context_ptr AND NOT 0x3F\<rparr>;
       t = set_trb_type ConfigureEndpoint t;
       t = set_slot_id slot_id t;
       t = (if deconfigure then control_or 0x200 t else t)
     in trb_flag_set CycleBit cycle t)"

definition reset_device_command :: "u8 \<Rightarrow> bool \<Rightarrow> trb" where
  "reset_device_command slot_id cycle = (
     let t = set_trb_type ResetDevice trb_new;
       t = set_slot_id slot_id t
     in trb_flag_set CycleBit cycle t)"

definition stop_endpoint_command :: "u8 \<Rightarrow> u8 \<Rightarrow> bool \<Rightarrow> bool \<Rightarrow> trb" where
  "stop_endpoint_command slot_id endpoint suspend cycle = (
     let t = set_trb_type StopEndpoint trb_new;
       t = set_slot_id slot_id t;
       t = set_endpoint_id endpoint t;
       t = (if suspend then control_or 0x800000 t else t)
     in trb_flag_set CycleBit cycle t)"

definition reset_endpoint_command :: "u8 \<Rightarrow> u8 \<Rightarrow> bool \<Rightarrow> trb" where
  "reset_endpoint_command slot_id endpoint cycle = (
     let t = set_trb_type ResetEndpoint trb_new;
       t = set_slot_id slot_id t;
       t = set_endpoint_id endpoint t
     in trb_flag_set CycleBit cycle t)"

subsection \<open>Transfers and links\<close>

definition normal_transfer :: "u64 \<Rightarrow> u32 \<Rightarrow> u8 \<Rightarrow> bool \<Rightarrow> bool \<Rightarrow> trb" where
  "normal_transfer buffer_ptr len td_size interrupt_on_completion cycle = (
     let t = trb_new\<lparr>trb_data := buffer_ptr\<rparr>;
       t = set_transfer_length len t;
       t = t\<lparr>trb_status := trb_status t OR push_bit 17 (ucast td_size)\<rparr>;
       t = set_trb_type Normal t;
       t = trb_flag_set InterruptOnCompletion interrupt_on_completion t
     in trb_flag_set CycleBit cycle t)"

definition setup_stage :: "u64 \<Rightarrow> u32 \<Rightarrow> bool \<Rightarrow> bool \<Rightarrow> trb" where
  "setup_stage setup_data len immediate_data cycle = (
     let t = trb_new\<lparr>trb_data := setup_data\<rparr>;
       t = set_transfer_length len t;
       t = set_trb_type SetupStage t;
       t = trb_flag_set ImmediateData immediate_data t;
       t = control_or 0x80 t
     in trb_flag_set CycleBit cycle t)"

definition data_stage :: "u64 \<Rightarrow> u32 \<Rightarrow> bool \<Rightarrow> bool \<Rightarrow> trb" where
  "data_stage buffer_ptr len direction_in cycle = (
     let t = trb_new\<lparr>trb_data := buffer_ptr\<rparr>;
       t = set_transfer_length len t;
       t = set_trb_type DataStage t;
       t = (if direction_in then control_or 0x10000 t else t)
     in trb_flag_set CycleBit cycle t)"

definition status_stage :: "bool \<Rightarrow> bool \<Rightarrow> bool \<Rightarrow> trb" where
  "status_stage direction_in interrupt_on_completion cycle = (
     let t = set_trb_type StatusStage trb_new;
       t = (if direction_in then control_or 0x10000 t else t);
       t = trb_flag_set InterruptOnCompletion interrupt_on_completion t
     in trb_flag_set CycleBit cycle t)"

definition trb_link :: "u64 \<Rightarrow> bool \<Rightarrow> bool \<Rightarrow> trb" where
  "trb_link ring_segment_ptr toggle_cycle cycle = (
     let t = trb_new\<lparr>trb_data := ring_segment_ptr AND NOT 0x3F\<rparr>;
       t = set_trb_type Link t;
       t = (if toggle_cycle then control_or 0x2 t else t)
     in trb_flag_set CycleBit cycle t)"

subsection \<open>Events\<close>

definition is_command_completion_event :: "trb \<Rightarrow> bool" where
  "is_command_completion_event t \<longleftrightarrow> trb_type_of t = trb_type_code CommandCompletionEvent"

definition is_transfer_event :: "trb \<Rightarrow> bool" where
  "is_transfer_event t \<longleftrightarrow> trb_type_of t = trb_type_code TransferEvent"

definition is_port_status_change_event :: "trb \<Rightarrow> bool" where
  "is_port_status_change_event t \<longleftrightarrow> trb_type_of t = trb_type_code PortStatusChangeEvent"

definition command_trb_pointer :: "trb \<Rightarrow> u64" where
  "command_trb_pointer t = trb_data t"

definition port_id :: "trb \<Rightarrow> u8" where
  "port_id t = ucast (drop_bit 24 (trb_data t) AND 0xFF)"

definition trb_pointer :: "trb \<Rightarrow> u64" where
  "trb_pointer t = trb_data t"

definition trb_is_success :: "trb \<Rightarrow> bool" where
  "trb_is_success t \<longleftrightarrow> completion_code_of t = completion_code_value Success"

definition trb_is_error :: "trb \<Rightarrow> bool" where
  "trb_is_error t \<longleftrightarrow> (let code = completion_code_of t in
     code \<noteq> completion_code_value Success \<and> code \<noteq> completion_code_value ShortPacket)"

definition completion_code_description :: "trb \<Rightarrow> string" where
  "completion_code_description t = (case map_of [
     (1, ''Success''), (2, ''Data Buffer Error''), (3, ''Babble Detected Error''), (4, ''USB Transaction Error'')
     , (5, ''TRB Error''), (6, ''Stall Error''), (7, ''Resource Error''), (8, ''Bandwidth Error'')
     , (9, ''No Slots Available Error''), (10, ''Invalid Stream Type Error''), (11, ''Slot Not Enabled Error'')
     , (12, ''Endpoint Not Enabled Error''), (13, ''Short Packet''), (14, ''Ring Underrun'')
     , (15, ''Ring Overrun''), (17, ''Parameter Error''), (19, ''Context State Error'')
     , (24, ''Command Ring Stopped''), (25, ''Command Aborted''), (26, ''Stopped'')]
     (completion_code_of t) of Some name \<Rightarrow> name | None \<Rightarrow> ''Unknown Error'')"

definition trb_is_valid :: "trb \<Rightarrow> bool" where
  "trb_is_valid t = (let ty = trb_type_of t in
     if ty = 0 \<or> ty = 8 \<or> (ty > 23 \<and> ty < 32) \<or> ty > 39 then False
     else if ty = 6 then trb_data t AND 0x3F = 0
     else if ty = 11 \<or> ty = 12 then trb_data t AND 0x3F = 0
     else True)"

definition TRB_SIZE :: nat where
  "TRB_SIZE = 16"

definition MAX_TRBS_PER_SEGMENT :: nat where
  "MAX_TRBS_PER_SEGMENT = 4096 div TRB_SIZE"

definition RING_SEGMENT_SIZE :: nat where
  "RING_SEGMENT_SIZE = 4096"

definition COMMAND_RING_SIZE :: nat where
  "COMMAND_RING_SIZE = 256"

subsection \<open>Classification and names\<close>

definition is_command :: "trb_type \<Rightarrow> bool" where
  "is_command ty \<longleftrightarrow> 9 \<le> trb_type_code ty \<and> trb_type_code ty \<le> 23"

definition is_event :: "trb_type \<Rightarrow> bool" where
  "is_event ty \<longleftrightarrow> 32 \<le> trb_type_code ty \<and> trb_type_code ty \<le> 39"

definition is_transfer :: "trb_type \<Rightarrow> bool" where
  "is_transfer ty \<longleftrightarrow> 1 \<le> trb_type_code ty \<and> trb_type_code ty \<le> 7"

definition code_is_success :: "completion_code \<Rightarrow> bool" where
  "code_is_success c \<longleftrightarrow> c = Success \<or> c = ShortPacket"

definition code_is_error :: "completion_code \<Rightarrow> bool" where
  "code_is_error c \<longleftrightarrow> \<not> code_is_success c \<and> c \<noteq> Invalid"

fun trb_type_name :: "trb_type \<Rightarrow> string" where
  "trb_type_name Normal = ''Normal''"
| "trb_type_name SetupStage = ''Setup Stage''"
| "trb_type_name DataStage = ''Data Stage''"
| "trb_type_name StatusStage = ''Status Stage''"
| "trb_type_name Isoch = ''Isochronous''"
| "trb_type_name Link = ''Link''"
| "trb_type_name EventData = ''Event Data''"
| "trb_type_name EnableSlot = ''Enable Slot''"
| "trb_type_name DisableSlot = ''Disable Slot''"
| "trb_type_name AddressDevice = ''Address Device''"
| "trb_type_name ConfigureEndpoint = ''Configure Endpoint''"
| "trb_type_name EvaluateContext = ''Evaluate Context''"
| "trb_type_name ResetEndpoint = ''Reset Endpoint''"
| "trb_type_name StopEndpoint = ''Stop Endpoint''"
| "trb_type_name SetTrDequeuePointer = ''Set TR Dequeue Pointer''"
| "trb_type_name ResetDevice = ''Reset Device''"
| "trb_type_name ForceEvent = ''Force Event''"
| "trb_type_name NegotiateBandwidth = ''Negotiate Bandwidth''"
| "trb_type_name SetLatencyToleranceValue = ''Set Latency Tolerance Value''"
| "trb_type_name GetPortBandwidth = ''Get Port Bandwidth''"
| "trb_type_name ForceHeader = ''Force Header''"
| "trb_type_name NoOpCommand = ''No-Op Command''"
| "trb_type_name TransferEvent = ''Transfer Event''"
| "trb_type_name CommandCompletionEvent = ''Command Completion Event''"
| "trb_type_name PortStatusChangeEvent = ''Port Status Change Event''"
| "trb_type_name BandwidthRequestEvent = ''Bandwidth Request Event''"
| "trb_type_name DoorbellEvent = ''Doorbell Event''"
| "trb_type_name HostControllerEvent = ''Host Controller Event''"
| "trb_type_name DeviceNotificationEvent = ''Device Notification Event''"
| "trb_type_name MfindexWrapEvent = ''Mfindex Wrap Event''"

fun completion_code_name :: "completion_code \<Rightarrow> string" where
  "completion_code_name Invalid = ''Invalid''"
| "completion_code_name Success = ''Success''"
| "completion_code_name DataBufferError = ''Data Buffer Error''"
| "completion_code_name BabbleDetectedError = ''Babble Detected Error''"
| "completion_code_name UsbTransactionError = ''USB Transaction Error''"
| "completion_code_name TrbError = ''TRB Error''"
| "completion_code_name StallError = ''Stall Error''"
| "completion_code_name ResourceError = ''Resource Error''"
| "completion_code_name BandwidthError = ''Bandwidth Error''"
| "completion_code_name NoSlotsAvailableError = ''No Slots Available Error''"
| "completion_code_name InvalidStreamTypeError = ''Invalid Stream Type Error''"
| "completion_code_name SlotNotEnabledError = ''Slot Not Enabled Error''"
| "completion_code_name EndpointNotEnabledError = ''Endpoint Not Enabled Error''"
| "completion_code_name ShortPacket = ''Short Packet''"
| "completion_code_name RingUnderrun = ''Ring Underrun''"
| "completion_code_name RingOverrun = ''Ring Overrun''"
| "completion_code_name VfEventRingFullError = ''VF Event Ring Full Error''"
| "completion_code_name ParameterError = ''Parameter Error''"
| "completion_code_name BandwidthOverrunError = ''Bandwidth Overrun Error''"
| "completion_code_name ContextStateError = ''Context State Error''"
| "completion_code_name NoPingResponseError = ''No Ping Response Error''"
| "completion_code_name EventRingFullError = ''Event Ring Full Error''"
| "completion_code_name IncompatibleDeviceError = ''Incompatible Device Error''"
| "completion_code_name MissedServiceError = ''Missed Service Error''"
| "completion_code_name CommandRingStopped = ''Command Ring Stopped''"
| "completion_code_name CommandAborted = ''Command Aborted''"
| "completion_code_name Stopped = ''Stopped''"
| "completion_code_name StoppedLengthInvalid = ''Stopped Length Invalid''"
| "completion_code_name StoppedShortPacket = ''Stopped Short Packet''"
| "completion_code_name MaxExitLatencyTooLargeError = ''Max Exit Latency Too Large Error''"
| "completion_code_name IsochBufferOverrun = ''Isochronous Buffer Overrun''"
| "completion_code_name EventLostError = ''Event Lost Error''"
| "completion_code_name UndefinedError = ''Undefined Error''"
| "completion_code_name InvalidStreamIdError = ''Invalid Stream ID Error''"
| "completion_code_name SecondaryBandwidthError = ''Secondary Bandwidth Error''"
| "completion_code_name SplitTransactionError = ''Split Transaction Error''"

section \<open>Types and codes\<close>

lemma trb_type_code_inj: "trb_type_code a = trb_type_code b \<Longrightarrow> a = b"
  by (cases a; cases b) simp_all

lemma code_value_inj: "completion_code_value a = completion_code_value b \<Longrightarrow> a = b"
  by (cases a; cases b) simp_all

lemma take_bit_width:
  assumes "take_bit n w = w" and "bit w k"
  shows "k < n"
  using assms bit_take_bit_iff [of n w k] by simp

lemma trb_type_code_width: "take_bit 6 (trb_type_code ty) = trb_type_code ty"
  by (cases ty) simp_all

lemmas trb_type_code_bits = take_bit_width [OF trb_type_code_width]

interpretation trb_bits: flag_register trb_flag_mask
proof
  fix f g
  show "flag_pos (trb_flag_mask f) < LENGTH(32)" by (cases f) (simp_all add: flag_pos_def trailing_zeros.simps)
  show "trb_flag_mask f = push_bit (flag_pos (trb_flag_mask f)) 1" by (cases f) (simp_all add: flag_pos_def trailing_zeros.simps push_bit_eq_mult)
  show "trb_flag_mask f = trb_flag_mask g \<Longrightarrow> f = g" by (cases f; cases g) simp_all
qed

lemma trb_flag_pos: "flag_pos (trb_flag_mask f) \<in> {0, 4, 5, 6}"
  by (cases f) (simp_all add: flag_pos_def trailing_zeros.simps)

section \<open>Reading what was written\<close>

named_theorems trb_algebra \<open>what the getters return after each setter\<close>

lemma type_after [trb_algebra]:
  "trb_type_of (set_trb_type ty t) = trb_type_code ty"
  "trb_type_of (set_slot_id s t) = trb_type_of t"
  "trb_type_of (set_endpoint_id e t) = trb_type_of t"
  "trb_type_of (trb_flag_set f v t) = trb_type_of t"
  "trb_type_of (set_transfer_length len t) = trb_type_of t"
proof -
  show "trb_type_of (set_trb_type ty t) = trb_type_code ty"
    by (rule bit_word_eqI) (use trb_type_code_bits in \<open>auto simp: trb_type_of_def set_trb_type_def field_bits dest: bit_imp_le_length\<close>)
  show "trb_type_of (set_slot_id s t) = trb_type_of t" "trb_type_of (set_endpoint_id e t) = trb_type_of t"
    by (rule bit_word_eqI; auto simp: trb_type_of_def set_slot_id_def set_endpoint_id_def field_bits dest: bit_imp_le_length)+
  show "trb_type_of (trb_flag_set f v t) = trb_type_of t"
    by (rule bit_word_eqI) (use trb_flag_pos [of f] in \<open>auto simp: trb_type_of_def trb_flag_set_def trb_bits.bit_set_iff field_masks bit_simps\<close>)
  show "trb_type_of (set_transfer_length len t) = trb_type_of t" by (simp add: trb_type_of_def set_transfer_length_def)
qed

lemma slot_after [trb_algebra]:
  "trb_slot_id (set_slot_id s t) = s"
  "trb_slot_id (set_trb_type ty t) = trb_slot_id t"
  "trb_slot_id (set_endpoint_id e t) = trb_slot_id t"
  "trb_slot_id (trb_flag_set f v t) = trb_slot_id t"
proof -
  show "trb_slot_id (set_slot_id s t) = s" "trb_slot_id (set_endpoint_id e t) = trb_slot_id t"
    by (rule bit_word_eqI; auto simp: trb_slot_id_def set_slot_id_def set_endpoint_id_def field_bits dest: bit_imp_le_length)+
  show "trb_slot_id (set_trb_type ty t) = trb_slot_id t"
    by (rule bit_word_eqI) (use trb_type_code_bits in \<open>auto simp: trb_slot_id_def set_trb_type_def field_bits dest: bit_imp_le_length\<close>)
  show "trb_slot_id (trb_flag_set f v t) = trb_slot_id t"
    by (rule bit_word_eqI) (use trb_flag_pos [of f] in \<open>auto simp: trb_slot_id_def trb_flag_set_def trb_bits.bit_set_iff field_masks bit_simps\<close>)
qed

lemma endpoint_after [trb_algebra]:
  "endpoint_id (set_endpoint_id e t) = e AND 0x1F"
  "endpoint_id (trb_flag_set f v t) = endpoint_id t"
proof -
  show "endpoint_id (set_endpoint_id e t) = e AND 0x1F"
    by (rule bit_word_eqI) (auto simp: endpoint_id_def set_endpoint_id_def field_bits dest: bit_imp_le_length)
  show "endpoint_id (trb_flag_set f v t) = endpoint_id t"
    by (rule bit_word_eqI) (use trb_flag_pos [of f] in \<open>auto simp: endpoint_id_def trb_flag_set_def trb_bits.bit_set_iff field_masks bit_simps\<close>)
qed

lemma flag_after [trb_algebra]:
  "trb_flag_get f (trb_flag_set g v t) \<longleftrightarrow> (if f = g then v else trb_flag_get f t)"
  by (simp add: trb_flag_get_def trb_flag_set_def trb_bits.get_set)

lemma data_after [trb_algebra]:
  "trb_data (set_trb_type ty t) = trb_data t" "trb_data (set_slot_id s t) = trb_data t" "trb_data (set_endpoint_id e t) = trb_data t"
  "trb_data (trb_flag_set f v t) = trb_data t" "trb_data (control_or x t) = trb_data t" "trb_data (set_transfer_length len t) = trb_data t"
  by (simp_all add: set_trb_type_def set_slot_id_def set_endpoint_id_def trb_flag_set_def control_or_def set_transfer_length_def)

lemma length_after [trb_algebra]:
  "transfer_length (set_transfer_length len t) = len AND 0x1FFFF"
  "transfer_length (set_trb_type ty t) = transfer_length t" "transfer_length (trb_flag_set f v t) = transfer_length t"
  "transfer_length (control_or x t) = transfer_length t"
proof -
  show "transfer_length (set_transfer_length len t) = len AND 0x1FFFF"
    by (rule bit_word_eqI) (auto simp: transfer_length_def set_transfer_length_def field_bits)
qed (simp_all add: transfer_length_def set_trb_type_def trb_flag_set_def control_or_def)

text \<open>The bits that the constructors set directly lie outside the fields.\<close>

lemma single_bits: "(0x2 :: u32) = push_bit 1 1" "(0x80 :: u32) = push_bit 7 1" "(0x200 :: u32) = push_bit 9 1" "(0x10000 :: u32) = push_bit 16 1"
  "(0x800000 :: u32) = push_bit 23 1"
  by (simp_all add: push_bit_eq_mult)

lemma type_after_or:
  assumes "k \<notin> {10 ..< 16}"
  shows "trb_type_of (control_or (push_bit k 1) t) = trb_type_of t"
  by (rule bit_word_eqI) (use assms in \<open>auto simp: trb_type_of_def control_or_def field_masks bit_simps\<close>)

lemma slot_after_or:
  assumes "k < 24"
  shows "trb_slot_id (control_or (push_bit k 1) t) = trb_slot_id t"
  by (rule bit_word_eqI) (use assms in \<open>auto simp: trb_slot_id_def control_or_def field_masks bit_simps\<close>)

lemma endpoint_after_or:
  assumes "k \<notin> {16 ..< 21}"
  shows "endpoint_id (control_or (push_bit k 1) t) = endpoint_id t"
  by (rule bit_word_eqI) (use assms in \<open>auto simp: endpoint_id_def control_or_def field_masks bit_simps\<close>)

lemma control_or_after [trb_algebra]:
  "trb_type_of (control_or 0x2 t) = trb_type_of t" "trb_type_of (control_or 0x80 t) = trb_type_of t"
  "trb_type_of (control_or 0x200 t) = trb_type_of t" "trb_type_of (control_or 0x10000 t) = trb_type_of t"
  "trb_type_of (control_or 0x800000 t) = trb_type_of t" "trb_slot_id (control_or 0x200 t) = trb_slot_id t"
  "trb_slot_id (control_or 0x800000 t) = trb_slot_id t" "endpoint_id (control_or 0x800000 t) = endpoint_id t"
  unfolding single_bits by (rule type_after_or slot_after_or endpoint_after_or; simp)+

text \<open>A block of the given type and cycle bit that the validity test accepts.\<close>

definition encodes :: "trb \<Rightarrow> trb_type \<Rightarrow> bool \<Rightarrow> bool" where
  "encodes t ty cycle \<longleftrightarrow> trb_type_of t = trb_type_code ty \<and> trb_flag_get CycleBit t = cycle \<and> trb_is_valid t"

lemma encodesI:
  assumes "trb_type_of t = trb_type_code ty" "trb_flag_get CycleBit t = cycle"
    and "ty \<in> {Link, AddressDevice, ConfigureEndpoint} \<Longrightarrow> trb_data t AND 0x3F = 0"
  shows "encodes t ty cycle"
  using assms by (cases ty) (simp_all add: encodes_def trb_is_valid_def)

lemma aligned_down: "(p AND - 64) AND 0x3F = (0 :: u64)"
  by (simp add: and.assoc)

lemma type_after_slot_type: "trb_type_of (control_or (push_bit 16 (ucast (s :: u8))) t) = trb_type_of t"
  by (rule bit_word_eqI) (auto simp: trb_type_of_def control_or_def field_masks bit_simps)

lemma type_after_td_size: "trb_type_of (t\<lparr>trb_status := x\<rparr>) = trb_type_of t" "trb_type_of (t\<lparr>trb_data := y\<rparr>) = trb_type_of t"
  by (simp_all add: trb_type_of_def)

lemma bit_23_after:
  "bit (trb_control (trb_flag_set f v t)) 23 = bit (trb_control t) 23"
  "bit (trb_control (control_or 0x800000 t)) 23"
  "bit (trb_control (set_endpoint_id e t)) 23 \<longleftrightarrow> bit (trb_control t) 23 \<or> bit e 7"
  "bit (trb_control (set_slot_id s t)) 23 = bit (trb_control t) 23"
  "bit (trb_control (set_trb_type ty t)) 23 = bit (trb_control t) 23"
proof -
  show "bit (trb_control (trb_flag_set f v t)) 23 = bit (trb_control t) 23"
    using trb_flag_pos [of f] by (auto simp: trb_flag_set_def trb_bits.bit_set_iff)
  show "bit (trb_control (control_or 0x800000 t)) 23" by (simp add: control_or_def bit_or_iff)
  show "bit (trb_control (set_endpoint_id e t)) 23 \<longleftrightarrow> bit (trb_control t) 23 \<or> bit e 7"
    "bit (trb_control (set_slot_id s t)) 23 = bit (trb_control t) 23"
    by (simp_all add: set_endpoint_id_def set_slot_id_def shifted_masks bit_simps)
  show "bit (trb_control (set_trb_type ty t)) 23 = bit (trb_control t) 23"
    using trb_type_code_bits [of ty 13] by (auto simp: set_trb_type_def shifted_masks bit_simps)
qed

lemma suspend_bit: "bit (trb_control (stop_endpoint_command s e suspend c)) 23 \<longleftrightarrow> suspend \<or> bit e 7"
  by (simp add: stop_endpoint_command_def Let_def bit_23_after) (simp add: trb_new_def)


section \<open>Events and types\<close>

text \<open>
  A completion code is read back from the status word.  The two notions of success and error differ: a short packet is
  a success of the code but not of the block, and the code \<^verbatim>\<open>Invalid\<close> is an error of the block but not of the code.
\<close>

lemma completion_codes:
  "completion_code_of (set_completion_code cc t) = completion_code_value cc"
  "transfer_length (set_completion_code cc t) = transfer_length t"
  "trb_is_success (set_completion_code cc t) \<longleftrightarrow> code_is_success cc \<and> cc \<noteq> ShortPacket"
  "trb_is_error (set_completion_code cc t) \<longleftrightarrow> code_is_error cc \<or> cc = Invalid"
proof -
  show r: "completion_code_of (set_completion_code cc t) = completion_code_value cc"
    by (rule bit_word_eqI) (auto simp: completion_code_of_def set_completion_code_def field_bits dest: bit_imp_le_length)
  show "transfer_length (set_completion_code cc t) = transfer_length t"
    by (rule bit_word_eqI) (auto simp: transfer_length_def set_completion_code_def field_bits)
  show "trb_is_success (set_completion_code cc t) \<longleftrightarrow> code_is_success cc \<and> cc \<noteq> ShortPacket"
    "trb_is_error (set_completion_code cc t) \<longleftrightarrow> code_is_error cc \<or> cc = Invalid"
    unfolding trb_is_success_def trb_is_error_def r Let_def code_is_success_def code_is_error_def
    by (auto dest: code_value_inj simp del: completion_code_value.simps)
qed

text \<open>Every type of a block is exactly one of a transfer, a command and an event, and the test of a received block knows it.\<close>

lemma trb_type_classes:
  "(is_transfer ty \<or> is_command ty \<or> is_event ty) \<and> \<not> (is_transfer ty \<and> is_command ty) \<and>
   \<not> (is_command ty \<and> is_event ty) \<and> \<not> (is_transfer ty \<and> is_event ty)"
  by (cases ty) (simp_all add: is_transfer_def is_command_def is_event_def word_le_nat_alt)

lemma event_tests:
  assumes "trb_type_of t = trb_type_code ty"
  shows "is_command_completion_event t \<longleftrightarrow> ty = CommandCompletionEvent" "is_transfer_event t \<longleftrightarrow> ty = TransferEvent"
    "is_port_status_change_event t \<longleftrightarrow> ty = PortStatusChangeEvent"
  unfolding is_command_completion_event_def is_transfer_event_def is_port_status_change_event_def assms
  by (auto dest: trb_type_code_inj simp del: trb_type_code.simps)

text \<open>The description of a code is its name where it knows the code.\<close>

lemma description_of_code:
  "completion_code_description (set_completion_code cc t) \<in> {completion_code_name cc, ''Unknown Error''}"
  unfolding completion_code_description_def completion_codes by (cases cc) simp_all

lemma trb_bytes:
  "length (encode_trb t) = TRB_SIZE" "decode_trb (encode_trb t) = t" "COMMAND_RING_SIZE * TRB_SIZE = RING_SEGMENT_SIZE"
  "COMMAND_RING_SIZE = MAX_TRBS_PER_SEGMENT"
  by (simp_all add: encode_trb_def decode_trb_def of_le_to_le TRB_SIZE_def COMMAND_RING_SIZE_def RING_SEGMENT_SIZE_def MAX_TRBS_PER_SEGMENT_def)

end
