(* ===== verification/Xhci.thy ===== *)
theory Xhci
  imports Xhci_Trb Dma Pci
begin

text \<open>
  \<^verbatim>\<open>kernel/src/pci/usb/xhci.rs\<close> and the two initialisers of \<^verbatim>\<open>kernel/src/pci/usb/init_helpers.rs\<close>: finding an xHCI controller
  among the enumerated devices, resetting it, and giving it its device context array and its command ring.  Here the
  PCIe manager, the mapping of BARs, the pool of DMA buffers and the registers of the controller meet.
\<close>

section \<open>The code\<close>

text \<open>What the driver works on: the globals \<^verbatim>\<open>PCIE_VMM\<close>, the page table, \<^verbatim>\<open>DMA_MANAGER\<close>, the memory, the controller, and \<^verbatim>\<open>XHCI_REGS\<close>.\<close>

record ('k, 'd) usb_machine =
  um_vmm :: pcie_vmm
  um_paging :: 'k
  um_pool :: "dma_manager option"
  um_dma :: dma_state
  um_dev :: 'd
  um_regs :: "xhci_registers option"

definition find_xhci_devices :: "pci_manager option \<Rightarrow> pci_device list rust" where
  "find_xhci_devices pci = (case pci of
     None \<Rightarrow> None
   | Some manager \<Rightarrow> Some (filter (\<lambda>d. pd_class_code d = 0x0C \<and> pd_subclass d = 0x03 \<and> pd_prog_if d = 0x30) (pm_devices manager)))"

text \<open>\<^verbatim>\<open>needed_entries\<close> is only logged, but the \<^verbatim>\<open>u8\<close> addition that computes it may overflow.\<close>

definition init_dcbaa :: "'d xhci_io \<Rightarrow> xhci_registers \<Rightarrow> ('k, 'd) usb_machine \<Rightarrow> ('k, 'd) usb_machine rust" where
  "init_dcbaa io r m = do {
     hcs \<leftarrow> cap_field io ''hcs_params1'' (capability r) (um_dev m);
     rust_assert (unat (max_device_slots hcs) + 1 < 2 ^ 8);
     (dm, dma) \<leftarrow> dma_manager_lock (um_pool m) (um_dma m);
     (b, dm) \<leftarrow> get_pool_4kb dm;
     buffer \<leftarrow> b;
     dev \<leftarrow> set_device_context_base_addr io (of_nat (db_phys_addr buffer)) r (um_dev m);
     Some (m\<lparr>um_pool := Some dm, um_dma := dma, um_dev := dev\<rparr>)
   }"

definition init_command_ring :: "'d xhci_io \<Rightarrow> xhci_registers \<Rightarrow> ('k, 'd) usb_machine \<Rightarrow> ('k, 'd) usb_machine rust" where
  "init_command_ring io r m = do {
     (dm, dma) \<leftarrow> dma_manager_lock (um_pool m) (um_dma m);
     (b, dm) \<leftarrow> get_pool_4kb dm;
     buffer \<leftarrow> b;
     let ring_phys = of_nat (db_phys_addr buffer);
     let first_link_trb = db_virt_addr buffer + (COMMAND_RING_SIZE - 1) * TRB_SIZE;
     let ram = put_bytes first_link_trb (encode_trb (trb_link ring_phys True False)) (snd dma);
     crcr \<leftarrow> command_ring_control_new ring_phys True;
     dev \<leftarrow> set_command_ring_ctrl io crcr r (um_dev m);
     Some (m\<lparr>um_pool := Some dm, um_dma := (fst dma, ram), um_dev := dev\<rparr>)
   }"

text \<open>A loop that reads a register until its value satisfies a test.  A loop that never ends is \<open>None\<close>, like a panic.\<close>

partial_function (option) poll :: "('d \<Rightarrow> (u32 \<times> 'd) rust) \<Rightarrow> (u32 \<Rightarrow> bool) \<Rightarrow> 'd \<Rightarrow> 'd rust" where
  "poll rd test d = do { (v, d) \<leftarrow> rd d; if test v then Some d else poll rd test d }"

definition stop_controller :: "'d xhci_io \<Rightarrow> xhci_registers \<Rightarrow> 'd \<Rightarrow> 'd rust" where
  "stop_controller io r d = do {
     (sts, d) \<leftarrow> usb_sts io r d;
     if \<not> flag_get (usb_sts_mask HcHalted) sts then do {
       (cmd, d) \<leftarrow> usb_cmd io r d;
       d \<leftarrow> set_usb_cmd io (flag_set (usb_cmd_mask RunStop) False cmd) r d;
       poll (usb_sts io r) (flag_get (usb_sts_mask HcHalted)) d
     }
     else Some d
   }"

definition reset_controller :: "'d xhci_io \<Rightarrow> xhci_registers \<Rightarrow> 'd \<Rightarrow> 'd rust" where
  "reset_controller io r d = do {
     (cmd, d) \<leftarrow> usb_cmd io r d;
     d \<leftarrow> set_usb_cmd io (flag_set (usb_cmd_mask HcReset) True cmd) r d;
     d \<leftarrow> poll (usb_cmd io r) (\<lambda>v. \<not> flag_get (usb_cmd_mask HcReset) v) d;
     poll (usb_sts io r) (\<lambda>v. \<not> flag_get (usb_sts_mask ControllerNotReady) v) d
   }"

definition configure_slots :: "'d xhci_io \<Rightarrow> xhci_registers \<Rightarrow> 'd \<Rightarrow> 'd rust" where
  "configure_slots io r d = do {
     hcs \<leftarrow> cap_field io ''hcs_params1'' (capability r) d;
     (config, d) \<leftarrow> xhci_config io r d;
     set_config io (set_max_device_slots_enabled (max_device_slots hcs) config) r d
   }"

text \<open>The last loop reads the status of every port; what it does with it goes to the log.\<close>

fun read_ports :: "'d xhci_io \<Rightarrow> xhci_registers \<Rightarrow> u8 list \<Rightarrow> 'd \<Rightarrow> 'd rust" where
  "read_ports io r [] d = Some d"
| "read_ports io r (port # ports) d = do { (v, d) \<leftarrow> port_sc io port r d; read_ports io r ports d }"

definition xhci_init :: "'d xhci_io \<Rightarrow> 'k mm \<Rightarrow> pci_manager option \<Rightarrow> ('k, 'd) usb_machine \<Rightarrow> ('k, 'd) usb_machine rust" where
  "xhci_init io mm pci m = do {
     devices \<leftarrow> find_xhci_devices pci;
     case devices of
       [] \<Rightarrow> Some m
     | primary_device # _ \<Rightarrow> do {
         rust_assert (supports_msix primary_device);
         memory_bar \<leftarrow> first_memory_bar (pd_bars primary_device);
         (x, v, k) \<leftarrow> map_bar mm (um_vmm m) memory_bar (um_paging m);
         mapped_bar \<leftarrow> (case x of Inl e \<Rightarrow> None | Inr b \<Rightarrow> Some b);
         let m = m\<lparr>um_vmm := v, um_paging := k\<rparr>;
         r \<leftarrow> xhci_registers_new io (mb_virtual_address mapped_bar) (um_dev m);
         d \<leftarrow> stop_controller io r (um_dev m);
         d \<leftarrow> reset_controller io r d;
         d \<leftarrow> configure_slots io r d;
         m \<leftarrow> init_dcbaa io r (m\<lparr>um_dev := d\<rparr>);
         m \<leftarrow> init_command_ring io r m;
         hcs \<leftarrow> cap_field io ''hcs_params1'' (capability r) (um_dev m);
         d \<leftarrow> read_ports io r (map of_nat [1 ..< unat (max_ports hcs) + 1]) (um_dev m);
         Some (m\<lparr>um_dev := d, um_regs := Some r\<rparr>)
       }
   }"

section \<open>Polling\<close>

text \<open>A register whose repeated reading from a state gives a value that satisfies the test after finitely many steps.\<close>

inductive answers :: "('d \<Rightarrow> u32 \<times> 'd) \<Rightarrow> (u32 \<Rightarrow> bool) \<Rightarrow> 'd \<Rightarrow> bool" for rd test where
  answers_now: "test (fst (rd d)) \<Longrightarrow> answers rd test d"
| answers_later: "answers rd test (snd (rd d)) \<Longrightarrow> answers rd test d"

text \<open>The accesses of a controller in their order: \<open>traced\<close> is a controller that keeps a record of them.\<close>

datatype xhci_event = Rd32 addr u32 | Wr32 addr u32 | Rd64 addr u64 | Wr64 addr u64

definition traced :: "'d xhci_io \<Rightarrow> ('d \<times> xhci_event list) xhci_io" where
  "traced io = \<lparr>
     x_cap8 = (\<lambda>a s. x_cap8 io a (fst s)),
     x_cap32 = (\<lambda>a s. x_cap32 io a (fst s)),
     x_read32 = (\<lambda>a s. (fst (x_read32 io a (fst s)), snd (x_read32 io a (fst s)), snd s @ [Rd32 a (fst (x_read32 io a (fst s)))])),
     x_read64 = (\<lambda>a s. (fst (x_read64 io a (fst s)), snd (x_read64 io a (fst s)), snd s @ [Rd64 a (fst (x_read64 io a (fst s)))])),
     x_write32 = (\<lambda>a v s. (x_write32 io a v (fst s), snd s @ [Wr32 a v])),
     x_write64 = (\<lambda>a v s. (x_write64 io a v (fst s), snd s @ [Wr64 a v]))\<rparr>"

lemma traced_simps [simp]:
  "x_cap8 (traced io) a (d, l) = x_cap8 io a d" "x_cap32 (traced io) a (d, l) = x_cap32 io a d"
  "x_read32 (traced io) a (d, l) = (fst (x_read32 io a d), snd (x_read32 io a d), l @ [Rd32 a (fst (x_read32 io a d))])"
  "x_write32 (traced io) a w (d, l) = (x_write32 io a w d, l @ [Wr32 a w])"
  "x_write64 (traced io) a x (d, l) = (x_write64 io a x d, l @ [Wr64 a x])"
  by (simp_all add: traced_def)

lemma poll_traced:
  assumes "answers (x_read32 io a) test d"
  shows "\<exists>d' vs v. poll (\<lambda>s. Some (x_read32 (traced io) a s)) test (d, l) = Some (d', l @ map (Rd32 a) (vs @ [v])) \<and> test v"
  using assms
proof (induction arbitrary: l rule: answers.induct)
  case (answers_now d)
  then show ?case
    by (subst poll.simps) (auto intro!: exI [of _ "[]"])
next
  case (answers_later d)
  show ?case
  proof (cases "test (fst (x_read32 io a d))")
    case True
    then show ?thesis by (subst poll.simps) (auto intro!: exI [of _ "[]"])
  next
    case False
    from answers_later.IH [of "l @ [Rd32 a (fst (x_read32 io a d))]"] obtain d' vs v where
      "poll (\<lambda>s. Some (x_read32 (traced io) a s)) test (snd (x_read32 io a d), l @ [Rd32 a (fst (x_read32 io a d))]) =
        Some (d', (l @ [Rd32 a (fst (x_read32 io a d))]) @ map (Rd32 a) (vs @ [v]))" "test v" by blast
    then show ?thesis using False
      by (subst poll.simps) (auto intro!: exI [of _ "fst (x_read32 io a d) # vs"])
  qed
qed

section \<open>Initialisation\<close>

text \<open>
  What the driver relies on: the capability registers are constant, and the controller answers: it halts after its run
  bit was cleared, ends a reset, and becomes ready.
\<close>

definition xhci_controller :: "'d xhci_io \<Rightarrow> addr \<Rightarrow> bool" where
  "xhci_controller io op \<longleftrightarrow>
     (\<forall>a d d'. x_cap8 io a d = x_cap8 io a d' \<and> x_cap32 io a d = x_cap32 io a d') \<and>
     (\<forall>d cmd. \<not> flag_get (usb_cmd_mask RunStop) cmd \<longrightarrow> answers (x_read32 io (op + 4)) (flag_get (usb_sts_mask HcHalted)) (x_write32 io op cmd d)) \<and>
     (\<forall>d cmd. answers (x_read32 io op) (\<lambda>v. \<not> flag_get (usb_cmd_mask HcReset) v) (x_write32 io op cmd d)) \<and>
     (\<forall>d. answers (x_read32 io (op + 4)) (\<lambda>v. \<not> flag_get (usb_sts_mask ControllerNotReady) v) d)"

text \<open>An access that changes nothing, or clears the run bit.\<close>

fun only_stops :: "addr \<Rightarrow> xhci_event \<Rightarrow> bool" where
  "only_stops op (Wr32 a v) \<longleftrightarrow> a = op \<and> \<not> flag_get (usb_cmd_mask RunStop) v"
| "only_stops op (Wr64 a v) \<longleftrightarrow> False"
| "only_stops op (Rd32 a v) \<longleftrightarrow> True"
| "only_stops op (Rd64 a v) \<longleftrightarrow> True"

lemma xhci_access:
  "usb_cmd io r = (\<lambda>d. Some (x_read32 io (xr_operational_regs r) d))"
  "usb_sts io r = (\<lambda>d. Some (x_read32 io (xr_operational_regs r + 4) d))"
  "xhci_config io r = (\<lambda>d. Some (x_read32 io (xr_operational_regs r + 0x38) d))"
  "set_usb_cmd io w r = (\<lambda>d. Some (x_write32 io (xr_operational_regs r) w d))"
  "set_config io w r = (\<lambda>d. Some (x_write32 io (xr_operational_regs r + 0x38) w d))"
  "set_device_context_base_addr io x r = (\<lambda>d. Some (x_write64 io (xr_operational_regs r + 0x30) x d))"
  "set_command_ring_ctrl io x r = (\<lambda>d. Some (x_write64 io (xr_operational_regs r + 0x18) x d))"
  by (rule ext, simp add: usb_sts_def usb_cmd_def set_usb_cmd_def xhci_config_def set_config_def set_device_context_base_addr_def
      set_command_ring_ctrl_def op_read32_def op_write32_def op_write64_def)+

lemma stop_traced:
  assumes "xhci_controller io (xr_operational_regs r)"
  shows "\<exists>d' p s. stop_controller (traced io) r (d, l) = Some (d', l @ p @ [Rd32 (xr_operational_regs r + 4) s]) \<and>
    flag_get (usb_sts_mask HcHalted) s \<and> (\<forall>e \<in> set p. only_stops (xr_operational_regs r) e)"
proof (cases "flag_get (usb_sts_mask HcHalted) (fst (x_read32 io (xr_operational_regs r + 4) d))")
  case True
  then show ?thesis by (auto simp: stop_controller_def xhci_access intro!: exI [of _ "[]"])
next
  case False
  define op where "op = xr_operational_regs r"
  define s0 where "s0 = fst (x_read32 io (op + 4) d)"
  define d1 where "d1 = snd (x_read32 io (op + 4) d)"
  define c where "c = fst (x_read32 io op d1)"
  define c' where "c' = flag_set (usb_cmd_mask RunStop) False c"
  define d2 where "d2 = x_write32 io op c' (snd (x_read32 io op d1))"
  have nr: "\<not> flag_get (usb_cmd_mask RunStop) c'" unfolding c'_def usb_cmd_bits.get_set by simp
  then have "answers (x_read32 io (op + 4)) (flag_get (usb_sts_mask HcHalted)) d2"
    using assms by (simp add: xhci_controller_def d2_def op_def)
  from poll_traced [OF this, of "l @ [Rd32 (op + 4) s0, Rd32 op c, Wr32 op c']"] obtain d' vs v where
    "poll (\<lambda>s. Some (x_read32 (traced io) (op + 4) s)) (flag_get (usb_sts_mask HcHalted)) (d2, l @ [Rd32 (op + 4) s0, Rd32 op c, Wr32 op c']) =
      Some (d', (l @ [Rd32 (op + 4) s0, Rd32 op c, Wr32 op c']) @ map (Rd32 (op + 4)) (vs @ [v]))" "flag_get (usb_sts_mask HcHalted) v" by blast
  moreover have "stop_controller (traced io) r (d, l) =
    poll (\<lambda>s. Some (x_read32 (traced io) (op + 4) s)) (flag_get (usb_sts_mask HcHalted)) (d2, l @ [Rd32 (op + 4) s0, Rd32 op c, Wr32 op c'])"
    using False by (simp add: stop_controller_def xhci_access op_def s0_def d1_def c_def c'_def d2_def)
  ultimately show ?thesis using nr
    by (intro exI [of _ d'] exI [of _ "[Rd32 (op + 4) s0, Rd32 op c, Wr32 op c'] @ map (Rd32 (op + 4)) vs"] exI [of _ v]) (auto simp: op_def)
qed

lemma reset_traced:
  assumes "xhci_controller io (xr_operational_regs r)"
  shows "\<exists>d' c cs c' ss s. reset_controller (traced io) r (d, l) =
      Some (d', l @ [Rd32 (xr_operational_regs r) c, Wr32 (xr_operational_regs r) (c OR 2)] @
        map (Rd32 (xr_operational_regs r)) (cs @ [c']) @ map (Rd32 (xr_operational_regs r + 4)) (ss @ [s])) \<and>
    \<not> flag_get (usb_cmd_mask HcReset) c' \<and> \<not> flag_get (usb_sts_mask ControllerNotReady) s"
proof -
  define op where "op = xr_operational_regs r"
  define c where "c = fst (x_read32 io op d)"
  define d1 where "d1 = x_write32 io op (c OR 2) (snd (x_read32 io op d))"
  define l1 where "l1 = l @ [Rd32 op c, Wr32 op (c OR 2)]"
  have "answers (x_read32 io op) (\<lambda>v. \<not> flag_get (usb_cmd_mask HcReset) v) d1"
    using assms by (simp add: xhci_controller_def d1_def op_def)
  from poll_traced [OF this, of l1] obtain d2 cs c' where
    p1: "poll (\<lambda>s. Some (x_read32 (traced io) op s)) (\<lambda>v. \<not> flag_get (usb_cmd_mask HcReset) v) (d1, l1) = Some (d2, l1 @ map (Rd32 op) (cs @ [c']))"
      "\<not> flag_get (usb_cmd_mask HcReset) c'" by blast
  have "answers (x_read32 io (op + 4)) (\<lambda>v. \<not> flag_get (usb_sts_mask ControllerNotReady) v) d2"
    using assms by (simp add: xhci_controller_def op_def)
  from poll_traced [OF this, of "l1 @ map (Rd32 op) (cs @ [c'])"] obtain d3 ss s where
    p2: "poll (\<lambda>s. Some (x_read32 (traced io) (op + 4) s)) (\<lambda>v. \<not> flag_get (usb_sts_mask ControllerNotReady) v) (d2, l1 @ map (Rd32 op) (cs @ [c'])) =
        Some (d3, (l1 @ map (Rd32 op) (cs @ [c'])) @ map (Rd32 (op + 4)) (ss @ [s]))"
      "\<not> flag_get (usb_sts_mask ControllerNotReady) s" by blast
  have "reset_controller (traced io) r (d, l) =
    poll (\<lambda>s. Some (x_read32 (traced io) op s)) (\<lambda>v. \<not> flag_get (usb_cmd_mask HcReset) v) (d1, l1) \<bind>
      poll (\<lambda>s. Some (x_read32 (traced io) (op + 4) s)) (\<lambda>v. \<not> flag_get (usb_sts_mask ControllerNotReady) v)"
    by (simp add: reset_controller_def xhci_access op_def c_def d1_def l1_def flag_set_def)
  then show ?thesis using p1 p2
    by (intro exI [of _ d3] exI [of _ c] exI [of _ cs] exI [of _ c'] exI [of _ ss] exI [of _ s]) (auto simp: op_def l1_def)
qed

lemma new_regs:
  assumes "xhci_registers_new io b d = Some r"
  shows "xr_base_addr r = b" "xr_capability_regs r = b" "virt_addr_add b (unat (x_cap8 io b d)) = Some (xr_operational_regs r)"
  using assms by (auto simp: xhci_registers_new_def cap_length_def cap_field_def bind_eq_Some_conv)

lemma ports_traced:
  assumes regs: "xhci_registers_new io b d0 = Some r" and cap: "\<And>a d d'. x_cap8 io a d = x_cap8 io a d' \<and> x_cap32 io a d = x_cap32 io a d'"
    and bound: "xr_operational_regs r + 0x1400 \<le> usize_bound"
    and ports: "\<forall>p \<in> set ports. 0 < p \<and> p \<le> max_ports (x_cap32 io (b + 4) d0)"
  shows "\<exists>d' vs. read_ports (traced io) r ports (d, l) =
      Some (d', l @ map2 (\<lambda>p. Rd32 (xr_operational_regs r + 0x400 + unat (p - 1) * 0x10)) ports vs) \<and> length vs = length ports"
  using ports
proof (induction ports arbitrary: d l)
  case (Cons p ports)
  define a where "a = xr_operational_regs r + 0x400 + unat (p - 1) * 0x10"
  have "unat (p - 1) < 2 ^ 8" using unsigned_less [of "p - 1", where 'a = nat] by simp
  then have "xr_operational_regs r + (0x400 + unat (p - 1) * 0x10) < usize_bound" using bound by simp
  moreover have "x_cap32 io (b + 4) d = x_cap32 io (b + 4) d0" "x_cap8 io b d = x_cap8 io b d0" using cap by blast+
  ultimately have "port_sc (traced io) p r (d, l) = Some (fst (x_read32 io a d), snd (x_read32 io a d), l @ [Rd32 a (fst (x_read32 io a d))])"
    using new_regs [OF regs] Cons.prems by (simp add: port_sc_def port_sc_addr_def cap_field_def cap_length_def a_def add.assoc)
  moreover from Cons.IH [of "snd (x_read32 io a d)" "l @ [Rd32 a (fst (x_read32 io a d))]"] Cons.prems obtain d' vs where
    "read_ports (traced io) r ports (snd (x_read32 io a d), l @ [Rd32 a (fst (x_read32 io a d))]) =
      Some (d', (l @ [Rd32 a (fst (x_read32 io a d))]) @ map2 (\<lambda>p. Rd32 (xr_operational_regs r + 0x400 + unat (p - 1) * 0x10)) ports vs)"
    "length vs = length ports" by auto
  ultimately show ?case
    by (intro exI [of _ d'] exI [of _ "fst (x_read32 io a d) # vs"]) (simp add: a_def)
qed simp

text \<open>What the driver did to the controller from the start to the end, with the operational registers at \<open>op\<close>.\<close>

definition init_trace :: "addr \<Rightarrow> u32 \<Rightarrow> u64 \<Rightarrow> u64 \<Rightarrow> xhci_event list \<Rightarrow> bool" where
  "init_trace op hcs dcbaa ring log \<longleftrightarrow> (\<exists>p s c cs c' ss s' g vs.
     log = p @ [Rd32 (op + 4) s, Rd32 op c, Wr32 op (c OR 2)] @ map (Rd32 op) (cs @ [c']) @ map (Rd32 (op + 4)) (ss @ [s']) @
       [Rd32 (op + 0x38) g, Wr32 (op + 0x38) (set_max_device_slots_enabled (max_device_slots hcs) g),
        Wr64 (op + 0x30) dcbaa, Wr64 (op + 0x18) (ring OR 1)] @
       map2 (\<lambda>i. Rd32 (op + 0x400 + i * 0x10)) [0 ..< unat (max_ports hcs)] vs \<and> length vs = unat (max_ports hcs) \<and>
     (\<forall>e \<in> set p. only_stops op e) \<and> flag_get (usb_sts_mask HcHalted) s \<and> \<not> flag_get (usb_cmd_mask HcReset) c' \<and>
     \<not> flag_get (usb_sts_mask ControllerNotReady) s')"

lemma configure_traced:
  assumes "xr_capability_regs r = b" "\<And>a d d'. x_cap32 io a d = x_cap32 io a d'"
  shows "\<exists>d' g. configure_slots (traced io) r (d, l) = Some (d', l @ [Rd32 (xr_operational_regs r + 0x38) g,
    Wr32 (xr_operational_regs r + 0x38) (set_max_device_slots_enabled (max_device_slots (x_cap32 io (b + 4) d0)) g)])"
  using assms(1) assms(2) [of "b + 4" d d0] by (simp add: configure_slots_def capability_def cap_field_def xhci_access)

lemma take_pool:
  assumes "dp_free_buffers (dm_pools_4kb dm) = fs @ [i]" "i < length (dp_buffers (dm_pools_4kb dm))"
  shows "get_pool_4kb dm = Some (Some (dp_buffers (dm_pools_4kb dm) ! i), dm\<lparr>dm_pools_4kb := dm_pools_4kb dm\<lparr>dp_free_buffers := fs\<rparr>\<rparr>)"
  using assms by (simp add: get_pool_4kb_def allocate_buffer_def)

lemma dcbaa_traced:
  assumes "xr_capability_regs r = b" "\<And>a d d'. x_cap32 io a d = x_cap32 io a d'" "max_device_slots (x_cap32 io (b + 4) d0) \<noteq> 255"
    and "dma_manager_lock (um_pool m) (um_dma m) = Some (dm, dma)" "um_dev m = (d, l)"
    and "dp_free_buffers (dm_pools_4kb dm) = fs @ [i]" "i < length (dp_buffers (dm_pools_4kb dm))"
  shows "\<exists>d'. init_dcbaa (traced io) r m = Some (m\<lparr>um_pool := Some (dm\<lparr>dm_pools_4kb := dm_pools_4kb dm\<lparr>dp_free_buffers := fs\<rparr>\<rparr>),
    um_dma := dma, um_dev := (d', l @ [Wr64 (xr_operational_regs r + 0x30) (of_nat (db_phys_addr (dp_buffers (dm_pools_4kb dm) ! i)))])\<rparr>)"
proof -
  have "unat (max_device_slots (x_cap32 io (b + 4) d0)) < 2 ^ LENGTH(8)" by (rule unsigned_less)
  moreover have "unat (max_device_slots (x_cap32 io (b + 4) d0)) \<noteq> 255" using assms(3) by (simp add: word_unat_eq_iff)
  ultimately have "unat (max_device_slots (x_cap32 io (b + 4) d)) + 1 < 2 ^ 8" using assms(2) [of "b + 4" d d0] by simp
  then show ?thesis using assms take_pool [OF assms(6,7)]
    by (simp add: init_dcbaa_def capability_def cap_field_def xhci_access) (rule exI, rule refl)
qed

lemma ring_traced:
  assumes "um_pool m = Some dm" "um_dma m = dma" "um_dev m = (d, l)"
    and "dp_free_buffers (dm_pools_4kb dm) = fs @ [j]" "j < length (dp_buffers (dm_pools_4kb dm))"
    and "buf = dp_buffers (dm_pools_4kb dm) ! j" "ring = of_nat (db_phys_addr buf)" "ring AND 0x3F = 0"
  shows "\<exists>d'. init_command_ring (traced io) r m = Some (m\<lparr>um_pool := Some (dm\<lparr>dm_pools_4kb := dm_pools_4kb dm\<lparr>dp_free_buffers := fs\<rparr>\<rparr>),
    um_dma := (fst dma, put_bytes (db_virt_addr buf + 0xFF0) (encode_trb (trb_link ring True False)) (snd dma)),
    um_dev := (d', l @ [Wr64 (xr_operational_regs r + 0x18) (ring OR 1)])\<rparr>)"
  using assms take_pool [OF assms(4,5)]
  by (simp add: init_command_ring_def dma_manager_lock_def command_ring_control_new_def flag_set_def xhci_access COMMAND_RING_SIZE_def
      TRB_SIZE_def Let_def) (rule exI, rule refl)

lemma port_list:
  fixes b :: u8
  shows "map2 (\<lambda>p. Rd32 (op + 0x400 + unat (p - 1) * 0x10)) (map of_nat [1 ..< unat b + 1] :: u8 list) vs = map2 (\<lambda>i. Rd32 (op + 0x400 + i * 0x10)) [0 ..< unat b] vs"
    and "\<forall>p \<in> set (map of_nat [1 ..< unat b + 1] :: u8 list). 0 < p \<and> p \<le> b"
proof -
  have u: "unat (of_nat n :: u8) = n" if "n \<le> unat b" for n
    using that unsigned_less [of b, where 'a = nat] by (simp add: unat_of_nat take_bit_nat_eq_self)
  have "unat (of_nat (Suc n) - 1 :: u8) = n" if "n < unat b" for n using u [of n] that by simp
  moreover have "[1 ..< unat b + 1] = map Suc [0 ..< unat b]" by (simp add: map_Suc_upt)
  ultimately show "map2 (\<lambda>p. Rd32 (op + 0x400 + unat (p - 1) * 0x10)) (map of_nat [1 ..< unat b + 1] :: u8 list) vs =
      map2 (\<lambda>i. Rd32 (op + 0x400 + i * 0x10)) [0 ..< unat b] vs"
    by (intro nth_equalityI) (simp_all del: upt_Suc of_nat_Suc)
  show "\<forall>p \<in> set (map of_nat [1 ..< unat b + 1] :: u8 list). 0 < p \<and> p \<le> b"
    using u by (force simp: word_less_nat_alt word_le_nat_alt)
qed

text \<open>Everything up to the allocation of the buffers.\<close>

lemma init_front:
  assumes "find_xhci_devices pci = Some (dev # devs)" "supports_msix dev" "first_memory_bar (pd_bars dev) = Some bar"
      "map_bar mm (um_vmm m) bar (um_paging m) = Some (Inr mb, v, k)"
    and regs: "xhci_registers_new io (mb_virtual_address mb) d = Some r"
    and ctl: "xhci_controller io (xr_operational_regs r)" and "um_dev m = (d, [])"
    and hcs: "hcs = x_cap32 io (mb_virtual_address mb + 4) d" and op: "op = xr_operational_regs r"
  shows "\<exists>d' p s c cs c' ss s' g log. log = p @ [Rd32 (op + 4) s, Rd32 op c, Wr32 op (c OR 2)] @ map (Rd32 op) (cs @ [c']) @ map (Rd32 (op + 4)) (ss @ [s']) @
       [Rd32 (op + 0x38) g, Wr32 (op + 0x38) (set_max_device_slots_enabled (max_device_slots hcs) g)] \<and>
     (\<forall>e \<in> set p. only_stops op e) \<and> flag_get (usb_sts_mask HcHalted) s \<and> \<not> flag_get (usb_cmd_mask HcReset) c' \<and>
     \<not> flag_get (usb_sts_mask ControllerNotReady) s' \<and>
     xhci_init (traced io) mm pci m = do {
         m \<leftarrow> init_dcbaa (traced io) r (m\<lparr>um_vmm := v, um_paging := k, um_dev := (d', log)\<rparr>);
         m \<leftarrow> init_command_ring (traced io) r m;
         hcs \<leftarrow> cap_field (traced io) ''hcs_params1'' (capability r) (um_dev m);
         d \<leftarrow> read_ports (traced io) r (map of_nat [1 ..< unat (max_ports hcs) + 1]) (um_dev m);
         Some (m\<lparr>um_dev := d, um_regs := Some r\<rparr>)
       }"
proof -
  have cap: "\<And>a d d'. x_cap32 io a d = x_cap32 io a d'" using ctl by (simp add: xhci_controller_def)
  from stop_traced [OF ctl, of d "[]"] obtain d1 p s where s: "stop_controller (traced io) r (d, []) = Some (d1, p @ [Rd32 (op + 4) s])"
    "flag_get (usb_sts_mask HcHalted) s" "\<forall>e \<in> set p. only_stops op e" unfolding op by auto
  define l1 where "l1 = p @ [Rd32 (op + 4) s]"
  from reset_traced [OF ctl, of d1 l1] obtain d2 c cs c' ss s' l2 where
    r: "reset_controller (traced io) r (d1, l1) = Some (d2, l2)"
      "l2 = l1 @ [Rd32 op c, Wr32 op (c OR 2)] @ map (Rd32 op) (cs @ [c']) @ map (Rd32 (op + 4)) (ss @ [s'])"
      "\<not> flag_get (usb_cmd_mask HcReset) c'" "\<not> flag_get (usb_sts_mask ControllerNotReady) s'" unfolding op by blast
  from configure_traced [OF new_regs(2) [OF regs] cap, of d2 l2 d] obtain d3 g l3 where
    g: "configure_slots (traced io) r (d2, l2) = Some (d3, l3)"
      "l3 = l2 @ [Rd32 (op + 0x38) g, Wr32 (op + 0x38) (set_max_device_slots_enabled (max_device_slots hcs) g)]" unfolding op hcs by blast
  have n: "xhci_registers_new (traced io) (mb_virtual_address mb) (d, []) = Some r"
    using regs by (simp add: xhci_registers_new_def cap_length_def cap_field_def)
  have "xhci_init (traced io) mm pci m = do {
         m \<leftarrow> init_dcbaa (traced io) r (m\<lparr>um_vmm := v, um_paging := k, um_dev := (d3, l3)\<rparr>);
         m \<leftarrow> init_command_ring (traced io) r m;
         hcs \<leftarrow> cap_field (traced io) ''hcs_params1'' (capability r) (um_dev m);
         d \<leftarrow> read_ports (traced io) r (map of_nat [1 ..< unat (max_ports hcs) + 1]) (um_dev m);
         Some (m\<lparr>um_dev := d, um_regs := Some r\<rparr>)
       }"
    unfolding xhci_init_def by (simp add: assms(1-4,7) n s(1) r(1) g(1) flip: l1_def)
  moreover have "l3 = p @ [Rd32 (op + 4) s, Rd32 op c, Wr32 op (c OR 2)] @ map (Rd32 op) (cs @ [c']) @ map (Rd32 (op + 4)) (ss @ [s']) @
       [Rd32 (op + 0x38) g, Wr32 (op + 0x38) (set_max_device_slots_enabled (max_device_slots hcs) g)]"
    by (simp add: g(2) r(2) l1_def)
  ultimately show ?thesis using s(2,3) r(3,4)
    by (intro exI [of _ d3] exI [of _ p] exI [of _ s] exI [of _ c] exI [of _ cs] exI [of _ c'] exI [of _ ss] exI [of _ s'] exI [of _ g] exI [of _ l3] conjI)
qed

text \<open>Everything from there on.\<close>

lemma init_tail:
  assumes regs: "xhci_registers_new io b d = Some r" "xr_operational_regs r + 0x1400 \<le> usize_bound"
    and ctl: "xhci_controller io (xr_operational_regs r)" and M: "um_dev m = (d1, log)"
    and hcs: "hcs = x_cap32 io (b + 4) d" "max_device_slots hcs \<noteq> 255" and op: "op = xr_operational_regs r"
    and pool: "dma_manager_lock (um_pool m) (um_dma m) = Some (dm, dma)" "dp_free_buffers (dm_pools_4kb dm) = fs @ [j, i]"
      "i < length (dp_buffers (dm_pools_4kb dm))" "j < length (dp_buffers (dm_pools_4kb dm))"
    and buf: "buf = dp_buffers (dm_pools_4kb dm) ! j" "ring = of_nat (db_phys_addr buf)" "ring AND 0x3F = 0"
  shows "\<exists>d' vs. do {
         m \<leftarrow> init_dcbaa (traced io) r m;
         m \<leftarrow> init_command_ring (traced io) r m;
         hcs \<leftarrow> cap_field (traced io) ''hcs_params1'' (capability r) (um_dev m);
         d \<leftarrow> read_ports (traced io) r (map of_nat [1 ..< unat (max_ports hcs) + 1]) (um_dev m);
         Some (m\<lparr>um_dev := d, um_regs := Some r\<rparr>)
       } = Some (m\<lparr>um_pool := Some (dm\<lparr>dm_pools_4kb := dm_pools_4kb dm\<lparr>dp_free_buffers := fs\<rparr>\<rparr>),
        um_dma := (fst dma, put_bytes (db_virt_addr buf + 0xFF0) (encode_trb (trb_link ring True False)) (snd dma)),
        um_dev := (d', log @ [Wr64 (op + 0x30) (of_nat (db_phys_addr (dp_buffers (dm_pools_4kb dm) ! i))), Wr64 (op + 0x18) (ring OR 1)] @
          map2 (\<lambda>i. Rd32 (op + 0x400 + i * 0x10)) [0 ..< unat (max_ports hcs)] vs), um_regs := Some r\<rparr>) \<and> length vs = unat (max_ports hcs)"
proof -
  have cap: "\<And>a d d'. x_cap8 io a d = x_cap8 io a d' \<and> x_cap32 io a d = x_cap32 io a d'" "\<And>a d d'. x_cap32 io a d = x_cap32 io a d'"
    using ctl by (simp_all add: xhci_controller_def)
  note cr = new_regs(2) [OF regs(1)]
  define l2 where "l2 = log @ [Wr64 (op + 0x30) (of_nat (db_phys_addr (dp_buffers (dm_pools_4kb dm) ! i)))]"
  define l3 where "l3 = l2 @ [Wr64 (op + 0x18) (ring OR 1)]"
  define dm2 where "dm2 = dm\<lparr>dm_pools_4kb := dm_pools_4kb dm\<lparr>dp_free_buffers := fs @ [j]\<rparr>\<rparr>"
  have fs1: "dp_free_buffers (dm_pools_4kb dm) = (fs @ [j]) @ [i]" using pool(2) by simp
  from dcbaa_traced [OF cr cap(2) hcs(2) [unfolded hcs(1)] pool(1) M fs1 pool(3)] obtain d2 where
    d2: "init_dcbaa (traced io) r m = Some (m\<lparr>um_pool := Some dm2, um_dma := dma, um_dev := (d2, l2)\<rparr>)" (is "_ = Some ?m2")
    unfolding op l2_def dm2_def by (elim exE)
  have "um_pool ?m2 = Some dm2" "um_dma ?m2 = dma" "um_dev ?m2 = (d2, l2)" "dp_free_buffers (dm_pools_4kb dm2) = fs @ [j]"
    "j < length (dp_buffers (dm_pools_4kb dm2))" "buf = dp_buffers (dm_pools_4kb dm2) ! j"
    using pool(4) buf(1) by (simp_all add: dm2_def)
  from ring_traced [OF this buf(2,3), of io r] obtain d3 where
    d3: "init_command_ring (traced io) r ?m2 = Some (?m2\<lparr>um_pool := Some (dm2\<lparr>dm_pools_4kb := dm_pools_4kb dm2\<lparr>dp_free_buffers := fs\<rparr>\<rparr>),
      um_dma := (fst dma, put_bytes (db_virt_addr buf + 0xFF0) (encode_trb (trb_link ring True False)) (snd dma)), um_dev := (d3, l3)\<rparr>)"
    (is "_ = Some ?m3") unfolding op l3_def by (elim exE)
  from ports_traced [OF regs(1) cap(1) regs(2), where ports = "map of_nat [1 ..< unat (max_ports hcs) + 1]" and d = d3 and l = l3]
    port_list(2) [of "max_ports hcs"]
  obtain d4 vs where d4: "read_ports (traced io) r (map of_nat [1 ..< unat (max_ports hcs) + 1]) (d3, l3) =
      Some (d4, l3 @ map2 (\<lambda>i. Rd32 (op + 0x400 + i * 0x10)) [0 ..< unat (max_ports hcs)] vs)" "length vs = unat (max_ports hcs)"
    unfolding port_list(1) op hcs(1) by auto
  have cf: "cap_field (traced io) ''hcs_params1'' (capability r) (um_dev ?m3) = Some hcs"
    using cr cap(2) [of "b + 4" d3 d] hcs(1) by (simp add: cap_field_def capability_def)
  have l: "l3 = log @ [Wr64 (op + 0x30) (of_nat (db_phys_addr (dp_buffers (dm_pools_4kb dm) ! i))), Wr64 (op + 0x18) (ring OR 1)]"
    by (simp add: l3_def l2_def)
  have du: "dm2\<lparr>dm_pools_4kb := dm_pools_4kb dm2\<lparr>dp_free_buffers := fs\<rparr>\<rparr> = dm\<lparr>dm_pools_4kb := dm_pools_4kb dm\<lparr>dp_free_buffers := fs\<rparr>\<rparr>"
    by (simp add: dm2_def)
  show ?thesis unfolding d2 bind.bind_lunit d3 cf using d4 unfolding du
    by (intro exI [of _ d4] exI [of _ vs]) (simp add: l)
qed

text \<open>
  C38: when a controller is present and answers, initialisation ends and the controller has seen exactly this: it was
  observed halted before it was reset, the only earlier writes being clearings of its run bit; the end of the reset and its
  readiness were observed before anything else was written; then the number of slots it supports was enabled,
  the context array and the command ring were installed, and every port was read.  The two buffers come from the
  pool, and the last block of the ring links back to its start.  With 255 slots it panics instead.
\<close>

theorem xhci_init_correct:
  assumes found: "find_xhci_devices pci = Some (dev # devs)" "supports_msix dev" "first_memory_bar (pd_bars dev) = Some bar"
      "map_bar mm (um_vmm m) bar (um_paging m) = Some (Inr mb, v, k)"
    and regs: "xhci_registers_new io (mb_virtual_address mb) d = Some r" "xr_operational_regs r + 0x1400 \<le> usize_bound"
    and ctl: "xhci_controller io (xr_operational_regs r)" and dev: "um_dev m = (d, [])"
    and hcs: "hcs = x_cap32 io (mb_virtual_address mb + 4) d"
    and pool: "dma_manager_lock (um_pool m) (um_dma m) = Some (dm, dma)" "dp_free_buffers (dm_pools_4kb dm) = fs @ [j, i]"
      "i < length (dp_buffers (dm_pools_4kb dm))" "j < length (dp_buffers (dm_pools_4kb dm))"
    and buf: "buf = dp_buffers (dm_pools_4kb dm) ! j" "ring = of_nat (db_phys_addr buf)" "ring AND 0x3F = 0"
  shows "case xhci_init (traced io) mm pci m of
      None \<Rightarrow> max_device_slots hcs = 255
    | Some m' \<Rightarrow> max_device_slots hcs \<noteq> 255 \<and>
        init_trace (xr_operational_regs r) hcs (of_nat (db_phys_addr (dp_buffers (dm_pools_4kb dm) ! i))) ring (snd (um_dev m')) \<and>
        um_regs m' = Some r \<and> um_vmm m' = v \<and> um_paging m' = k \<and>
        map_option (\<lambda>dm. dp_free_buffers (dm_pools_4kb dm)) (um_pool m') = Some fs \<and>
        decode_trb (get_bytes (snd (um_dma m')) (db_virt_addr buf + 0xFF0) 16) = trb_link ring True False"
proof -
  let ?op = "xr_operational_regs r"
  from init_front [OF found regs(1) ctl dev hcs refl] obtain d1 p s c cs c' ss s' g log where
    log: "log = p @ [Rd32 (?op + 4) s, Rd32 ?op c, Wr32 ?op (c OR 2)] @ map (Rd32 ?op) (cs @ [c']) @ map (Rd32 (?op + 4)) (ss @ [s']) @
       [Rd32 (?op + 0x38) g, Wr32 (?op + 0x38) (set_max_device_slots_enabled (max_device_slots hcs) g)]"
     "\<forall>e \<in> set p. only_stops ?op e" "flag_get (usb_sts_mask HcHalted) s" "\<not> flag_get (usb_cmd_mask HcReset) c'"
     "\<not> flag_get (usb_sts_mask ControllerNotReady) s'" and
    front: "xhci_init (traced io) mm pci m = do {
         m \<leftarrow> init_dcbaa (traced io) r (m\<lparr>um_vmm := v, um_paging := k, um_dev := (d1, log)\<rparr>);
         m \<leftarrow> init_command_ring (traced io) r m;
         hcs \<leftarrow> cap_field (traced io) ''hcs_params1'' (capability r) (um_dev m);
         d \<leftarrow> read_ports (traced io) r (map of_nat [1 ..< unat (max_ports hcs) + 1]) (um_dev m);
         Some (m\<lparr>um_dev := d, um_regs := Some r\<rparr>)
       }" by (elim exE conjE)
  let ?m = "m\<lparr>um_vmm := v, um_paging := k, um_dev := (d1, log)\<rparr>"
  show ?thesis
  proof (cases "max_device_slots hcs = 255")
    case True
    have "x_cap32 io (mb_virtual_address mb + 4) d1 = hcs" using ctl hcs by (simp add: xhci_controller_def)
    then have "init_dcbaa (traced io) r ?m = None"
      using new_regs(2) [OF regs(1)] True by (simp add: init_dcbaa_def cap_field_def capability_def rust_assert_def)
    then show ?thesis using front True by simp
  next
    case False
    have q: "um_dev ?m = (d1, log)" "dma_manager_lock (um_pool ?m) (um_dma ?m) = Some (dm, dma)" using pool(1) by simp_all
    from init_tail [OF regs ctl q(1) hcs False refl q(2) pool(2-4) buf] obtain d' vs log' where
      t: "xhci_init (traced io) mm pci m = Some (?m\<lparr>um_pool := Some (dm\<lparr>dm_pools_4kb := dm_pools_4kb dm\<lparr>dp_free_buffers := fs\<rparr>\<rparr>),
        um_dma := (fst dma, put_bytes (db_virt_addr buf + 0xFF0) (encode_trb (trb_link ring True False)) (snd dma)),
        um_dev := (d', log'), um_regs := Some r\<rparr>)" and vs: "length vs = unat (max_ports hcs)" and
      l: "log' = log @ [Wr64 (?op + 0x30) (of_nat (db_phys_addr (dp_buffers (dm_pools_4kb dm) ! i))), Wr64 (?op + 0x18) (ring OR 1)] @
          map2 (\<lambda>i. Rd32 (?op + 0x400 + i * 0x10)) [0 ..< unat (max_ports hcs)] vs"
      unfolding front by blast
    have "init_trace ?op hcs (of_nat (db_phys_addr (dp_buffers (dm_pools_4kb dm) ! i))) ring log'"
      unfolding init_trace_def l log(1) using log(2-5) vs
      by (intro exI [of _ p] exI [of _ s] exI [of _ c] exI [of _ cs] exI [of _ c'] exI [of _ ss] exI [of _ s'] exI [of _ g] exI [of _ vs])
        (simp only: append_assoc append_Cons append_Nil simp_thms not_False_eq_True)
    then show ?thesis using False trb_bytes(1,2) unfolding t by (simp add: get_put_same TRB_SIZE_def)
  qed
qed

section \<open>Witness\<close>

text \<open>A controller with 8 slots and one port whose state is whether it runs; its operational registers follow 32 bytes of capabilities.\<close>

definition demo_xhci :: "bool xhci_io" where
  "demo_xhci = \<lparr>
     x_cap8 = (\<lambda>a d. 0x20), x_cap32 = (\<lambda>a d. if a mod 0x1000 = 4 then 0x01000108 else 0x800),
     x_read32 = (\<lambda>a d. (if a mod 0x1000 = 0x20 then (if d then 1 else 0) else if a mod 0x1000 = 0x24 then (if d then 0 else 1) else 0, d)),
     x_read64 = (\<lambda>a d. (0, d)),
     x_write32 = (\<lambda>a v d. if a mod 0x1000 = 0x20 then flag_get (usb_cmd_mask RunStop) v else d),
     x_write64 = (\<lambda>a v d. d)\<rparr>"

definition demo_usb :: "((addr \<rightharpoonup> addr) \<times> addr, bool \<times> xhci_event list) usb_machine" where
  "demo_usb = \<lparr>um_vmm = vmm_new, um_paging = (Map.empty, 0),
     um_pool = Some \<lparr>dm_pools_4kb = \<lparr>dp_buffers = [\<lparr>db_phys_addr = 0x1000, db_virt_addr = 0x1000, db_size = 1\<rparr>,
       \<lparr>db_phys_addr = 0x2000, db_virt_addr = 0x2000, db_size = 1\<rparr>], dp_free_buffers = [0, 1], dp_buffer_size = 1\<rparr>\<rparr>,
     um_dma = (None, \<lambda>_. 0), um_dev = (True, []), um_regs = None\<rparr>"

lemma demo_xhci_ok:
  assumes "op mod 0x1000 = 0x20"
  shows "xhci_controller demo_xhci op"
proof -
  have a: "(op + 4) mod 0x1000 = 0x24" using assms mod_add_left_eq [of op "0x1000" 4] by simp
  show ?thesis unfolding xhci_controller_def
    by (intro conjI allI impI answers_now) (use assms a in \<open>simp_all add: demo_xhci_def flag_get_def\<close>)
qed

theorem xhci_init_correct_witness:
  "\<exists>m'. xhci_init (traced demo_xhci) bump_mm (Some (pci_manager_new\<lparr>pm_devices := [demo_device\<lparr>pd_prog_if := 0x30\<rparr>]\<rparr>)) demo_usb = Some m' \<and>
     (\<exists>r. um_regs m' = Some r \<and> init_trace (xr_operational_regs r) 0x01000108 0x2000 0x1000 (snd (um_dev m')))"
proof -
  from demo_map_bar obtain st v k where mb: "map_bar bump_mm vmm_new \<lparr>bar_address = 0xFEBC0000, bar_size = 8192, bar_prefetchable = False, bar_is_64bit = False\<rparr> (Map.empty, 0) =
     Some (Inr \<lparr>mb_virtual_address = page_addr st, mb_physical_address = 0xFEBC0000, mb_size = 8192, mb_prefetchable = False\<rparr>, v, k)" "st < PCIE_VMM_PAGES"
    by (elim exE conjE)
  let ?mb = "\<lparr>mb_virtual_address = page_addr st, mb_physical_address = 0xFEBC0000, mb_size = 8192, mb_prefetchable = False\<rparr>"
  let ?r = "\<lparr>xr_base_addr = page_addr st, xr_capability_regs = page_addr st, xr_operational_regs = page_addr st + 0x20,
    xr_runtime_regs = page_addr st + 0x800, xr_doorbell_base = page_addr st + 0x800\<rparr>"
  have al: "(page_addr st + 0x20) mod 0x1000 = 0x20" "(page_addr st + 4) mod 0x1000 = 4" "(page_addr st + 0x14) mod 0x1000 = 0x14"
    "(page_addr st + 0x18) mod 0x1000 = 0x18" by (simp_all add: page_addr_def PCIE_VMM_START_def mod_simps)
  have bd: "page_addr st + 0x2000 \<le> usize_bound" "0xFFFFFA0000000000 \<le> page_addr st"
    using mb(2) by (simp_all add: page_addr_def PCIE_VMM_START_def vmm_consts usize_bound_def)
  have regs: "xhci_registers_new demo_xhci (mb_virtual_address ?mb) True = Some ?r"
    using al bd by (simp add: xhci_registers_new_def cap_length_def cap_field_def demo_xhci_def virt_addr_add_def virt_addr_new_def usize_bound_def Let_def)
  have hcs: "0x01000108 = x_cap32 demo_xhci (mb_virtual_address ?mb + 4) True" using al by (simp add: demo_xhci_def)
  have f: "find_xhci_devices (Some (pci_manager_new\<lparr>pm_devices := [demo_device\<lparr>pd_prog_if := 0x30\<rparr>]\<rparr>)) = Some (demo_device\<lparr>pd_prog_if := 0x30\<rparr> # [])"
    "supports_msix (demo_device\<lparr>pd_prog_if := 0x30\<rparr>)" "first_memory_bar (pd_bars (demo_device\<lparr>pd_prog_if := 0x30\<rparr>)) =
      Some \<lparr>bar_address = 0xFEBC0000, bar_size = 8192, bar_prefetchable = False, bar_is_64bit = False\<rparr>"
    by (simp_all add: find_xhci_devices_def pci_manager_new_def demo_device_def supports_msix_def first_memory_bar_def)
  let ?dm = "the (um_pool demo_usb)"
  have "case xhci_init (traced demo_xhci) bump_mm (Some (pci_manager_new\<lparr>pm_devices := [demo_device\<lparr>pd_prog_if := 0x30\<rparr>]\<rparr>)) demo_usb of
      None \<Rightarrow> max_device_slots 0x01000108 = 255
    | Some m' \<Rightarrow> max_device_slots 0x01000108 \<noteq> 255 \<and>
        init_trace (xr_operational_regs ?r) 0x01000108 (of_nat (db_phys_addr (dp_buffers (dm_pools_4kb ?dm) ! 1))) 0x1000 (snd (um_dev m')) \<and>
        um_regs m' = Some ?r \<and> um_vmm m' = v \<and> um_paging m' = k \<and>
        map_option (\<lambda>dm. dp_free_buffers (dm_pools_4kb dm)) (um_pool m') = Some [] \<and>
        decode_trb (get_bytes (snd (um_dma m')) (db_virt_addr (dp_buffers (dm_pools_4kb ?dm) ! 0) + 0xFF0) 16) = trb_link 0x1000 True False"
    by (rule xhci_init_correct [OF f _ regs _ _ _ hcs, where dma = "um_dma demo_usb" and j = 0])
       (use bd mb(1) demo_xhci_ok [OF al(1)] in \<open>simp_all add: demo_usb_def dma_manager_lock_def\<close>)
  then show ?thesis by (auto simp: demo_usb_def max_device_slots_def split: option.splits)
qed

end
