(* ===== verification/Spec2Isabelle.thy ===== *)
theory Spec2Isabelle
  imports BuddyAlloc Forest_Props Scheduler Vmm Syscall Keyboard Nvme_Controller Xhci
begin

text \<open>
  A verification of the locOS kernel (\<^verbatim>\<open>kernel/src\<close>), a Rust kernel for x86-64 that boots through Limine.

  \<^bold>\<open>The program and its parts.\<close>  At boot the kernel divides the usable memory into frame allocators (\<^verbatim>\<open>memory/paging.rs\<close>), maps
  and manages a heap and ranges of virtual pages (\<^verbatim>\<open>memory/alloc.rs\<close>), both over free lists (\<^verbatim>\<open>memory/freelist.rs\<close>), sets up system calls
  (\<^verbatim>\<open>syscall.rs\<close>) and the keyboard (\<^verbatim>\<open>ps2.rs\<close>, \<^verbatim>\<open>ps2/keyboard.rs\<close>), scans the PCIe buses (\<^verbatim>\<open>pci.rs\<close>, \<^verbatim>\<open>pci/mcfg.rs\<close>, \<^verbatim>\<open>pci/device.rs\<close>), and starts
  its tasks (\<^verbatim>\<open>tasks/scheduler.rs\<close>), whose stacks come from \<^verbatim>\<open>tasks/kernelslab.rs\<close>.  The drivers for NVMe disks (\<^verbatim>\<open>pci/nvme\<close>) and xHCI USB
  controllers (\<^verbatim>\<open>pci/usb\<close>) map the registers of a device with \<^verbatim>\<open>pci/vmm.rs\<close>, program its interrupts with \<^verbatim>\<open>pci/msi.rs\<close> and
  share memory with it from \<^verbatim>\<open>pci/dma.rs\<close>, which takes it from the frame allocator.

  \<^bold>\<open>How the code is modelled.\<close>  A function that can panic is a function into \<open>'a rust\<close>, with \<open>None\<close> for the panic (theory
  \<open>Prelude\<close>); a \<^verbatim>\<open>Result\<close> is a sum whose left side is the error, a \<^verbatim>\<open>Result<(), E>\<close> an optional error.  Structures are records, and
  mutable state is passed and returned; a global that is guarded by a lock is an argument.  Addresses and counts are natural numbers
  with the checks of overflow written out, since the kernel is built with the \<^verbatim>\<open>dev\<close> profile; registers and packed fields
  are words of their width.  The crate has no default features, so the log macros expand to nothing and their arguments are not evaluated.
  What is not in the sources is a parameter with the behaviour that the code relies on as a named predicate, and an instance of each is
  used in the witnesses: page tables of the \<^verbatim>\<open>x86_64\<close> crate (\<open>mm\<close> with \<open>mapper_spec\<close>, \<open>machine\<close>), ACPI tables (the entries that
  \<open>parse_mcfg_table\<close> is given), and the hardware (\<open>cfg_io\<close>, \<open>ps2_ports\<close>, \<open>xhci_io\<close>, \<open>nvme_env\<close> with \<open>nvme_disk\<close>).

  \<^bold>\<open>The theories.\<close>

  \<^item> \<open>Prelude\<close>: machine integers, checked arithmetic, \<^verbatim>\<open>Vec\<close> access, shared lemmas.  \<open>Layout\<close>: bytes of memory and \<^verbatim>\<open>repr(C)\<close> layouts.
    \<open>Mapper\<close>: the page-table interface and the loops that map and unmap page ranges.
  \<^item> \<open>FreeList\<close>, \<open>DoubleFreeList\<close> (\<^verbatim>\<open>memory/freelist.rs\<close>): linked lists in memory; each operation acts on the sequence of nodes as expected, and
    the loops end on every well-formed list.
  \<^item> \<open>Buddy_Spec\<close>, \<open>Buddy_Interface\<close>: what a buddy allocator promises (the blocks tile the region; \<open>coalesced\<close> if no two buddies are free), and
    the locales \<open>free_store\<close> and \<open>buddy_allocator\<close> that prove it once for splitting and merging over any store of free blocks.  They are
    interpreted three times, in the next three theories.
  \<^item> \<open>BuddyAlloc\<close> (\<^verbatim>\<open>BuddyAlloc\<close> and its \<^verbatim>\<open>GlobalAlloc\<close>, \<^verbatim>\<open>memory/alloc.rs\<close>): allocation gives a fresh, aligned, large enough block or there is
    none; deallocation undoes it; clients cannot damage the free lists by writing to their blocks.
  \<^item> \<open>PageAllocator\<close> (\<^verbatim>\<open>PageAllocator\<close>, \<^verbatim>\<open>init_page_allocator\<close>): the same for ranges of virtual pages, which are mapped and unmapped on the way.
  \<^item> \<open>FrameAllocator\<close>, \<open>Forest\<close>, \<open>Forest_Props\<close> (\<^verbatim>\<open>memory/paging.rs\<close>): one allocator of frames, the division of a memory map into
    allocators, and allocation through all of them; runs never overlap as long as the allocators of a region cannot reach each other's
    descriptors, and a memory map in which they can is shown to give one frame out twice.
  \<^item> \<open>KernelSlab\<close> (\<^verbatim>\<open>tasks/kernelslab.rs\<close>): the 128 kernel stacks, with guard pages, and user stacks.
  \<^item> \<open>Scheduler\<close> (\<^verbatim>\<open>tasks/scheduler.rs\<close>, the page-fault handler of \<^verbatim>\<open>interrupts/idt.rs\<close>): tasks, their page tables and stacks, and the switch,
    from the pushes of the interrupt entry to the pops of its exit; \<open>kernel_step\<close> is the step relation over which the invariant is proved.
  \<^item> \<open>Syscall\<close> (\<^verbatim>\<open>syscall.rs\<close>, the table of \<^verbatim>\<open>gdt.rs\<close>): entry, dispatch, exit, \<^verbatim>\<open>sys_write\<close> with its UTF-8 check.
  \<^item> \<open>Ps2\<close>, \<open>Keyboard\<close> (\<^verbatim>\<open>ps2.rs\<close>, \<^verbatim>\<open>ps2/keyboard.rs\<close>): the controller, scan codes, modifiers and the event buffer.
  \<^item> \<open>Vmm\<close> (\<^verbatim>\<open>pci/vmm.rs\<close>): the bitmap of virtual pages for device registers, mapping and unmapping of BARs.
  \<^item> \<open>Ecam\<close> (\<^verbatim>\<open>pci/mcfg.rs\<close>), \<open>Pci_Device\<close> (\<^verbatim>\<open>pci/device.rs\<close>, the scan of \<^verbatim>\<open>pci.rs\<close>), \<open>Pci_Enum\<close>, \<open>Pci\<close> (\<^verbatim>\<open>pci.rs\<close>): configuration space,
    the header, BARs and capabilities of a function, and the scan, which finds exactly the functions that respond.
  \<^item> \<open>Msi\<close> (\<^verbatim>\<open>pci/msi.rs\<close>, \<^verbatim>\<open>pci/config.rs\<close>): the MSI-X table and pending bits of a device.
  \<^item> \<open>Dma\<close> (\<^verbatim>\<open>pci/dma.rs\<close>): buffers and pools from the forest of frame allocators.
  \<^item> \<open>Nvme_Commands\<close> (\<^verbatim>\<open>pci/nvme/commands.rs\<close>, \<^verbatim>\<open>registers.rs\<close>), \<open>Nvme_Queue\<close>, \<open>Nvme_Controller\<close> (\<^verbatim>\<open>pci/nvme/controller.rs\<close>): formats, rings (the
    locale \<open>completion_ring\<close>), start-up, and reading and writing blocks; what is written to a disk is what is read back.
  \<^item> \<open>Xhci_Registers\<close>, \<open>Xhci_Trb\<close>, \<open>Xhci\<close> (\<^verbatim>\<open>pci/usb\<close>): register bits (the locale \<open>flag_register\<close>, interpreted for every register type), request
    blocks, and the start-up of a controller, in the order that its specification asks for.
  \<^item> This theory: the mapping of the heap at boot, where the page tables and the heap meet.

  \<^bold>\<open>Loops, bounds and fuel.\<close>  Loops over lists and counters are structural recursions.  Loops that may run for ever are partial functions into
  \<open>option\<close>, with \<open>None\<close> for not returning: walking a linked list (shown to end on well-formed lists), the powers of two and the division of
  a region (shown to end), waiting for a device (\<^verbatim>\<open>ps2.rs\<close>, \<^verbatim>\<open>pci/usb/xhci.rs\<close>: ends when the device answers), and the walk of a capability
  list (ends exactly when the list does).  No fuel is used; the two bounded waits of the NVMe driver have the bound of the source, 100000
  rounds, as their argument.

  \<^bold>\<open>Not modelled.\<close>  \<^verbatim>\<open>interrupts/apic.rs\<close>, \<^verbatim>\<open>interrupts/pic.rs\<close>, the loading of the tables in \<^verbatim>\<open>gdt.rs\<close> and \<^verbatim>\<open>interrupts/idt.rs\<close>, and \<^verbatim>\<open>paging::init\<close>:
  fixed sequences of calls to the \<^verbatim>\<open>x2apic\<close>, \<^verbatim>\<open>acpi\<close> and \<^verbatim>\<open>x86_64\<close> crates and of port writes, with no state of their own.
  \<^verbatim>\<open>main.rs\<close> calls the initialisers in order.  \<^verbatim>\<open>output\<close>, \<^verbatim>\<open>serial.rs\<close>, \<^verbatim>\<open>meta.rs\<close>, \<^verbatim>\<open>shell\<close>: text output through the \<^verbatim>\<open>flanterm\<close> and
  \<^verbatim>\<open>uart_16550\<close> crates; \<^verbatim>\<open>sys_write\<close> sees them as a log of bytes.  Tests, formatting of debug output and \<^verbatim>\<open>Default\<close> instances that call
  \<^verbatim>\<open>new\<close>.  Interleaving is modelled at the points where the code gives up control, which are the switch of tasks and \<^verbatim>\<open>kyield_task\<close>; locks
  are taken to be free, so deadlocks (such as a handler that needs a lock its task holds) are outside the model.  The compiler
  may merge the non-volatile register loads of the NVMe driver; the model performs each.
\<close>

section \<open>The heap at boot\<close>

text \<open>\<^verbatim>\<open>init_heap\<close> of \<^verbatim>\<open>memory/alloc.rs\<close>; the pages of the range are \<^verbatim>\<open>HEAP_START\<close> up to the page of the last byte.\<close>

definition init_heap :: "'k mm \<Rightarrow> 'k \<Rightarrow> (map_error option \<times> 'k) rust" where
  "init_heap mm k = map_pages_loop mm kernel_rw (step_range HEAP_START (HEAP_START + HEAP_SIZE) 4096) k"

text \<open>If it succeeds, every byte of the heap is in a mapped page, and no page outside of the heap has changed; it never panics.\<close>

lemma init_heap_ok:
  assumes "mapper_spec mm xlate"
  shows "\<exists>r k'. init_heap mm k = Some (r, k') \<and>
    (r = None \<longrightarrow> (\<forall>a \<in> {HEAP_START ..< HEAP_START + HEAP_SIZE}. xlate k' (a div 4096 * 4096) \<noteq> None)) \<and>
    (\<forall>p. p \<notin> {HEAP_START ..< HEAP_START + HEAP_SIZE} \<longrightarrow> xlate k' p = xlate k p)"
proof -
  let ?ps = "step_range HEAP_START (HEAP_START + HEAP_SIZE) 4096"
  have ps: "?ps = map (\<lambda>i. HEAP_START + i * 4096) [0 ..< 4096]"
    using step_range_mult [of 4096 HEAP_START 4096] by (simp add: HEAP_SIZE_def)
  have page: "a div 4096 * 4096 \<in> set ?ps" if "a \<in> {HEAP_START ..< HEAP_START + HEAP_SIZE}" for a
  proof -
    have "a div 4096 * 4096 = HEAP_START + (a div 4096 - HEAP_START div 4096) * 4096" "a div 4096 - HEAP_START div 4096 < 4096"
      using that by (auto simp: HEAP_START_def HEAP_SIZE_def)
    then show ?thesis unfolding ps by auto
  qed
  have sub: "set ?ps \<subseteq> {HEAP_START ..< HEAP_START + HEAP_SIZE}" unfolding ps by (auto simp: HEAP_SIZE_def)
  have "distinct ?ps" by (rule step_range_distinct) simp
  from map_pages_loop_ok [OF assms this, of kernel_rw k] obtain r k' where "init_heap mm k = Some (r, k')"
    "\<forall>q. q \<notin> set ?ps \<longrightarrow> xlate k' q = xlate k q" "r = None \<longrightarrow> (\<forall>q \<in> set ?ps. xlate k q = None \<and> xlate k' q \<noteq> None)"
    unfolding init_heap_def by blast
  then show ?thesis using page sub by (intro exI [of _ r] exI [of _ k']) blast
qed

end
